(* ===== verification/Prelude.thy ===== *)
theory Prelude
  imports Main "HOL-Library.Word" "HOL-Library.List_Lexorder"
begin

text \<open>
  Shared vocabulary of the development.

  \<^item> Machine integers are words of the width the source declares; a C++ \<open>std::string\<close>,
    \<open>std::string_view\<close> or \<open>std::vector<std::byte>\<close> is a list of 8-bit words, ordered
    lexicographically on unsigned bytes as \<open>std::string::compare\<close> orders it.
  \<^item> A thrown exception is the left injection of a sum (\<open>error\<close>); the constructor is the
    C++ exception class and its argument the message.
  \<^item> A \<open>std::map\<close> is an association list in strictly ascending key order.
  \<^item> \<open>le_bytes\<close> and \<open>le_value\<close> are the little-endian loops which every on-disk and
    wire format of the program shares.
\<close>

unbundle bit_operations_syntax

section \<open>Types\<close>

type_synonym byte = "8 word"
type_synonym u16 = "16 word"
type_synonym u32 = "32 word"
type_synonym u64 = "64 word"
type_synonym bytes = "byte list"

definition str :: "string \<Rightarrow> bytes" where
  "str s = map of_char s"

lemma length_str [simp]: "length (str s) = length s"
  by (simp add: str_def)

section \<open>Exceptions as values\<close>

datatype error =
    InvalidArgument string
  | LengthError string
  | LogicError string
  | OverflowError string
  | RuntimeError string
  | SystemError string
  | SSTableCorruptionError u64 string

type_synonym 'a result = "error + 'a"

fun bind_result :: "'a result \<Rightarrow> ('a \<Rightarrow> 'b result) \<Rightarrow> 'b result" where
  "bind_result (Inl e) f = Inl e"
| "bind_result (Inr x) f = f x"

definition throw_if :: "bool \<Rightarrow> error \<Rightarrow> unit result" where
  "throw_if c e = (if c then Inl e else Inr ())"

named_theorems result_simps \<open>inversion of the error monad\<close>

lemma bind_result_Inr_iff [result_simps]:
  "bind_result m f = Inr y \<longleftrightarrow> (\<exists>x. m = Inr x \<and> f x = Inr y)"
  by (cases m) auto

lemma bind_result_Inl_iff [result_simps]:
  "bind_result m f = Inl e \<longleftrightarrow> m = Inl e \<or> (\<exists>x. m = Inr x \<and> f x = Inl e)"
  by (cases m) auto

lemma throw_if_Inr_iff [result_simps]: "throw_if c e = Inr u \<longleftrightarrow> \<not> c"
  by (simp add: throw_if_def)

lemma throw_if_Inl_iff [result_simps]: "throw_if c e = Inl e' \<longleftrightarrow> c \<and> e' = e"
  by (auto simp: throw_if_def)

lemma bind_throw_if [simp]:
  "bind_result (throw_if c e) f = (if c then Inl e else f ())"
  by (simp add: throw_if_def)

lemma bind_result_assoc:
  "bind_result (bind_result m f) g = bind_result m (\<lambda>x. bind_result (f x) g)"
  by (cases m) auto

lemma bind_result_cong [fundef_cong]:
  assumes "m = m'" and "\<And>x. m' = Inr x \<Longrightarrow> f x = f' x"
  shows "bind_result m f = bind_result m' f'"
  using assms by (cases m') auto

text \<open>Operations that may throw after having changed the state: the exception travels with the state
  it left behind.\<close>

type_synonym ('s, 'a) effect = "'s \<Rightarrow> 'a result \<times> 's"

definition bind_effect :: "('s, 'a) effect \<Rightarrow> ('a \<Rightarrow> ('s, 'b) effect) \<Rightarrow> ('s, 'b) effect" where
  "bind_effect m f s = (case m s of (Inl e, s') \<Rightarrow> (Inl e, s') | (Inr x, s') \<Rightarrow> f x s')"

definition lift_result :: "'a result \<Rightarrow> ('s, 'a) effect" where
  "lift_result r s = (r, s)"

lemma bind_effect_simps [simp]:
  "m s = (Inl e, s') \<Longrightarrow> bind_effect m f s = (Inl e, s')"
  "m s = (Inr x, s') \<Longrightarrow> bind_effect m f s = f x s'"
  by (simp_all add: bind_effect_def)

lemma bind_effect_case: "m s = (r, s') \<Longrightarrow> bind_effect m f s = (case r of Inl e \<Rightarrow> (Inl e, s') | Inr x \<Rightarrow> f x s')"
  by (cases r) (simp_all add: bind_effect_def)

lemma bind_effect_Inr_iff [result_simps]:
  "bind_effect m f s = (Inr y, s'') \<longleftrightarrow> (\<exists>x s'. m s = (Inr x, s') \<and> f x s' = (Inr y, s''))"
  by (auto simp: bind_effect_def split: prod.splits sum.splits)

lemma lift_result_simps [simp]:
  "lift_result (Inl e) s = (Inl e, s)"
  "lift_result (Inr x) s = (Inr x, s)"
  by (simp_all add: lift_result_def)

lemma lift_result_Inr_iff [result_simps]: "lift_result r s = (Inr x, s') \<longleftrightarrow> r = Inr x \<and> s' = s"
  by (auto simp: lift_result_def)

section \<open>Decimal numbers\<close>

fun dec_digits :: "nat \<Rightarrow> string" where
  "dec_digits n = (if n < 10 then [char_of (48 + n)] else dec_digits (n div 10) @ [char_of (48 + n mod 10)])"

declare dec_digits.simps [simp del]

section \<open>Spans\<close>

definition subspan :: "nat \<Rightarrow> nat \<Rightarrow> 'a list \<Rightarrow> 'a list" where
  "subspan off n xs = take n (drop off xs)"

lemma length_subspan [simp]: "off + n \<le> length xs \<Longrightarrow> length (subspan off n xs) = n"
  by (simp add: subspan_def)

lemma subspan_append1 [simp]:
  "off + n \<le> length xs \<Longrightarrow> subspan off n (xs @ ys) = subspan off n xs"
  by (simp add: subspan_def)

lemma subspan_append2 [simp]:
  "length xs \<le> off \<Longrightarrow> subspan off n (xs @ ys) = subspan (off - length xs) n ys"
  by (simp add: subspan_def)

lemma subspan_whole [simp]: "length xs \<le> n \<Longrightarrow> subspan 0 n xs = xs"
  by (simp add: subspan_def)

lemma subspan_middle: "subspan (length xs) (length ys) (xs @ ys @ zs) = ys"
  by (simp add: subspan_def)

section \<open>Little-endian integers\<close>

definition le_bytes :: "nat \<Rightarrow> 'a::len word \<Rightarrow> bytes" where
  "le_bytes k v = map (\<lambda>i. ucast (drop_bit (8 * i) v AND 0xFF)) [0..<k]"

definition le_value :: "nat \<Rightarrow> bytes \<Rightarrow> 'a::len word" where
  "le_value k bs = foldl (\<lambda>value i. value OR push_bit (8 * i) (ucast (bs ! i))) 0 [0..<k]"

lemma length_le_bytes [simp]: "length (le_bytes k v) = k"
  by (simp add: le_bytes_def)

lemma le_value_Suc: "le_value (Suc k) bs = le_value k bs OR push_bit (8 * k) (ucast (bs ! k))"
  by (simp add: le_value_def)

lemma bit_le_value:
  "bit (le_value k bs :: 'a::len word) n \<longleftrightarrow>
     n < LENGTH('a) \<and> n div 8 < k \<and> bit (bs ! (n div 8)) (n mod 8)"
proof (induction k)
  case 0
  then show ?case by (simp add: le_value_def)
next
  case (Suc k)
  have "bit (push_bit (8 * k) (ucast (bs ! k)) :: 'a word) n \<longleftrightarrow>
      n < LENGTH('a) \<and> n div 8 = k \<and> bit (bs ! k) (n mod 8)"
  proof (cases "8 * k \<le> n \<and> n < 8 * k + 8")
    case True
    then have "n div 8 = k" by auto
    moreover from this have "n - 8 * k = n mod 8" by (simp add: minus_div_mult_eq_mod mult.commute flip: minus_mult_div_eq_mod)
    ultimately
    show ?thesis using True by (auto simp: bit_simps)
  next
    case False
    have "\<not> bit (bs ! k) (n - 8 * k)" if "8 * k \<le> n" 
      using False that bit_imp_le_length [of "bs ! k" "n - 8 * k"] by auto
    moreover have "n div 8 \<noteq> k" using False by auto
    ultimately show ?thesis by (auto simp: bit_simps)
  qed
  with Suc show ?case by (auto simp: le_value_Suc bit_or_iff less_Suc_eq)
qed

lemma bit_nth_le_bytes:
  fixes v :: "'a::len word"
  assumes "i < k"
  shows "bit (le_bytes k v ! i) n \<longleftrightarrow> n < 8 \<and> bit v (8 * i + n)"
proof -
  have "drop_bit (8 * i) v AND 0xFF = take_bit 8 (drop_bit (8 * i) v)"
    by (simp add: take_bit_eq_mask mask_eq_exp_minus_1)
  with assms show ?thesis
    by (auto simp: le_bytes_def bit_simps dest: bit_imp_le_length)
qed

lemma le_value_append [simp]: "k \<le> length bs \<Longrightarrow> le_value k (bs @ cs) = le_value k bs"
  by (rule bit_word_eqI) (auto simp: bit_le_value nth_append)

lemma le_value_take [simp]: "k \<le> n \<Longrightarrow> le_value k (take n bs) = le_value k bs"
  by (rule bit_word_eqI) (auto simp: bit_le_value)

lemma le_value_le_bytes:
  fixes v :: "'a::len word"
  assumes "LENGTH('a) \<le> 8 * k"
  shows "le_value k (le_bytes k v) = v"
proof (rule bit_word_eqI)
  fix n assume n: "n < LENGTH('a)"
  with assms have "n div 8 < k" by auto
  moreover have "8 * (n div 8) + n mod 8 = n" by simp
  ultimately show "bit (le_value k (le_bytes k v) :: 'a word) n \<longleftrightarrow> bit v n"
    using n by (auto simp: bit_le_value bit_nth_le_bytes)
qed

lemma le_bytes_eq_iff:
  fixes v w :: "'a::len word"
  assumes "LENGTH('a) \<le> 8 * k"
  shows "le_bytes k v = le_bytes k w \<longleftrightarrow> v = w"
  by (metis assms le_value_le_bytes)

lemma le_bytes_le_value:
  assumes "length bs = k" and "8 * k \<le> LENGTH('a::len)"
  shows "le_bytes k (le_value k bs :: 'a word) = bs"
proof (rule nth_equalityI)
  show "length (le_bytes k (le_value k bs :: 'a word)) = length bs" by (simp add: assms)
next
  fix i assume "i < length (le_bytes k (le_value k bs :: 'a word))"
  then have i: "i < k" by simp
  show "le_bytes k (le_value k bs :: 'a word) ! i = bs ! i"
  proof (rule bit_word_eqI)
    fix n assume "n < LENGTH(8)"
    then have n: "n < 8" by simp
    then have "8 * i + n < LENGTH('a)" "(8 * i + n) div 8 = i" "(8 * i + n) mod 8 = n"
      using i assms(2) by auto
    then show "bit (le_bytes k (le_value k bs :: 'a word) ! i) n \<longleftrightarrow> bit (bs ! i) n"
      using i n by (auto simp: bit_nth_le_bytes bit_le_value)
  qed
qed


lemma le_value_le_bytes_append [simp]:
  fixes v :: "'a::len word"
  assumes "LENGTH('a) \<le> 8 * k"
  shows "le_value k (le_bytes k v @ bs) = v"
  using assms by (simp add: le_value_le_bytes)

section \<open>Counters\<close>

lemma word_less_inc:
  fixes x :: "'a::len word"
  shows "x \<noteq> - 1 \<Longrightarrow> x < x + 1"
  by (metis inc_less_eq_self_iff_eq not_le)

lemma word_inc_nonzero:
  fixes x :: "'a::len word"
  shows "x \<noteq> - 1 \<Longrightarrow> x + 1 \<noteq> 0"
  by (metis add_eq_0_iff2)

lemma unat_inc:
  fixes x :: "'a::len word"
  shows "x \<noteq> - 1 \<Longrightarrow> unat (x + 1) = Suc (unat x)"
  by (metis add.commute plus_1_eq_Suc unat_1 unat_add_lem unatSuc word_inc_nonzero)

lemma word_remaining_Suc:
  fixes x :: "'a::len word"
  assumes "x \<noteq> - 1"
  shows "unat (- 1 - x) = Suc (unat (- 1 - (x + 1)))"
proof -
  define z where "z = - 1 - (x + 1)"
  have "z + 1 = - 1 - x" by (simp add: z_def)
  moreover from this assms have "z + 1 \<noteq> 0" by (metis eq_iff_diff_eq_0)
  then have "z \<noteq> - 1" by (metis add.left_inverse)
  then have "unat (z + 1) = Suc (unat z)" by (rule unat_inc)
  ultimately show ?thesis by (simp only: z_def)
qed

text \<open>How a size counter moves when one key of a finite map changes.\<close>

lemma of_nat_card_dom_upd:
  fixes f :: "'k \<rightharpoonup> 'v"
  assumes "finite (dom f)"
  shows "(of_nat (card (dom (f(k := y)))) :: 'a::ring_1) = of_nat (card (dom f))
    + (if y \<noteq> None \<and> f k = None then 1 else 0) - (if y = None \<and> f k \<noteq> None then 1 else 0)"
proof (cases y)
  case None
  have dom: "dom (f(k := y)) = dom f - {k}" using None by simp
  show ?thesis
  proof (cases "f k")
    case fk: None
    then have "dom f - {k} = dom f" by (simp add: domIff)
    then show ?thesis by (simp only: dom None fk) simp
  next
    case fk: (Some v)
    then have "k \<in> dom f" by (simp add: domIff)
    with assms have "card (dom f) = Suc (card (dom f - {k}))" by (rule card.remove)
    then show ?thesis by (simp only: dom None fk) simp
  qed
next
  case (Some v)
  have dom: "dom (f(k := y)) = insert k (dom f)" using Some by simp
  show ?thesis
  proof (cases "f k")
    case fk: None
    then have "k \<notin> dom f" by (simp add: domIff)
    with assms have "card (insert k (dom f)) = Suc (card (dom f))" by (rule card_insert_disjoint)
    then show ?thesis by (simp only: dom Some fk) simp
  next
    case fk: (Some w)
    then have "insert k (dom f) = dom f" by (simp add: domIff insert_absorb)
    then show ?thesis by (simp only: dom Some fk) simp
  qed
qed

section \<open>Ordered maps\<close>

definition sorted_map :: "('k::linorder \<times> 'v) list \<Rightarrow> bool" where
  "sorted_map m \<longleftrightarrow> sorted_wrt (<) (map fst m)"

fun map_insert_or_assign :: "'k::linorder \<Rightarrow> 'v \<Rightarrow> ('k \<times> 'v) list \<Rightarrow> ('k \<times> 'v) list" where
  "map_insert_or_assign k v [] = [(k, v)]"
| "map_insert_or_assign k v ((k', v') # m) =
     (if k < k' then (k, v) # (k', v') # m
      else if k = k' then (k, v) # m
      else (k', v') # map_insert_or_assign k v m)"

definition map_erase :: "'k \<Rightarrow> ('k \<times> 'v) list \<Rightarrow> ('k \<times> 'v) list" where
  "map_erase k m = filter (\<lambda>kv. fst kv \<noteq> k) m"

lemma sorted_map_Nil [simp]: "sorted_map []"
  by (simp add: sorted_map_def)

lemma sorted_map_Cons:
  "sorted_map (kv # m) \<longleftrightarrow> (\<forall>kv'\<in>set m. fst kv < fst kv') \<and> sorted_map m"
  by (simp add: sorted_map_def)

lemma sorted_map_append:
  "sorted_map (m @ n) \<longleftrightarrow>
     sorted_map m \<and> sorted_map n \<and> (\<forall>a\<in>set m. \<forall>b\<in>set n. fst a < fst b)"
  by (auto simp: sorted_map_def sorted_wrt_append)

lemma sorted_map_filter: "sorted_map m \<Longrightarrow> sorted_map (filter P m)"
  by (induction m) (auto simp: sorted_map_Cons)

lemma sorted_map_distinct: "sorted_map m \<Longrightarrow> distinct (map fst m)"
  by (induction m) (auto simp: sorted_map_Cons)

lemma map_of_insert_or_assign [simp]:
  "map_of (map_insert_or_assign k v m) = (map_of m)(k \<mapsto> v)"
  by (induction m) (auto simp: fun_eq_iff)

lemma set_insert_or_assign_subset: "set (map_insert_or_assign k v m) \<subseteq> insert (k, v) (set m)"
  by (induction m) (auto split: if_splits)

lemma sorted_map_insert_or_assign:
  "sorted_map m \<Longrightarrow> sorted_map (map_insert_or_assign k v m)"
proof (induction m)
  case (Cons kv m)
  then show ?case
    using set_insert_or_assign_subset [of k v m]
    by (cases kv) (fastforce simp: sorted_map_Cons)
qed (simp add: sorted_map_def)

lemma map_of_map_erase [simp]: "map_of (map_erase k m) = (map_of m)(k := None)"
  by (induction m) (auto simp: map_erase_def fun_eq_iff)

lemma sorted_map_map_erase: "sorted_map m \<Longrightarrow> sorted_map (map_erase k m)"
  by (simp add: map_erase_def sorted_map_filter)

lemma sorted_map_less_None: "sorted_map m \<Longrightarrow> \<forall>kv\<in>set m. k < fst kv \<Longrightarrow> map_of m k = None"
  by (induction m) (auto simp: sorted_map_Cons)

lemma sum_list_insert_or_assign:
  fixes f :: "'k::linorder \<times> 'v \<Rightarrow> 'a::ab_group_add"
  assumes "sorted_map m"
  shows "sum_list (map f (map_insert_or_assign k v m)) =
    sum_list (map f m) + f (k, v) - (case map_of m k of None \<Rightarrow> 0 | Some v' \<Rightarrow> f (k, v'))"
  using assms
proof (induction m)
  case (Cons kv m)
  obtain k' v' where kv: "kv = (k', v')" by (cases kv)
  show ?case
  proof (cases "k < k'")
    case True
    with Cons.prems kv have "\<forall>x\<in>set m. k < fst x"
      by (auto simp: sorted_map_Cons)
    with Cons.prems kv have "map_of m k = None"
      by (auto simp: sorted_map_Cons intro: sorted_map_less_None)
    with True kv show ?thesis by (auto simp: algebra_simps)
  next
    case False
    with Cons kv show ?thesis
      by (cases "k = k'") (simp_all add: sorted_map_Cons algebra_simps)
  qed
qed simp

section \<open>Sorting with a comparator\<close>

text \<open>\<open>std::sort(begin, end, less)\<close>.  Elements that compare equal are left in their order; the code only
  sorts where the comparator separates the elements.\<close>

fun insert_by :: "('a \<Rightarrow> 'a \<Rightarrow> bool) \<Rightarrow> 'a \<Rightarrow> 'a list \<Rightarrow> 'a list" where
  "insert_by cmp x [] = [x]"
| "insert_by cmp x (y # ys) = (if cmp y x then y # insert_by cmp x ys else x # y # ys)"

definition std_sort :: "('a \<Rightarrow> 'a \<Rightarrow> bool) \<Rightarrow> 'a list \<Rightarrow> 'a list" where
  "std_sort cmp xs = foldr (insert_by cmp) xs []"

lemma set_insert_by [simp]: "set (insert_by cmp x ys) = insert x (set ys)"
  by (induction ys) auto

lemma length_insert_by [simp]: "length (insert_by cmp x ys) = Suc (length ys)"
  by (induction ys) auto

lemma distinct_map_insert_by: "distinct (map f (insert_by cmp x ys)) \<longleftrightarrow> f x \<notin> f ` set ys \<and> distinct (map f ys)"
  by (induction ys) auto

lemma set_std_sort [simp]: "set (std_sort cmp xs) = set xs"
  by (induction xs) (simp_all add: std_sort_def)

lemma length_std_sort [simp]: "length (std_sort cmp xs) = length xs"
  by (induction xs) (simp_all add: std_sort_def)

lemma std_sort_eq_Nil [simp]: "std_sort cmp xs = [] \<longleftrightarrow> xs = []"
  by (metis length_0_conv length_std_sort)

lemma distinct_map_std_sort [simp]: "distinct (map f (std_sort cmp xs)) \<longleftrightarrow> distinct (map f xs)"
proof (induction xs)
  case (Cons x xs)
  have "set (foldr (insert_by cmp) xs []) = set xs" using set_std_sort [of cmp xs] by (simp add: std_sort_def)
  with Cons show ?case by (simp add: std_sort_def distinct_map_insert_by)
qed (simp add: std_sort_def)

lemma sorted_insert_by:
  fixes key :: "'a \<Rightarrow> 'k::linorder"
  assumes "sorted (map key ys)"
  shows "sorted (map key (insert_by (\<lambda>a b. key a < key b) x ys))"
  using assms by (induction ys) auto

lemma sorted_std_sort:
  fixes key :: "'a \<Rightarrow> 'k::linorder"
  shows "sorted (map key (std_sort (\<lambda>a b. key a < key b) xs))"
  by (induction xs) (simp_all add: std_sort_def sorted_insert_by)

lemma successively_insert_by:
  assumes "\<And>a b. cmp a b \<Longrightarrow> \<not> cmp b a" and "successively (\<lambda>a b. \<not> cmp b a) ys"
  shows "successively (\<lambda>a b. \<not> cmp b a) (insert_by cmp x ys)"
  using assms(2)
proof (induction ys)
  case (Cons y ys)
  then show ?case using assms(1) by (cases ys) (auto simp: successively_Cons)
qed simp

lemma std_sort_eq_iff:
  assumes "\<And>a b. cmp a b \<Longrightarrow> \<not> cmp b a"
  shows "std_sort cmp xs = xs \<longleftrightarrow> successively (\<lambda>a b. \<not> cmp b a) xs"
proof
  have "successively (\<lambda>a b. \<not> cmp b a) (std_sort cmp xs)"
    by (induction xs) (simp_all add: std_sort_def successively_insert_by [OF assms])
  then show "std_sort cmp xs = xs \<Longrightarrow> successively (\<lambda>a b. \<not> cmp b a) xs" by simp
  show "std_sort cmp xs = xs" if "successively (\<lambda>a b. \<not> cmp b a) xs"
    using that
  proof (induction xs)
    case (Cons x xs)
    then show ?case by (cases xs) (auto simp: std_sort_def)
  qed (simp add: std_sort_def)
qed

lemma std_sort_idem:
  assumes "\<And>a b. cmp a b \<Longrightarrow> \<not> cmp b a"
  shows "std_sort cmp (std_sort cmp xs) = std_sort cmp xs"
proof -
  have "successively (\<lambda>a b. \<not> cmp b a) (std_sort cmp xs)"
    by (induction xs) (simp_all add: std_sort_def successively_insert_by [OF assms])
  then show ?thesis by (simp add: std_sort_eq_iff [OF assms])
qed

end
