(* ===== verification/Validation.thy ===== *)
theory Validation
  imports Prelude
begin

text \<open>
  Key and value limits (\<open>include/nebulakv/storage_limits.hpp\<close>) and the two validators of
  \<open>src/validation.cpp\<close>, which every storage component calls before it touches its state.
\<close>

definition kMaxKeySize :: nat where
  "kMaxKeySize = 1024"

definition kMaxValueSize :: nat where
  "kMaxValueSize = 1024 * 1024"

definition validate_key :: "bytes \<Rightarrow> unit result" where
  "validate_key key =
     (if key = [] then Inl (InvalidArgument ''NebulaKV keys must not be empty'')
      else if length key > kMaxKeySize then Inl (LengthError ''NebulaKV key exceeds the maximum size'')
      else Inr ())"

definition validate_value :: "bytes \<Rightarrow> unit result" where
  "validate_value value =
     (if length value > kMaxValueSize then Inl (LengthError ''NebulaKV value exceeds the maximum size'')
      else Inr ())"

abbreviation valid_key :: "bytes \<Rightarrow> bool" where
  "valid_key key \<equiv> key \<noteq> [] \<and> length key \<le> kMaxKeySize"

abbreviation valid_value :: "bytes \<Rightarrow> bool" where
  "valid_value value \<equiv> length value \<le> kMaxValueSize"

lemma validate_key_Inr_iff [result_simps]: "validate_key key = Inr u \<longleftrightarrow> valid_key key"
  by (auto simp: validate_key_def)

lemma validate_value_Inr_iff [result_simps]: "validate_value value = Inr u \<longleftrightarrow> valid_value value"
  by (auto simp: validate_value_def)

lemma validate_key_valid [simp]: "valid_key key \<Longrightarrow> validate_key key = Inr ()"
  by (simp add: result_simps)

lemma validate_value_valid [simp]: "valid_value value \<Longrightarrow> validate_value value = Inr ()"
  by (simp add: result_simps)

lemma validate_key_invalid: "\<not> valid_key key \<Longrightarrow> \<exists>e. validate_key key = Inl e"
  by (auto simp: validate_key_def)

lemma validate_value_invalid: "\<not> valid_value value \<Longrightarrow> \<exists>e. validate_value value = Inl e"
  by (auto simp: validate_value_def)

end
