(* ===== verification/Checksum.thy ===== *)
theory Checksum
  imports Prelude
begin

text \<open>
  The reflected CRC-32 of \<open>src/checksum_calculator.cpp\<close>.  \<open>crc_bit\<close> is the body of the
  inner loop, \<open>crc_byte\<close> one iteration of the outer one and \<open>crc32\<close> the whole function.
  The lemmas show that each step is a bijection on the 32-bit state, hence that changing one
  byte of a message always changes its checksum; every on-disk format relies on this to
  reject a damaged record.
\<close>

section \<open>Definitions\<close>

definition kPolynomial :: u32 where
  "kPolynomial = 0xEDB88320"

definition crc_bit :: "u32 \<Rightarrow> u32" where
  "crc_bit checksum =
     (let mask = 0 - (checksum AND 1)
      in drop_bit 1 checksum XOR (kPolynomial AND mask))"

definition crc_byte :: "u32 \<Rightarrow> byte \<Rightarrow> u32" where
  "crc_byte checksum value = (crc_bit ^^ 8) (checksum XOR ucast value)"

definition crc32 :: "bytes \<Rightarrow> u32" where
  "crc32 data = foldl crc_byte 0xFFFFFFFF data XOR 0xFFFFFFFF"

section \<open>Injectivity of the update step\<close>

lemma crc_bit_eq: "crc_bit c = drop_bit 1 c XOR (if bit c 0 then kPolynomial else 0)"
  by (cases "bit c 0")
    (auto simp: crc_bit_def bit_0 and_one_eq odd_iff_mod_2_eq_one even_iff_mod_2_eq_zero)

lemma xor_right_cancel:
  fixes a b k :: "'a::len word"
  assumes "a XOR k = b XOR k"
  shows "a = b"
proof -
  from assms have "(a XOR k) XOR k = (b XOR k) XOR k" by simp
  then show ?thesis by (simp add: xor.assoc)
qed

text \<open>The polynomial has its top bit set, so the top bit of the result is the bit shifted out.\<close>

lemma bit_31_crc_bit: "bit (crc_bit c) 31 \<longleftrightarrow> bit c 0"
proof -
  have "bit kPolynomial 31" by (simp add: kPolynomial_def)
  then show ?thesis by (auto simp: crc_bit_eq bit_simps dest: bit_imp_le_length)
qed

lemma inj_crc_bit: "inj crc_bit"
proof (rule injI)
  fix c d :: u32
  assume eq: "crc_bit c = crc_bit d"
  then have b0: "bit c 0 \<longleftrightarrow> bit d 0" by (metis bit_31_crc_bit)
  with eq have shifted: "drop_bit 1 c = drop_bit 1 d"
    by (auto simp: crc_bit_eq dest: xor_right_cancel split: if_splits)
  show "c = d"
  proof (rule bit_word_eqI)
    fix n assume "n < LENGTH(32)"
    show "bit c n \<longleftrightarrow> bit d n"
    proof (cases n)
      case 0
      then show ?thesis using b0 by simp
    next
      case (Suc m)
      from shifted have "bit (drop_bit 1 c) m = bit (drop_bit 1 d) m" by simp
      with Suc show ?thesis by (simp add: bit_simps)
    qed
  qed
qed

lemma inj_funpow_crc_bit: "inj (crc_bit ^^ n)"
  using inj_crc_bit by (rule inj_fn)

lemma crc_byte_inject_state: "crc_byte c v = crc_byte d v \<Longrightarrow> c = d"
  by (auto simp: crc_byte_def dest!: injD [OF inj_funpow_crc_bit] xor_right_cancel)

lemma crc_byte_inject_value: "crc_byte c v = crc_byte c w \<Longrightarrow> v = w"
proof -
  assume "crc_byte c v = crc_byte c w"
  then have "c XOR ucast v = c XOR (ucast w :: u32)"
    by (simp add: crc_byte_def inj_eq [OF inj_funpow_crc_bit])
  then have "(ucast v :: u32) = ucast w"
    by (metis xor.commute xor_right_cancel)
  then have "(ucast (ucast v :: u32) :: byte) = ucast (ucast w :: u32)" by (rule arg_cong)
  then show "v = w" by (simp add: ucast_up_ucast_id is_up.rep_eq)
qed

lemma foldl_crc_byte_inject: "foldl crc_byte c bs = foldl crc_byte d bs \<Longrightarrow> c = d"
  by (induction bs arbitrary: c d) (auto dest: crc_byte_inject_state)

section \<open>Four bytes at a time\<close>

text \<open>Up to 32 bits of a message act on the state as one word; the bit loop then shifts them out.\<close>

lemma crc_bit_xor_shifted:
  assumes "\<not> bit y 31"
  shows "crc_bit (x XOR push_bit 1 y) = crc_bit x XOR y"
proof -
  have "drop_bit 1 (push_bit 1 y) = y"
  proof (rule bit_word_eqI)
    fix n assume "n < LENGTH(32)"
    then have "n < 31 \<or> n = 31" by auto
    then show "bit (drop_bit 1 (push_bit 1 y)) n \<longleftrightarrow> bit y n"
      unfolding bit_drop_bit_eq comp_def bit_push_bit_iff using assms by (auto dest: bit_imp_le_length)
  qed
  moreover have "bit (x XOR push_bit 1 y) 0 \<longleftrightarrow> bit x 0" unfolding bit_xor_iff bit_push_bit_iff by simp
  ultimately have "crc_bit (x XOR push_bit 1 y) = drop_bit 1 x XOR y XOR (if bit x 0 then kPolynomial else 0)"
    by (simp only: crc_bit_eq drop_bit_xor xor.assoc)
  then show ?thesis by (simp only: crc_bit_eq xor.assoc xor.commute xor.left_commute)
qed

lemma funpow_crc_bit_xor_shifted:
  assumes "n \<le> 32" and "\<And>i. 32 - n \<le> i \<Longrightarrow> \<not> bit y i"
  shows "(crc_bit ^^ n) (x XOR push_bit n y) = (crc_bit ^^ n) x XOR y"
  using assms
proof (induction n arbitrary: x)
  case (Suc n)
  have shift: "push_bit (Suc n) y = push_bit 1 (push_bit n y)" by (simp only: push_bit_push_bit plus_1_eq_Suc)
  have "\<not> bit (push_bit n y) 31"
    using Suc.prems by (auto simp: bit_push_bit_iff)
  then have "(crc_bit ^^ Suc n) (x XOR push_bit (Suc n) y) = (crc_bit ^^ n) (crc_bit x XOR push_bit n y)"
    unfolding shift funpow_Suc_right comp_def by (simp only: crc_bit_xor_shifted not_False_eq_True)
  also have "\<dots> = (crc_bit ^^ n) (crc_bit x) XOR y"
    using Suc.prems by (intro Suc.IH) auto
  finally show ?case by (simp only: funpow_Suc_right comp_def)
qed simp

lemma foldl_crc_byte_word:
  assumes "length bs \<le> 4"
  shows "foldl crc_byte c bs = (crc_bit ^^ (8 * length bs)) (c XOR le_value (length bs) bs)"
  using assms
proof (induction bs rule: rev_induct)
  case (snoc b bs)
  define k where "k = length bs"
  have k: "k \<le> 3" using snoc.prems by (simp add: k_def)
  have "bit (le_value (Suc k) (bs @ [b]) :: u32) n \<longleftrightarrow>
      bit (le_value k bs XOR push_bit (8 * k) (ucast b) :: u32) n" if "n < 32" for n
  proof -
    have "bit (le_value k bs :: u32) n \<Longrightarrow> n < 8 * k"
      unfolding bit_le_value by (simp add: div_less_iff_less_mult mult.commute)
    moreover have "bit (le_value (Suc k) (bs @ [b]) :: u32) n =
        bit (le_value k bs OR push_bit (8 * k) (ucast b) :: u32) n"
      by (simp add: le_value_Suc k_def)
    ultimately show ?thesis unfolding bit_or_iff bit_xor_iff bit_push_bit_iff by auto
  qed
  then have word: "le_value (Suc k) (bs @ [b]) = (le_value k bs XOR push_bit (8 * k) (ucast b) :: u32)"
    by (intro bit_word_eqI) simp
  have "\<not> bit (ucast b :: u32) i" if "32 - 8 * k \<le> i" for i
    using that k bit_imp_le_length [of b i] by (auto simp: bit_ucast_iff)
  then have "(crc_bit ^^ (8 * k)) ((c XOR le_value k bs) XOR push_bit (8 * k) (ucast b)) =
      (crc_bit ^^ (8 * k)) (c XOR le_value k bs) XOR ucast b"
    using k by (intro funpow_crc_bit_xor_shifted) auto
  then show ?case
    using snoc by (simp add: crc_byte_def word k_def [symmetric] funpow_add xor.assoc)
qed (simp add: le_value_def)

lemma le_value_inject:
  assumes "(le_value (length bs) bs :: u32) = le_value (length cs) cs" and "length bs = length cs"
    and "length bs \<le> 4"
  shows "bs = cs"
proof -
  have "bs = le_bytes (length bs) (le_value (length bs) bs :: u32)"
    using assms(3) by (simp add: le_bytes_le_value)
  also have "\<dots> = le_bytes (length cs) (le_value (length cs) cs :: u32)"
    unfolding assms(1) by (simp only: assms(2))
  also have "\<dots> = cs" using assms(2,3) by (simp add: le_bytes_le_value)
  finally show ?thesis .
qed

lemma crc32_burst:
  assumes "length ys = length ys'" and "length ys \<le> 4" and "crc32 (xs @ ys @ zs) = crc32 (xs @ ys' @ zs)"
  shows "ys = ys'"
proof -
  define c where "c = foldl crc_byte 0xFFFFFFFF xs"
  from assms(3) have "foldl crc_byte (foldl crc_byte c ys) zs = foldl crc_byte (foldl crc_byte c ys') zs"
    by (auto simp: crc32_def c_def dest: xor_right_cancel)
  then have "foldl crc_byte c ys = foldl crc_byte c ys'"
    by (rule foldl_crc_byte_inject)
  then have "(crc_bit ^^ (8 * length ys)) (c XOR le_value (length ys) ys) =
      (crc_bit ^^ (8 * length ys)) (c XOR le_value (length ys) ys')"
    using assms(1,2) by (simp add: foldl_crc_byte_word)
  then have "c XOR le_value (length ys) ys = c XOR (le_value (length ys) ys' :: u32)"
    by (simp add: inj_eq [OF inj_fn [OF inj_crc_bit]])
  then have "le_value (length ys) ys = (le_value (length ys') ys' :: u32)"
    unfolding assms(1) by (metis xor.commute xor_right_cancel)
  then show ?thesis using assms by (intro le_value_inject) auto
qed

section \<open>Properties\<close>

text \<open>
  C8. Two messages of equal length that differ only within four consecutive bytes have different
  CRC-32 values, whatever surrounds these bytes.
\<close>
theorem crc32_detects_burst:
  assumes "length ys = length ys'" and "length ys \<le> 4" and "ys \<noteq> ys'"
  shows "crc32 (xs @ ys @ zs) \<noteq> crc32 (xs @ ys' @ zs)"
  using crc32_burst [OF assms(1,2)] assms(3) by blast

theorem crc32_detects_burst_witness:
  "crc32 ([1, 2] @ [3, 4, 5, 6] @ [7]) \<noteq> crc32 ([1, 2] @ [3, 0, 255, 9] @ [7])"
  by (rule crc32_detects_burst) simp_all

section \<open>Evaluation\<close>

lemma crc_byte_unfold:
  "crc_byte c v = crc_bit (crc_bit (crc_bit (crc_bit (crc_bit (crc_bit (crc_bit (crc_bit
     (c XOR ucast v))))))))"
  by (simp add: crc_byte_def numeral_eq_Suc)

lemmas crc_eval = crc32_def crc_byte_unfold crc_bit_eq kPolynomial_def

text \<open>The check value of the CRC-32 catalogue, which \<open>tests/checksum_calculator_test.cpp\<close> uses.\<close>

lemma crc32_check_value: "crc32 (str ''123456789'') = 0xCBF43926"
  by (simp add: crc_eval str_def)

end
