(* ===== verification/Posix.thy ===== *)
theory Posix
  imports Prelude "HOL-Library.Sublist"
begin

text \<open>
  The system calls the storage code loops over.  The kernel's answers are a list of events,
  consumed one per call; a call past the end of the list succeeds in full.  A script may
  interrupt a call, shorten a transfer, report zero bytes or fail, so the retry loops of the
  source run against every behaviour they handle.  A file carries what readers see and what
  the last successful \<open>fsync\<close> made durable; \<open>crash_image\<close> says which contents a machine
  crash may leave.
\<close>

section \<open>Outcomes of system calls\<close>

datatype io_event =
    Interrupted \<comment> \<open>\<open>-1\<close> with \<open>EINTR\<close>\<close>
  | Short nat \<comment> \<open>at most that many bytes plus one\<close>
  | Zero \<comment> \<open>a transfer of zero bytes\<close>
  | Failed \<comment> \<open>\<open>-1\<close> with any other \<open>errno\<close>\<close>

primrec benign :: "io_event \<Rightarrow> bool" where
  "benign Interrupted = True"
| "benign (Short k) = True"
| "benign Zero = False"
| "benign Failed = False"

abbreviation benign_io :: "io_event list \<Rightarrow> bool" where
  "benign_io evs \<equiv> (\<forall>ev\<in>set evs. benign ev)"

datatype open_outcome = Opened | NotFound | OpenFailed

section \<open>Files\<close>

record disk_file =
  df_contents :: bytes
  df_durable :: bytes

definition empty_file :: disk_file where
  "empty_file = \<lparr>df_contents = [], df_durable = []\<rparr>"

definition file_append :: "bytes \<Rightarrow> disk_file \<Rightarrow> disk_file" where
  "file_append bs f = f\<lparr>df_contents := df_contents f @ bs\<rparr>"

definition file_sync :: "disk_file \<Rightarrow> disk_file" where
  "file_sync f = f\<lparr>df_durable := df_contents f\<rparr>"

definition file_truncate :: "nat \<Rightarrow> disk_file \<Rightarrow> disk_file" where
  "file_truncate n f = f\<lparr>df_contents := take n (df_contents f)\<rparr>"

text \<open>After a crash the file holds the durable bytes, or these with any part of what was appended
  to them since, in order; a file that was only cut since may also have its new, shorter contents.\<close>

definition crash_image :: "disk_file \<Rightarrow> bytes \<Rightarrow> bool" where
  "crash_image f img \<longleftrightarrow> img = df_durable f \<or>
     (prefix (df_durable f) (df_contents f) \<and> prefix (df_durable f) img \<and> prefix img (df_contents f)) \<or>
     (prefix (df_contents f) (df_durable f) \<and> img = df_contents f)"

lemma file_simps [simp]:
  "df_contents empty_file = []"
  "df_durable empty_file = []"
  "df_contents (file_append bs f) = df_contents f @ bs"
  "df_durable (file_append bs f) = df_durable f"
  "df_contents (file_sync f) = df_contents f"
  "df_durable (file_sync f) = df_contents f"
  "df_contents (file_truncate n f) = take n (df_contents f)"
  "df_durable (file_truncate n f) = df_durable f"
  by (simp_all add: empty_file_def file_append_def file_sync_def file_truncate_def)

lemma crash_image_synced: "df_durable f = df_contents f \<Longrightarrow> crash_image f img \<longleftrightarrow> img = df_contents f"
  by (auto simp: crash_image_def)

section \<open>Transfer loops\<close>

text \<open>\<open>read_exact\<close>: bytes obtained, whether the loop ended on an I/O error, the unread rest of
  the data and the unconsumed events.\<close>

fun read_exact :: "io_event list \<Rightarrow> nat \<Rightarrow> bytes \<Rightarrow> bytes \<times> bool \<times> bytes \<times> io_event list" where
  "read_exact [] n data = (take n data, False, drop n data, [])"
| "read_exact (ev # evs) n data =
     (if n = 0 then ([], False, data, ev # evs)
      else case ev of
        Interrupted \<Rightarrow> read_exact evs n data
      | Failed \<Rightarrow> ([], True, data, evs)
      | Zero \<Rightarrow> ([], False, data, evs)
      | Short k \<Rightarrow>
          let count = min (Suc k) (min n (length data)) in
          if count = 0 then ([], False, data, evs)
          else let (bs, err, data', evs') = read_exact evs (n - count) (drop count data)
               in (take count data @ bs, err, data', evs'))"

text \<open>\<open>write_all\<close>: the bytes that reached the file, the exception if the loop threw, and the
  unconsumed events.  The two messages differ between the callers.\<close>

fun write_all :: "error \<Rightarrow> error \<Rightarrow> io_event list \<Rightarrow> bytes \<Rightarrow> unit result \<times> bytes \<times> io_event list" where
  "write_all failed zero [] bs = (Inr (), bs, [])"
| "write_all failed zero (ev # evs) bs =
     (if bs = [] then (Inr (), [], ev # evs)
      else case ev of
        Interrupted \<Rightarrow> write_all failed zero evs bs
      | Failed \<Rightarrow> (Inl failed, [], evs)
      | Zero \<Rightarrow> (Inl zero, [], evs)
      | Short k \<Rightarrow>
          let count = min (Suc k) (length bs);
              (r, written, evs') = write_all failed zero evs (drop count bs)
          in (r, take count bs @ written, evs'))"

text \<open>Calls without a byte count (\<open>fsync\<close>, \<open>ftruncate\<close>) that are retried on \<open>EINTR\<close>.\<close>

fun retry_call :: "error \<Rightarrow> io_event list \<Rightarrow> unit result \<times> io_event list" where
  "retry_call failed [] = (Inr (), [])"
| "retry_call failed (Interrupted # evs) = retry_call failed evs"
| "retry_call failed (Failed # evs) = (Inl failed, evs)"
| "retry_call failed (ev # evs) = (Inr (), evs)"

section \<open>Robustness of the loops\<close>

lemma read_exact_benign:
  assumes "benign_io evs"
  obtains evs' where "read_exact evs n data = (take n data, False, drop n data, evs')" and "benign_io evs'"
proof -
  from assms have "\<exists>evs'. read_exact evs n data = (take n data, False, drop n data, evs') \<and> benign_io evs'"
  proof (induction evs arbitrary: n data)
    case (Cons ev evs)
    show ?case
    proof (cases "n = 0")
      case False
      show ?thesis
      proof (cases ev)
        case (Short k)
        define c where "c = min (Suc k) (min n (length data))"
        show ?thesis
        proof (cases "c = 0")
          case True
          with False have "data = []" by (auto simp: c_def min_def split: if_splits)
          with False Short Cons.prems show ?thesis by auto
        next
          case c: False
          have le: "c \<le> n" by (simp add: c_def)
          from Cons.IH [of "n - c" "drop c data"] Cons.prems obtain evs' where
            IH: "read_exact evs (n - c) (drop c data) =
              (take (n - c) (drop c data), False, drop (n - c) (drop c data), evs')" and "benign_io evs'"
            by auto
          moreover have "take c data @ take (n - c) (drop c data) = take n data"
            using le by (metis le_add_diff_inverse take_add)
          ultimately show ?thesis
            using False Short c le by (auto simp: c_def [symmetric] Let_def)
        qed
      qed (use False Cons in auto)
    qed (use Cons in auto)
  qed simp
  with that show thesis by blast
qed

lemma read_exact_split:
  "read_exact evs n data = (bs, err, data', evs') \<Longrightarrow> data = bs @ data' \<and> length bs \<le> n"
proof (induction evs arbitrary: n data bs err data' evs')
  case (Cons ev evs)
  show ?case
  proof (cases "n = 0")
    case False
    show ?thesis
    proof (cases ev)
      case (Short k)
      define c where "c = min (Suc k) (min n (length data))"
      obtain bs1 err1 data1 evs1 where rec: "read_exact evs (n - c) (drop c data) = (bs1, err1, data1, evs1)"
        by (cases "read_exact evs (n - c) (drop c data)")
      from Cons.IH [OF this] have IH: "drop c data = bs1 @ data1" "length bs1 \<le> n - c" by auto
      from IH(1) have "data = take c data @ bs1 @ data1" by (metis append_take_drop_id)
      moreover have "length (take c data) + length bs1 \<le> n" using IH(2) by (simp add: c_def)
      ultimately show ?thesis
        using Cons.prems False Short rec by (auto simp: Let_def c_def [symmetric] split: if_splits)
    qed (use Cons False in auto)
  qed (use Cons.prems in auto)
qed auto

lemma write_all_benign:
  assumes "benign_io evs"
  obtains evs' where "write_all failed zero evs bs = (Inr (), bs, evs')" and "benign_io evs'"
proof -
  from assms have "\<exists>evs'. write_all failed zero evs bs = (Inr (), bs, evs') \<and> benign_io evs'"
  proof (induction evs arbitrary: bs)
    case (Cons ev evs)
    show ?case
    proof (cases ev)
      case (Short k)
      from Cons.IH [of "drop (min (Suc k) (length bs)) bs"] Cons.prems obtain evs' where
        "write_all failed zero evs (drop (min (Suc k) (length bs)) bs) =
          (Inr (), drop (min (Suc k) (length bs)) bs, evs')" and "benign_io evs'" by auto
      with Short Cons.prems show ?thesis by (auto simp: Let_def)
    qed (use Cons in auto)
  qed simp
  with that show thesis by blast
qed

lemma write_all_prefix:
  "write_all failed zero evs bs = (r, written, evs') \<Longrightarrow> prefix written bs \<and> (r = Inr () \<longrightarrow> written = bs)"
proof (induction evs arbitrary: bs r written evs')
  case (Cons ev evs)
  show ?case
  proof (cases ev)
    case (Short k)
    define c where "c = min (Suc k) (length bs)"
    obtain r1 w1 e1 where rec: "write_all failed zero evs (drop c bs) = (r1, w1, e1)"
      by (cases "write_all failed zero evs (drop c bs)")
    from Cons.IH [OF this] have "prefix w1 (drop c bs)" and "r1 = Inr () \<longrightarrow> w1 = drop c bs" by auto
    moreover from this have "prefix (take c bs @ w1) bs"
      by (metis append_take_drop_id same_prefix_prefix)
    ultimately show ?thesis
      using Cons.prems Short rec by (auto simp: Let_def c_def [symmetric] split: if_splits)
  qed (use Cons in \<open>auto split: if_splits\<close>)
qed auto

lemma retry_call_benign:
  assumes "benign_io evs"
  obtains evs' where "retry_call failed evs = (Inr (), evs')" and "benign_io evs'"
proof -
  from assms have "\<exists>evs'. retry_call failed evs = (Inr (), evs') \<and> benign_io evs'"
    by (induction failed evs rule: retry_call.induct) auto
  with that show thesis by blast
qed

end
