(* ===== verification/Codec.thy ===== *)
theory Codec
  imports Prelude "HOL-Library.Sublist"
begin

text \<open>
  The contract of a self-delimiting record format, as the write-ahead log, the SSTable entries
  and the Raft files use it: decoding undoes encoding in front of any further bytes, and accepts
  nothing else.  From these two laws follow unique parsing, rejection of every torn record, and
  that any prefix of a log of records parses to a prefix of the records.
\<close>

locale record_codec =
  fixes encode :: "'a \<Rightarrow> bytes"
    and decode :: "bytes \<Rightarrow> ('a \<times> bytes) option"
    and valid :: "'a \<Rightarrow> bool"
  assumes decode_encode: "valid x \<Longrightarrow> decode (encode x @ rest) = Some (x, rest)"
    and decode_sound: "decode bs = Some (x, rest) \<Longrightarrow> valid x \<and> bs = encode x @ rest"
    and decode_empty: "decode [] = None"
begin

lemma encode_nonempty: "valid x \<Longrightarrow> encode x \<noteq> []"
  using decode_encode [of x "[]"] decode_empty by auto

lemma encode_prefix_free:
  assumes "valid x" and "valid y" and "encode x @ a = encode y @ b"
  shows "x = y \<and> a = b"
proof -
  from decode_encode [OF assms(1), of a] decode_encode [OF assms(2), of b]
  have "Some (x, a) = Some (y, b)" unfolding assms(3) by (rule trans [OF sym])
  then show ?thesis by simp
qed

lemma decode_torn:
  assumes "valid x" and "strict_prefix p (encode x)"
  shows "decode p = None"
proof (rule ccontr)
  assume "decode p \<noteq> None"
  then obtain y rest where "decode p = Some (y, rest)" by auto
  then have y: "valid y" "p = encode y @ rest" by (auto dest: decode_sound)
  from assms(2) obtain q where q: "encode x = p @ q" "q \<noteq> []" by (auto elim: strict_prefixE')
  with y have "encode x @ [] = encode y @ (rest @ q)" by simp
  with encode_prefix_free [OF assms(1) y(1)] q(2) show False by blast
qed

text \<open>Every byte string is a sequence of records and a rest that does not start with one.\<close>

lemma decompose:
  "\<exists>xs tail. bs = concat (map encode xs) @ tail \<and> (\<forall>x\<in>set xs. valid x) \<and> decode tail = None"
proof (induction bs rule: length_induct)
  case (1 bs)
  show ?case
  proof (cases "decode bs")
    case None
    then have "bs = concat (map encode []) @ bs \<and> (\<forall>x\<in>set []. valid x) \<and> decode bs = None" by simp
    then show ?thesis by blast
  next
    case (Some r)
    then obtain x rest where "decode bs = Some (x, rest)" by (cases r) auto
    then have x: "valid x" and bs: "bs = encode x @ rest" by (auto dest: decode_sound)
    from encode_nonempty [OF x] have "length rest < length bs" by (simp add: bs)
    with 1 obtain xs tail where "rest = concat (map encode xs) @ tail" "\<forall>x\<in>set xs. valid x"
      "decode tail = None" by blast
    then have "bs = concat (map encode (x # xs)) @ tail \<and> (\<forall>y\<in>set (x # xs). valid y) \<and> decode tail = None"
      using x bs by simp
    then show ?thesis by blast
  qed
qed

lemma decompose_unique:
  assumes "\<forall>x\<in>set xs. valid x" and "\<forall>y\<in>set ys. valid y"
    and "decode a = None" and "decode b = None"
    and "concat (map encode xs) @ a = concat (map encode ys) @ b"
  shows "xs = ys \<and> a = b"
  using assms
proof (induction xs arbitrary: ys)
  case Nil
  show ?case
  proof (cases ys)
    case (Cons y ys')
    with Nil have "a = encode y @ (concat (map encode ys') @ b)" by simp
    with decode_encode [of y "concat (map encode ys') @ b"] Nil Cons show ?thesis by simp
  qed (use Nil in simp)
next
  case (Cons x xs)
  show ?case
  proof (cases ys)
    case Nil
    with Cons.prems have "b = encode x @ (concat (map encode xs) @ a)" by simp
    with decode_encode [of x "concat (map encode xs) @ a"] Cons.prems show ?thesis by simp
  next
    case (Cons y ys')
    with Cons.prems have "encode x @ (concat (map encode xs) @ a) = encode y @ (concat (map encode ys') @ b)"
      by simp
    with Cons.prems Cons encode_prefix_free [of x y] have "x = y"
      and "concat (map encode xs) @ a = concat (map encode ys') @ b" by auto
    with Cons.IH [of ys'] Cons.prems Cons show ?thesis by auto
  qed
qed

text \<open>A log cut anywhere parses to a prefix of its records, and the leftover to nothing.\<close>

lemma take_log:
  assumes "\<forall>x\<in>set xs. valid x"
  obtains j tail where "j \<le> length xs" and "take n (concat (map encode xs)) = concat (map encode (take j xs)) @ tail"
    and "decode tail = None" and "j < length xs \<longrightarrow> strict_prefix tail (encode (xs ! j))"
    and "j = length xs \<longrightarrow> tail = []"
  using assms
proof (induction xs arbitrary: n thesis)
  case Nil
  show ?case by (rule Nil(1) [of 0 "[]"]) (simp_all add: decode_empty)
next
  case (Cons x xs)
  show ?case
  proof (cases "n < length (encode x)")
    case True
    then have "strict_prefix (take n (encode x)) (encode x)"
      by (metis length_take min.absorb4 nat_less_le strict_prefix_def take_is_prefix)
    moreover from this Cons.prems(2) have "decode (take n (encode x)) = None"
      by (intro decode_torn [of x]) simp_all
    ultimately show ?thesis
      using True by (intro Cons.prems(1) [of 0 "take n (encode x)"]) simp_all
  next
    case False
    obtain j tail where "j \<le> length xs"
      and "take (n - length (encode x)) (concat (map encode xs)) = concat (map encode (take j xs)) @ tail"
      and "decode tail = None" and "j < length xs \<longrightarrow> strict_prefix tail (encode (xs ! j))"
      and "j = length xs \<longrightarrow> tail = []"
      using Cons.IH [of "n - length (encode x)"] Cons.prems(2) by auto
    with False show ?thesis
      by (intro Cons.prems(1) [of "Suc j" tail]) simp_all
  qed
qed

end

end
