(* ===== verification/Wal.thy ===== *)
theory Wal
  imports Validation Checksum Posix Codec
begin

text \<open>
  The write-ahead log: its record format (\<open>src/wal_format.cpp\<close>) and its reader
  (\<open>src/wal_reader.cpp\<close>).  A record is a 16-byte header, key, value and CRC-32 of all of these.
  \<open>wal_read_record\<close> is one iteration of the loop of \<open>WalReader::scan\<close>, up to the call of the
  visitor; \<open>wal_scan_loop\<close> is the loop.
\<close>

section \<open>Format\<close>

datatype operation_type = Put | Delete | OtherOperation byte

record wal_record =
  wr_operation :: operation_type
  wr_key :: bytes
  wr_value :: bytes

primrec operation_byte :: "operation_type \<Rightarrow> byte" where
  "operation_byte Put = 1"
| "operation_byte Delete = 2"
| "operation_byte (OtherOperation b) = b"

definition kMagic :: bytes where
  "kMagic = str ''NKVW''"

definition kVersion :: u16 where
  "kVersion = 1"

definition kHeaderSize :: nat where
  "kHeaderSize = 16"

definition kChecksumSize :: nat where
  "kChecksumSize = 4"

definition append_uint16_le :: "bytes \<Rightarrow> u16 \<Rightarrow> bytes" where
  "append_uint16_le destination v = destination @ le_bytes 2 v"

definition append_uint32_le :: "bytes \<Rightarrow> u32 \<Rightarrow> bytes" where
  "append_uint32_le destination v = destination @ le_bytes 4 v"

definition read_uint16_le :: "bytes \<Rightarrow> u16 result" where
  "read_uint16_le bs =
     (if length bs < 2 then Inl (InvalidArgument ''insufficient bytes for uint16'')
      else Inr (le_value 2 bs))"

definition read_uint32_le :: "bytes \<Rightarrow> u32 result" where
  "read_uint32_le bs =
     (if length bs < 4 then Inl (InvalidArgument ''insufficient bytes for uint32'')
      else Inr (le_value 4 bs))"

definition wal_serialize :: "wal_record \<Rightarrow> bytes result" where
  "wal_serialize r =
     bind_result (validate_key (wr_key r)) (\<lambda>_.
     bind_result
       (case wr_operation r of
          Put \<Rightarrow> validate_value (wr_value r)
        | Delete \<Rightarrow> throw_if (wr_value r \<noteq> [])
            (InvalidArgument ''delete WAL records must not contain a value'')
        | OtherOperation _ \<Rightarrow> Inl (InvalidArgument ''unsupported WAL operation'')) (\<lambda>_.
     bind_result (throw_if (length (wr_key r) > unat (- 1 :: u32) \<or> length (wr_value r) > unat (- 1 :: u32))
       (LengthError ''WAL record length exceeds the binary format'')) (\<lambda>_.
     let key_size = of_nat (length (wr_key r)) :: u32;
         value_size = of_nat (length (wr_value r)) :: u32;
         encoded = kMagic;
         encoded = append_uint16_le encoded kVersion;
         encoded = encoded @ [operation_byte (wr_operation r)];
         encoded = encoded @ [0];
         encoded = append_uint32_le encoded key_size;
         encoded = append_uint32_le encoded value_size;
         encoded = encoded @ wr_key r;
         encoded = encoded @ wr_value r
     in Inr (append_uint32_le encoded (crc32 encoded)))))"

section \<open>Reader\<close>

datatype wal_issue_code =
    IncompleteRecord | InvalidMagic | UnsupportedVersion | InvalidOperation | InvalidRecordLength
  | InvalidDeleteRecord | ChecksumMismatch | IoError

primrec wal_issue_name :: "wal_issue_code \<Rightarrow> string" where
  "wal_issue_name IncompleteRecord = ''incomplete_record''"
| "wal_issue_name InvalidMagic = ''invalid_magic''"
| "wal_issue_name UnsupportedVersion = ''unsupported_version''"
| "wal_issue_name InvalidOperation = ''invalid_operation''"
| "wal_issue_name InvalidRecordLength = ''invalid_record_length''"
| "wal_issue_name InvalidDeleteRecord = ''invalid_delete_record''"
| "wal_issue_name ChecksumMismatch = ''checksum_mismatch''"
| "wal_issue_name IoError = ''io_error''"

record wal_scan_result =
  records_read :: u64
  valid_bytes :: u64
  scan_issue :: "(wal_issue_code \<times> u64) option"

definition empty_scan :: wal_scan_result where
  "empty_scan = \<lparr>records_read = 0, valid_bytes = 0, scan_issue = None\<rparr>"

definition make_issue :: "wal_scan_result \<Rightarrow> wal_issue_code \<Rightarrow> u64 \<Rightarrow> wal_scan_result" where
  "make_issue current code offset = current\<lparr>scan_issue := Some (code, offset)\<rparr>"

definition has_valid_magic :: "bytes \<Rightarrow> bool" where
  "has_valid_magic header \<longleftrightarrow> take (length kMagic) header = kMagic"

text \<open>The checks on a complete header: an issue, or operation, key size and value size.\<close>

definition wal_parse_header :: "bytes \<Rightarrow> (wal_issue_code + operation_type \<times> nat \<times> nat) result" where
  "wal_parse_header header =
     (if \<not> has_valid_magic header then Inr (Inl InvalidMagic)
      else bind_result (read_uint16_le (subspan 4 2 header)) (\<lambda>version.
        if version \<noteq> kVersion then Inr (Inl UnsupportedVersion)
        else let operation_value = header ! 6 in
        if operation_value \<noteq> operation_byte Put \<and> operation_value \<noteq> operation_byte Delete
        then Inr (Inl InvalidOperation)
        else let operation = (if operation_value = operation_byte Put then Put else Delete) in
        if header ! 7 \<noteq> 0 then Inr (Inl InvalidRecordLength)
        else bind_result (read_uint32_le (subspan 8 4 header)) (\<lambda>key_size_value.
        bind_result (read_uint32_le (subspan 12 4 header)) (\<lambda>value_size_value.
        let key_size = unat key_size_value; value_size = unat value_size_value in
        if key_size = 0 \<or> key_size > kMaxKeySize \<or> value_size > kMaxValueSize
        then Inr (Inl InvalidRecordLength)
        else if operation = Delete \<and> value_size \<noteq> 0 then Inr (Inl InvalidDeleteRecord)
        else Inr (Inr (operation, key_size, value_size))))))"

datatype wal_read =
    EndOfLog
  | BadRecord wal_issue_code
  | GoodRecord wal_record nat bytes "io_event list"

definition wal_read_record :: "io_event list \<Rightarrow> bytes \<Rightarrow> wal_read result" where
  "wal_read_record evs data =
     (let (header, header_error, data1, evs1) = read_exact evs kHeaderSize data in
      if header_error then Inr (BadRecord IoError)
      else if length header = 0 then Inr EndOfLog
      else if length header \<noteq> kHeaderSize then Inr (BadRecord IncompleteRecord)
      else bind_result (wal_parse_header header) (\<lambda>parsed.
        case parsed of
          Inl code \<Rightarrow> Inr (BadRecord code)
        | Inr (operation, key_size, value_size) \<Rightarrow>
            let (payload, payload_error, data2, evs2) = read_exact evs1 (key_size + value_size) data1 in
            if payload_error then Inr (BadRecord IoError)
            else if length payload \<noteq> key_size + value_size then Inr (BadRecord IncompleteRecord)
            else let (checksum_bytes, checksum_error, data3, evs3) = read_exact evs2 kChecksumSize data2 in
            if checksum_error then Inr (BadRecord IoError)
            else if length checksum_bytes \<noteq> kChecksumSize then Inr (BadRecord IncompleteRecord)
            else bind_result (read_uint32_le checksum_bytes) (\<lambda>expected_checksum.
              if crc32 (header @ payload) \<noteq> expected_checksum then Inr (BadRecord ChecksumMismatch)
              else Inr (GoodRecord
                \<lparr>wr_operation = operation, wr_key = take key_size payload,
                 wr_value = take value_size (drop key_size payload)\<rparr>
                (length header + length payload + length checksum_bytes) data3 evs3))))"

section \<open>Format lemmas\<close>

definition valid_record :: "wal_record \<Rightarrow> bool" where
  "valid_record r \<longleftrightarrow> valid_key (wr_key r) \<and>
     (wr_operation r = Put \<and> valid_value (wr_value r) \<or> wr_operation r = Delete \<and> wr_value r = [])"

definition wal_header :: "operation_type \<Rightarrow> nat \<Rightarrow> nat \<Rightarrow> bytes" where
  "wal_header op ks vs = kMagic @ le_bytes 2 kVersion @ [operation_byte op, 0] @
     le_bytes 4 (of_nat ks :: u32) @ le_bytes 4 (of_nat vs :: u32)"

definition wal_body :: "wal_record \<Rightarrow> bytes" where
  "wal_body r = wal_header (wr_operation r) (length (wr_key r)) (length (wr_value r)) @ wr_key r @ wr_value r"

definition wal_encode :: "wal_record \<Rightarrow> bytes" where
  "wal_encode r = wal_body r @ le_bytes 4 (crc32 (wal_body r))"

lemma length_kMagic [simp]: "length kMagic = 4"
  by (simp add: kMagic_def)

lemma length_wal_header [simp]: "length (wal_header op ks vs) = 16"
  by (simp add: wal_header_def)

lemma length_wal_encode: "length (wal_encode r) = 20 + length (wr_key r) + length (wr_value r)"
  by (simp add: wal_encode_def wal_body_def)

lemma length_wal_encode_u64:
  "of_nat (16 + (length (wr_key r) + length (wr_value r)) + 4) = (of_nat (length (wal_encode r)) :: u64)"
  by (simp add: length_wal_encode)

lemma valid_record_sizes:
  assumes "valid_record r"
  shows "length (wr_key r) \<le> kMaxKeySize" and "length (wr_value r) \<le> kMaxValueSize"
    and "wr_key r \<noteq> []" and "wr_operation r = Delete \<Longrightarrow> wr_value r = []"
    and "wr_operation r = Put \<or> wr_operation r = Delete"
  using assms by (auto simp: valid_record_def)

lemma unat_size_u32:
  "n \<le> kMaxKeySize \<Longrightarrow> unat (of_nat n :: u32) = n"
  "n \<le> kMaxValueSize \<Longrightarrow> unat (of_nat n :: u32) = n"
  by (simp_all add: kMaxKeySize_def kMaxValueSize_def unat_of_nat take_bit_nat_eq_self)

lemma wal_serialize_eq: "wal_serialize r = Inr bs \<longleftrightarrow> valid_record r \<and> bs = wal_encode r"
proof -
  have "\<not> (length (wr_key r) > unat (- 1 :: u32) \<or> length (wr_value r) > unat (- 1 :: u32))"
    if "valid_record r"
    using valid_record_sizes(1,2) [OF that] by (simp add: kMaxKeySize_def kMaxValueSize_def unsigned_minus_1_eq_mask mask_eq_exp_minus_1)
  then show ?thesis
    by (auto simp: wal_serialize_def valid_record_def result_simps wal_encode_def wal_body_def
        wal_header_def append_uint16_le_def append_uint32_le_def Let_def split: operation_type.splits)
qed

lemma wal_serialize_valid: "valid_record r \<Longrightarrow> wal_serialize r = Inr (wal_encode r)"
  by (simp add: wal_serialize_eq)


lemma split_header:
  assumes "length h = 16"
  shows "h = take 4 h @ subspan 4 2 h @ [h ! 6, h ! 7] @ subspan 8 4 h @ subspan 12 4 h"
proof -
  have tail: "drop 12 h = subspan 12 4 h" using assms by (simp add: subspan_def)
  have "drop 8 h = subspan 8 4 h @ drop 12 h"
    using append_take_drop_id [of 4 "drop 8 h"] by (simp add: subspan_def)
  moreover have "drop 7 h = h ! 7 # drop 8 h"
    using Cons_nth_drop_Suc [of 7 h] assms by simp
  moreover have "drop 6 h = h ! 6 # drop 7 h"
    using Cons_nth_drop_Suc [of 6 h] assms by simp
  moreover have "drop 4 h = subspan 4 2 h @ drop 6 h"
    using append_take_drop_id [of 2 "drop 4 h"] by (simp add: subspan_def)
  ultimately have "drop 4 h = subspan 4 2 h @ [h ! 6, h ! 7] @ subspan 8 4 h @ subspan 12 4 h"
    using tail by simp
  then show ?thesis by (metis append_take_drop_id)
qed

lemma wal_header_parts [simp]:
  "take 4 (wal_header op ks vs) = kMagic"
  "subspan 4 2 (wal_header op ks vs) = le_bytes 2 kVersion"
  "wal_header op ks vs ! 6 = operation_byte op"
  "wal_header op ks vs ! 7 = 0"
  "subspan 8 4 (wal_header op ks vs) = le_bytes 4 (of_nat ks :: u32)"
  "subspan 12 4 (wal_header op ks vs) = le_bytes 4 (of_nat vs :: u32)"
  by (simp_all add: wal_header_def nth_append subspan_def)

lemma wal_parse_header_eq:
  assumes "length h = 16"
  shows "wal_parse_header h =
    (let op = (if h ! 6 = 1 then Put else Delete);
         ks = unat (le_value 4 (subspan 8 4 h) :: u32); vs = unat (le_value 4 (subspan 12 4 h) :: u32)
     in Inr (if take 4 h \<noteq> kMagic then Inl InvalidMagic
       else if le_value 2 (subspan 4 2 h) \<noteq> kVersion then Inl UnsupportedVersion
       else if h ! 6 \<noteq> 1 \<and> h ! 6 \<noteq> 2 then Inl InvalidOperation
       else if h ! 7 \<noteq> 0 then Inl InvalidRecordLength
       else if ks = 0 \<or> kMaxKeySize < ks \<or> kMaxValueSize < vs then Inl InvalidRecordLength
       else if op = Delete \<and> vs \<noteq> 0 then Inl InvalidDeleteRecord
       else Inr (op, ks, vs)))"
  using assms
  by (simp add: wal_parse_header_def has_valid_magic_def read_uint16_le_def read_uint32_le_def Let_def)

lemma wal_parse_header_iff:
  assumes "length h = 16"
  shows "wal_parse_header h = Inr (Inr (op, ks, vs)) \<longleftrightarrow>
    h = wal_header op ks vs \<and> (op = Put \<or> op = Delete) \<and> 0 < ks \<and> ks \<le> kMaxKeySize \<and>
    vs \<le> kMaxValueSize \<and> (op = Delete \<longrightarrow> vs = 0)" (is "?l \<longleftrightarrow> ?r")
proof
  assume l: ?l
  define ksw vsw where w: "ksw = (le_value 4 (subspan 8 4 h) :: u32)" "vsw = (le_value 4 (subspan 12 4 h) :: u32)"
  from l have facts: "take 4 h = kMagic" "le_value 2 (subspan 4 2 h) = kVersion" "h ! 7 = 0"
    "h ! 6 = operation_byte op" "op = Put \<or> op = Delete" "ks = unat ksw" "vs = unat vsw"
    "ks \<noteq> 0" "\<not> kMaxKeySize < ks" "\<not> kMaxValueSize < vs" "op = Delete \<longrightarrow> vs = 0"
    unfolding wal_parse_header_eq [OF assms] Let_def w [symmetric] sum.inject
    by (simp_all split: if_splits)
  have "subspan 4 2 h = le_bytes 2 kVersion"
    using facts(2) le_bytes_le_value [of "subspan 4 2 h" 2, where 'a = 16] assms by simp
  moreover have "subspan 8 4 h = le_bytes 4 (of_nat ks :: u32)"
    using le_bytes_le_value [of "subspan 8 4 h" 4, where 'a = 32] assms by (simp add: facts(6) w)
  moreover have "subspan 12 4 h = le_bytes 4 (of_nat vs :: u32)"
    using le_bytes_le_value [of "subspan 12 4 h" 4, where 'a = 32] assms by (simp add: facts(7) w)
  ultimately have "h = wal_header op ks vs"
    using split_header [OF assms] facts(1,3,4) by (simp add: wal_header_def)
  with facts show ?r by simp
next
  assume r: ?r
  then have "unat (le_value 4 (subspan 8 4 h) :: u32) = ks" "unat (le_value 4 (subspan 12 4 h) :: u32) = vs"
    "le_value 2 (subspan 4 2 h) = kVersion" "take 4 h = kMagic" "h ! 7 = 0" "h ! 6 = operation_byte op"
    by (simp_all add: le_value_le_bytes unat_size_u32)
  with r show ?l
    unfolding wal_parse_header_eq [OF assms] Let_def by auto
qed

lemma wal_parse_header_no_throw: "length h = 16 \<Longrightarrow> \<exists>r. wal_parse_header h = Inr r"
  by (simp add: wal_parse_header_eq Let_def)


section \<open>Reading one record\<close>

text \<open>What one iteration computes when the kernel only interrupts or shortens transfers.\<close>

definition wal_read_spec :: "io_event list \<Rightarrow> bytes \<Rightarrow> wal_read" where
  "wal_read_spec evs data =
     (if data = [] then EndOfLog
      else if length data < 16 then BadRecord IncompleteRecord
      else case wal_parse_header (take 16 data) of
        Inl e \<Rightarrow> BadRecord IoError
      | Inr (Inl code) \<Rightarrow> BadRecord code
      | Inr (Inr (op, ks, vs)) \<Rightarrow>
          if length data < 16 + (ks + vs) + 4 then BadRecord IncompleteRecord
          else if crc32 (take (16 + (ks + vs)) data) \<noteq> le_value 4 (drop (16 + (ks + vs)) data)
          then BadRecord ChecksumMismatch
          else GoodRecord \<lparr>wr_operation = op, wr_key = take ks (drop 16 data),
              wr_value = take vs (drop (16 + ks) data)\<rparr>
            (16 + (ks + vs) + 4) (drop (16 + (ks + vs) + 4) data) evs)"

lemma wal_read_record_benign:
  assumes "benign_io evs"
  obtains evs' where "benign_io evs'" and "wal_read_record evs data = Inr (wal_read_spec evs' data)"
proof -
  obtain evs1 where r1: "read_exact evs 16 data = (take 16 data, False, drop 16 data, evs1)"
    and evs1: "benign_io evs1"
    using read_exact_benign [OF assms] .
  show thesis
  proof (cases "length data < 16")
    case True
    then have "wal_read_record evs data = Inr (wal_read_spec evs1 data)"
      by (simp add: wal_read_record_def wal_read_spec_def r1 kHeaderSize_def)
    with that evs1 show thesis by blast
  next
    case False
    then have len: "length (take 16 data) = 16" and "data \<noteq> []" by auto
    obtain parsed where parsed: "wal_parse_header (take 16 data) = Inr parsed"
      using wal_parse_header_no_throw [OF len] by blast
    show thesis
    proof (cases parsed)
      case (Inl code)
      then have "wal_read_record evs data = Inr (wal_read_spec evs1 data)"
        using False parsed \<open>data \<noteq> []\<close>
        by (simp add: wal_read_record_def wal_read_spec_def r1 kHeaderSize_def)
      with that evs1 show thesis by blast
    next
      case (Inr p)
      obtain op ks vs where p: "p = (op, ks, vs)" by (cases p)
      have d: "drop (ks + vs) (drop 16 data) = drop (16 + (ks + vs)) data"
        "drop 4 (drop (16 + (ks + vs)) data) = drop (20 + (ks + vs)) data"
        by (simp_all add: ac_simps)
      obtain evs2 where r2: "read_exact evs1 (ks + vs) (drop 16 data) =
          (take (ks + vs) (drop 16 data), False, drop (16 + (ks + vs)) data, evs2)" and evs2: "benign_io evs2"
        using read_exact_benign [OF evs1, of "ks + vs" "drop 16 data"] unfolding d .
      obtain evs3 where r3: "read_exact evs2 4 (drop (16 + (ks + vs)) data) =
          (take 4 (drop (16 + (ks + vs)) data), False, drop (20 + (ks + vs)) data, evs3)"
        and evs3: "benign_io evs3"
        using read_exact_benign [OF evs2, of 4 "drop (16 + (ks + vs)) data"] unfolding d .
      have "wal_read_record evs data = Inr (wal_read_spec evs3 data)"
      proof (cases "length data < 20 + (ks + vs)")
        case True
        then show ?thesis
          using False parsed Inr p \<open>data \<noteq> []\<close>
          by (auto simp: wal_read_record_def wal_read_spec_def r1 r2 r3 kHeaderSize_def kChecksumSize_def)
      next
        case long: False
        have "take 16 data @ take (ks + vs) (drop 16 data) = take (16 + (ks + vs)) data"
          by (simp only: take_add)
        moreover have "take vs (drop ks (take (ks + vs) (drop 16 data))) = take vs (drop (16 + ks) data)"
          by (simp add: drop_take add.commute)
        ultimately show ?thesis
          using False long parsed Inr p \<open>data \<noteq> []\<close>
          by (simp add: wal_read_record_def wal_read_spec_def r1 r2 r3 kHeaderSize_def kChecksumSize_def
              read_uint32_le_def min.absorb1)
      qed
      with that evs3 show thesis by blast
    qed
  qed
qed

lemma wal_read_spec_encode:
  assumes "valid_record r"
  shows "wal_read_spec evs (wal_encode r @ rest) = GoodRecord r (length (wal_encode r)) rest evs"
proof -
  define h where "h = wal_header (wr_operation r) (length (wr_key r)) (length (wr_value r))"
  have enc: "wal_encode r @ rest = h @ wr_key r @ wr_value r @ le_bytes 4 (crc32 (wal_body r)) @ rest"
    by (simp add: wal_encode_def wal_body_def h_def)
  have len: "length h = 16" "h \<noteq> []" by (simp_all add: h_def wal_header_def)
  have parse: "wal_parse_header h = Inr (Inr (wr_operation r, length (wr_key r), length (wr_value r)))"
    unfolding wal_parse_header_iff [OF len(1)]
    using assms valid_record_sizes [OF assms] by (auto simp: h_def)
  have body: "h @ wr_key r @ wr_value r = wal_body r" by (simp add: h_def wal_body_def)
  have "take (16 + (length (wr_key r) + length (wr_value r))) (wal_encode r @ rest) = wal_body r"
    using len by (simp add: enc flip: body)
  moreover have "drop (16 + (length (wr_key r) + length (wr_value r))) (wal_encode r @ rest) =
      le_bytes 4 (crc32 (wal_body r)) @ rest"
    using len by (simp add: enc)
  ultimately show ?thesis
    using len parse by (simp add: wal_read_spec_def enc length_wal_encode le_value_le_bytes)
qed

lemma wal_read_spec_sound:
  assumes "wal_read_spec evs data = GoodRecord r n rest evs'"
  shows "valid_record r \<and> data = wal_encode r @ rest \<and> n = length (wal_encode r) \<and> evs' = evs"
proof -
  from assms obtain op ks vs where len: "length (take 16 data) = 16"
    and parse: "wal_parse_header (take 16 data) = Inr (Inr (op, ks, vs))"
    and long: "16 + (ks + vs) + 4 \<le> length data"
    and crc: "crc32 (take (16 + (ks + vs)) data) = le_value 4 (drop (16 + (ks + vs)) data)"
    and r: "r = \<lparr>wr_operation = op, wr_key = take ks (drop 16 data), wr_value = take vs (drop (16 + ks) data)\<rparr>"
    and n: "n = 16 + (ks + vs) + 4" and rest: "rest = drop (16 + (ks + vs) + 4) data" and evs: "evs' = evs"
    by (auto simp: wal_read_spec_def split: if_splits sum.splits)
  from parse have h: "take 16 data = wal_header op ks vs" and op: "op = Put \<or> op = Delete"
    and ks: "0 < ks" "ks \<le> kMaxKeySize" and vs: "vs \<le> kMaxValueSize" "op = Delete \<longrightarrow> vs = 0"
    by (simp_all add: wal_parse_header_iff [OF len])
  have lens: "length (wr_key r) = ks" "length (wr_value r) = vs" using long by (simp_all add: r)
  have valid: "valid_record r"
    using op ks vs lens long by (auto simp: valid_record_def r)
  have "take (16 + (ks + vs)) data = take 16 data @ take ks (drop 16 data) @ take vs (drop (16 + ks) data)"
    by (simp only: take_add drop_drop add.commute [of ks 16])
  then have body: "take (16 + (ks + vs)) data = wal_body r"
    using h lens by (simp add: wal_body_def r)
  have "take 4 (drop (16 + (ks + vs)) data) = le_bytes 4 (crc32 (wal_body r))"
    using le_bytes_le_value [of "take 4 (drop (16 + (ks + vs)) data)" 4, where 'a = 32] long crc body by simp
  then have "take (16 + (ks + vs) + 4) data = wal_encode r"
    by (simp only: wal_encode_def body [symmetric] take_add)
  then have "data = wal_encode r @ rest"
    unfolding rest by (metis append_take_drop_id)
  with valid n evs lens show ?thesis by (simp add: length_wal_encode)
qed


text \<open>Whatever the kernel answers, a record that is delivered is on file, whole and intact.\<close>

lemma wal_read_record_sound:
  assumes "wal_read_record evs data = Inr (GoodRecord r n rest evs')"
  shows "valid_record r \<and> data = wal_encode r @ rest \<and> n = length (wal_encode r)"
proof -
  obtain h err1 data1 evs1 where r1: "read_exact evs 16 data = (h, err1, data1, evs1)"
    by (cases "read_exact evs 16 data")
  have h: "length h = 16"
    using assms r1 by (auto simp: wal_read_record_def kHeaderSize_def split: if_splits)
  then obtain parsed where p: "wal_parse_header h = Inr parsed" using wal_parse_header_no_throw by blast
  then obtain op ks vs where "parsed = Inr (op, ks, vs)"
    using assms r1 h by (cases parsed) (auto simp: wal_read_record_def kHeaderSize_def split: if_splits)
  with p have parse: "wal_parse_header h = Inr (Inr (op, ks, vs))" by simp
  obtain payload err2 data2 evs2 where r2: "read_exact evs1 (ks + vs) data1 = (payload, err2, data2, evs2)"
    by (cases "read_exact evs1 (ks + vs) data1")
  obtain c err3 data3 evs3 where r3: "read_exact evs2 4 data2 = (c, err3, data3, evs3)"
    by (cases "read_exact evs2 4 data2")
  from assms h have len: "length payload = ks + vs" and c: "length c = 4"
    and crc: "crc32 (h @ payload) = le_value 4 c" and n: "n = 16 + (ks + vs) + 4"
    and r: "r = \<lparr>wr_operation = op, wr_key = take ks payload, wr_value = take vs (drop ks payload)\<rparr>"
    and "data3 = rest"
    by (auto simp: wal_read_record_def kHeaderSize_def kChecksumSize_def read_uint32_le_def r1 r2 r3 parse
        split: if_splits)
  have data: "data = h @ payload @ c @ rest"
    using read_exact_split [OF r1] read_exact_split [OF r2] read_exact_split [OF r3] \<open>data3 = rest\<close> by simp
  have "wal_read_spec evs' data = GoodRecord r n rest evs'"
    using h len c crc parse n by (auto simp: wal_read_spec_def data r)
  then show ?thesis by (blast dest: wal_read_spec_sound)
qed

lemma wal_read_record_no_throw: "\<exists>read. wal_read_record evs data = Inr read"
proof -
  obtain h err1 data1 evs1 where r1: "read_exact evs 16 data = (h, err1, data1, evs1)"
    by (cases "read_exact evs 16 data")
  then show ?thesis
    using wal_parse_header_no_throw [of h]
    by (auto simp: wal_read_record_def kHeaderSize_def kChecksumSize_def read_uint32_le_def
        split: sum.splits prod.splits)
qed

definition wal_decode :: "bytes \<Rightarrow> (wal_record \<times> bytes) option" where
  "wal_decode data = (case wal_read_spec [] data of GoodRecord r n rest _ \<Rightarrow> Some (r, rest) | _ \<Rightarrow> None)"

interpretation wal_codec: record_codec wal_encode wal_decode valid_record
proof
  show "valid_record x \<Longrightarrow> wal_decode (wal_encode x @ rest) = Some (x, rest)" for x rest
    by (simp add: wal_decode_def wal_read_spec_encode)
  show "wal_decode bs = Some (x, rest) \<Longrightarrow> valid_record x \<and> bs = wal_encode x @ rest" for bs x rest
    by (auto simp: wal_decode_def split: wal_read.splits dest: wal_read_spec_sound)
  show "wal_decode [] = None" by (simp add: wal_decode_def wal_read_spec_def)
qed

section \<open>Scanning a log\<close>

function wal_scan_loop :: "(wal_record \<Rightarrow> 's \<Rightarrow> 's result) \<Rightarrow> io_event list \<Rightarrow> bytes \<Rightarrow>
    wal_scan_result \<Rightarrow> 's \<Rightarrow> (wal_scan_result \<times> 's) result" where
  "wal_scan_loop visitor evs data res s =
     bind_result (wal_read_record evs data) (\<lambda>read.
       case read of
         EndOfLog \<Rightarrow> Inr (res, s)
       | BadRecord code \<Rightarrow> Inr (make_issue res code (valid_bytes res), s)
       | GoodRecord r n data1 evs1 \<Rightarrow>
           bind_result (visitor r s) (\<lambda>s1.
           wal_scan_loop visitor evs1 data1
             (res\<lparr>records_read := records_read res + 1, valid_bytes := valid_bytes res + of_nat n\<rparr>) s1))"
  by pat_completeness auto

termination
proof (relation "measure (\<lambda>(visitor, evs, data, res, s). length data)", goal_cases)
  case (2 visitor evs data res s read r n data1 evs1 s1)
  then show ?case
    by (auto dest!: wal_read_record_sound simp: length_wal_encode)
qed simp

declare wal_scan_loop.simps [simp del]

definition wal_scan :: "open_outcome \<Rightarrow> (wal_record \<Rightarrow> 's \<Rightarrow> 's result) \<Rightarrow> io_event list \<Rightarrow> bytes \<Rightarrow> 's \<Rightarrow>
    (wal_scan_result \<times> 's) result" where
  "wal_scan opened visitor evs data s =
     (case opened of
        NotFound \<Rightarrow> Inr (empty_scan, s)
      | OpenFailed \<Rightarrow> Inr (make_issue empty_scan IoError 0, s)
      | Opened \<Rightarrow> wal_scan_loop visitor evs data empty_scan s)"

fun visit_all :: "(wal_record \<Rightarrow> 's \<Rightarrow> 's result) \<Rightarrow> wal_record list \<Rightarrow> 's \<Rightarrow> 's result" where
  "visit_all visitor [] s = Inr s"
| "visit_all visitor (r # rs) s = bind_result (visitor r s) (visit_all visitor rs)"

abbreviation wal_log :: "wal_record list \<Rightarrow> bytes" where
  "wal_log rs \<equiv> concat (map wal_encode rs)"

text \<open>The issue a scan reports for what follows the last record.\<close>

definition tail_issue :: "bytes \<Rightarrow> wal_issue_code option" where
  "tail_issue tail = (case wal_read_spec [] tail of BadRecord code \<Rightarrow> Some code | _ \<Rightarrow> None)"

end
