(* ===== verification/WalScan.thy ===== *)
theory WalScan
  imports Wal
begin

text \<open>
  What \<open>WalReader::scan\<close> delivers: every complete record of the log in order and nothing else,
  whatever follows the last one, and an exact account of how many bytes these records span.
\<close>

section \<open>One scan as a fold over the records\<close>

definition scan_outcome :: "wal_scan_result \<Rightarrow> wal_record list \<Rightarrow> wal_issue_code option \<Rightarrow> wal_scan_result" where
  "scan_outcome res rs issue =
     (let vb = valid_bytes res + of_nat (length (wal_log rs)) in
      \<lparr>records_read = records_read res + of_nat (length rs), valid_bytes = vb,
       scan_issue = (case issue of None \<Rightarrow> scan_issue res | Some code \<Rightarrow> Some (code, vb))\<rparr>)"

lemma wal_read_spec_torn:
  assumes "wal_decode tail = None"
  shows "wal_read_spec evs tail = (case tail_issue tail of None \<Rightarrow> EndOfLog | Some code \<Rightarrow> BadRecord code)"
proof -
  have "wal_read_spec evs tail = (case wal_read_spec [] tail of GoodRecord r n rest _ \<Rightarrow> GoodRecord r n rest evs | x \<Rightarrow> x)"
    by (auto simp: wal_read_spec_def split: sum.splits)
  with assms show ?thesis
    by (auto simp: wal_decode_def tail_issue_def split: wal_read.splits option.splits)
qed

lemma wal_scan_loop_log:
  assumes "benign_io evs" and "\<forall>r\<in>set rs. valid_record r" and "wal_decode tail = None"
  shows "wal_scan_loop visitor evs (wal_log rs @ tail) res s =
    bind_result (visit_all visitor rs s) (\<lambda>s'. Inr (scan_outcome res rs (tail_issue tail), s'))"
  using assms
proof (induction rs arbitrary: evs res s)
  case Nil
  obtain evs' where "wal_read_record evs tail = Inr (wal_read_spec evs' tail)"
    using wal_read_record_benign [OF Nil(1)] by blast
  then show ?case
    by (auto simp: wal_scan_loop.simps [of visitor evs tail] wal_read_spec_torn [OF Nil(3)] scan_outcome_def
        make_issue_def Let_def split: option.splits)
next
  case (Cons r rs)
  have r: "valid_record r" using Cons.prems by simp
  obtain evs' where evs': "benign_io evs'"
    and "wal_read_record evs (wal_encode r @ wal_log rs @ tail) =
      Inr (wal_read_spec evs' (wal_encode r @ wal_log rs @ tail))"
    using wal_read_record_benign [OF Cons.prems(1)] by blast
  then have step: "wal_read_record evs (wal_encode r @ wal_log rs @ tail) =
      Inr (GoodRecord r (length (wal_encode r)) (wal_log rs @ tail) evs')"
    by (simp add: wal_read_spec_encode [OF r])
  define res' where "res' = res\<lparr>records_read := records_read res + 1,
      valid_bytes := valid_bytes res + of_nat (length (wal_encode r))\<rparr>"
  have "wal_scan_loop visitor evs (wal_log (r # rs) @ tail) res s =
      bind_result (visitor r s) (\<lambda>s'. wal_scan_loop visitor evs' (wal_log rs @ tail) res' s')"
    by (simp add: wal_scan_loop.simps [of visitor evs] step res'_def)
  also have "\<dots> = bind_result (visitor r s) (\<lambda>s'. bind_result (visit_all visitor rs s')
      (\<lambda>s''. Inr (scan_outcome res' rs (tail_issue tail), s'')))"
    using Cons.IH [OF evs' _ Cons.prems(3)] Cons.prems(2) by simp
  also have "scan_outcome res' rs (tail_issue tail) = scan_outcome res (r # rs) (tail_issue tail)"
    by (simp add: scan_outcome_def res'_def Let_def add.assoc split: option.splits)
  finally show ?case by (simp add: bind_result_assoc)
qed

lemma wal_scan_log:
  assumes "benign_io evs" and "\<forall>r\<in>set rs. valid_record r" and "wal_decode tail = None"
  shows "wal_scan Opened visitor evs (wal_log rs @ tail) s =
    bind_result (visit_all visitor rs s) (\<lambda>s'. Inr (scan_outcome empty_scan rs (tail_issue tail), s'))"
  by (simp add: wal_scan_def wal_scan_loop_log [OF assms])

lemma tail_issue_Nil [simp]: "tail_issue [] = None"
  by (simp add: tail_issue_def wal_read_spec_def)

lemma tail_issue_not_IoError: "tail_issue tail \<noteq> Some IoError"
proof (cases "tail = [] \<or> length tail < 16")
  case False
  then have "length (take 16 tail) = 16" by simp
  from wal_parse_header_eq [OF this] False show ?thesis
    by (auto simp: tail_issue_def wal_read_spec_def Let_def split: if_splits)
qed (auto simp: tail_issue_def wal_read_spec_def)

lemma tail_issue_None:
  assumes "wal_decode tail = None"
  shows "tail_issue tail = None \<longleftrightarrow> tail = []"
proof
  assume "tail_issue tail = None"
  with wal_read_spec_torn [OF assms, of "[]"] have "wal_read_spec [] tail = EndOfLog" by simp
  then show "tail = []" by (auto simp: wal_read_spec_def split: if_splits sum.splits)
qed simp

lemma tail_issue_torn:
  assumes "valid_record r" and "strict_prefix p (wal_encode r)" and "p \<noteq> []"
  shows "tail_issue p = Some IncompleteRecord"
proof (cases "length p < 16")
  case True
  with assms(3) show ?thesis by (simp add: tail_issue_def wal_read_spec_def)
next
  case False
  define h where "h = wal_header (wr_operation r) (length (wr_key r)) (length (wr_value r))"
  have len: "length h = 16" by (simp add: h_def)
  from assms(2) obtain q where q: "wal_encode r = p @ q" and "q \<noteq> []" by (auto elim: strict_prefixE')
  have "take 16 p = take 16 (wal_encode r)" using False by (simp add: q)
  then have "take 16 p = h" by (simp add: wal_encode_def wal_body_def h_def)
  moreover have "wal_parse_header h = Inr (Inr (wr_operation r, length (wr_key r), length (wr_value r)))"
    unfolding wal_parse_header_iff [OF len] using valid_record_sizes [OF assms(1)] by (auto simp: h_def)
  moreover have "length p < 16 + (length (wr_key r) + length (wr_value r)) + 4"
    using arg_cong [OF q, of length] \<open>q \<noteq> []\<close> by (cases q) (auto simp: length_wal_encode)
  ultimately show ?thesis
    using False assms(3) by (simp add: tail_issue_def wal_read_spec_def)
qed

text \<open>The scan that only collects what it is shown.\<close>

definition collect :: "wal_record \<Rightarrow> wal_record list \<Rightarrow> wal_record list result" where
  "collect r rs = Inr (rs @ [r])"

lemma visit_all_collect [simp]: "visit_all collect rs acc = Inr (acc @ rs)"
  by (induction rs arbitrary: acc) (simp_all add: collect_def)


section \<open>Soundness for any file and any kernel\<close>

lemma wal_scan_loop_sound:
  "\<exists>res' rs. wal_scan_loop collect evs data res acc = Inr (res', acc @ rs) \<and>
    (\<forall>r\<in>set rs. valid_record r) \<and> prefix (wal_log rs) data \<and>
    records_read res' = records_read res + of_nat (length rs) \<and>
    valid_bytes res' = valid_bytes res + of_nat (length (wal_log rs)) \<and>
    (scan_issue res' = scan_issue res \<or> (\<exists>code. scan_issue res' = Some (code, valid_bytes res')))"
proof (induction "length data" arbitrary: evs data res acc rule: less_induct)
  case less
  obtain read where read: "wal_read_record evs data = Inr read"
    using wal_read_record_no_throw by blast
  show ?case
  proof (cases read)
    case EndOfLog
    then show ?thesis
      by (intro exI [of _ res] exI [of _ "[]"]) (simp add: wal_scan_loop.simps [of _ evs] read split: option.splits)
  next
    case (BadRecord code)
    then show ?thesis
      by (intro exI [of _ "make_issue res code (valid_bytes res)"] exI [of _ "[]"])
        (simp add: wal_scan_loop.simps [of _ evs] read make_issue_def)
  next
    case (GoodRecord r n data1 evs1)
    define res1 where "res1 = res\<lparr>records_read := records_read res + 1, valid_bytes := valid_bytes res + of_nat n\<rparr>"
    from wal_read_record_sound read GoodRecord have r: "valid_record r" "data = wal_encode r @ data1"
      "n = length (wal_encode r)" by auto
    then have "length data1 < length data" by (simp add: length_wal_encode)
    from less [OF this, of evs1 res1 "acc @ [r]"] obtain res' rs where
      IH: "wal_scan_loop collect evs1 data1 res1 (acc @ [r]) = Inr (res', acc @ r # rs)"
      "\<forall>r\<in>set rs. valid_record r" "prefix (wal_log rs) data1"
      "records_read res' = records_read res1 + of_nat (length rs)"
      "valid_bytes res' = valid_bytes res1 + of_nat (length (wal_log rs))"
      "scan_issue res' = scan_issue res1 \<or> (\<exists>code. scan_issue res' = Some (code, valid_bytes res'))" by auto
    have "wal_scan_loop collect evs data res acc = Inr (res', acc @ r # rs)"
      using IH(1) by (simp add: wal_scan_loop.simps [of _ evs] read GoodRecord collect_def res1_def)
    moreover have "scan_issue res1 = scan_issue res" by (simp add: res1_def)
    ultimately show ?thesis
      using IH(2-6) r by (intro exI [of _ res'] exI [of _ "r # rs"]) (simp add: res1_def add.assoc)
  qed
qed

text \<open>C18. \<open>WalReader::scan\<close> on any file content, with the kernel free to interrupt, shorten or
  fail any read, terminates without an exception of its own.  What it shows the visitor is exactly
  a sequence of valid records whose encodings are the beginning of the file; the counts it returns
  are theirs, and a reported issue points at the first byte after them.\<close>

theorem wal_scan_sound:
  "\<exists>res rs. wal_scan Opened collect evs data [] = Inr (res, rs) \<and>
    (\<forall>r\<in>set rs. valid_record r) \<and> prefix (wal_log rs) data \<and>
    records_read res = of_nat (length rs) \<and> valid_bytes res = of_nat (length (wal_log rs)) \<and>
    (scan_issue res = None \<or> (\<exists>code. scan_issue res = Some (code, valid_bytes res)))"
proof -
  from wal_scan_loop_sound [of evs data empty_scan "[]"] obtain res rs where
    "wal_scan Opened collect evs data [] = Inr (res, rs)" "\<forall>r\<in>set rs. valid_record r"
    "prefix (wal_log rs) data" "records_read res = of_nat (length rs)"
    "valid_bytes res = of_nat (length (wal_log rs))"
    "scan_issue res = None \<or> (\<exists>code. scan_issue res = Some (code, valid_bytes res))"
    by (auto simp: wal_scan_def empty_scan_def)
  then show ?thesis by blast
qed

theorem wal_scan_sound_witness:
  "\<exists>res rs. wal_scan Opened collect [Interrupted, Short 2, Failed] (str ''NKVW garbage'') [] = Inr (res, rs) \<and>
    list_all valid_record rs \<and> prefix (wal_log rs) (str ''NKVW garbage'')"
  using wal_scan_sound [of "[Interrupted, Short 2, Failed]" "str ''NKVW garbage''"]
  unfolding list_all_iff by blast

section \<open>Logs cut by a crash\<close>

text \<open>C17. A log of serialised records cut at any byte \<open>n\<close> (a torn write, a crash) scans to the
  records that are complete within the first \<open>n\<close> bytes, all of them and in order, whatever
  interruptions and short reads occur.  The scan reports \<open>IncompleteRecord\<close> at the first byte after
  them exactly if the cut is inside a record.\<close>

theorem wal_scan_cut_log:
  assumes "\<forall>r\<in>set rs. valid_record r" and "benign_io evs"
  shows "\<exists>j\<le>length rs. length (wal_log (take j rs)) \<le> length (take n (wal_log rs)) \<and>
    (j < length rs \<longrightarrow> n < length (wal_log (take (Suc j) rs))) \<and>
    wal_scan Opened collect evs (take n (wal_log rs)) [] =
      Inr (\<lparr>records_read = of_nat j, valid_bytes = of_nat (length (wal_log (take j rs))),
        scan_issue = (if length (take n (wal_log rs)) = length (wal_log (take j rs)) then None
          else Some (IncompleteRecord, of_nat (length (wal_log (take j rs)))))\<rparr>, take j rs)"
proof -
  obtain j tail where j: "j \<le> length rs" and cut: "take n (wal_log rs) = wal_log (take j rs) @ tail"
    and none: "wal_decode tail = None"
    and torn: "j < length rs \<longrightarrow> strict_prefix tail (wal_encode (rs ! j))"
    and full: "j = length rs \<longrightarrow> tail = []"
    by (rule wal_codec.take_log [OF assms(1), of n])
  have issue: "tail_issue tail = (if tail = [] then None else Some IncompleteRecord)"
  proof (cases "j < length rs")
    case True
    with assms(1) torn show ?thesis using tail_issue_torn [of "rs ! j" tail] by auto
  qed (use j full in simp)
  have bound: "n < length (wal_log (take (Suc j) rs))" if "j < length rs"
  proof -
    from torn that have "length tail < length (wal_encode (rs ! j))" by (simp add: prefix_length_less)
    moreover have "length (wal_log (take (Suc j) rs)) = length (wal_log (take j rs)) + length (wal_encode (rs ! j))"
      using that by (simp add: take_Suc_conv_app_nth)
    moreover have "length (wal_log (take (Suc j) rs)) \<le> length (wal_log rs)"
      by (metis append_take_drop_id concat_append length_append le_add1 map_append)
    moreover have "min (length (wal_log rs)) n = length (wal_log (take j rs)) + length tail"
      using arg_cong [OF cut, of length] by simp
    ultimately show ?thesis by linarith
  qed
  have "\<forall>r\<in>set (take j rs). valid_record r" using assms(1) by (meson in_set_takeD)
  from wal_scan_log [OF assms(2) this none, of collect "[]"] issue
  have scan: "wal_scan Opened collect evs (take n (wal_log rs)) [] =
      Inr (scan_outcome empty_scan (take j rs) (if tail = [] then None else Some IncompleteRecord), take j rs)"
    by (simp add: cut)
  have outcome: "scan_outcome empty_scan (take j rs) (if tail = [] then None else Some IncompleteRecord) =
      \<lparr>records_read = of_nat j, valid_bytes = of_nat (length (wal_log (take j rs))),
       scan_issue = (if tail = [] then None
         else Some (IncompleteRecord, of_nat (length (wal_log (take j rs)))))\<rparr>"
    using j by (simp add: scan_outcome_def empty_scan_def Let_def)
  have empty: "tail = [] \<longleftrightarrow> length (take n (wal_log rs)) = length (wal_log (take j rs))"
    by (simp only: cut length_append) simp
  have "length (wal_log (take j rs)) \<le> length (take n (wal_log rs))"
    by (simp only: cut length_append le_add1)
  with j bound scan [unfolded outcome, unfolded empty] show ?thesis by blast
qed

theorem wal_scan_cut_log_witness:
  "list_all valid_record [\<lparr>wr_operation = Put, wr_key = [1], wr_value = [2, 3]\<rparr>,
       \<lparr>wr_operation = Delete, wr_key = [1], wr_value = []\<rparr>] \<and>
   wal_scan Opened collect [Interrupted, Short 1]
     (take 30 (wal_log [\<lparr>wr_operation = Put, wr_key = [1], wr_value = [2, 3]\<rparr>,
       \<lparr>wr_operation = Delete, wr_key = [1], wr_value = []\<rparr>])) [] =
   Inr (\<lparr>records_read = 1, valid_bytes = 23, scan_issue = Some (IncompleteRecord, 23)\<rparr>,
     [\<lparr>wr_operation = Put, wr_key = [1], wr_value = [2, 3]\<rparr>])"
proof -
  define p where "p = \<lparr>wr_operation = Put, wr_key = [1], wr_value = [2, 3]\<rparr>"
  define d where "d = \<lparr>wr_operation = Delete, wr_key = [1], wr_value = []\<rparr>"
  have valid: "\<forall>r\<in>set [p, d]. valid_record r"
    by (simp add: p_def d_def valid_record_def kMaxKeySize_def kMaxValueSize_def)
  have len: "length (wal_encode p) = 23" "length (wal_encode d) = 21"
    by (simp_all add: length_wal_encode p_def d_def)
  have ev: "benign_io [Interrupted, Short 1]" by simp
  from wal_scan_cut_log [OF valid ev, of 30] obtain j where j: "j \<le> length [p, d]"
    "length (wal_log (take j [p, d])) \<le> length (take 30 (wal_log [p, d]))"
    "j < length [p, d] \<longrightarrow> 30 < length (wal_log (take (Suc j) [p, d]))"
    and scan: "wal_scan Opened collect [Interrupted, Short 1] (take 30 (wal_log [p, d])) [] =
      Inr (\<lparr>records_read = of_nat j, valid_bytes = of_nat (length (wal_log (take j [p, d]))),
        scan_issue = (if length (take 30 (wal_log [p, d])) = length (wal_log (take j [p, d])) then None
          else Some (IncompleteRecord, of_nat (length (wal_log (take j [p, d])))))\<rparr>, take j [p, d])"
    by blast
  have "j = 1"
  proof (rule ccontr)
    assume "j \<noteq> 1"
    with j(1) have "j = 0 \<or> j = 2" by auto
    with j(2,3) len show False by auto
  qed
  with scan valid len show ?thesis
    by (simp add: p_def d_def)
qed


section \<open>Damaged records\<close>

lemma wal_header_lengths:
  assumes "subspan 8 8 (wal_encode r) = subspan 8 8 (wal_encode r')" and "valid_record r" and "valid_record r'"
  shows "length (wr_key r) = length (wr_key r') \<and> length (wr_value r) = length (wr_value r')"
proof -
  have sizes: "subspan 8 8 (wal_encode x) =
      le_bytes 4 (of_nat (length (wr_key x)) :: u32) @ le_bytes 4 (of_nat (length (wr_value x)) :: u32)" for x
    by (simp add: wal_encode_def wal_body_def wal_header_def subspan_def)
  have eq: "le_bytes 4 (of_nat (length (wr_key r)) :: u32) = le_bytes 4 (of_nat (length (wr_key r')) :: u32)"
    "le_bytes 4 (of_nat (length (wr_value r)) :: u32) = le_bytes 4 (of_nat (length (wr_value r')) :: u32)"
    using assms(1) by (simp_all add: sizes)
  have inj: "v = w" if "le_bytes 4 v = le_bytes 4 w" for v w :: u32
    using that by (simp add: le_bytes_eq_iff)
  show ?thesis
    using inj [OF eq(1)] inj [OF eq(2)] valid_record_sizes(1,2) [OF assms(2)] valid_record_sizes(1,2) [OF assms(3)]
    by (metis unat_size_u32)
qed

text \<open>A record with a changed stretch of at most four bytes is not the encoding of any record of the
  same sizes.\<close>

lemma wal_encode_burst:
  assumes enc: "wal_encode r = xs @ ys @ zs" and ys: "length ys' = length ys" "length ys \<le> 4"
    and enc': "wal_encode r' = xs @ ys' @ zs"
    and sizes: "length (wal_body r') = length (wal_body r)"
    and side: "length xs + length ys \<le> length (wal_body r) \<or> length (wal_body r) \<le> length xs"
  shows "ys' = ys"
proof (cases "length xs + length ys \<le> length (wal_body r)")
  case True
  define k where "k = length (wal_body r) - (length xs + length ys)"
  have body: "wal_body r = xs @ ys @ take k zs"
    using arg_cong [OF enc, of "take (length (wal_body r))"] True by (simp add: wal_encode_def k_def)
  have body': "wal_body r' = xs @ ys' @ take k zs"
    using arg_cong [OF enc', of "take (length (wal_body r'))"] True ys(1)
    by (simp add: wal_encode_def k_def sizes)
  have "le_bytes 4 (crc32 (wal_body r)) = drop k zs"
    using arg_cong [OF enc, of "drop (length (wal_body r))"] True by (simp add: wal_encode_def k_def)
  moreover have "le_bytes 4 (crc32 (wal_body r')) = drop k zs"
    using arg_cong [OF enc', of "drop (length (wal_body r'))"] True ys(1)
    by (simp add: wal_encode_def k_def sizes)
  ultimately have "crc32 (wal_body r) = crc32 (wal_body r')"
    by (metis le_bytes_eq_iff [where 'a = 32 and k = 4, simplified])
  then show ?thesis
    using crc32_burst [of ys' ys xs "take k zs"] ys by (simp add: body body')
next
  case False
  with side have "length (wal_body r) \<le> length xs" by simp
  then have "wal_body r = wal_body r'"
    using arg_cong [OF enc, of "take (length (wal_body r))"] arg_cong [OF enc', of "take (length (wal_body r'))"]
    by (simp add: wal_encode_def sizes)
  then have "wal_encode r = wal_encode r'" by (simp add: wal_encode_def)
  with enc enc' ys(1) show ?thesis by simp
qed




end
