(* ===== verification/WalWriter.thy ===== *)
theory WalWriter
  imports WalScan
begin

text \<open>
  \<open>WalWriter\<close> (\<open>src/wal_writer.cpp\<close>).  The state holds the file and the kernel's answers to the
  calls still to come.  Every operation runs under the writer's mutex and is one definition; an
  operation that throws keeps the bytes it had already written.  The background thread of batch
  mode appears as \<open>batch_flush_iteration\<close>, one turn of its loop, and \<open>batch_flush_exit\<close>, the
  code behind the loop.
\<close>

section \<open>State\<close>

datatype durability_mode = SyncMode | BatchMode | NoneMode

primrec durability_name :: "durability_mode \<Rightarrow> string" where
  "durability_name SyncMode = ''sync''"
| "durability_name BatchMode = ''batch''"
| "durability_name NoneMode = ''none''"

record wal_writer =
  ww_file :: disk_file
  ww_events :: "io_event list"
  ww_mode :: durability_mode
  ww_dirty :: bool
  ww_stopping :: bool
  ww_background_error :: "error option"
  ww_bytes_appended :: u64

section \<open>Operations\<close>

definition parent_path_empty :: "bytes \<Rightarrow> bool" where
  "parent_path_empty path \<longleftrightarrow> of_char (CHR ''/'') \<notin> set path"

definition open_wal_file :: "bytes \<Rightarrow> unit result \<Rightarrow> open_outcome \<Rightarrow> unit result" where
  "open_wal_file path create_directories opened =
     bind_result (throw_if (path = []) (InvalidArgument ''WAL path must not be empty'')) (\<lambda>_.
     bind_result (if parent_path_empty path then Inr () else create_directories) (\<lambda>_.
     throw_if (opened \<noteq> Opened) (SystemError ''failed to open WAL file'')))"

definition wal_writer_new :: "bytes \<Rightarrow> durability_mode \<Rightarrow> int \<Rightarrow> unit result \<Rightarrow> open_outcome \<Rightarrow>
    io_event list \<Rightarrow> disk_file \<Rightarrow> wal_writer result" where
  "wal_writer_new path mode batch_flush_interval create_directories opened evs f =
     bind_result (open_wal_file path create_directories opened) (\<lambda>_.
     if batch_flush_interval \<le> 0
     then Inl (InvalidArgument ''batch flush interval must be greater than zero'')
     else Inr \<lparr>ww_file = f, ww_events = evs, ww_mode = mode, ww_dirty = False, ww_stopping = False,
               ww_background_error = None, ww_bytes_appended = 0\<rparr>)"

definition wal_write_all :: "bytes \<Rightarrow> (wal_writer, unit) effect" where
  "wal_write_all bs w =
     (let (r, written, evs) = write_all (SystemError ''failed to append WAL record'')
            (RuntimeError ''WAL write returned zero bytes'') (ww_events w) bs
      in (r, w\<lparr>ww_file := file_append written (ww_file w), ww_events := evs\<rparr>))"

definition wal_sync_file :: "(wal_writer, unit) effect" where
  "wal_sync_file w =
     (case retry_call (SystemError ''failed to fsync WAL file'') (ww_events w) of
        (Inl e, evs) \<Rightarrow> (Inl e, w\<lparr>ww_events := evs\<rparr>)
      | (Inr _, evs) \<Rightarrow> (Inr (), w\<lparr>ww_file := file_sync (ww_file w), ww_events := evs\<rparr>))"

definition wal_truncate_file :: "(wal_writer, unit) effect" where
  "wal_truncate_file w =
     (case retry_call (SystemError ''failed to truncate WAL file'') (ww_events w) of
        (Inl e, evs) \<Rightarrow> (Inl e, w\<lparr>ww_events := evs\<rparr>)
      | (Inr _, evs) \<Rightarrow> (Inr (), w\<lparr>ww_file := file_truncate 0 (ww_file w), ww_events := evs\<rparr>))"

definition throw_if_background_flush_failed_locked :: "(wal_writer, unit) effect" where
  "throw_if_background_flush_failed_locked w =
     (case ww_background_error w of None \<Rightarrow> (Inr (), w) | Some e \<Rightarrow> (Inl e, w))"

definition flush_locked :: "(wal_writer, unit) effect" where
  "flush_locked w =
     (if \<not> ww_dirty w then (Inr (), w)
      else bind_effect wal_sync_file (\<lambda>_ w. (Inr (), w\<lparr>ww_dirty := False\<rparr>)) w)"

definition wal_append :: "wal_record \<Rightarrow> (wal_writer, unit) effect" where
  "wal_append r =
     bind_effect (lift_result (wal_serialize r)) (\<lambda>encoded.
     bind_effect throw_if_background_flush_failed_locked (\<lambda>_.
     bind_effect (wal_write_all encoded) (\<lambda>_ w.
       let w = w\<lparr>ww_bytes_appended := ww_bytes_appended w + of_nat (length encoded), ww_dirty := True\<rparr>
       in if ww_mode w = SyncMode then flush_locked w else (Inr (), w))))"

definition wal_flush :: "(wal_writer, unit) effect" where
  "wal_flush = bind_effect throw_if_background_flush_failed_locked (\<lambda>_. flush_locked)"

definition wal_reset :: "(wal_writer, unit) effect" where
  "wal_reset =
     bind_effect throw_if_background_flush_failed_locked (\<lambda>_.
     bind_effect flush_locked (\<lambda>_.
     bind_effect wal_truncate_file (\<lambda>_.
     bind_effect wal_sync_file (\<lambda>_ w.
       (Inr (), w\<lparr>ww_bytes_appended := 0, ww_dirty := False\<rparr>)))))"

definition batch_flush_iteration :: "wal_writer \<Rightarrow> wal_writer" where
  "batch_flush_iteration w =
     (if \<not> ww_dirty w then w
      else case flush_locked w of
        (Inr _, w') \<Rightarrow> w'
      | (Inl e, w') \<Rightarrow> w'\<lparr>ww_background_error := Some e, ww_stopping := True\<rparr>)"

definition batch_flush_exit :: "wal_writer \<Rightarrow> wal_writer" where
  "batch_flush_exit w =
     (if ww_dirty w \<and> ww_background_error w = None
      then case flush_locked w of
        (Inr _, w') \<Rightarrow> w'
      | (Inl e, w') \<Rightarrow> w'\<lparr>ww_background_error := Some e\<rparr>
      else w)"

definition wal_writer_close :: "wal_writer \<Rightarrow> wal_writer" where
  "wal_writer_close w =
     (let w1 = (if ww_mode w = BatchMode
                then let w0 = w\<lparr>ww_stopping := True\<rparr>
                     in if ww_background_error w0 = None then batch_flush_exit (batch_flush_iteration w0) else w0
                else w)
      in if ww_dirty w1 \<and> ww_mode w1 \<noteq> NoneMode then snd (flush_locked w1) else w1)"

text \<open>Appending a list of records, up to the first exception: how many were acknowledged.\<close>

fun wal_append_all :: "wal_record list \<Rightarrow> wal_writer \<Rightarrow> nat \<times> wal_writer" where
  "wal_append_all [] w = (0, w)"
| "wal_append_all (r # rs) w =
     (case wal_append r w of
        (Inl e, w') \<Rightarrow> (0, w')
      | (Inr _, w') \<Rightarrow> let (n, w'') = wal_append_all rs w' in (Suc n, w''))"

section \<open>What the operations do to the file\<close>

lemma wal_write_allE:
  assumes "wal_write_all bs w = (r, w')"
  obtains p evs where "prefix p bs" and "r = Inr () \<longrightarrow> p = bs"
    and "w' = w\<lparr>ww_file := file_append p (ww_file w), ww_events := evs\<rparr>"
proof -
  obtain p evs where "write_all (SystemError ''failed to append WAL record'')
      (RuntimeError ''WAL write returned zero bytes'') (ww_events w) bs = (r, p, evs)"
    and "w' = w\<lparr>ww_file := file_append p (ww_file w), ww_events := evs\<rparr>"
    using assms by (auto simp: wal_write_all_def split: prod.splits)
  with write_all_prefix that show thesis by blast
qed

lemma wal_sync_fileE:
  assumes "wal_sync_file w = (r, w')"
  obtains (ok) evs where "r = Inr ()" and "w' = w\<lparr>ww_file := file_sync (ww_file w), ww_events := evs\<rparr>"
  | (failed) e evs where "r = Inl e" and "w' = w\<lparr>ww_events := evs\<rparr>"
proof -
  obtain r1 evs where call: "retry_call (SystemError ''failed to fsync WAL file'') (ww_events w) = (r1, evs)"
    by (cases "retry_call (SystemError ''failed to fsync WAL file'') (ww_events w)")
  show thesis
  proof (cases r1)
    case (Inl e)
    with call assms show thesis by (intro failed [of e evs]) (simp_all add: wal_sync_file_def)
  next
    case (Inr u)
    with call assms show thesis by (intro ok [of evs]) (simp_all add: wal_sync_file_def)
  qed
qed

lemma flush_locked_cases:
  assumes "flush_locked w = (r, w')"
  obtains (clean) "\<not> ww_dirty w" and "r = Inr ()" and "w' = w"
  | (ok) evs where "ww_dirty w" and "r = Inr ()"
      and "w' = w\<lparr>ww_file := file_sync (ww_file w), ww_events := evs, ww_dirty := False\<rparr>"
  | (failed) e evs where "ww_dirty w" and "r = Inl e" and "w' = w\<lparr>ww_events := evs\<rparr>"
proof (cases "ww_dirty w")
  case True
  obtain r1 w1 where s: "wal_sync_file w = (r1, w1)" by (cases "wal_sync_file w")
  then show thesis
  proof (cases rule: wal_sync_fileE)
    case (ok evs)
    with True assms s show thesis by (intro that(2) [of evs]) (simp_all add: flush_locked_def)
  next
    case (failed e evs)
    with True assms s show thesis by (intro that(3) [of e evs]) (simp_all add: flush_locked_def)
  qed
next
  case False
  with assms show thesis by (intro that(1)) (simp_all add: flush_locked_def)
qed

text \<open>An append either changes nothing, or leaves a prefix of the encoded record behind, or appends
  all of it; in \<open>Sync\<close> mode it returns only after the whole file has been made durable.\<close>

lemma wal_append_cases:
  assumes "wal_append r w = (x, w')"
  obtains (rejected) e where "x = Inl e" and "w' = w"
  | (torn) e p evs where "x = Inl e" and "valid_record r" and "prefix p (wal_encode r)"
      and "w' = w\<lparr>ww_file := file_append p (ww_file w), ww_events := evs\<rparr>"
  | (unsynced) e evs where "x = Inl e" and "valid_record r" and "ww_mode w = SyncMode"
      and "w' = w\<lparr>ww_file := file_append (wal_encode r) (ww_file w), ww_events := evs,
        ww_bytes_appended := ww_bytes_appended w + of_nat (length (wal_encode r)), ww_dirty := True\<rparr>"
  | (acked) evs where "x = Inr ()" and "valid_record r" and "ww_background_error w = None"
      and "w' = (if ww_mode w = SyncMode
        then w\<lparr>ww_file := file_sync (file_append (wal_encode r) (ww_file w)), ww_events := evs,
          ww_bytes_appended := ww_bytes_appended w + of_nat (length (wal_encode r)), ww_dirty := False\<rparr>
        else w\<lparr>ww_file := file_append (wal_encode r) (ww_file w), ww_events := evs,
          ww_bytes_appended := ww_bytes_appended w + of_nat (length (wal_encode r)), ww_dirty := True\<rparr>)"
proof (cases "wal_serialize r")
  case (Inl e)
  with assms show thesis by (intro rejected [of e]) (simp_all add: wal_append_def)
next
  case ser: (Inr bs)
  then have r: "valid_record r" and bs: "bs = wal_encode r" by (auto simp: wal_serialize_eq)
  show thesis
  proof (cases "ww_background_error w")
    case (Some e)
    with assms ser show thesis
      by (intro rejected [of e]) (simp_all add: wal_append_def throw_if_background_flush_failed_locked_def)
  next
    case bg: None
    obtain x1 w1 where wr: "wal_write_all bs w = (x1, w1)" by (cases "wal_write_all bs w")
    from wr obtain p evs where p: "prefix p bs" "x1 = Inr () \<longrightarrow> p = bs"
      and w1: "w1 = w\<lparr>ww_file := file_append p (ww_file w), ww_events := evs\<rparr>" by (rule wal_write_allE)
    show thesis
    proof (cases x1)
      case (Inl e)
      with assms ser bg wr w1 p(1) r bs show thesis
        by (intro torn [of e p evs]) (simp_all add: wal_append_def throw_if_background_flush_failed_locked_def)
    next
      case (Inr u)
      with p(2) bs have pb: "p = wal_encode r" by simp
      define w2 where "w2 = w1\<lparr>ww_bytes_appended := ww_bytes_appended w1 + of_nat (length bs), ww_dirty := True\<rparr>"
      have "ww_mode w1 = ww_mode w" by (simp add: w1)
      then have app: "(if ww_mode w = SyncMode then flush_locked w2 else (Inr (), w2)) = (x, w')"
        using assms ser bg wr Inr
        by (simp add: wal_append_def throw_if_background_flush_failed_locked_def w2_def Let_def
            split: if_splits)
      show thesis
      proof (cases "ww_mode w = SyncMode")
        case True
        with app have "flush_locked w2 = (x, w')" by simp
        then show thesis
        proof (cases rule: flush_locked_cases)
          case clean
          then show thesis by (simp add: w2_def)
        next
          case (ok evs')
          then show thesis
            by (intro acked [of evs']) (simp_all add: r bg True w2_def w1 pb bs)
        next
          case (failed e evs')
          then show thesis
            by (intro unsynced [of e evs']) (simp_all add: r True w2_def w1 pb bs)
        qed
      next
        case False
        with app show thesis
          by (intro acked [of evs]) (simp_all add: r bg w2_def w1 pb bs)
      qed
    qed
  qed
qed


section \<open>Durability\<close>

text \<open>In \<open>Sync\<close> mode: what a list of appends leaves on file and on disk.\<close>

lemma wal_append_all_sync:
  assumes "ww_mode w = SyncMode" and "df_contents (ww_file w) = wal_log rs0"
    and "df_durable (ww_file w) = wal_log rs0" and "wal_append_all rs w = (n, w')"
  shows "n \<le> length rs \<and> df_durable (ww_file w') = wal_log (rs0 @ take n rs) \<and>
    (\<forall>r\<in>set (take n rs). valid_record r) \<and>
    (\<exists>p. df_contents (ww_file w') = wal_log (rs0 @ take n rs) @ p \<and>
      (p \<noteq> [] \<longrightarrow> n < length rs \<and> valid_record (rs ! n) \<and> prefix p (wal_encode (rs ! n))))"
  using assms
proof (induction rs arbitrary: w rs0 n)
  case (Cons r rs)
  obtain x w1 where app: "wal_append r w = (x, w1)" by (cases "wal_append r w")
  from app show ?case
  proof (cases rule: wal_append_cases)
    case (acked evs)
    obtain m w2 where rest: "wal_append_all rs w1 = (m, w2)" by (cases "wal_append_all rs w1")
    with Cons.prems app acked have nw: "n = Suc m" "w' = w2" by auto
    have "m \<le> length rs \<and> df_durable (ww_file w') = wal_log ((rs0 @ [r]) @ take m rs) \<and>
      (\<forall>r\<in>set (take m rs). valid_record r) \<and>
      (\<exists>p. df_contents (ww_file w') = wal_log ((rs0 @ [r]) @ take m rs) @ p \<and>
        (p \<noteq> [] \<longrightarrow> m < length rs \<and> valid_record (rs ! m) \<and> prefix p (wal_encode (rs ! m))))"
      by (rule Cons.IH [of w1]) (use Cons.prems acked rest nw in simp_all)
    with acked(2) nw(1) show ?thesis by simp
  next
    case (torn e p evs)
    with Cons.prems app have "n = 0" "w' = w1" by auto
    with torn Cons.prems show ?thesis by auto
  next
    case (unsynced e evs)
    with Cons.prems app have "n = 0" "w' = w1" by auto
    with unsynced Cons.prems show ?thesis by auto
  next
    case (rejected e)
    with Cons.prems app have "n = 0" "w' = w1" by auto
    with rejected Cons.prems show ?thesis by auto
  qed
qed simp

text \<open>What a crash leaves: the acknowledged records, possibly the one in flight, and a rest that is
  not a record.\<close>

lemma crash_image_log:
  assumes "ww_mode w = SyncMode" and "df_contents (ww_file w) = wal_log rs0"
    and "df_durable (ww_file w) = wal_log rs0" and "\<forall>r\<in>set rs0. valid_record r"
    and "wal_append_all rs w = (n, w')" and "crash_image (ww_file w') img"
  obtains j tail where "n \<le> j" and "j \<le> Suc n" and "j \<le> length rs"
    and "\<forall>r\<in>set (rs0 @ take j rs). valid_record r"
    and "img = wal_log (rs0 @ take j rs) @ tail" and "wal_decode tail = None"
proof -
  from wal_append_all_sync [OF assms(1-3,5)] obtain p where n: "n \<le> length rs"
    and durable: "df_durable (ww_file w') = wal_log (rs0 @ take n rs)"
    and valid: "\<forall>r\<in>set (take n rs). valid_record r"
    and contents: "df_contents (ww_file w') = wal_log (rs0 @ take n rs) @ p"
    and p: "p \<noteq> [] \<longrightarrow> n < length rs \<and> valid_record (rs ! n) \<and> prefix p (wal_encode (rs ! n))" by blast
  from assms(6) durable contents obtain q where img: "img = wal_log (rs0 @ take n rs) @ q" and q: "prefix q p"
    unfolding crash_image_def by (auto simp: prefix_def)
  have all: "\<forall>r\<in>set (rs0 @ take n rs). valid_record r" using assms(4) valid by auto
  show thesis
  proof (cases "n < length rs \<and> q = wal_encode (rs ! n) \<and> valid_record (rs ! n)")
    case True
    show thesis
    proof (rule that [of "Suc n" "[]"])
      show "img = wal_log (rs0 @ take (Suc n) rs) @ []"
        using True by (simp add: img take_Suc_conv_app_nth)
      show "\<forall>r\<in>set (rs0 @ take (Suc n) rs). valid_record r"
        using all True by (auto simp: take_Suc_conv_app_nth)
    qed (use True wal_codec.decode_empty in simp_all)
  next
    case False
    have "wal_decode q = None"
    proof (cases "q = []")
      case nonempty: False
      with q have "p \<noteq> []" by auto
      with p q have "valid_record (rs ! n)" "prefix q (wal_encode (rs ! n))" "n < length rs" by auto
      moreover from this False have "strict_prefix q (wal_encode (rs ! n))" by (auto simp: strict_prefix_def)
      ultimately show ?thesis using wal_codec.decode_torn by blast
    qed (simp add: wal_codec.decode_empty)
    with all img n show thesis by (intro that [of n q]) simp_all
  qed
qed




text \<open>Without \<open>Sync\<close> mode the file is durable after a flush.\<close>

lemma wal_append_all_acked:
  assumes "wal_append_all rs w = (length rs, w')" and "ww_dirty w \<or> df_durable (ww_file w) = df_contents (ww_file w)"
  shows "df_contents (ww_file w') = df_contents (ww_file w) @ wal_log rs \<and> ww_mode w' = ww_mode w \<and>
    (ww_dirty w' \<or> df_durable (ww_file w') = df_contents (ww_file w'))"
  using assms
proof (induction rs arbitrary: w)
  case (Cons r rs)
  obtain x w1 where app: "wal_append r w = (x, w1)" by (cases "wal_append r w")
  with Cons.prems(1) have x: "x = Inr ()" and rest: "wal_append_all rs w1 = (length rs, w')"
    by (auto split: sum.splits prod.splits)
  from app x obtain evs where w1: "w1 = (if ww_mode w = SyncMode
      then w\<lparr>ww_file := file_sync (file_append (wal_encode r) (ww_file w)), ww_events := evs,
        ww_bytes_appended := ww_bytes_appended w + of_nat (length (wal_encode r)), ww_dirty := False\<rparr>
      else w\<lparr>ww_file := file_append (wal_encode r) (ww_file w), ww_events := evs,
        ww_bytes_appended := ww_bytes_appended w + of_nat (length (wal_encode r)), ww_dirty := True\<rparr>)"
    by (cases rule: wal_append_cases) auto
  have "ww_dirty w1 \<or> df_durable (ww_file w1) = df_contents (ww_file w1)" by (simp add: w1)
  note IH = Cons.IH [OF rest this]
  have "df_contents (ww_file w1) = df_contents (ww_file w) @ wal_encode r" "ww_mode w1 = ww_mode w"
    by (simp_all add: w1)
  with IH show ?case by auto
qed simp

lemma flush_locked_durable:
  assumes "flush_locked w = (Inr (), w')" and "ww_dirty w \<or> df_durable (ww_file w) = df_contents (ww_file w)"
  shows "df_contents (ww_file w') = df_contents (ww_file w) \<and> df_durable (ww_file w') = df_contents (ww_file w) \<and>
    \<not> ww_dirty w'"
  using assms(1) by (cases rule: flush_locked_cases) (use assms(2) in auto)

lemma wal_reset_empties:
  assumes "wal_reset w = (Inr (), w')"
  shows "df_contents (ww_file w') = [] \<and> df_durable (ww_file w') = [] \<and> ww_bytes_appended w' = 0 \<and>
    \<not> ww_dirty w' \<and> ww_mode w' = ww_mode w"
proof -
  from assms obtain w1 w2 w3 w4 where "throw_if_background_flush_failed_locked w = (Inr (), w1)"
    and f: "flush_locked w1 = (Inr (), w2)" and t: "wal_truncate_file w2 = (Inr (), w3)"
    and s: "wal_sync_file w3 = (Inr (), w4)" and w': "w' = w4\<lparr>ww_bytes_appended := 0, ww_dirty := False\<rparr>"
    by (auto simp: wal_reset_def result_simps)
  then have "w1 = w"
    by (auto simp: throw_if_background_flush_failed_locked_def split: option.splits)
  from f have m2: "ww_mode w2 = ww_mode w1" by (cases rule: flush_locked_cases) auto
  from t have c3: "df_contents (ww_file w3) = []" "ww_mode w3 = ww_mode w2"
    by (auto simp: wal_truncate_file_def split: prod.splits sum.splits)
  from s have "df_contents (ww_file w4) = df_contents (ww_file w3)"
    "df_durable (ww_file w4) = df_contents (ww_file w3)" "ww_mode w4 = ww_mode w3"
    by (cases rule: wal_sync_fileE; simp)+
  with m2 c3 \<open>w1 = w\<close> show ?thesis by (simp add: w')
qed

text \<open>C21. In every durability mode, once a list of appends has been acknowledged, a \<open>flush\<close> that
  returns has made the whole log durable: the bytes on disk are the old contents followed by the
  encodings of these records.\<close>

theorem wal_flush_makes_durable:
  assumes "wal_append_all rs w = (length rs, w')" and "wal_flush w' = (Inr (), w'')"
    and "ww_dirty w \<or> df_durable (ww_file w) = df_contents (ww_file w)"
  shows "df_durable (ww_file w'') = df_contents (ww_file w) @ wal_log rs \<and>
    df_contents (ww_file w'') = df_durable (ww_file w'') \<and> \<not> ww_dirty w''"
proof -
  from assms(2) have fl: "flush_locked w' = (Inr (), w'')"
    by (auto simp: wal_flush_def result_simps throw_if_background_flush_failed_locked_def split: option.splits)
  from wal_append_all_acked [OF assms(1,3)] flush_locked_durable [OF fl] show ?thesis by auto
qed

theorem wal_flush_makes_durable_witness:
  "\<exists>w' w''. wal_append_all [\<lparr>wr_operation = Put, wr_key = [1], wr_value = [2]\<rparr>]
     \<lparr>ww_file = empty_file, ww_events = [Short 7, Interrupted, Short 100, Interrupted], ww_mode = BatchMode,
      ww_dirty = False, ww_stopping = False, ww_background_error = None, ww_bytes_appended = 0\<rparr> = (1, w') \<and>
   df_durable (ww_file w') = [] \<and> wal_flush w' = (Inr (), w'') \<and>
   df_durable (ww_file w'') = wal_encode \<lparr>wr_operation = Put, wr_key = [1], wr_value = [2]\<rparr>"
proof -
  define p where "p = \<lparr>wr_operation = Put, wr_key = [1], wr_value = [2]\<rparr>"
  define w where "w = \<lparr>ww_file = empty_file, ww_events = [Short 7, Interrupted, Short 100, Interrupted],
      ww_mode = BatchMode, ww_dirty = False, ww_stopping = False, ww_background_error = None, ww_bytes_appended = 0\<rparr>"
  have valid: "valid_record p"
    by (simp add: p_def valid_record_def kMaxKeySize_def kMaxValueSize_def)
  have len: "length (wal_encode p) = 22" by (simp add: length_wal_encode p_def)
  then have ne: "wal_encode p \<noteq> []" "drop 8 (wal_encode p) \<noteq> []" by auto
  obtain n w' where run: "wal_append_all [p] w = (n, w')" by (cases "wal_append_all [p] w")
  have "n = 1 \<and> ww_events w' = [Interrupted] \<and> df_durable (ww_file w') = [] \<and> ww_background_error w' = None"
    using run ne len
    by (auto simp: wal_append_def wal_serialize_valid valid w_def throw_if_background_flush_failed_locked_def
        wal_write_all_def bind_effect_def lift_result_def Let_def)
  then have n: "n = 1" and d: "df_durable (ww_file w') = []" and ev: "ww_events w' = [Interrupted]"
    "ww_background_error w' = None" by auto
  have "\<exists>w''. wal_flush w' = (Inr (), w'')"
    by (simp add: wal_flush_def throw_if_background_flush_failed_locked_def ev flush_locked_def
        wal_sync_file_def bind_effect_def)
  then obtain w'' where fl: "wal_flush w' = (Inr (), w'')" by blast
  have "df_durable (ww_file w'') = wal_encode p"
    using wal_flush_makes_durable [of "[p]" w w' w''] run fl by (simp add: n w_def)
  with run fl d show ?thesis unfolding n p_def w_def by auto
qed


section \<open>A torn append hides later records\<close>

text \<open>When a write is cut short, the writer stays usable and the torn bytes stay in the file.\<close>

lemma wal_append_torn_first_byte:
  assumes "valid_record r" and "ww_background_error w = None" and "ww_events w = [Short 0, Failed]"
  shows "wal_append r w = (Inl (SystemError ''failed to append WAL record''),
    w\<lparr>ww_file := file_append [78] (ww_file w), ww_events := []\<rparr>)"
proof -
  obtain x bs where bs: "wal_encode r = 78 # x # bs"
    by (simp add: wal_encode_def wal_body_def wal_header_def kMagic_def str_def)
  with assms show ?thesis
    by (simp add: wal_append_def wal_serialize_valid throw_if_background_flush_failed_locked_def
        wal_write_all_def Let_def)
qed

lemma wal_append_full:
  assumes "valid_record r" and "ww_background_error w = None" and "ww_events w = []" and "ww_mode w = SyncMode"
  shows "wal_append r w = (Inr (), w\<lparr>ww_file := file_sync (file_append (wal_encode r) (ww_file w)),
    ww_bytes_appended := ww_bytes_appended w + of_nat (length (wal_encode r)), ww_dirty := False\<rparr>)"
  using assms
  by (simp add: wal_append_def wal_serialize_valid throw_if_background_flush_failed_locked_def
      wal_write_all_def Let_def flush_locked_def wal_sync_file_def bind_effect_def)

text \<open>C22. The writer does not repair a torn append, and a later acknowledged record is lost: if
  an append fails after its first byte and the next append returns in \<open>Sync\<close> mode, then that
  record is durable in the file, yet a scan stops in front of the torn byte and delivers only
  what was there before.  (Every cut behind the first byte leaves a similar rest; recovery then
  truncates the file at that point.)\<close>

theorem wal_torn_append_loses_acknowledged:
  assumes "valid_record r1" and "valid_record r2" and "\<forall>r\<in>set rs0. valid_record r"
    and "ww_mode w = SyncMode" and "ww_background_error w = None" and "ww_events w = [Short 0, Failed]"
    and "df_contents (ww_file w) = wal_log rs0"
  shows "\<exists>e w1 w2 res. wal_append r1 w = (Inl e, w1) \<and> wal_append r2 w1 = (Inr (), w2) \<and>
    df_durable (ww_file w2) = wal_log rs0 @ 78 # wal_encode r2 \<and>
    wal_scan Opened collect [] (df_durable (ww_file w2)) [] = Inr (res, rs0) \<and>
    scan_issue res = Some (InvalidMagic, of_nat (length (wal_log rs0)))"
proof -
  define w1 where "w1 = w\<lparr>ww_file := file_append [78] (ww_file w), ww_events := []\<rparr>"
  define w2 where "w2 = w1\<lparr>ww_file := file_sync (file_append (wal_encode r2) (ww_file w1)),
    ww_bytes_appended := ww_bytes_appended w1 + of_nat (length (wal_encode r2)), ww_dirty := False\<rparr>"
  have first: "wal_append r1 w = (Inl (SystemError ''failed to append WAL record''), w1)"
    unfolding w1_def by (rule wal_append_torn_first_byte [OF assms(1,5,6)])
  have second: "wal_append r2 w1 = (Inr (), w2)"
    unfolding w2_def by (rule wal_append_full [OF assms(2)]) (simp_all add: w1_def assms)
  have durable: "df_durable (ww_file w2) = wal_log rs0 @ 78 # wal_encode r2"
    by (simp add: w2_def w1_def assms)
  have len: "length (take 16 (78 # wal_encode r2)) = 16" by (simp add: length_wal_encode)
  have "take 4 (take 16 (78 # wal_encode r2)) \<noteq> kMagic"
    by (simp add: wal_encode_def wal_body_def wal_header_def kMagic_def str_def)
  then have "wal_read_spec [] (78 # wal_encode r2) = BadRecord InvalidMagic"
    using wal_parse_header_eq [OF len] by (simp add: wal_read_spec_def length_wal_encode Let_def)
  then have "wal_decode (78 # wal_encode r2) = None" "tail_issue (78 # wal_encode r2) = Some InvalidMagic"
    by (simp_all add: wal_decode_def tail_issue_def)
  with wal_scan_log [of "[]" rs0 "78 # wal_encode r2" collect "[]"] assms(3)
  have "wal_scan Opened collect [] (df_durable (ww_file w2)) [] =
      Inr (scan_outcome empty_scan rs0 (Some InvalidMagic), rs0)"
    by (simp add: durable)
  then show ?thesis
    using first second durable by (auto simp: scan_outcome_def empty_scan_def Let_def)
qed

theorem wal_torn_append_loses_acknowledged_witness:
  "\<exists>e w1 w2 res. wal_append \<lparr>wr_operation = Put, wr_key = [1], wr_value = [2]\<rparr>
     \<lparr>ww_file = empty_file, ww_events = [Short 0, Failed], ww_mode = SyncMode,
      ww_dirty = False, ww_stopping = False, ww_background_error = None, ww_bytes_appended = 0\<rparr> = (Inl e, w1) \<and>
   wal_append \<lparr>wr_operation = Put, wr_key = [3], wr_value = [4]\<rparr> w1 = (Inr (), w2) \<and>
   wal_scan Opened collect [] (df_durable (ww_file w2)) [] = Inr (res, [])"
  using wal_torn_append_loses_acknowledged [of "\<lparr>wr_operation = Put, wr_key = [1], wr_value = [2]\<rparr>"
      "\<lparr>wr_operation = Put, wr_key = [3], wr_value = [4]\<rparr>" "[]"
      "\<lparr>ww_file = empty_file, ww_events = [Short 0, Failed], ww_mode = SyncMode,
        ww_dirty = False, ww_stopping = False, ww_background_error = None, ww_bytes_appended = 0\<rparr>"]
  by (fastforce simp: valid_record_def kMaxKeySize_def kMaxValueSize_def)

end
