(* ===== verification/KeyValueStore.thy ===== *)
theory KeyValueStore
  imports Validation "HOL-Library.Mapping"
begin

text \<open>
  The \<open>KeyValueStore\<close> interface class (\<open>include/nebulakv/key_value_store.hpp\<close>) as a locale,
  and its simplest implementation, \<open>InMemoryKeyValueStore\<close>
  (\<open>src/in_memory_key_value_store.cpp\<close>).

  The contract is stated against an abstract map \<open>view\<close> from keys to values.  An operation
  either throws, and then the store keeps its state, or returns the next state.  The measure
  \<open>capacity\<close> bounds the writes a store can still accept: the log-structured stores hand out
  64-bit sequence numbers and throw once these are used up.
\<close>

section \<open>Sequences of writes\<close>

datatype kv_op = OpPut bytes bytes | OpRemove bytes

primrec valid_op :: "kv_op \<Rightarrow> bool" where
  "valid_op (OpPut k v) \<longleftrightarrow> valid_key k \<and> valid_value v"
| "valid_op (OpRemove k) \<longleftrightarrow> valid_key k"

primrec apply_op :: "kv_op \<Rightarrow> (bytes \<rightharpoonup> bytes) \<Rightarrow> bytes \<rightharpoonup> bytes" where
  "apply_op (OpPut k v) m = m(k \<mapsto> v)"
| "apply_op (OpRemove k) m = m(k := None)"

fun run_ops :: "('s \<Rightarrow> bytes \<Rightarrow> bytes \<Rightarrow> 's result) \<Rightarrow> ('s \<Rightarrow> bytes \<Rightarrow> (bool \<times> 's) result) \<Rightarrow>
    's \<Rightarrow> kv_op list \<Rightarrow> 's result" where
  "run_ops put remove s [] = Inr s"
| "run_ops put remove s (OpPut k v # ops) = bind_result (put s k v) (\<lambda>s'. run_ops put remove s' ops)"
| "run_ops put remove s (OpRemove k # ops) =
     bind_result (remove s k) (\<lambda>r. run_ops put remove (snd r) ops)"

section \<open>The interface\<close>

locale key_value_store =
  fixes put :: "'s \<Rightarrow> bytes \<Rightarrow> bytes \<Rightarrow> 's result"
    and remove :: "'s \<Rightarrow> bytes \<Rightarrow> (bool \<times> 's) result"
    and invar :: "'s \<Rightarrow> bool"
    and view :: "'s \<Rightarrow> bytes \<rightharpoonup> bytes"
    and capacity :: "'s \<Rightarrow> nat"
  assumes put_invar: "invar s \<Longrightarrow> put s k v = Inr s' \<Longrightarrow> invar s'"
    and put_view: "invar s \<Longrightarrow> put s k v = Inr s' \<Longrightarrow> view s' = (view s)(k \<mapsto> v)"
    and put_capacity: "invar s \<Longrightarrow> put s k v = Inr s' \<Longrightarrow> capacity s \<le> Suc (capacity s')"
    and put_accepts: "invar s \<Longrightarrow> valid_key k \<Longrightarrow> valid_value v \<Longrightarrow> 0 < capacity s \<Longrightarrow>
      \<exists>s'. put s k v = Inr s'"
    and put_rejects: "\<not> (valid_key k \<and> valid_value v) \<Longrightarrow> \<exists>e. put s k v = Inl e"
    and remove_invar: "invar s \<Longrightarrow> remove s k = Inr (b, s') \<Longrightarrow> invar s'"
    and remove_view: "invar s \<Longrightarrow> remove s k = Inr (b, s') \<Longrightarrow> view s' = (view s)(k := None)"
    and remove_found: "invar s \<Longrightarrow> remove s k = Inr (b, s') \<Longrightarrow> b \<longleftrightarrow> view s k \<noteq> None"
    and remove_capacity: "invar s \<Longrightarrow> remove s k = Inr (b, s') \<Longrightarrow> capacity s \<le> Suc (capacity s')"
    and remove_accepts: "invar s \<Longrightarrow> valid_key k \<Longrightarrow> 0 < capacity s \<Longrightarrow>
      \<exists>r. remove s k = Inr r"
    and remove_rejects: "\<not> valid_key k \<Longrightarrow> \<exists>e. remove s k = Inl e"
begin

lemma put_then_put:
  assumes "invar s" and "put s k v = Inr s'" and "put s' k v' = Inr s''"
  shows "view s'' = (view s)(k \<mapsto> v')"
  using assms put_invar [of s k v s'] put_view by auto

lemma put_then_remove:
  assumes "invar s" and "put s k v = Inr s'" and "remove s' k = Inr (b, s'')"
  shows "b" and "view s'' = (view s)(k := None)"
  using assms put_invar [of s k v s'] put_view [of s k v s'] remove_view [of s' k b s'']
    remove_found [of s' k b s''] by auto

lemma remove_twice:
  assumes "invar s" and "remove s k = Inr (b, s')" and "remove s' k = Inr (b', s'')"
  shows "\<not> b'"
  using assms remove_invar [of s k b s'] remove_view [of s k b s'] remove_found [of s' k b' s'']
  by auto

text \<open>Any sequence of valid writes within the capacity runs to its end and acts on the view as
  on a plain map.\<close>

lemma run_ops_view:
  assumes "invar s" and "\<forall>op\<in>set ops. valid_op op" and "length ops \<le> capacity s"
  shows "\<exists>s'. run_ops put remove s ops = Inr s' \<and> invar s' \<and> view s' = fold apply_op ops (view s)"
  using assms
proof (induction ops arbitrary: s)
  case (Cons op ops)
  show ?case
  proof (cases op)
    case (OpPut k v)
    with Cons.prems put_accepts [of s k v] obtain s' where s': "put s k v = Inr s'" by auto
    note facts = put_invar [OF Cons.prems(1) s'] put_view [OF Cons.prems(1) s']
      put_capacity [OF Cons.prems(1) s']
    with Cons.IH [of s'] Cons.prems OpPut s' show ?thesis by (auto simp: fun_upd_def)
  next
    case (OpRemove k)
    with Cons.prems remove_accepts [of s k] obtain b s' where s': "remove s k = Inr (b, s')" by auto
    note facts = remove_invar [OF Cons.prems(1) s'] remove_view [OF Cons.prems(1) s']
      remove_capacity [OF Cons.prems(1) s']
    with Cons.IH [of s'] Cons.prems OpRemove s' show ?thesis by (auto simp: fun_upd_def)
  qed
qed simp

end

text \<open>A store whose reads are pure: \<open>get\<close> and \<open>exists\<close> return what the view holds.\<close>

locale readable_store = key_value_store put remove invar view capacity
  for put :: "'s \<Rightarrow> bytes \<Rightarrow> bytes \<Rightarrow> 's result"
    and remove :: "'s \<Rightarrow> bytes \<Rightarrow> (bool \<times> 's) result"
    and invar :: "'s \<Rightarrow> bool"
    and view :: "'s \<Rightarrow> bytes \<rightharpoonup> bytes"
    and capacity :: "'s \<Rightarrow> nat" +
  fixes get :: "'s \<Rightarrow> bytes \<Rightarrow> bytes option result"
    and exists_key :: "'s \<Rightarrow> bytes \<Rightarrow> bool result"
  assumes get_view: "invar s \<Longrightarrow> valid_key k \<Longrightarrow> get s k = Inr (view s k)"
    and exists_view: "invar s \<Longrightarrow> valid_key k \<Longrightarrow> exists_key s k = Inr (view s k \<noteq> None)"
begin

lemma get_after_put:
  assumes "invar s" and "put s k v = Inr s'" and "valid_key k'"
  shows "get s' k' = (if k' = k then Inr (Some v) else get s k')"
  using assms put_invar [OF assms(1,2)] put_view [OF assms(1,2)] by (simp add: get_view)

lemma get_after_remove:
  assumes "invar s" and "remove s k = Inr (b, s')" and "valid_key k'"
  shows "get s' k' = (if k' = k then Inr None else get s k')"
  using assms remove_invar [OF assms(1,2)] remove_view [OF assms(1,2)] by (simp add: get_view)

lemma get_after_run:
  assumes "invar s" and "\<forall>op\<in>set ops. valid_op op" and "length ops \<le> capacity s"
  shows "\<exists>s'. run_ops put remove s ops = Inr s' \<and>
    (\<forall>k. valid_key k \<longrightarrow> get s' k = Inr (fold apply_op ops (view s) k))"
proof -
  from run_ops_view [OF assms] obtain s' where "run_ops put remove s ops = Inr s'"
    and "invar s'" and "view s' = fold apply_op ops (view s)" by blast
  then show ?thesis by (auto simp: get_view)
qed

lemma exists_iff_get:
  assumes "invar s" and "valid_key k"
  shows "exists_key s k = Inr True \<longleftrightarrow> (\<exists>v. get s k = Inr (Some v))"
  using assms by (simp add: get_view exists_view)

end

section \<open>The in-memory store\<close>

record in_memory_store =
  im_entries :: "(bytes, bytes) mapping"

definition in_memory_empty :: in_memory_store where
  "in_memory_empty = \<lparr>im_entries = Mapping.empty\<rparr>"

definition in_memory_put :: "in_memory_store \<Rightarrow> bytes \<Rightarrow> bytes \<Rightarrow> in_memory_store result" where
  "in_memory_put s key v =
     bind_result (validate_key key) (\<lambda>_.
     bind_result (validate_value v) (\<lambda>_.
     Inr (s\<lparr>im_entries := Mapping.update key v (im_entries s)\<rparr>)))"

definition in_memory_get :: "in_memory_store \<Rightarrow> bytes \<Rightarrow> bytes option result" where
  "in_memory_get s key =
     bind_result (validate_key key) (\<lambda>_. Inr (Mapping.lookup (im_entries s) key))"

definition in_memory_remove :: "in_memory_store \<Rightarrow> bytes \<Rightarrow> (bool \<times> in_memory_store) result" where
  "in_memory_remove s key =
     bind_result (validate_key key) (\<lambda>_.
       case Mapping.lookup (im_entries s) key of
         None \<Rightarrow> Inr (False, s)
       | Some _ \<Rightarrow> Inr (True, s\<lparr>im_entries := Mapping.delete key (im_entries s)\<rparr>))"

definition in_memory_exists :: "in_memory_store \<Rightarrow> bytes \<Rightarrow> bool result" where
  "in_memory_exists s key =
     bind_result (validate_key key) (\<lambda>_. Inr (Mapping.lookup (im_entries s) key \<noteq> None))"

definition in_memory_size :: "in_memory_store \<Rightarrow> nat" where
  "in_memory_size s = Mapping.size (im_entries s)"

definition in_memory_view :: "in_memory_store \<Rightarrow> bytes \<rightharpoonup> bytes" where
  "in_memory_view s = Mapping.lookup (im_entries s)"

lemmas in_memory_defs = in_memory_put_def in_memory_get_def in_memory_remove_def
  in_memory_exists_def in_memory_view_def

interpretation in_memory: readable_store in_memory_put in_memory_remove "\<lambda>_. True" in_memory_view
  "\<lambda>_. 1" in_memory_get in_memory_exists
  by unfold_locales
    (auto simp: in_memory_defs result_simps lookup_update lookup_delete fun_eq_iff
       lookup_update' validate_key_def validate_value_def
       split: option.splits if_splits)

lemma in_memory_size_view:
  "finite (dom (in_memory_view s)) \<Longrightarrow> in_memory_size s = card (dom (in_memory_view s))"
  by (simp add: in_memory_size_def in_memory_view_def Mapping.size_def keys_dom_lookup)

end
