(* ===== verification/MemTable.thy ===== *)
theory MemTable
  imports Validation
begin

text \<open>
  \<open>MemTable\<close> (\<open>src/memtable.cpp\<close>): an ordered map from keys to versioned entries, with a
  running estimate of its memory use and a frozen state.  Every member function runs under
  the table's mutex and is one definition here; a throwing call leaves the table as it was.
  \<open>abi\<close> carries the two \<open>sizeof\<close> values the estimate depends on.
\<close>

section \<open>Data\<close>

record entry =
  entry_value :: bytes
  entry_sequence_number :: u64
  entry_deleted :: bool

record abi =
  sizeof_value_type :: u64
  sizeof_pointer :: u64

record memtable =
  mt_generation :: u64
  mt_entries :: "(bytes \<times> entry) list"
  mt_approximate_memory_usage :: u64
  mt_immutable :: bool

datatype lookup_state = LookupValue | LookupTombstone

type_synonym snapshot = "(bytes \<times> entry) list"

section \<open>Operations\<close>

definition memtable_new :: "u64 \<Rightarrow> memtable" where
  "memtable_new generation =
     \<lparr>mt_generation = generation, mt_entries = [], mt_approximate_memory_usage = 0,
      mt_immutable = False\<rparr>"

definition estimated_entry_size :: "abi \<Rightarrow> bytes \<Rightarrow> entry \<Rightarrow> u64" where
  "estimated_entry_size A key e =
     sizeof_value_type A + sizeof_pointer A * 4 + of_nat (length key) + of_nat (length (entry_value e))"

definition ensure_mutable :: "memtable \<Rightarrow> unit result" where
  "ensure_mutable t = throw_if (mt_immutable t) (LogicError ''cannot modify an immutable MemTable'')"

definition memtable_insert_or_assign :: "abi \<Rightarrow> memtable \<Rightarrow> bytes \<Rightarrow> entry \<Rightarrow> memtable result" where
  "memtable_insert_or_assign A t key e =
     bind_result (ensure_mutable t) (\<lambda>_.
       case map_of (mt_entries t) key of
         Some existing \<Rightarrow>
           if entry_sequence_number e \<le> entry_sequence_number existing
           then Inl (InvalidArgument ''MemTable updates require a newer sequence number'')
           else Inr (t\<lparr>mt_entries := map_insert_or_assign key e (mt_entries t),
                       mt_approximate_memory_usage :=
                         mt_approximate_memory_usage t - estimated_entry_size A key existing
                         + estimated_entry_size A key e\<rparr>)
       | None \<Rightarrow>
           Inr (t\<lparr>mt_entries := map_insert_or_assign key e (mt_entries t),
                  mt_approximate_memory_usage :=
                    mt_approximate_memory_usage t + estimated_entry_size A key e\<rparr>))"

definition memtable_put :: "abi \<Rightarrow> memtable \<Rightarrow> bytes \<Rightarrow> bytes \<Rightarrow> u64 \<Rightarrow> memtable result" where
  "memtable_put A t key v sequence_number =
     bind_result (validate_key key) (\<lambda>_.
     bind_result (validate_value v) (\<lambda>_.
     bind_result (throw_if (sequence_number = 0)
       (InvalidArgument ''MemTable sequence numbers must be greater than zero'')) (\<lambda>_.
     memtable_insert_or_assign A t key
       \<lparr>entry_value = v, entry_sequence_number = sequence_number, entry_deleted = False\<rparr>)))"

definition memtable_add_tombstone :: "abi \<Rightarrow> memtable \<Rightarrow> bytes \<Rightarrow> u64 \<Rightarrow> memtable result" where
  "memtable_add_tombstone A t key sequence_number =
     bind_result (validate_key key) (\<lambda>_.
     bind_result (throw_if (sequence_number = 0)
       (InvalidArgument ''MemTable sequence numbers must be greater than zero'')) (\<lambda>_.
     memtable_insert_or_assign A t key
       \<lparr>entry_value = [], entry_sequence_number = sequence_number, entry_deleted = True\<rparr>))"

definition memtable_get_entry :: "memtable \<Rightarrow> bytes \<Rightarrow> entry option result" where
  "memtable_get_entry t key = bind_result (validate_key key) (\<lambda>_. Inr (map_of (mt_entries t) key))"

definition memtable_lookup_state :: "memtable \<Rightarrow> bytes \<Rightarrow> lookup_state option result" where
  "memtable_lookup_state t key =
     bind_result (validate_key key) (\<lambda>_.
       case map_of (mt_entries t) key of
         None \<Rightarrow> Inr None
       | Some e \<Rightarrow> Inr (Some (if entry_deleted e then LookupTombstone else LookupValue)))"

definition memtable_snapshot :: "memtable \<Rightarrow> snapshot" where
  "memtable_snapshot t = mt_entries t"

definition memtable_freeze :: "memtable \<Rightarrow> memtable" where
  "memtable_freeze t = t\<lparr>mt_immutable := True\<rparr>"

definition memtable_is_empty :: "memtable \<Rightarrow> bool" where
  "memtable_is_empty t \<longleftrightarrow> mt_entries t = []"

definition memtable_entry_count :: "memtable \<Rightarrow> nat" where
  "memtable_entry_count t = length (mt_entries t)"

section \<open>Invariant\<close>

definition valid_entry :: "bytes \<times> entry \<Rightarrow> bool" where
  "valid_entry ke \<longleftrightarrow> valid_key (fst ke) \<and> valid_value (entry_value (snd ke)) \<and>
     entry_sequence_number (snd ke) \<noteq> 0 \<and>
     (entry_deleted (snd ke) \<longrightarrow> entry_value (snd ke) = [])"

definition memtable_inv :: "abi \<Rightarrow> memtable \<Rightarrow> bool" where
  "memtable_inv A t \<longleftrightarrow>
     sorted_map (mt_entries t) \<and> (\<forall>ke\<in>set (mt_entries t). valid_entry ke) \<and>
     mt_approximate_memory_usage t = (\<Sum>(k, e)\<leftarrow>mt_entries t. estimated_entry_size A k e)"

lemma memtable_inv_new [simp]: "memtable_inv A (memtable_new g)"
  by (simp add: memtable_inv_def memtable_new_def)

lemma memtable_inv_freeze [simp]: "memtable_inv A (memtable_freeze t) = memtable_inv A t"
  by (simp add: memtable_inv_def memtable_freeze_def)

text \<open>Everything a successful insertion does, in one place.\<close>

lemma memtable_insert_or_assignD:
  assumes "memtable_insert_or_assign A t key e = Inr t'"
  shows "mt_entries t' = map_insert_or_assign key e (mt_entries t)"
    and "mt_generation t' = mt_generation t" and "mt_immutable t' = mt_immutable t"
    and "\<not> mt_immutable t"
  using assms
  by (auto simp: memtable_insert_or_assign_def ensure_mutable_def split: option.splits if_splits)

lemma memtable_insert_or_assign_inv:
  assumes inv: "memtable_inv A t" and ok: "memtable_insert_or_assign A t key e = Inr t'"
    and valid: "valid_entry (key, e)"
  shows "memtable_inv A t'"
proof -
  note entries = memtable_insert_or_assignD(1) [OF ok]
  from inv have sorted: "sorted_map (mt_entries t)"
    and mem: "mt_approximate_memory_usage t = (\<Sum>(k, e)\<leftarrow>mt_entries t. estimated_entry_size A k e)"
    by (auto simp: memtable_inv_def)
  have "mt_approximate_memory_usage t' = (\<Sum>(k, e)\<leftarrow>mt_entries t'. estimated_entry_size A k e)"
    using ok entries mem sum_list_insert_or_assign [OF sorted, of "\<lambda>(k, e). estimated_entry_size A k e" key e]
    by (auto simp: memtable_insert_or_assign_def ensure_mutable_def split: option.splits if_splits)
  moreover have "\<forall>ke\<in>set (mt_entries t'). valid_entry ke"
    using inv valid entries set_insert_or_assign_subset [of key e "mt_entries t"]
    by (auto simp: memtable_inv_def)
  ultimately show ?thesis
    using sorted entries by (simp add: memtable_inv_def sorted_map_insert_or_assign)
qed

lemma memtable_putD:
  assumes "memtable_put A t key v s = Inr t'"
  shows "memtable_insert_or_assign A t key
      \<lparr>entry_value = v, entry_sequence_number = s, entry_deleted = False\<rparr> = Inr t'"
    and "valid_key key" and "valid_value v" and "s \<noteq> 0"
  using assms by (auto simp: memtable_put_def result_simps split: if_splits)

lemma memtable_add_tombstoneD:
  assumes "memtable_add_tombstone A t key s = Inr t'"
  shows "memtable_insert_or_assign A t key
      \<lparr>entry_value = [], entry_sequence_number = s, entry_deleted = True\<rparr> = Inr t'"
    and "valid_key key" and "s \<noteq> 0"
  using assms by (auto simp: memtable_add_tombstone_def result_simps split: if_splits)

text \<open>An insertion whose sequence number is above every stored one always succeeds.\<close>

lemma memtable_insert_or_assign_accepts:
  assumes "\<not> mt_immutable t"
    and "\<And>k e'. (k, e') \<in> set (mt_entries t) \<Longrightarrow> entry_sequence_number e' < entry_sequence_number e"
  shows "\<exists>t'. memtable_insert_or_assign A t key e = Inr t'"
proof (cases "map_of (mt_entries t) key")
  case (Some e')
  then have "(key, e') \<in> set (mt_entries t)" by (rule map_of_SomeD)
  then have "entry_sequence_number e' < entry_sequence_number e" by (rule assms(2))
  with Some assms(1) show ?thesis
    by (simp add: memtable_insert_or_assign_def ensure_mutable_def)
qed (simp add: memtable_insert_or_assign_def ensure_mutable_def assms(1))

lemma memtable_put_inv:
  assumes "memtable_inv A t" and "memtable_put A t key v s = Inr t'"
  shows "memtable_inv A t'"
  by (rule memtable_insert_or_assign_inv [OF assms(1) memtable_putD(1) [OF assms(2)]])
    (use memtable_putD(2-4) [OF assms(2)] in \<open>simp add: valid_entry_def\<close>)

lemma memtable_add_tombstone_inv:
  assumes "memtable_inv A t" and "memtable_add_tombstone A t key s = Inr t'"
  shows "memtable_inv A t'"
  by (rule memtable_insert_or_assign_inv [OF assms(1) memtable_add_tombstoneD(1) [OF assms(2)]])
    (use memtable_add_tombstoneD(2-3) [OF assms(2)] in \<open>simp add: valid_entry_def\<close>)

lemma map_of_memtable_put:
  assumes "memtable_put A t key v s = Inr t'"
  shows "map_of (mt_entries t') = (map_of (mt_entries t))
    (key \<mapsto> \<lparr>entry_value = v, entry_sequence_number = s, entry_deleted = False\<rparr>)"
  using memtable_insert_or_assignD(1) [OF memtable_putD(1) [OF assms]] by simp

lemma map_of_memtable_add_tombstone:
  assumes "memtable_add_tombstone A t key s = Inr t'"
  shows "map_of (mt_entries t') = (map_of (mt_entries t))
    (key \<mapsto> \<lparr>entry_value = [], entry_sequence_number = s, entry_deleted = True\<rparr>)"
  using memtable_insert_or_assignD(1) [OF memtable_add_tombstoneD(1) [OF assms]] by simp


text \<open>C7. A put into a well-formed table succeeds exactly when the key, the value and the
  sequence number are acceptable, the table is not frozen and the stored version of the key, if
  any, is older.  The result is again well formed (keys strictly ascending, memory estimate equal
  to the sum of the entry sizes, modulo \<open>2 ^ 64\<close>) and maps the key to the new version.\<close>

theorem memtable_put_outcome:
  assumes "memtable_inv A t"
  shows "case memtable_put A t key v s of
      Inl e \<Rightarrow> \<not> valid_key key \<or> \<not> valid_value v \<or> s = 0 \<or> mt_immutable t \<or>
        (\<exists>old. map_of (mt_entries t) key = Some old \<and> s \<le> entry_sequence_number old)
    | Inr t' \<Rightarrow> valid_key key \<and> valid_value v \<and> s \<noteq> 0 \<and> \<not> mt_immutable t \<and>
        (\<forall>old. map_of (mt_entries t) key = Some old \<longrightarrow> entry_sequence_number old < s) \<and>
        memtable_inv A t' \<and> mt_generation t' = mt_generation t \<and> \<not> mt_immutable t' \<and>
        map_of (mt_entries t') = (map_of (mt_entries t))
          (key \<mapsto> \<lparr>entry_value = v, entry_sequence_number = s, entry_deleted = False\<rparr>)"
proof (cases "memtable_put A t key v s")
  case (Inl e)
  then show ?thesis
    by (cases "valid_key key") (auto simp: memtable_put_def memtable_insert_or_assign_def ensure_mutable_def
        split: option.splits if_splits)
next
  case (Inr t')
  note ins = memtable_putD(1) [OF Inr]
  from ins have "\<forall>old. map_of (mt_entries t) key = Some old \<longrightarrow> entry_sequence_number old < s"
    by (auto simp: memtable_insert_or_assign_def ensure_mutable_def split: if_splits)
  with Inr assms memtable_putD(2-4) [OF Inr] memtable_insert_or_assignD(2-4) [OF ins]
  show ?thesis
    by (simp add: memtable_put_inv map_of_memtable_put)
qed

theorem memtable_put_outcome_witness:
  "memtable_inv \<lparr>sizeof_value_type = 80, sizeof_pointer = 8\<rparr> (memtable_new 3) \<and>
   (case memtable_put \<lparr>sizeof_value_type = 80, sizeof_pointer = 8\<rparr> (memtable_new 3) [1] [2, 3] 9 of
      Inl e \<Rightarrow> False
    | Inr t' \<Rightarrow> map_of (mt_entries t') [1] =
        Some \<lparr>entry_value = [2, 3], entry_sequence_number = 9, entry_deleted = False\<rparr>)"
  using memtable_put_outcome [of "\<lparr>sizeof_value_type = 80, sizeof_pointer = 8\<rparr>" "memtable_new 3"
      "[1]" "[2, 3]" 9]
  by (auto simp: kMaxKeySize_def kMaxValueSize_def memtable_new_def memtable_inv_def split: sum.splits)

end
