(* ===== verification/MemTableSet.thy ===== *)
theory MemTableSet
  imports MemTable KeyValueStore
begin

text \<open>
  \<open>MemTableSet\<close> (\<open>src/memtable_set.cpp\<close>): one active table, a queue of frozen tables with
  the newest in front, and the counters for sequence numbers, generations and live keys.  All
  writers hold \<open>write_mutex_\<close>, so a write is one step; the pointer comparison of
  \<open>rotate_if_required\<close> is true in every such step, because only writers replace the active
  table.
\<close>

section \<open>State\<close>

record memtable_set =
  ms_max_memory_bytes :: u64
  ms_active :: memtable
  ms_immutable_tables :: "memtable list"
  ms_next_generation :: u64
  ms_live_key_count :: u64
  ms_last_sequence_number :: u64

section \<open>Operations\<close>

definition memtable_set_new :: "u64 \<Rightarrow> u64 \<Rightarrow> u64 \<Rightarrow> memtable_set result" where
  "memtable_set_new max_memory_bytes initial_sequence_number initial_generation =
     (if max_memory_bytes = 0
      then Inl (InvalidArgument ''MemTable memory limit must be greater than zero'')
      else Inr \<lparr>ms_max_memory_bytes = max_memory_bytes,
                ms_active = memtable_new initial_generation,
                ms_immutable_tables = [],
                ms_next_generation = initial_generation + 1,
                ms_live_key_count = 0,
                ms_last_sequence_number = initial_sequence_number\<rparr>)"

definition ms_tables :: "memtable_set \<Rightarrow> memtable list" where
  "ms_tables m = ms_active m # ms_immutable_tables m"

fun latest_entry_in :: "memtable list \<Rightarrow> bytes \<Rightarrow> entry option result" where
  "latest_entry_in [] key = Inr None"
| "latest_entry_in (t # ts) key =
     bind_result (memtable_get_entry t key) (\<lambda>r.
       case r of Some e \<Rightarrow> Inr (Some e) | None \<Rightarrow> latest_entry_in ts key)"

definition latest_entry_without_validation :: "memtable_set \<Rightarrow> bytes \<Rightarrow> entry option result" where
  "latest_entry_without_validation m key = latest_entry_in (ms_tables m) key"

fun latest_state_in :: "memtable list \<Rightarrow> bytes \<Rightarrow> lookup_state option result" where
  "latest_state_in [] key = Inr None"
| "latest_state_in (t # ts) key =
     bind_result (memtable_lookup_state t key) (\<lambda>r.
       case r of Some st \<Rightarrow> Inr (Some st) | None \<Rightarrow> latest_state_in ts key)"

definition latest_state_without_validation :: "memtable_set \<Rightarrow> bytes \<Rightarrow> lookup_state option result" where
  "latest_state_without_validation m key = latest_state_in (ms_tables m) key"

definition memtable_set_latest_entry :: "memtable_set \<Rightarrow> bytes \<Rightarrow> entry option result" where
  "memtable_set_latest_entry m key =
     bind_result (validate_key key) (\<lambda>_. latest_entry_without_validation m key)"

definition next_sequence_number :: "memtable_set \<Rightarrow> u64 result" where
  "next_sequence_number m =
     (if ms_last_sequence_number m = - 1
      then Inl (OverflowError ''MemTable sequence number space is exhausted'')
      else Inr (ms_last_sequence_number m + 1))"

definition ms_rotate :: "memtable_set \<Rightarrow> memtable_set" where
  "ms_rotate m = m\<lparr>ms_immutable_tables := memtable_freeze (ms_active m) # ms_immutable_tables m,
                   ms_active := memtable_new (ms_next_generation m),
                   ms_next_generation := ms_next_generation m + 1\<rparr>"

definition rotate_if_required :: "memtable_set \<Rightarrow> memtable_set" where
  "rotate_if_required m =
     (if mt_approximate_memory_usage (ms_active m) < ms_max_memory_bytes m then m
      else if memtable_is_empty (ms_active m) then m
      else ms_rotate m)"

definition rotate_active :: "memtable_set \<Rightarrow> memtable option \<times> memtable_set" where
  "rotate_active m =
     (if memtable_is_empty (ms_active m) then (None, m)
      else (Some (memtable_freeze (ms_active m)), ms_rotate m))"

definition memtable_set_put :: "abi \<Rightarrow> memtable_set \<Rightarrow> bytes \<Rightarrow> bytes \<Rightarrow> memtable_set result" where
  "memtable_set_put A m key v =
     bind_result (validate_key key) (\<lambda>_.
     bind_result (validate_value v) (\<lambda>_.
     bind_result (latest_state_without_validation m key) (\<lambda>previous_state.
     bind_result (next_sequence_number m) (\<lambda>sequence_number.
     bind_result (memtable_put A (ms_active m) key v sequence_number) (\<lambda>table.
     let was_live = (previous_state = Some LookupValue);
         m1 = m\<lparr>ms_active := table\<rparr>;
         m2 = (if was_live then m1 else m1\<lparr>ms_live_key_count := ms_live_key_count m1 + 1\<rparr>)
     in Inr (rotate_if_required (m2\<lparr>ms_last_sequence_number := sequence_number\<rparr>)))))))"

definition memtable_set_get :: "memtable_set \<Rightarrow> bytes \<Rightarrow> bytes option result" where
  "memtable_set_get m key =
     bind_result (memtable_set_latest_entry m key) (\<lambda>r.
       case r of
         None \<Rightarrow> Inr None
       | Some e \<Rightarrow> if entry_deleted e then Inr None else Inr (Some (entry_value e)))"

definition memtable_set_remove :: "abi \<Rightarrow> memtable_set \<Rightarrow> bytes \<Rightarrow> (bool \<times> memtable_set) result" where
  "memtable_set_remove A m key =
     bind_result (validate_key key) (\<lambda>_.
     bind_result (latest_state_without_validation m key) (\<lambda>previous_state.
     if previous_state \<noteq> Some LookupValue then Inr (False, m)
     else
       bind_result (next_sequence_number m) (\<lambda>sequence_number.
       bind_result (memtable_add_tombstone A (ms_active m) key sequence_number) (\<lambda>table.
       Inr (True, rotate_if_required
         (m\<lparr>ms_active := table, ms_live_key_count := ms_live_key_count m - 1,
            ms_last_sequence_number := sequence_number\<rparr>))))))"

definition memtable_set_add_tombstone :: "abi \<Rightarrow> memtable_set \<Rightarrow> bytes \<Rightarrow> memtable_set result" where
  "memtable_set_add_tombstone A m key =
     bind_result (validate_key key) (\<lambda>_.
     bind_result (latest_state_without_validation m key) (\<lambda>previous_state.
     bind_result (next_sequence_number m) (\<lambda>sequence_number.
     bind_result (memtable_add_tombstone A (ms_active m) key sequence_number) (\<lambda>table.
     let was_live = (previous_state = Some LookupValue);
         m1 = m\<lparr>ms_active := table\<rparr>;
         m2 = (if was_live then m1\<lparr>ms_live_key_count := ms_live_key_count m1 - 1\<rparr> else m1)
     in Inr (rotate_if_required (m2\<lparr>ms_last_sequence_number := sequence_number\<rparr>))))))"

definition memtable_set_exists :: "memtable_set \<Rightarrow> bytes \<Rightarrow> bool result" where
  "memtable_set_exists m key =
     bind_result (validate_key key) (\<lambda>_.
     bind_result (latest_state_without_validation m key) (\<lambda>st. Inr (st = Some LookupValue)))"

definition discard_immutable :: "memtable_set \<Rightarrow> u64 \<Rightarrow> bool \<times> memtable_set" where
  "discard_immutable m generation =
     (let other = (\<lambda>t. mt_generation t \<noteq> generation); ts = ms_immutable_tables m
      in case dropWhile other ts of
           [] \<Rightarrow> (False, m)
         | _ # rest \<Rightarrow> (True, m\<lparr>ms_immutable_tables := takeWhile other ts @ rest\<rparr>))"

definition ms_active_entry_count :: "memtable_set \<Rightarrow> nat" where
  "ms_active_entry_count m = memtable_entry_count (ms_active m)"

definition ms_immutable_table_count :: "memtable_set \<Rightarrow> nat" where
  "ms_immutable_table_count m = length (ms_immutable_tables m)"

section \<open>View and invariant\<close>

definition visible :: "entry option \<Rightarrow> bytes option" where
  "visible r = (case r of None \<Rightarrow> None | Some e \<Rightarrow> if entry_deleted e then None else Some (entry_value e))"

definition ms_entries :: "memtable_set \<Rightarrow> (bytes \<times> entry) list" where
  "ms_entries m = concat (map mt_entries (ms_tables m))"

definition memtable_set_view :: "memtable_set \<Rightarrow> bytes \<rightharpoonup> bytes" where
  "memtable_set_view m k = visible (map_of (ms_entries m) k)"

definition newer_entries :: "memtable \<Rightarrow> memtable \<Rightarrow> bool" where
  "newer_entries t t' \<longleftrightarrow> (\<forall>ke\<in>set (mt_entries t). \<forall>ke'\<in>set (mt_entries t').
     entry_sequence_number (snd ke') < entry_sequence_number (snd ke))"

definition memtable_set_inv :: "abi \<Rightarrow> memtable_set \<Rightarrow> bool" where
  "memtable_set_inv A m \<longleftrightarrow>
     (\<forall>t\<in>set (ms_tables m). memtable_inv A t) \<and>
     \<not> mt_immutable (ms_active m) \<and>
     (\<forall>t\<in>set (ms_immutable_tables m). mt_immutable t \<and> mt_entries t \<noteq> []) \<and>
     (\<forall>ke\<in>set (ms_entries m). entry_sequence_number (snd ke) \<le> ms_last_sequence_number m) \<and>
     sorted_wrt newer_entries (ms_tables m)"

text \<open>The live-key counter is exact as long as no frozen table has been handed over.\<close>

definition live_count_exact :: "memtable_set \<Rightarrow> bool" where
  "live_count_exact m \<longleftrightarrow> ms_live_key_count m = of_nat (card (dom (memtable_set_view m)))"

definition memtable_set_capacity :: "memtable_set \<Rightarrow> nat" where
  "memtable_set_capacity m = unat (- 1 - ms_last_sequence_number m)"

section \<open>Lookups\<close>

lemma visible_simps [simp]:
  "visible None = None"
  "entry_deleted e \<Longrightarrow> visible (Some e) = None"
  "\<not> entry_deleted e \<Longrightarrow> visible (Some e) = Some (entry_value e)"
  by (simp_all add: visible_def)

lemma latest_entry_in_eq:
  "valid_key key \<Longrightarrow> latest_entry_in ts key = Inr (map_of (concat (map mt_entries ts)) key)"
  by (induction ts) (auto simp: memtable_get_entry_def map_add_def split: option.splits)

lemma latest_state_in_eq:
  "valid_key key \<Longrightarrow> latest_state_in ts key =
     Inr (map_option (\<lambda>e. if entry_deleted e then LookupTombstone else LookupValue)
       (map_of (concat (map mt_entries ts)) key))"
  by (induction ts) (auto simp: memtable_lookup_state_def map_add_def split: option.splits)

lemma latest_state_without_validation_eq:
  "valid_key key \<Longrightarrow> latest_state_without_validation m key =
     Inr (map_option (\<lambda>e. if entry_deleted e then LookupTombstone else LookupValue)
       (map_of (ms_entries m) key))"
  by (simp add: latest_state_without_validation_def latest_state_in_eq ms_entries_def)

lemma live_state_iff:
  "map_option (\<lambda>e. if entry_deleted e then LookupTombstone else LookupValue) r = Some LookupValue
     \<longleftrightarrow> visible r \<noteq> None"
  by (cases r) (auto simp: visible_def)

lemma live_state_view:
  assumes "latest_state_without_validation m key = Inr st" and "valid_key key"
  shows "st = Some LookupValue \<longleftrightarrow> memtable_set_view m key \<noteq> None"
proof -
  from assms have "st = map_option (\<lambda>e. if entry_deleted e then LookupTombstone else LookupValue)
      (map_of (ms_entries m) key)"
    by (simp add: latest_state_without_validation_eq)
  then show ?thesis
    using live_state_iff by (simp only: memtable_set_view_def)
qed

lemma finite_dom_view [simp]: "finite (dom (memtable_set_view m))"
proof (rule finite_subset)
  show "dom (memtable_set_view m) \<subseteq> dom (map_of (ms_entries m))"
    by (auto simp: memtable_set_view_def visible_def split: option.splits)
qed (simp add: finite_dom_map_of)

section \<open>Rotation\<close>

lemma ms_rotate_simps [simp]:
  "ms_entries (ms_rotate m) = ms_entries m"
  "ms_last_sequence_number (ms_rotate m) = ms_last_sequence_number m"
  "ms_live_key_count (ms_rotate m) = ms_live_key_count m"
  "memtable_set_view (ms_rotate m) = memtable_set_view m"
  by (simp_all add: ms_entries_def ms_tables_def ms_rotate_def memtable_new_def memtable_freeze_def
      memtable_set_view_def fun_eq_iff)

lemma ms_rotate_inv:
  assumes "memtable_set_inv A m" and "\<not> memtable_is_empty (ms_active m)"
  shows "memtable_set_inv A (ms_rotate m)"
  using assms
  by (auto simp: memtable_set_inv_def ms_entries_def ms_tables_def ms_rotate_def memtable_new_def
      memtable_is_empty_def newer_entries_def memtable_freeze_def memtable_inv_def)

lemma rotate_if_required_simps [simp]:
  "ms_entries (rotate_if_required m) = ms_entries m"
  "ms_last_sequence_number (rotate_if_required m) = ms_last_sequence_number m"
  "ms_live_key_count (rotate_if_required m) = ms_live_key_count m"
  "memtable_set_view (rotate_if_required m) = memtable_set_view m"
  by (simp_all add: rotate_if_required_def)

lemma rotate_if_required_inv:
  "memtable_set_inv A m \<Longrightarrow> memtable_set_inv A (rotate_if_required m)"
  by (simp add: rotate_if_required_def ms_rotate_inv)

lemma rotate_active_inv:
  "memtable_set_inv A m \<Longrightarrow> memtable_set_inv A (snd (rotate_active m))"
  by (simp add: rotate_active_def ms_rotate_inv)

section \<open>Writes\<close>

text \<open>The common core of every write: a fresh entry goes into the active table.\<close>

lemma active_insert_inv:
  assumes inv: "memtable_set_inv A m"
    and fresh: "ms_last_sequence_number m < s"
    and ins: "memtable_insert_or_assign A (ms_active m) key e = Inr t'"
    and e: "entry_sequence_number e = s" "valid_entry (key, e)"
  shows "memtable_set_inv A (m\<lparr>ms_active := t', ms_live_key_count := n, ms_last_sequence_number := s\<rparr>)"
proof -
  note d = memtable_insert_or_assignD [OF ins]
  have t': "memtable_inv A t'"
    using inv e(2) by (intro memtable_insert_or_assign_inv [OF _ ins])
      (auto simp: memtable_set_inv_def ms_tables_def)
  have old: "entry_sequence_number (snd ke) < s" if "ke \<in> set (ms_entries m)" for ke
    using inv that fresh by (force simp: memtable_set_inv_def)
  have sub: "set (mt_entries t') \<subseteq> insert (key, e) (set (mt_entries (ms_active m)))"
    using d(1) set_insert_or_assign_subset by metis
  have new_entry: "ke = (key, e) \<or> ke \<in> set (ms_entries m)"
    if "ke \<in> set (mt_entries t') \<union> (\<Union>t\<in>set (ms_immutable_tables m). set (mt_entries t))" for ke
    using that sub by (auto simp: ms_entries_def ms_tables_def)
  have bound: "entry_sequence_number (snd ke) \<le> s"
    if "ke \<in> set (mt_entries t') \<union> (\<Union>t\<in>set (ms_immutable_tables m). set (mt_entries t))" for ke
    using new_entry [OF that] old [of ke] e(1) by auto
  have newer: "newer_entries t' t" if t: "t \<in> set (ms_immutable_tables m)" for t
    unfolding newer_entries_def
  proof (intro ballI)
    fix ke ke' assume ke: "ke \<in> set (mt_entries t')" and ke': "ke' \<in> set (mt_entries t)"
    from t ke' have "ke' \<in> set (ms_entries m)"
      by (auto simp: ms_entries_def ms_tables_def)
    then have "entry_sequence_number (snd ke') < s" by (rule old)
    moreover from inv t ke' have
      "ke \<in> set (mt_entries (ms_active m)) \<Longrightarrow> entry_sequence_number (snd ke') < entry_sequence_number (snd ke)"
      by (simp add: memtable_set_inv_def ms_tables_def newer_entries_def)
    ultimately show "entry_sequence_number (snd ke') < entry_sequence_number (snd ke)"
      using ke sub e(1) by auto
  qed
  from inv t' bound newer d(3) show ?thesis
    by (auto simp: memtable_set_inv_def ms_tables_def ms_entries_def)
qed

lemma ms_entries_active_insert:
  assumes "memtable_insert_or_assign A (ms_active m) key e = Inr t'"
  shows "map_of (ms_entries (m\<lparr>ms_active := t', ms_live_key_count := n, ms_last_sequence_number := s\<rparr>))
    = (map_of (ms_entries m))(key \<mapsto> e)"
  using memtable_insert_or_assignD(1) [OF assms]
  by (simp add: ms_entries_def ms_tables_def)

lemma next_sequence_number_less:
  assumes "next_sequence_number m = Inr s"
  shows "ms_last_sequence_number m < s" and "s = ms_last_sequence_number m + 1" and "s \<noteq> 0"
  using assms by (auto simp: next_sequence_number_def word_less_inc word_inc_nonzero split: if_splits)

text \<open>Inversion of the three writers: what a call that returned must have done.\<close>

abbreviation put_entry :: "bytes \<Rightarrow> u64 \<Rightarrow> entry" where
  "put_entry v s \<equiv> \<lparr>entry_value = v, entry_sequence_number = s, entry_deleted = False\<rparr>"

abbreviation tombstone :: "u64 \<Rightarrow> entry" where
  "tombstone s \<equiv> \<lparr>entry_value = [], entry_sequence_number = s, entry_deleted = True\<rparr>"

definition ms_written :: "memtable_set \<Rightarrow> memtable \<Rightarrow> u64 \<Rightarrow> u64 \<Rightarrow> memtable_set" where
  "ms_written m t n s =
     rotate_if_required (m\<lparr>ms_active := t, ms_live_key_count := n, ms_last_sequence_number := s\<rparr>)"

lemma memtable_set_putE:
  assumes "memtable_set_put A m key v = Inr m'"
  obtains s t where "next_sequence_number m = Inr s" and "valid_entry (key, put_entry v s)"
    and "memtable_insert_or_assign A (ms_active m) key (put_entry v s) = Inr t"
    and "m' = ms_written m t
      (if memtable_set_view m key = None then ms_live_key_count m + 1 else ms_live_key_count m) s"
proof -
  from assms obtain s t st where s: "next_sequence_number m = Inr s"
    and k: "valid_key key" and v: "valid_value v"
    and st: "latest_state_without_validation m key = Inr st"
    and t: "memtable_put A (ms_active m) key v s = Inr t"
    and m': "m' = ms_written m t
      (if st = Some LookupValue then ms_live_key_count m else ms_live_key_count m + 1) s"
    by (auto simp: memtable_set_put_def ms_written_def result_simps Let_def split: if_splits)
  from st k have "st = Some LookupValue \<longleftrightarrow> memtable_set_view m key \<noteq> None"
    by (rule live_state_view)
  with m' have "m' = ms_written m t
      (if memtable_set_view m key = None then ms_live_key_count m + 1 else ms_live_key_count m) s"
    by auto
  moreover have "valid_entry (key, put_entry v s)"
    using k v next_sequence_number_less(3) [OF s] by (simp add: valid_entry_def)
  ultimately show thesis using that s memtable_putD(1) [OF t] by blast
qed

lemma memtable_set_add_tombstoneE:
  assumes "memtable_set_add_tombstone A m key = Inr m'"
  obtains s t where "next_sequence_number m = Inr s" and "valid_entry (key, tombstone s)"
    and "memtable_insert_or_assign A (ms_active m) key (tombstone s) = Inr t"
    and "m' = ms_written m t
      (if memtable_set_view m key = None then ms_live_key_count m else ms_live_key_count m - 1) s"
proof -
  from assms obtain s t st where s: "next_sequence_number m = Inr s"
    and k: "valid_key key"
    and st: "latest_state_without_validation m key = Inr st"
    and t: "memtable_add_tombstone A (ms_active m) key s = Inr t"
    and m': "m' = ms_written m t
      (if st = Some LookupValue then ms_live_key_count m - 1 else ms_live_key_count m) s"
    by (auto simp: memtable_set_add_tombstone_def ms_written_def result_simps Let_def split: if_splits)
  from st k have "st = Some LookupValue \<longleftrightarrow> memtable_set_view m key \<noteq> None"
    by (rule live_state_view)
  with m' have "m' = ms_written m t
      (if memtable_set_view m key = None then ms_live_key_count m else ms_live_key_count m - 1) s"
    by auto
  moreover have "valid_entry (key, tombstone s)"
    using k next_sequence_number_less(3) [OF s] by (simp add: valid_entry_def)
  ultimately show thesis using that s memtable_add_tombstoneD(1) [OF t] by blast
qed

lemma memtable_set_remove_eq:
  assumes "valid_key key"
  shows "memtable_set_remove A m key =
     (if memtable_set_view m key = None then Inr (False, m)
      else bind_result (memtable_set_add_tombstone A m key) (\<lambda>m'. Inr (True, m')))"
proof -
  from assms obtain st where st: "latest_state_without_validation m key = Inr st"
    by (simp add: latest_state_without_validation_eq)
  show ?thesis
  proof (cases "st = Some LookupValue")
    case True
    with st assms live_state_view [OF st] show ?thesis
      by (auto simp: memtable_set_remove_def memtable_set_add_tombstone_def bind_result_assoc)
  next
    case False
    with st assms live_state_view [OF st] show ?thesis
      by (simp add: memtable_set_remove_def)
  qed
qed

lemma memtable_set_remove_invalid: "\<not> valid_key key \<Longrightarrow> \<exists>e. memtable_set_remove A m key = Inl e"
  using validate_key_invalid [of key] by (auto simp: memtable_set_remove_def)

text \<open>What a write does to the state, for any entry.\<close>

lemma ms_written_facts:
  assumes inv: "memtable_set_inv A m" and s: "next_sequence_number m = Inr s"
    and ins: "memtable_insert_or_assign A (ms_active m) key e = Inr t"
    and e: "entry_sequence_number e = s" "valid_entry (key, e)"
  shows ms_written_inv: "memtable_set_inv A (ms_written m t n s)"
    and ms_written_lookup: "map_of (ms_entries (ms_written m t n s)) = (map_of (ms_entries m))(key \<mapsto> e)"
    and ms_written_view: "memtable_set_view (ms_written m t n s) = (memtable_set_view m)(key := visible (Some e))"
    and ms_written_capacity: "memtable_set_capacity m = Suc (memtable_set_capacity (ms_written m t n s))"
proof -
  note next_seq = next_sequence_number_less [OF s]
  show "memtable_set_inv A (ms_written m t n s)"
    using active_insert_inv [OF inv next_seq(1) ins e]
    by (simp add: ms_written_def rotate_if_required_inv)
  show lookup: "map_of (ms_entries (ms_written m t n s)) = (map_of (ms_entries m))(key \<mapsto> e)"
    using ms_entries_active_insert [OF ins] by (simp add: ms_written_def)
  show "memtable_set_view (ms_written m t n s) = (memtable_set_view m)(key := visible (Some e))"
    by (simp add: memtable_set_view_def fun_eq_iff lookup)
  from s have "ms_last_sequence_number m \<noteq> - 1"
    by (auto simp: next_sequence_number_def)
  then have "unat (- 1 - ms_last_sequence_number m) = Suc (unat (- 1 - (ms_last_sequence_number m + 1)))"
    by (rule word_remaining_Suc)
  then show "memtable_set_capacity m = Suc (memtable_set_capacity (ms_written m t n s))"
    by (simp add: memtable_set_capacity_def ms_written_def next_seq(2))
qed

lemma ms_written_live:
  assumes "live_count_exact m" and "next_sequence_number m = Inr s"
    and "memtable_insert_or_assign A (ms_active m) key e = Inr t"
    and "memtable_set_inv A m" and "entry_sequence_number e = s" "valid_entry (key, e)"
    and "n = ms_live_key_count m
      + (if visible (Some e) \<noteq> None \<and> memtable_set_view m key = None then 1 else 0)
      - (if visible (Some e) = None \<and> memtable_set_view m key \<noteq> None then 1 else 0)"
  shows "live_count_exact (ms_written m t n s)"
proof -
  have n: "ms_live_key_count (ms_written m t n s) = n"
    by (simp add: ms_written_def)
  show ?thesis
    using assms(1,7) of_nat_card_dom_upd [OF finite_dom_view, of m key "visible (Some e)", where 'a = "64 word"]
    unfolding live_count_exact_def n ms_written_view [OF assms(4,2,3,5,6)]
    by simp
qed


lemma memtable_set_insert_accepts:
  assumes "memtable_set_inv A m" and "next_sequence_number m = Inr s" and "entry_sequence_number e = s"
  shows "\<exists>t. memtable_insert_or_assign A (ms_active m) key e = Inr t"
proof (rule memtable_insert_or_assign_accepts)
  show "\<not> mt_immutable (ms_active m)" using assms(1) by (simp add: memtable_set_inv_def)
next
  fix k e' assume "(k, e') \<in> set (mt_entries (ms_active m))"
  then have "(k, e') \<in> set (ms_entries m)" by (simp add: ms_entries_def ms_tables_def)
  with assms(1) have "entry_sequence_number e' \<le> ms_last_sequence_number m"
    by (force simp: memtable_set_inv_def)
  then show "entry_sequence_number e' < entry_sequence_number e"
    using next_sequence_number_less(1) [OF assms(2)] assms(3) by simp
qed

lemma memtable_set_capacity_pos:
  "0 < memtable_set_capacity m \<Longrightarrow> next_sequence_number m = Inr (ms_last_sequence_number m + 1)"
  by (auto simp: memtable_set_capacity_def next_sequence_number_def)

lemma memtable_set_put_accepts:
  assumes "memtable_set_inv A m" and "valid_key key" and "valid_value v" and "0 < memtable_set_capacity m"
  shows "\<exists>m'. memtable_set_put A m key v = Inr m'"
proof -
  note s = memtable_set_capacity_pos [OF assms(4)]
  obtain t where "memtable_insert_or_assign A (ms_active m) key
      (put_entry v (ms_last_sequence_number m + 1)) = Inr t"
    using memtable_set_insert_accepts [OF assms(1) s] by fastforce
  with assms(2,3) s next_sequence_number_less(3) [OF s] show ?thesis
    by (simp add: memtable_set_put_def memtable_put_def latest_state_without_validation_eq Let_def)
qed

lemma memtable_set_add_tombstone_accepts:
  assumes "memtable_set_inv A m" and "valid_key key" and "0 < memtable_set_capacity m"
  shows "\<exists>m'. memtable_set_add_tombstone A m key = Inr m'"
proof -
  note s = memtable_set_capacity_pos [OF assms(3)]
  obtain t where "memtable_insert_or_assign A (ms_active m) key
      (tombstone (ms_last_sequence_number m + 1)) = Inr t"
    using memtable_set_insert_accepts [OF assms(1) s] by fastforce
  with assms(2) s next_sequence_number_less(3) [OF s] show ?thesis
    by (simp add: memtable_set_add_tombstone_def memtable_add_tombstone_def
        latest_state_without_validation_eq Let_def)
qed

lemma memtable_set_put_facts:
  assumes "memtable_set_inv A m" and "memtable_set_put A m key v = Inr m'"
  shows "memtable_set_inv A m'" and "memtable_set_view m' = (memtable_set_view m)(key \<mapsto> v)"
    and "memtable_set_capacity m = Suc (memtable_set_capacity m')"
    and "live_count_exact m \<Longrightarrow> live_count_exact m'"
    and "map_of (ms_entries m') = (map_of (ms_entries m))(key \<mapsto> put_entry v (ms_last_sequence_number m + 1))"
    and "ms_last_sequence_number m' = ms_last_sequence_number m + 1"
proof -
  from assms(2) obtain s t where s: "next_sequence_number m = Inr s"
    and e: "valid_entry (key, put_entry v s)"
    and t: "memtable_insert_or_assign A (ms_active m) key (put_entry v s) = Inr t"
    and m': "m' = ms_written m t
      (if memtable_set_view m key = None then ms_live_key_count m + 1 else ms_live_key_count m) s"
    by (rule memtable_set_putE)
  show "memtable_set_inv A m'"
    unfolding m' by (rule ms_written_inv [OF assms(1) s t _ e]) simp
  show "memtable_set_view m' = (memtable_set_view m)(key \<mapsto> v)"
    using ms_written_view [OF assms(1) s t _ e] by (simp add: m')
  show "memtable_set_capacity m = Suc (memtable_set_capacity m')"
    unfolding m' by (rule ms_written_capacity [OF assms(1) s t _ e]) simp
  show "live_count_exact m'" if "live_count_exact m"
    unfolding m' by (rule ms_written_live [OF that s t assms(1) _ e]) auto
  have seq: "s = ms_last_sequence_number m + 1"
    using next_sequence_number_less(2) [OF s] .
  show "map_of (ms_entries m') = (map_of (ms_entries m))(key \<mapsto> put_entry v (ms_last_sequence_number m + 1))"
    using ms_written_lookup [OF assms(1) s t _ e] by (simp add: m' seq)
  show "ms_last_sequence_number m' = ms_last_sequence_number m + 1"
    by (simp add: m' ms_written_def seq)
qed

lemma memtable_set_add_tombstone_facts:
  assumes "memtable_set_inv A m" and "memtable_set_add_tombstone A m key = Inr m'"
  shows "memtable_set_inv A m'" and "memtable_set_view m' = (memtable_set_view m)(key := None)"
    and "memtable_set_capacity m = Suc (memtable_set_capacity m')"
    and "live_count_exact m \<Longrightarrow> live_count_exact m'"
    and "map_of (ms_entries m') = (map_of (ms_entries m))(key \<mapsto> tombstone (ms_last_sequence_number m + 1))"
    and "ms_last_sequence_number m' = ms_last_sequence_number m + 1"
proof -
  from assms(2) obtain s t where s: "next_sequence_number m = Inr s"
    and e: "valid_entry (key, tombstone s)"
    and t: "memtable_insert_or_assign A (ms_active m) key (tombstone s) = Inr t"
    and m': "m' = ms_written m t
      (if memtable_set_view m key = None then ms_live_key_count m else ms_live_key_count m - 1) s"
    by (rule memtable_set_add_tombstoneE)
  show "memtable_set_inv A m'"
    unfolding m' by (rule ms_written_inv [OF assms(1) s t _ e]) simp
  show "memtable_set_view m' = (memtable_set_view m)(key := None)"
    using ms_written_view [OF assms(1) s t _ e] by (simp add: m')
  show "memtable_set_capacity m = Suc (memtable_set_capacity m')"
    unfolding m' by (rule ms_written_capacity [OF assms(1) s t _ e]) simp
  show "live_count_exact m'" if "live_count_exact m"
    unfolding m' by (rule ms_written_live [OF that s t assms(1) _ e]) auto
  have seq: "s = ms_last_sequence_number m + 1"
    using next_sequence_number_less(2) [OF s] .
  show "map_of (ms_entries m') = (map_of (ms_entries m))(key \<mapsto> tombstone (ms_last_sequence_number m + 1))"
    using ms_written_lookup [OF assms(1) s t _ e] by (simp add: m' seq)
  show "ms_last_sequence_number m' = ms_last_sequence_number m + 1"
    by (simp add: m' ms_written_def seq)
qed

lemma memtable_set_remove_cases:
  assumes "memtable_set_remove A m key = Inr (b, m')"
  obtains (absent) "\<not> b" and "m' = m" and "memtable_set_view m key = None"
  | (present) "b" and "memtable_set_add_tombstone A m key = Inr m'" and "memtable_set_view m key \<noteq> None"
proof -
  from assms have k: "valid_key key" using memtable_set_remove_invalid [of key A m] by auto
  show thesis
    using assms that unfolding memtable_set_remove_eq [OF k] by (auto simp: result_simps split: if_splits)
qed

lemma memtable_set_put_rejects:
  "\<not> (valid_key key \<and> valid_value v) \<Longrightarrow> \<exists>e. memtable_set_put A m key v = Inl e"
  using validate_key_invalid [of key] validate_value_invalid [of v]
  by (cases "valid_key key") (auto simp: memtable_set_put_def)

lemma memtable_set_get_view:
  "valid_key key \<Longrightarrow> memtable_set_get m key = Inr (memtable_set_view m key)"
  by (auto simp: memtable_set_get_def memtable_set_latest_entry_def latest_entry_without_validation_def
      latest_entry_in_eq memtable_set_view_def ms_entries_def visible_def split: option.splits)

lemma memtable_set_exists_view:
  assumes "valid_key key"
  shows "memtable_set_exists m key = Inr (memtable_set_view m key \<noteq> None)"
proof -
  from assms obtain st where st: "latest_state_without_validation m key = Inr st"
    by (simp add: latest_state_without_validation_eq)
  with assms live_state_view [OF st] show ?thesis by (simp add: memtable_set_exists_def)
qed


section \<open>The set implements the store interface\<close>

interpretation memtables: readable_store "memtable_set_put A" "memtable_set_remove A"
  "memtable_set_inv A" memtable_set_view memtable_set_capacity memtable_set_get memtable_set_exists
proof (unfold_locales, goal_cases)
  case (6 s k b s')
  from 6(2) show ?case
    by (cases rule: memtable_set_remove_cases) (use 6(1) in \<open>auto dest: memtable_set_add_tombstone_facts(1)\<close>)
next
  case (7 s k b s')
  from 7(2) show ?case
    by (cases rule: memtable_set_remove_cases)
      (use 7(1) in \<open>auto simp: fun_upd_idem dest: memtable_set_add_tombstone_facts(2)\<close>)
next
  case (8 s k b s')
  from 8(2) show ?case by (cases rule: memtable_set_remove_cases) auto
next
  case (9 s k b s')
  from 9(2) show ?case
    by (cases rule: memtable_set_remove_cases)
      (use memtable_set_add_tombstone_facts(3) [OF 9(1)] in auto)
next
  case (10 s k)
  then show ?case
    using memtable_set_add_tombstone_accepts [of A s k] by (auto simp: memtable_set_remove_eq)
next
  case (11 k s)
  then show ?case by (rule memtable_set_remove_invalid)
qed (auto simp: memtable_set_put_accepts memtable_set_put_rejects memtable_set_get_view
    memtable_set_exists_view dest: memtable_set_put_facts)


text \<open>Before the first hand-over of a frozen table the live-key counter is exact as well.\<close>

interpretation counted_memtables: key_value_store "memtable_set_put A" "memtable_set_remove A"
  "\<lambda>m. memtable_set_inv A m \<and> live_count_exact m" memtable_set_view memtable_set_capacity
proof (unfold_locales, goal_cases)
  case (1 s k v s')
  then show ?case using memtable_set_put_facts(1,4) by blast
next
  case (6 s k b s')
  from 6(2) show ?case
    by (cases rule: memtable_set_remove_cases)
      (use 6(1) memtable_set_add_tombstone_facts(1,4) in blast)+
next
  case (8 s k b s')
  then show ?case using memtables.remove_found by blast
next
  case (10 s k)
  then show ?case using memtables.remove_accepts by blast
qed (auto intro: memtables.put_view memtables.put_capacity memtables.put_accepts memtables.put_rejects
    memtables.remove_view memtables.remove_capacity memtables.remove_rejects)

lemma memtable_set_newD:
  assumes "memtable_set_new max_bytes s0 g = Inr m"
  shows "memtable_set_inv A m" and "live_count_exact m" and "memtable_set_view m = Map.empty"
    and "memtable_set_capacity m = unat (- 1 - s0)"
proof -
  from assms have m: "m = \<lparr>ms_max_memory_bytes = max_bytes, ms_active = memtable_new g,
      ms_immutable_tables = [], ms_next_generation = g + 1, ms_live_key_count = 0,
      ms_last_sequence_number = s0\<rparr>"
    by (auto simp: memtable_set_new_def split: if_splits)
  have empty: "ms_entries m = []" by (simp add: m ms_entries_def ms_tables_def memtable_new_def)
  then show view: "memtable_set_view m = Map.empty" by (simp add: memtable_set_view_def fun_eq_iff)
  then show "live_count_exact m" by (simp add: live_count_exact_def m)
  show "memtable_set_inv A m"
    unfolding memtable_set_inv_def empty by (simp add: m ms_tables_def) (simp add: memtable_new_def)
  show "memtable_set_capacity m = unat (- 1 - s0)" by (simp add: memtable_set_capacity_def m)
qed

text \<open>C3. A freshly built \<open>MemTableSet\<close> accepts every sequence of valid writes that fits its
  remaining sequence numbers, whatever rotations the memory limit causes on the way.  Afterwards
  \<open>get\<close> returns for every valid key what the same writes leave in a plain map, \<open>size\<close> (the
  64-bit live-key counter) is the number of keys of that map, and the set is well formed:
  tables sorted, memory estimates exact, newer tables holding only newer sequence numbers.\<close>

theorem memtable_set_behaves_as_map:
  assumes "memtable_set_new max_bytes s0 g = Inr m"
    and "\<forall>op\<in>set ops. valid_op op" and "length ops \<le> unat (- 1 - s0)"
  shows "\<exists>m'. run_ops (memtable_set_put A) (memtable_set_remove A) m ops = Inr m' \<and>
    memtable_set_inv A m' \<and>
    ms_live_key_count m' = of_nat (card (dom (fold apply_op ops Map.empty))) \<and>
    (\<forall>k. valid_key k \<longrightarrow> memtable_set_get m' k = Inr (fold apply_op ops Map.empty k))"
proof -
  note new = memtable_set_newD [OF assms(1)]
  from assms(3) new(4) have "length ops \<le> memtable_set_capacity m" by simp
  then obtain m' where
    "run_ops (memtable_set_put A) (memtable_set_remove A) m ops = Inr m'" and "memtable_set_inv A m'"
    and "live_count_exact m'" and "memtable_set_view m' = fold apply_op ops Map.empty"
    using counted_memtables.run_ops_view [OF conjI [OF new(1,2)] assms(2)] new(3) by auto
  then show ?thesis
    by (auto simp: memtable_set_get_view live_count_exact_def)
qed

theorem memtable_set_behaves_as_map_witness:
  "\<exists>m m'. memtable_set_new 100 41 0 = Inr m \<and>
     run_ops (memtable_set_put \<lparr>sizeof_value_type = 80, sizeof_pointer = 8\<rparr>)
       (memtable_set_remove \<lparr>sizeof_value_type = 80, sizeof_pointer = 8\<rparr>) m
       [OpPut [1] [7], OpPut [2] [8], OpRemove [1], OpPut [2] [9]] = Inr m' \<and>
     ms_live_key_count m' = 1 \<and>
     memtable_set_get m' [1] = Inr None \<and> memtable_set_get m' [2] = Inr (Some [9])"
proof -
  obtain m where m: "memtable_set_new 100 41 0 = Inr m"
    by (simp add: memtable_set_new_def)
  have len: "length [OpPut [1] [7], OpPut [2] [8], OpRemove [1], OpPut [2] [9]] \<le> unat (- 1 - (41 :: u64))"
    by simp
  have dom: "card (dom (fold apply_op [OpPut [1] [7], OpPut [2] [8], OpRemove [1], OpPut [2] [9]] Map.empty)) = 1"
    by (simp add: insert_Diff_if)
  show ?thesis
    using m memtable_set_behaves_as_map [OF m _ len,
        of "\<lparr>sizeof_value_type = 80, sizeof_pointer = 8\<rparr>"] dom
    by (auto simp: kMaxKeySize_def kMaxValueSize_def)
qed

end
