(* ===== verification/Recovery.thy ===== *)
theory Recovery
  imports WalWriter KeyValueStore MemTableSet
begin

text \<open>
  \<open>RecoveryManager::recover\<close> (\<open>src/recovery_manager.cpp\<close>): replays the log into any
  \<open>KeyValueStore\<close>, given by its \<open>put\<close> and \<open>remove\<close>, and cuts an invalid tail off the file.
  \<open>None\<close> as the file stands for a path that does not exist.
\<close>

section \<open>Definitions\<close>

record recovery_report =
  records_applied :: u64
  puts_applied :: u64
  deletes_applied :: u64
  valid_wal_bytes :: u64
  invalid_tail_truncated :: bool
  recovery_issue :: "(wal_issue_code \<times> u64) option"

definition empty_report :: recovery_report where
  "empty_report = \<lparr>records_applied = 0, puts_applied = 0, deletes_applied = 0, valid_wal_bytes = 0,
     invalid_tail_truncated = False, recovery_issue = None\<rparr>"

definition completed_cleanly :: "recovery_report \<Rightarrow> bool" where
  "completed_cleanly report \<longleftrightarrow> recovery_issue report = None"

definition apply_record :: "('s \<Rightarrow> bytes \<Rightarrow> bytes \<Rightarrow> 's result) \<Rightarrow> ('s \<Rightarrow> bytes \<Rightarrow> (bool \<times> 's) result) \<Rightarrow>
    wal_record \<Rightarrow> 's \<times> recovery_report \<Rightarrow> ('s \<times> recovery_report) result" where
  "apply_record put remove r sr =
     (let (s, report) = sr in
      bind_result
        (if wr_operation r = Put
         then bind_result (put s (wr_key r) (wr_value r)) (\<lambda>s'.
           Inr (s', report\<lparr>puts_applied := puts_applied report + 1\<rparr>))
         else bind_result (remove s (wr_key r)) (\<lambda>(_, s').
           Inr (s', report\<lparr>deletes_applied := deletes_applied report + 1\<rparr>)))
        (\<lambda>(s', report'). Inr (s', report'\<lparr>records_applied := records_applied report' + 1\<rparr>)))"

definition recovery_diagnostic :: "wal_issue_code \<times> u64 \<Rightarrow> string" where
  "recovery_diagnostic issue =
     ''{\"level\":\"error\",\"component\":\"wal_recovery\",'' @ ''\"offset\":'' @ dec_digits (unat (snd issue)) @
     '',\"error\":\"'' @ wal_issue_name (fst issue) @ ''\"}'' @ [CHR 0x0A]"

definition recover :: "('s \<Rightarrow> bytes \<Rightarrow> bytes \<Rightarrow> 's result) \<Rightarrow> ('s \<Rightarrow> bytes \<Rightarrow> (bool \<times> 's) result) \<Rightarrow>
    open_outcome \<Rightarrow> io_event list \<Rightarrow> unit result \<Rightarrow> bool \<Rightarrow> disk_file option \<Rightarrow> 's \<Rightarrow>
    (recovery_report \<times> string \<times> disk_file option \<times> 's) result" where
  "recover put remove opened evs resize truncate_invalid_tail wal s =
     (case wal of
        None \<Rightarrow> Inr (empty_report, [], None, s)
      | Some f \<Rightarrow>
          bind_result (wal_scan opened (apply_record put remove) evs (df_contents f) (s, empty_report))
            (\<lambda>(scan, s', report).
            let report = report\<lparr>valid_wal_bytes := valid_bytes scan, recovery_issue := scan_issue scan\<rparr>;
                diagnostics = (case scan_issue scan of None \<Rightarrow> [] | Some issue \<Rightarrow> recovery_diagnostic issue)
            in case scan_issue scan of
                 Some (code, offset) \<Rightarrow>
                   if code \<noteq> IoError \<and> truncate_invalid_tail
                   then bind_result resize (\<lambda>_.
                     Inr (report\<lparr>invalid_tail_truncated := True\<rparr>, diagnostics,
                          Some (file_truncate (unat (valid_bytes scan)) f), s'))
                   else Inr (report, diagnostics, wal, s')
               | None \<Rightarrow> Inr (report, diagnostics, wal, s')))"

section \<open>Replay\<close>

text \<open>The write a record stands for.\<close>

definition record_op :: "wal_record \<Rightarrow> kv_op" where
  "record_op r = (if wr_operation r = Put then OpPut (wr_key r) (wr_value r) else OpRemove (wr_key r))"

lemma valid_op_record: "valid_record r \<Longrightarrow> valid_op (record_op r)"
  by (auto simp: valid_record_def record_op_def)

lemma visit_all_apply_record:
  "(\<exists>rep'. visit_all (apply_record put remove) rs (s, rep) =
      bind_result (run_ops put remove s (map record_op rs)) (\<lambda>s'. Inr (s', rep')) \<and>
    records_applied rep' = records_applied rep + of_nat (length rs) \<and>
    puts_applied rep' = puts_applied rep + of_nat (length (filter (\<lambda>r. wr_operation r = Put) rs)) \<and>
    deletes_applied rep' = deletes_applied rep + of_nat (length (filter (\<lambda>r. wr_operation r \<noteq> Put) rs)))"
proof (induction rs arbitrary: s rep)
  case (Cons r rs)
  define rep1 where "rep1 = (if wr_operation r = Put then rep\<lparr>puts_applied := puts_applied rep + 1\<rparr>
      else rep\<lparr>deletes_applied := deletes_applied rep + 1\<rparr>)\<lparr>records_applied := records_applied rep + 1\<rparr>"
  show ?case
  proof (cases "wr_operation r = Put")
    case True
    show ?thesis
    proof (cases "put s (wr_key r) (wr_value r)")
      case (Inl e)
      then show ?thesis
        using True by (intro exI [of _ "rep\<lparr>records_applied := records_applied rep + of_nat (length (r # rs)),
            puts_applied := puts_applied rep + of_nat (length (filter (\<lambda>r. wr_operation r = Put) (r # rs))),
            deletes_applied := deletes_applied rep + of_nat (length (filter (\<lambda>r. wr_operation r \<noteq> Put) (r # rs)))\<rparr>"])
          (simp add: apply_record_def record_op_def)
    next
      case (Inr s1)
      with True Cons.IH [of s1 rep1] show ?thesis
        by (auto simp: apply_record_def record_op_def rep1_def add.assoc)
    qed
  next
    case False
    show ?thesis
    proof (cases "remove s (wr_key r)")
      case (Inl e)
      then show ?thesis
        using False by (intro exI [of _ "rep\<lparr>records_applied := records_applied rep + of_nat (length (r # rs)),
            puts_applied := puts_applied rep + of_nat (length (filter (\<lambda>r. wr_operation r = Put) (r # rs))),
            deletes_applied := deletes_applied rep + of_nat (length (filter (\<lambda>r. wr_operation r \<noteq> Put) (r # rs)))\<rparr>"])
          (simp add: apply_record_def record_op_def)
    next
      case (Inr bs1)
      with False Cons.IH [of "snd bs1" rep1] show ?thesis
        by (auto simp: apply_record_def record_op_def rep1_def add.assoc split: prod.splits)
    qed
  qed
qed simp


section \<open>Recovery into a store\<close>

lemma recover_log:
  assumes "df_contents f = wal_log rs @ tail" and "\<forall>r\<in>set rs. valid_record r" and "wal_decode tail = None"
    and "benign_io evs" and "length (wal_log rs) < 2 ^ 64"
    and run: "run_ops put remove s (map record_op rs) = Inr s'"
  shows "\<exists>report diagnostics f'.
    recover put remove Opened evs (Inr ()) True (Some f) s = Inr (report, diagnostics, Some f', s') \<and>
    df_contents f' = wal_log rs \<and>
    records_applied report = of_nat (length rs) \<and> valid_wal_bytes report = of_nat (length (wal_log rs)) \<and>
    (completed_cleanly report \<longleftrightarrow> tail = [])"
proof -
  from visit_all_apply_record [of put remove rs s empty_report] run obtain rep' where
    "visit_all (apply_record put remove) rs (s, empty_report) = Inr (s', rep')"
    and rep': "records_applied rep' = of_nat (length rs)"
    by (auto simp: empty_report_def)
  then have scan: "wal_scan Opened (apply_record put remove) evs (df_contents f) (s, empty_report) =
      Inr (scan_outcome empty_scan rs (tail_issue tail), s', rep')"
    using wal_scan_log [OF assms(4,2,3), of "apply_record put remove" "(s, empty_report)"] assms(1) by simp
  have vb: "unat (of_nat (length (wal_log rs)) :: u64) = length (wal_log rs)"
    using assms(5) by (simp add: unat_of_nat take_bit_nat_eq_self del: length_concat)
  show ?thesis
  proof (cases "tail_issue tail")
    case None
    with tail_issue_None [OF assms(3)] have "tail = []" by simp
    with None show ?thesis
      using scan rep' assms(1) by (simp add: recover_def scan_outcome_def empty_scan_def completed_cleanly_def Let_def)
  next
    case (Some code)
    have cut: "take (length (wal_log rs)) (df_contents f) = wal_log rs" by (simp add: assms(1))
    have "tail \<noteq> []" "code \<noteq> IoError" using Some tail_issue_not_IoError [of tail] by auto
    with Some show ?thesis
      using scan rep' vb cut
      by (simp add: recover_def scan_outcome_def empty_scan_def completed_cleanly_def Let_def del: length_concat)
  qed
qed

lemma recover_clean:
  assumes "recover put remove opened evs resize trunc (Some f) s = Inr (report, diagnostics, f', s')"
    and "completed_cleanly report"
  shows "diagnostics = [] \<and> f' = Some f"
proof (cases "wal_scan opened (apply_record put remove) evs (df_contents f) (s, empty_report)")
  case (Inl e)
  with assms show ?thesis by (simp add: recover_def)
next
  case (Inr r)
  obtain scan s1 rep1 where r: "r = (scan, s1, rep1)" by (cases r)
  show ?thesis
  proof (cases "scan_issue scan")
    case None
    with assms Inr r show ?thesis by (simp add: recover_def Let_def)
  next
    case (Some issue)
    obtain code offset where "issue = (code, offset)" by (cases issue)
    with assms Inr r Some show ?thesis
      by (cases resize) (auto simp: recover_def Let_def completed_cleanly_def split: if_splits)
  qed
qed

context key_value_store
begin

lemma recover_view:
  assumes "invar s" and "length rs \<le> capacity s" and "\<forall>r\<in>set rs. valid_record r"
    and "df_contents f = wal_log rs @ tail" and "wal_decode tail = None"
    and "benign_io evs" and "length (wal_log rs) < 2 ^ 64"
  shows "\<exists>report diagnostics f' s'.
    recover put remove Opened evs (Inr ()) True (Some f) s = Inr (report, diagnostics, Some f', s') \<and>
    invar s' \<and> view s' = fold apply_op (map record_op rs) (view s) \<and>
    df_contents f' = wal_log rs \<and>
    records_applied report = of_nat (length rs) \<and> valid_wal_bytes report = of_nat (length (wal_log rs)) \<and>
    (completed_cleanly report \<longleftrightarrow> tail = [])"
proof -
  have "\<forall>op\<in>set (map record_op rs). valid_op op" using assms(3) by (auto simp: valid_op_record)
  with run_ops_view [OF assms(1), of "map record_op rs"] assms(2) obtain s' where
    run: "run_ops put remove s (map record_op rs) = Inr s'" and "invar s'"
    "view s' = fold apply_op (map record_op rs) (view s)" by auto
  with recover_log [OF assms(4,3,5-7) run] show ?thesis by blast
qed

end


lemma length_wal_log: "length rs \<le> length (wal_log rs)"
  by (induction rs) (auto simp: length_wal_encode)

section \<open>Properties\<close>



text \<open>C20. Recovery is idempotent: whatever bytes the log file holds, recovering it returns, and
  recovering the file it leaves behind completes cleanly, keeps the file and gives a store that
  answers every \<open>get\<close> alike.\<close>

theorem recovery_idempotent:
  assumes "memtable_set_new max_bytes s0 g = Inr m" and "length (df_contents f) \<le> unat (- 1 - s0)"
    and "benign_io evs" and "benign_io evs'"
  shows "\<exists>report diagnostics f' m1 report' m2.
    recover (memtable_set_put A) (memtable_set_remove A) Opened evs (Inr ()) True (Some f) m =
      Inr (report, diagnostics, Some f', m1) \<and>
    recover (memtable_set_put A) (memtable_set_remove A) Opened evs' (Inr ()) True (Some f') m =
      Inr (report', [], Some f', m2) \<and>
    completed_cleanly report' \<and> prefix (df_contents f') (df_contents f) \<and>
    (\<forall>k. valid_key k \<longrightarrow> memtable_set_get m2 k = memtable_set_get m1 k)"
proof -
  obtain rs tail where f: "df_contents f = wal_log rs @ tail" and valid: "\<forall>r\<in>set rs. valid_record r"
    and tail: "wal_decode tail = None"
    using wal_codec.decompose [of "df_contents f"] by blast
  from assms(2) f have "length (wal_log rs) \<le> unat (- 1 - s0)" by (simp del: length_concat)
  then have size: "length rs \<le> memtable_set_capacity m" "length (wal_log rs) < 2 ^ 64"
    using length_wal_log [of rs] memtable_set_newD(4) [OF assms(1)] unsigned_less [of "- 1 - s0", where 'a = nat]
    by (simp_all del: length_concat)
  note inv = memtable_set_newD(1) [OF assms(1)]
  from memtables.recover_view [OF inv size(1) valid f tail assms(3) size(2), of A]
  obtain report diagnostics f' m1 where first:
    "recover (memtable_set_put A) (memtable_set_remove A) Opened evs (Inr ()) True (Some f) m =
      Inr (report, diagnostics, Some f', m1)"
    and v1: "memtable_set_view m1 = fold apply_op (map record_op rs) (memtable_set_view m)"
    and f': "df_contents f' = wal_log rs" by blast
  from f' have "df_contents f' = wal_log rs @ []" by simp
  from memtables.recover_view [OF inv size(1) valid this wal_codec.decode_empty assms(4) size(2), of A]
  obtain report' diagnostics' f'' m2 where second:
    "recover (memtable_set_put A) (memtable_set_remove A) Opened evs' (Inr ()) True (Some f') m =
      Inr (report', diagnostics', Some f'', m2)"
    and v2: "memtable_set_view m2 = fold apply_op (map record_op rs) (memtable_set_view m)"
    and clean: "completed_cleanly report'" by blast
  from recover_clean [OF second clean] have same: "diagnostics' = []" "f'' = f'" by auto
  have "\<forall>k. valid_key k \<longrightarrow> memtable_set_get m2 k = memtable_set_get m1 k"
    by (simp add: memtable_set_get_view v1 v2)
  moreover have "prefix (df_contents f') (df_contents f)" by (simp add: f f')
  ultimately show ?thesis using first second [unfolded same] clean by blast
qed


theorem recovery_idempotent_witness:
  "\<exists>m report diagnostics f' m1 report' m2. memtable_set_new 1000 5 0 = Inr m \<and>
    recover (memtable_set_put \<lparr>sizeof_value_type = 80, sizeof_pointer = 8\<rparr>)
      (memtable_set_remove \<lparr>sizeof_value_type = 80, sizeof_pointer = 8\<rparr>) Opened [Short 3] (Inr ()) True
      (Some \<lparr>df_contents = str ''NKVWgarbage'', df_durable = []\<rparr>) m = Inr (report, diagnostics, Some f', m1) \<and>
    recover (memtable_set_put \<lparr>sizeof_value_type = 80, sizeof_pointer = 8\<rparr>)
      (memtable_set_remove \<lparr>sizeof_value_type = 80, sizeof_pointer = 8\<rparr>) Opened [] (Inr ()) True
      (Some f') m = Inr (report', [], Some f', m2) \<and> completed_cleanly report'"
proof -
  obtain m where m: "memtable_set_new 1000 5 0 = Inr m" by (simp add: memtable_set_new_def)
  from recovery_idempotent [OF m, of "\<lparr>df_contents = str ''NKVWgarbage'', df_durable = []\<rparr>" "[Short 3]" "[]"
      "\<lparr>sizeof_value_type = 80, sizeof_pointer = 8\<rparr>"] m
  show ?thesis by auto
qed

end
