(* ===== verification/BlockCache.thy ===== *)
theory BlockCache
  imports MemTable "HOL-Library.Sublist"
begin

text \<open>
  \<open>BlockCache\<close> (\<open>src/block_cache.cpp\<close>): a least-recently-used cache of parsed data blocks, bounded
  by an estimate of their memory.  The list has the most recently used node in front.  The hash
  index maps each key to its node of the list and is changed together with the list, so a lookup
  in it is modelled by \<open>cache_find\<close> on the list.  \<open>block_abi\<close> carries the two \<open>sizeof\<close> values of
  the estimate.  Every operation runs under the cache's mutex.
\<close>

section \<open>Definitions\<close>

record data_block =
  db_records :: "(bytes \<times> entry) list"

record block_abi =
  sizeof_DataBlock :: u64
  sizeof_Record :: u64

type_synonym cache_key = "bytes \<times> u64"

record cache_node =
  cn_key :: cache_key
  cn_block :: data_block
  cn_charge :: u64

record block_cache =
  bc_capacity_bytes :: u64
  bc_lru :: "cache_node list"
  bc_current_bytes :: u64
  bc_hits :: u64
  bc_misses :: u64
  bc_evictions :: u64

definition block_cache_new :: "u64 \<Rightarrow> block_cache result" where
  "block_cache_new capacity_bytes =
     (if capacity_bytes = 0 then Inl (InvalidArgument ''block cache capacity must be positive'')
      else Inr \<lparr>bc_capacity_bytes = capacity_bytes, bc_lru = [], bc_current_bytes = 0, bc_hits = 0,
                bc_misses = 0, bc_evictions = 0\<rparr>)"

definition cache_find :: "cache_key \<Rightarrow> cache_node list \<Rightarrow> cache_node option" where
  "cache_find key lru = find (\<lambda>n. cn_key n = key) lru"

definition block_cache_get :: "block_cache \<Rightarrow> cache_key \<Rightarrow> data_block option \<times> block_cache" where
  "block_cache_get c key =
     (case cache_find key (bc_lru c) of
        None \<Rightarrow> (None, c\<lparr>bc_misses := bc_misses c + 1\<rparr>)
      | Some node \<Rightarrow> (Some (cn_block node),
          c\<lparr>bc_lru := node # filter (\<lambda>n. cn_key n \<noteq> key) (bc_lru c), bc_hits := bc_hits c + 1\<rparr>))"

definition estimate_charge :: "block_abi \<Rightarrow> data_block \<Rightarrow> u64" where
  "estimate_charge B block =
     foldl (\<lambda>result (key, e). result + of_nat (length key) + of_nat (length (entry_value e)))
       (sizeof_DataBlock B + of_nat (length (db_records block)) * sizeof_Record B) (db_records block)"

function evict_until_fits :: "u64 \<Rightarrow> block_cache \<Rightarrow> block_cache" where
  "evict_until_fits incoming_charge c =
     (if bc_lru c \<noteq> [] \<and> bc_current_bytes c > bc_capacity_bytes c - incoming_charge
      then evict_until_fits incoming_charge
        (c\<lparr>bc_current_bytes := bc_current_bytes c - cn_charge (last (bc_lru c)),
           bc_lru := butlast (bc_lru c), bc_evictions := bc_evictions c + 1\<rparr>)
      else c)"
  by pat_completeness auto

termination
  by (relation "measure (\<lambda>(_, c). length (bc_lru c))") auto

declare evict_until_fits.simps [simp del]

definition block_cache_store :: "block_abi \<Rightarrow> block_cache \<Rightarrow> cache_key \<Rightarrow> data_block \<Rightarrow> block_cache" where
  "block_cache_store B c key block =
     (let charge = estimate_charge B block;
          c1 = (case cache_find key (bc_lru c) of
                  None \<Rightarrow> c
                | Some existing \<Rightarrow> c\<lparr>bc_current_bytes := bc_current_bytes c - cn_charge existing,
                    bc_lru := filter (\<lambda>n. cn_key n \<noteq> key) (bc_lru c)\<rparr>)
      in if charge > bc_capacity_bytes c1 then c1
         else let c2 = evict_until_fits charge c1
              in c2\<lparr>bc_lru := \<lparr>cn_key = key, cn_block = block, cn_charge = charge\<rparr> # bc_lru c2,
                    bc_current_bytes := bc_current_bytes c2 + charge\<rparr>)"

definition block_cache_put :: "block_abi \<Rightarrow> block_cache \<Rightarrow> cache_key \<Rightarrow> data_block option \<Rightarrow> block_cache result" where
  "block_cache_put B c key block =
     (case block of
        None \<Rightarrow> Inl (InvalidArgument ''cannot cache a null data block'')
      | Some b \<Rightarrow> Inr (block_cache_store B c key b))"

definition block_cache_clear :: "block_cache \<Rightarrow> block_cache" where
  "block_cache_clear c = c\<lparr>bc_lru := [], bc_current_bytes := 0\<rparr>"

definition block_cache_reset_statistics :: "block_cache \<Rightarrow> block_cache" where
  "block_cache_reset_statistics c = c\<lparr>bc_hits := 0, bc_misses := 0, bc_evictions := 0\<rparr>"

section \<open>The contract of a read-through cache\<close>

locale read_cache =
  fixes get :: "'c \<Rightarrow> 'k \<Rightarrow> 'v option \<times> 'c"
    and store :: "'c \<Rightarrow> 'k \<Rightarrow> 'v \<Rightarrow> 'c"
    and invar :: "'c \<Rightarrow> bool"
    and lookup :: "'c \<Rightarrow> 'k \<rightharpoonup> 'v"
  assumes get_lookup: "invar c \<Longrightarrow> fst (get c k) = lookup c k"
    and get_keeps: "invar c \<Longrightarrow> lookup (snd (get c k)) = lookup c"
    and get_invar: "invar c \<Longrightarrow> invar (snd (get c k))"
    and store_invar: "invar c \<Longrightarrow> invar (store c k v)"
    and store_le: "invar c \<Longrightarrow> lookup (store c k v) \<subseteq>\<^sub>m (lookup c)(k \<mapsto> v)"
begin

text \<open>A cache is coherent with a source when it holds nothing else than what the source has.\<close>

lemma get_coherent:
  assumes "invar c" and "lookup c \<subseteq>\<^sub>m source" and "get c k = (r, c')"
  shows "invar c' \<and> lookup c' \<subseteq>\<^sub>m source \<and> (r = None \<or> r = source k)"
  using assms get_lookup [of c k] get_keeps [of c k] get_invar [of c k]
  by (auto simp: map_le_def domIff)

lemma store_coherent:
  assumes "invar c" and "lookup c \<subseteq>\<^sub>m source" and "source k = Some v"
  shows "lookup (store c k v) \<subseteq>\<^sub>m source"
proof (rule map_le_trans [OF store_le [OF assms(1)]])
  show "(lookup c)(k \<mapsto> v) \<subseteq>\<^sub>m source" using assms(2,3) by (auto simp: map_le_def)
qed

end

section \<open>Invariant\<close>

definition cache_lookup :: "block_cache \<Rightarrow> cache_key \<rightharpoonup> data_block" where
  "cache_lookup c key = map_option cn_block (cache_find key (bc_lru c))"

definition total_charge :: "cache_node list \<Rightarrow> nat" where
  "total_charge lru = (\<Sum>n\<leftarrow>lru. unat (cn_charge n))"

definition cache_inv :: "block_cache \<Rightarrow> bool" where
  "cache_inv c \<longleftrightarrow> distinct (map cn_key (bc_lru c)) \<and> unat (bc_current_bytes c) = total_charge (bc_lru c) \<and>
     bc_current_bytes c \<le> bc_capacity_bytes c"

lemma total_charge_simps [simp]:
  "total_charge [] = 0"
  "total_charge (n # ns) = unat (cn_charge n) + total_charge ns"
  "total_charge (ns @ ms) = total_charge ns + total_charge ms"
  by (simp_all add: total_charge_def)

lemma total_charge_butlast:
  "lru \<noteq> [] \<Longrightarrow> total_charge lru = total_charge (butlast lru) + unat (cn_charge (last lru))"
  by (subst append_butlast_last_id [symmetric], assumption) (simp only: total_charge_simps)

lemma cache_find_Some: "cache_find key lru = Some n \<Longrightarrow> n \<in> set lru \<and> cn_key n = key"
  by (auto simp: cache_find_def find_Some_iff)

lemma cache_find_None: "cache_find key lru = None \<longleftrightarrow> key \<notin> cn_key ` set lru"
  by (auto simp: cache_find_def find_None_iff)

lemma cache_find_Cons: "cache_find key (n # ns) = (if cn_key n = key then Some n else cache_find key ns)"
  by (simp add: cache_find_def)

lemma cache_find_filter:
  "cache_find k (filter (\<lambda>n. cn_key n \<noteq> key) lru) = (if k = key then None else cache_find k lru)"
  by (induction lru) (auto simp: cache_find_def)

lemma cache_find_prefix: "prefix ns lru \<Longrightarrow> cache_find k ns = Some n \<Longrightarrow> cache_find k lru = Some n"
  by (induction lru arbitrary: ns) (auto simp: cache_find_def prefix_Cons split: if_splits)

lemma total_charge_filter:
  assumes "distinct (map cn_key lru)" and "cache_find key lru = Some n"
  shows "total_charge lru = unat (cn_charge n) + total_charge (filter (\<lambda>m. cn_key m \<noteq> key) lru)"
  using assms
proof (induction lru)
  case (Cons m lru)
  show ?case
  proof (cases "cn_key m = key")
    case True
    with Cons.prems(1) have "key \<notin> cn_key ` set lru" by simp
    then have "filter (\<lambda>m. cn_key m \<noteq> key) lru = lru" by (auto simp: filter_id_conv)
    with True Cons.prems show ?thesis by (simp add: cache_find_Cons)
  qed (use Cons in \<open>auto simp: cache_find_Cons\<close>)
qed (simp add: cache_find_def)


lemma evict_until_fits_facts:
  assumes "unat (bc_current_bytes c) = total_charge (bc_lru c)" and "incoming \<le> bc_capacity_bytes c"
  shows "\<exists>m. let c' = evict_until_fits incoming c in
    bc_lru c' = take m (bc_lru c) \<and> unat (bc_current_bytes c') = total_charge (bc_lru c') \<and>
    unat (bc_current_bytes c') + unat incoming \<le> unat (bc_capacity_bytes c') \<and>
    bc_capacity_bytes c' = bc_capacity_bytes c"
  using assms
proof (induction incoming c rule: evict_until_fits.induct)
  case (1 incoming c)
  let ?c1 = "c\<lparr>bc_current_bytes := bc_current_bytes c - cn_charge (last (bc_lru c)),
           bc_lru := butlast (bc_lru c), bc_evictions := bc_evictions c + 1\<rparr>"
  show ?case
  proof (cases "bc_lru c \<noteq> [] \<and> bc_current_bytes c > bc_capacity_bytes c - incoming")
    case True
    then have total: "total_charge (bc_lru c) = total_charge (butlast (bc_lru c)) + unat (cn_charge (last (bc_lru c)))"
      by (intro total_charge_butlast) simp
    with 1(2) have "cn_charge (last (bc_lru c)) \<le> bc_current_bytes c" by (simp add: word_le_nat_alt)
    then have "unat (bc_current_bytes ?c1) = total_charge (bc_lru ?c1)"
      using total 1(2) by (simp add: unat_sub)
    from 1(1) [OF True this] 1(3) obtain m where m: "let c' = evict_until_fits incoming ?c1 in
      bc_lru c' = take m (bc_lru ?c1) \<and> unat (bc_current_bytes c') = total_charge (bc_lru c') \<and>
      unat (bc_current_bytes c') + unat incoming \<le> unat (bc_capacity_bytes c') \<and>
      bc_capacity_bytes c' = bc_capacity_bytes c" by auto
    have "evict_until_fits incoming c = evict_until_fits incoming ?c1"
      using True by (simp add: evict_until_fits.simps [of incoming c])
    with m show ?thesis
      by (intro exI [of _ "min m (length (bc_lru c) - 1)"]) (auto simp: Let_def butlast_conv_take)
  next
    case False
    have "unat (bc_current_bytes c) + unat incoming \<le> unat (bc_capacity_bytes c)"
    proof (cases "bc_lru c = []")
      case True
      with 1(2,3) show ?thesis by (simp add: word_le_nat_alt)
    next
      case nonempty: False
      with False have "bc_current_bytes c \<le> bc_capacity_bytes c - incoming" by simp
      with 1(3) show ?thesis by (simp add: word_le_nat_alt unat_sub)
    qed
    moreover have "evict_until_fits incoming c = c"
      by (subst evict_until_fits.simps) (rule if_not_P [OF False])
    ultimately show ?thesis
      using 1(2) by (intro exI [of _ "length (bc_lru c)"]) (simp add: Let_def)
  qed
qed

text \<open>What a store leaves in the cache.\<close>

lemma block_cache_store_facts:
  assumes "cache_inv c"
  obtains m where "bc_lru (block_cache_store B c key block) =
      (if estimate_charge B block > bc_capacity_bytes c then []
       else [\<lparr>cn_key = key, cn_block = block, cn_charge = estimate_charge B block\<rparr>]) @
      take m (filter (\<lambda>n. cn_key n \<noteq> key) (bc_lru c))"
    and "cache_inv (block_cache_store B c key block)"
    and "bc_capacity_bytes (block_cache_store B c key block) = bc_capacity_bytes c"
proof -
  define lru1 where "lru1 = filter (\<lambda>n. cn_key n \<noteq> key) (bc_lru c)"
  define c1 where "c1 = (case cache_find key (bc_lru c) of None \<Rightarrow> c
    | Some existing \<Rightarrow> c\<lparr>bc_current_bytes := bc_current_bytes c - cn_charge existing, bc_lru := lru1\<rparr>)"
  have keys: "distinct (map cn_key (bc_lru c))" and total: "unat (bc_current_bytes c) = total_charge (bc_lru c)"
    and cap: "bc_current_bytes c \<le> bc_capacity_bytes c" using assms by (auto simp: cache_inv_def)
  have c1: "bc_lru c1 = lru1" "unat (bc_current_bytes c1) = total_charge lru1"
    "bc_current_bytes c1 \<le> bc_capacity_bytes c" "bc_capacity_bytes c1 = bc_capacity_bytes c"
  proof -
    have "bc_lru c1 = lru1 \<and> unat (bc_current_bytes c1) = total_charge lru1 \<and>
      bc_current_bytes c1 \<le> bc_capacity_bytes c \<and> bc_capacity_bytes c1 = bc_capacity_bytes c"
    proof (cases "cache_find key (bc_lru c)")
      case None
      then have "lru1 = bc_lru c" by (auto simp: lru1_def cache_find_None filter_id_conv)
      with None total cap show ?thesis by (simp add: c1_def)
    next
      case (Some n)
      note t = total_charge_filter [OF keys Some, folded lru1_def]
      then have "cn_charge n \<le> bc_current_bytes c" using total by (simp add: word_le_nat_alt)
      then have "unat (bc_current_bytes c - cn_charge n) = total_charge lru1"
        using total t by (simp add: unat_sub)
      moreover from this have "bc_current_bytes c - cn_charge n \<le> bc_capacity_bytes c"
        using total t cap by (simp add: word_le_nat_alt)
      ultimately show ?thesis using Some by (simp add: c1_def)
    qed
    then show "bc_lru c1 = lru1" "unat (bc_current_bytes c1) = total_charge lru1"
      "bc_current_bytes c1 \<le> bc_capacity_bytes c" "bc_capacity_bytes c1 = bc_capacity_bytes c" by auto
  qed
  have keys1: "distinct (map cn_key lru1)" "key \<notin> cn_key ` set lru1"
    using keys by (auto simp: lru1_def distinct_map_filter)
  have store: "block_cache_store B c key block =
      (if estimate_charge B block > bc_capacity_bytes c then c1
       else let c2 = evict_until_fits (estimate_charge B block) c1
            in c2\<lparr>bc_lru := \<lparr>cn_key = key, cn_block = block, cn_charge = estimate_charge B block\<rparr> # bc_lru c2,
                  bc_current_bytes := bc_current_bytes c2 + estimate_charge B block\<rparr>)"
    unfolding block_cache_store_def Let_def lru1_def [symmetric] c1_def [symmetric] c1(4) ..
  show thesis
  proof (cases "estimate_charge B block > bc_capacity_bytes c")
    case True
    with c1 keys1 show thesis
      by (intro that [of "length lru1"]) (simp_all add: store cache_inv_def lru1_def [symmetric])
  next
    case False
    define c2 where "c2 = evict_until_fits (estimate_charge B block) c1"
    from evict_until_fits_facts [of c1 "estimate_charge B block"] c1 False obtain m where
      c2: "bc_lru c2 = take m lru1" "unat (bc_current_bytes c2) = total_charge (bc_lru c2)"
      "unat (bc_current_bytes c2) + unat (estimate_charge B block) \<le> unat (bc_capacity_bytes c)"
      "bc_capacity_bytes c2 = bc_capacity_bytes c"
      by (auto simp: c2_def Let_def not_less)
    have sum: "unat (bc_current_bytes c2 + estimate_charge B block) =
        unat (bc_current_bytes c2) + unat (estimate_charge B block)"
      using c2(3) unsigned_less [of "bc_capacity_bytes c", where 'a = nat]
      by (subst unat_add_lem [symmetric]) linarith
    have "distinct (map cn_key (take m lru1))" "key \<notin> cn_key ` set (take m lru1)"
      using keys1 by (auto simp: take_map [symmetric] dest: in_set_takeD)
    with c2 sum False show thesis
      by (intro that [of m])
        (simp_all add: store c2_def [symmetric] cache_inv_def Let_def lru1_def [symmetric] word_le_nat_alt)
  qed
qed


lemma block_cache_store_inv:
  assumes "cache_inv c"
  shows "cache_inv (block_cache_store B c key block)"
    and "bc_capacity_bytes (block_cache_store B c key block) = bc_capacity_bytes c"
  by (rule block_cache_store_facts [OF assms], assumption)+

lemma block_cache_get_facts:
  assumes "cache_inv c"
  shows "fst (block_cache_get c k) = cache_lookup c k"
    and "cache_lookup (snd (block_cache_get c k)) = cache_lookup c"
    and "cache_inv (snd (block_cache_get c k))"
proof -
  show "fst (block_cache_get c k) = cache_lookup c k"
    by (auto simp: block_cache_get_def cache_lookup_def split: option.splits)
  show "cache_lookup (snd (block_cache_get c k)) = cache_lookup c"
    by (auto simp: block_cache_get_def cache_lookup_def fun_eq_iff cache_find_Cons cache_find_filter
        dest: cache_find_Some split: option.splits)
  have keys: "distinct (map cn_key (bc_lru c))" using assms by (simp add: cache_inv_def)
  show "cache_inv (snd (block_cache_get c k))"
  proof (cases "cache_find k (bc_lru c)")
    case None
    with assms show ?thesis by (simp add: block_cache_get_def cache_inv_def)
  next
    case (Some n)
    note total_charge_filter [OF keys Some]
    moreover from Some have "cn_key n = k" by (auto dest: cache_find_Some)
    ultimately show ?thesis
      using assms Some keys
      by (auto simp: block_cache_get_def cache_inv_def distinct_map_filter)
  qed
qed

lemma cache_lookup_store:
  assumes "cache_inv c"
  shows "cache_lookup (block_cache_store B c k block) \<subseteq>\<^sub>m (cache_lookup c)(k \<mapsto> block)"
    and "estimate_charge B block \<le> bc_capacity_bytes c \<Longrightarrow>
      cache_lookup (block_cache_store B c k block) k = Some block"
proof -
  obtain m where lru: "bc_lru (block_cache_store B c k block) =
      (if estimate_charge B block > bc_capacity_bytes c then []
       else [\<lparr>cn_key = k, cn_block = block, cn_charge = estimate_charge B block\<rparr>]) @
      take m (filter (\<lambda>n. cn_key n \<noteq> k) (bc_lru c))"
    using block_cache_store_facts [OF assms] by blast
  have rest: "k' \<noteq> k \<and> cache_find k' (bc_lru c) = Some n"
    if "cache_find k' (take m (filter (\<lambda>n. cn_key n \<noteq> k) (bc_lru c))) = Some n" for k' n
  proof -
    have "cache_find k' (filter (\<lambda>n. cn_key n \<noteq> k) (bc_lru c)) = Some n"
      by (rule cache_find_prefix [OF take_is_prefix that])
    then show ?thesis by (simp add: cache_find_filter split: if_splits)
  qed
  have eq: "cache_lookup (block_cache_store B c k block) k' = ((cache_lookup c)(k \<mapsto> block)) k'"
    if "cache_lookup (block_cache_store B c k block) k' = Some b" for k' b
    using that rest [of k'] unfolding cache_lookup_def lru
    by (cases "k' = k") (auto simp: cache_find_Cons split: if_splits)
  show "cache_lookup (block_cache_store B c k block) \<subseteq>\<^sub>m (cache_lookup c)(k \<mapsto> block)"
    unfolding map_le_def using eq by blast
  show "cache_lookup (block_cache_store B c k block) k = Some block"
    if "estimate_charge B block \<le> bc_capacity_bytes c"
    using that by (simp add: cache_lookup_def lru cache_find_Cons not_less [symmetric])
qed

interpretation blocks: read_cache block_cache_get "block_cache_store B" cache_inv cache_lookup
proof (unfold_locales, goal_cases)
  case (4 c k v)
  then show ?case by (rule block_cache_store_inv)
qed (simp_all add: block_cache_get_facts cache_lookup_store)

section \<open>Properties\<close>

datatype cache_op = CacheGet cache_key | CachePut cache_key data_block | CacheClear | CacheResetStatistics

primrec cache_step :: "block_abi \<Rightarrow> cache_op \<Rightarrow> block_cache \<Rightarrow> block_cache" where
  "cache_step B (CacheGet k) c = snd (block_cache_get c k)"
| "cache_step B (CachePut k b) c = block_cache_store B c k b"
| "cache_step B CacheClear c = block_cache_clear c"
| "cache_step B CacheResetStatistics c = block_cache_reset_statistics c"

primrec last_put :: "cache_op \<Rightarrow> (cache_key \<rightharpoonup> data_block) \<Rightarrow> cache_key \<rightharpoonup> data_block" where
  "last_put (CacheGet k) m = m"
| "last_put (CachePut k b) m = m(k \<mapsto> b)"
| "last_put CacheClear m = Map.empty"
| "last_put CacheResetStatistics m = m"

lemma cache_step_facts:
  assumes "cache_inv c" and "cache_lookup c \<subseteq>\<^sub>m m"
  shows "cache_inv (cache_step B op c) \<and> cache_lookup (cache_step B op c) \<subseteq>\<^sub>m last_put op m \<and>
    bc_capacity_bytes (cache_step B op c) = bc_capacity_bytes c"
proof (cases op)
  case (CacheGet k)
  have "bc_capacity_bytes (snd (block_cache_get c k)) = bc_capacity_bytes c"
    by (simp add: block_cache_get_def split: option.splits)
  with CacheGet assms show ?thesis by (simp add: block_cache_get_facts)
next
  case (CachePut k b)
  have "(cache_lookup c)(k \<mapsto> b) \<subseteq>\<^sub>m m(k \<mapsto> b)" using assms(2) by (auto simp: map_le_def)
  with cache_lookup_store(1) [OF assms(1), of B k b]
  have "cache_lookup (block_cache_store B c k b) \<subseteq>\<^sub>m m(k \<mapsto> b)" by (rule map_le_trans)
  with CachePut show ?thesis by (simp add: block_cache_store_inv [OF assms(1)])
next
  case CacheClear
  with assms show ?thesis
    by (simp add: block_cache_clear_def cache_inv_def cache_lookup_def cache_find_def map_le_def)
next
  case CacheResetStatistics
  have "cache_lookup (block_cache_reset_statistics c) = cache_lookup c"
    by (simp add: fun_eq_iff cache_lookup_def block_cache_reset_statistics_def)
  with CacheResetStatistics assms show ?thesis
    by (simp add: block_cache_reset_statistics_def cache_inv_def)
qed

lemma block_cache_newD:
  assumes "block_cache_new capacity = Inr c"
  shows "cache_inv c" and "bc_capacity_bytes c = capacity" and "cache_lookup c = Map.empty"
  using assms
  by (auto simp: block_cache_new_def cache_inv_def cache_lookup_def cache_find_def fun_eq_iff split: if_splits)

text \<open>C24. After any sequence of operations on a new cache, the charges of the cached blocks add up
  to the byte counter without wrap-around and do not exceed the capacity, every key is cached at
  most once, and a lookup returns nothing or the block last put under that key since the last
  \<open>clear\<close>.\<close>

theorem block_cache_bounded_and_coherent:
  assumes "block_cache_new capacity = Inr c0"
  shows "case fold (cache_step B) ops c0 of c \<Rightarrow>
    total_charge (bc_lru c) = unat (bc_current_bytes c) \<and> total_charge (bc_lru c) \<le> unat capacity \<and>
    distinct (map cn_key (bc_lru c)) \<and>
    fst (block_cache_get c k) \<in> {None, fold last_put ops Map.empty k}"
proof -
  have "cache_inv c \<and> bc_capacity_bytes c = capacity \<Longrightarrow> cache_lookup c \<subseteq>\<^sub>m m \<Longrightarrow>
    cache_inv (fold (cache_step B) ops c) \<and> bc_capacity_bytes (fold (cache_step B) ops c) = capacity \<and>
    cache_lookup (fold (cache_step B) ops c) \<subseteq>\<^sub>m fold last_put ops m" for c m
  proof (induction ops arbitrary: c m)
    case (Cons op ops)
    from cache_step_facts [of c m B op] Cons.prems show ?case
      using Cons.IH [of "cache_step B op c" "last_put op m"] by simp
  qed simp
  from this [of c0 Map.empty] block_cache_newD [OF assms]
  have inv: "cache_inv (fold (cache_step B) ops c0)" "bc_capacity_bytes (fold (cache_step B) ops c0) = capacity"
    and le: "cache_lookup (fold (cache_step B) ops c0) \<subseteq>\<^sub>m fold last_put ops Map.empty" by simp_all
  have "cache_lookup (fold (cache_step B) ops c0) k \<in> {None, fold last_put ops Map.empty k}"
    using le unfolding map_le_def by (metis domIff insertCI)
  with inv show ?thesis
    by (simp add: block_cache_get_facts) (simp add: cache_inv_def word_le_nat_alt)
qed

theorem block_cache_bounded_and_coherent_witness:
  "\<exists>c0. block_cache_new 100 = Inr c0 \<and>
    (case fold (cache_step \<lparr>sizeof_DataBlock = 24, sizeof_Record = 80\<rparr>)
       [CachePut ([1], 56) \<lparr>db_records = []\<rparr>, CacheGet ([1], 56)] c0 of c \<Rightarrow>
     total_charge (bc_lru c) \<le> 100 \<and> fst (block_cache_get c ([1], 56)) \<in> {None, Some \<lparr>db_records = []\<rparr>})"
proof -
  obtain c0 where new: "block_cache_new 100 = Inr c0" by (simp add: block_cache_new_def)
  from block_cache_bounded_and_coherent [OF new, of "\<lparr>sizeof_DataBlock = 24, sizeof_Record = 80\<rparr>"
      "[CachePut ([1], 56) \<lparr>db_records = []\<rparr>, CacheGet ([1], 56)]" "([1], 56)"] new
  show ?thesis by (simp del: insert_iff)
qed

end
