(* ===== verification/SSTableFormat.thy ===== *)
theory SSTableFormat
  imports BlockCache Checksum Codec
begin

text \<open>
  The SSTable file format (\<open>src/sstable_format.cpp\<close>): header, data blocks, index block and footer,
  each closed by a CRC-32.  The parsers follow the source's cursor over the bytes, report the file
  offset of what they reject, and read strings only in front of the checksum.
\<close>

section \<open>Data\<close>

record index_entry =
  ie_first_key :: bytes
  ie_last_key :: bytes
  ie_block_offset :: u64
  ie_block_size :: u64

record sst_header =
  hd_generation :: u64
  hd_entry_count :: u64
  hd_block_count :: u32
  hd_target_data_block_bytes :: u32
  hd_min_sequence_number :: u64
  hd_max_sequence_number :: u64

record sst_footer =
  ft_index_offset :: u64
  ft_index_size :: u64
  ft_entry_count :: u64
  ft_block_count :: u32
  ft_min_sequence_number :: u64
  ft_max_sequence_number :: u64

definition kHeaderMagic :: bytes where
  "kHeaderMagic = str ''NBLSST01''"

definition kDataBlockMagic :: bytes where
  "kDataBlockMagic = str ''NBLDAT01''"

definition kIndexMagic :: bytes where
  "kIndexMagic = str ''NBLIDX01''"

definition kFooterMagic :: bytes where
  "kFooterMagic = str ''NBLFTR01''"

definition kSstVersion :: u16 where
  "kSstVersion = 1"

definition kSstHeaderSize :: nat where
  "kSstHeaderSize = 56"

definition kFooterSize :: nat where
  "kFooterSize = 64"

definition kSstChecksumSize :: nat where
  "kSstChecksumSize = 4"

definition kRecordFixedSize :: nat where
  "kRecordFixedSize = 20"

section \<open>Integers and strings\<close>

definition append_uint16 :: "bytes \<Rightarrow> u16 \<Rightarrow> bytes" where
  "append_uint16 destination v = destination @ le_bytes 2 v"

definition append_uint32 :: "bytes \<Rightarrow> u32 \<Rightarrow> bytes" where
  "append_uint32 destination v = destination @ le_bytes 4 v"

definition append_uint64 :: "bytes \<Rightarrow> u64 \<Rightarrow> bytes" where
  "append_uint64 destination v = destination @ le_bytes 8 v"

definition read_uint16 :: "bytes \<Rightarrow> u16 result" where
  "read_uint16 bs = (if length bs < 2 then Inl (InvalidArgument ''insufficient bytes for uint16'')
     else Inr (le_value 2 bs))"

definition read_uint32 :: "bytes \<Rightarrow> u32 result" where
  "read_uint32 bs = (if length bs < 4 then Inl (InvalidArgument ''insufficient bytes for uint32'')
     else Inr (le_value 4 bs))"

definition read_uint64 :: "bytes \<Rightarrow> u64 result" where
  "read_uint64 bs = (if length bs < 8 then Inl (InvalidArgument ''insufficient bytes for uint64'')
     else Inr (le_value 8 bs))"

definition has_magic :: "bytes \<Rightarrow> bytes \<Rightarrow> bool" where
  "has_magic bs magic \<longleftrightarrow> length magic \<le> length bs \<and> take (length magic) bs = magic"

definition validate_checksum :: "bytes \<Rightarrow> u64 \<Rightarrow> string \<Rightarrow> unit result" where
  "validate_checksum bs file_offset component =
     (if length bs < kSstChecksumSize
      then Inl (SSTableCorruptionError file_offset (component @ '' is shorter than its checksum''))
      else let payload = take (length bs - kSstChecksumSize) bs in
        bind_result (read_uint32 (drop (length bs - kSstChecksumSize) bs)) (\<lambda>expected.
        throw_if (expected \<noteq> crc32 payload)
          (SSTableCorruptionError (file_offset + of_nat (length bs) - of_nat kSstChecksumSize)
            (component @ '' checksum mismatch''))))"

definition read_string :: "bytes \<Rightarrow> nat \<Rightarrow> nat \<Rightarrow> u64 \<Rightarrow> string \<Rightarrow> (bytes \<times> nat) result" where
  "read_string bs cursor len file_offset component =
     (if cursor > length bs \<or> len > length bs - cursor
      then Inl (SSTableCorruptionError (file_offset + of_nat cursor) (component @ '' contains a truncated string''))
      else Inr (subspan cursor len bs, cursor + len))"

definition require_size :: "bytes \<Rightarrow> nat \<Rightarrow> u64 \<Rightarrow> string \<Rightarrow> unit result" where
  "require_size bs expected file_offset component =
     throw_if (length bs \<noteq> expected) (SSTableCorruptionError file_offset (component @ '' has an invalid size''))"

section \<open>Header\<close>

definition serialize_header :: "sst_header \<Rightarrow> bytes" where
  "serialize_header h =
     (let bs = kHeaderMagic;
          bs = append_uint16 bs kSstVersion;
          bs = append_uint16 bs (of_nat kSstHeaderSize);
          bs = append_uint64 bs (hd_generation h);
          bs = append_uint64 bs (hd_entry_count h);
          bs = append_uint32 bs (hd_block_count h);
          bs = append_uint32 bs (hd_target_data_block_bytes h);
          bs = append_uint64 bs (hd_min_sequence_number h);
          bs = append_uint64 bs (hd_max_sequence_number h)
      in append_uint32 bs (crc32 bs))"

definition parse_header :: "bytes \<Rightarrow> u64 \<Rightarrow> sst_header result" where
  "parse_header bs file_offset =
     bind_result (require_size bs kSstHeaderSize file_offset ''SSTable header'') (\<lambda>_.
     bind_result (validate_checksum bs file_offset ''SSTable header'') (\<lambda>_.
     if \<not> has_magic bs kHeaderMagic
     then Inl (SSTableCorruptionError file_offset ''SSTable header magic mismatch'')
     else bind_result (read_uint16 (subspan 8 2 bs)) (\<lambda>version.
     if version \<noteq> kSstVersion
     then Inl (SSTableCorruptionError (file_offset + 8) ''unsupported SSTable version'')
     else bind_result (read_uint16 (subspan 10 2 bs)) (\<lambda>size.
     if unat size \<noteq> kSstHeaderSize
     then Inl (SSTableCorruptionError (file_offset + 10) ''invalid SSTable header size'')
     else bind_result (read_uint64 (subspan 12 8 bs)) (\<lambda>generation.
     bind_result (read_uint64 (subspan 20 8 bs)) (\<lambda>entry_count.
     bind_result (read_uint32 (subspan 28 4 bs)) (\<lambda>block_count.
     bind_result (read_uint32 (subspan 32 4 bs)) (\<lambda>target.
     bind_result (read_uint64 (subspan 36 8 bs)) (\<lambda>min_sequence.
     bind_result (read_uint64 (subspan 44 8 bs)) (\<lambda>max_sequence.
     if entry_count = 0 \<or> block_count = 0 \<or> min_sequence = 0 \<or> min_sequence > max_sequence
     then Inl (SSTableCorruptionError file_offset ''SSTable header metadata is invalid'')
     else Inr \<lparr>hd_generation = generation, hd_entry_count = entry_count, hd_block_count = block_count,
       hd_target_data_block_bytes = target, hd_min_sequence_number = min_sequence,
       hd_max_sequence_number = max_sequence\<rparr>))))))))))"

section \<open>Footer\<close>

definition serialize_footer :: "sst_footer \<Rightarrow> bytes" where
  "serialize_footer f =
     (let bs = kFooterMagic;
          bs = append_uint16 bs kSstVersion;
          bs = append_uint16 bs (of_nat kFooterSize);
          bs = append_uint64 bs (ft_index_offset f);
          bs = append_uint64 bs (ft_index_size f);
          bs = append_uint64 bs (ft_entry_count f);
          bs = append_uint32 bs (ft_block_count f);
          bs = append_uint32 bs 0;
          bs = append_uint64 bs (ft_min_sequence_number f);
          bs = append_uint64 bs (ft_max_sequence_number f)
      in append_uint32 bs (crc32 bs))"

definition parse_footer :: "bytes \<Rightarrow> u64 \<Rightarrow> sst_footer result" where
  "parse_footer bs file_offset =
     bind_result (require_size bs kFooterSize file_offset ''SSTable footer'') (\<lambda>_.
     bind_result (validate_checksum bs file_offset ''SSTable footer'') (\<lambda>_.
     if \<not> has_magic bs kFooterMagic
     then Inl (SSTableCorruptionError file_offset ''SSTable footer magic mismatch'')
     else bind_result (read_uint16 (subspan 8 2 bs)) (\<lambda>version.
     if version \<noteq> kSstVersion
     then Inl (SSTableCorruptionError (file_offset + 8) ''unsupported SSTable footer version'')
     else bind_result (read_uint16 (subspan 10 2 bs)) (\<lambda>size.
     if unat size \<noteq> kFooterSize
     then Inl (SSTableCorruptionError (file_offset + 10) ''invalid SSTable footer size'')
     else bind_result (read_uint64 (subspan 12 8 bs)) (\<lambda>index_offset.
     bind_result (read_uint64 (subspan 20 8 bs)) (\<lambda>index_size.
     bind_result (read_uint64 (subspan 28 8 bs)) (\<lambda>entry_count.
     bind_result (read_uint32 (subspan 36 4 bs)) (\<lambda>block_count.
     bind_result (read_uint64 (subspan 44 8 bs)) (\<lambda>min_sequence.
     bind_result (read_uint64 (subspan 52 8 bs)) (\<lambda>max_sequence.
     if index_size = 0 \<or> entry_count = 0 \<or> block_count = 0 \<or> min_sequence = 0 \<or> min_sequence > max_sequence
     then Inl (SSTableCorruptionError file_offset ''SSTable footer metadata is invalid'')
     else Inr \<lparr>ft_index_offset = index_offset, ft_index_size = index_size, ft_entry_count = entry_count,
       ft_block_count = block_count, ft_min_sequence_number = min_sequence,
       ft_max_sequence_number = max_sequence\<rparr>))))))))))"


section \<open>Data blocks\<close>

definition encoded_record_size :: "bytes \<times> entry \<Rightarrow> nat" where
  "encoded_record_size r = kRecordFixedSize + length (fst r) + length (entry_value (snd r))"

text \<open>The loops over the records: the bytes appended, and the records read with the final cursor.\<close>

fun serialize_records :: "bytes \<Rightarrow> (bytes \<times> entry) list \<Rightarrow> bytes result" where
  "serialize_records previous_key [] = Inr []"
| "serialize_records previous_key ((key, e) # rs) =
     (if key = [] \<or> length key > kMaxKeySize \<or> length (entry_value e) > kMaxValueSize \<or>
         entry_sequence_number e = 0 \<or> (entry_deleted e \<and> entry_value e \<noteq> [])
      then Inl (InvalidArgument ''invalid entry supplied to SSTable data block'')
      else if previous_key \<noteq> [] \<and> key \<le> previous_key
      then Inl (InvalidArgument ''SSTable data block keys must be strictly sorted'')
      else bind_result (serialize_records key rs) (\<lambda>rest.
        let bs = append_uint32 [] (of_nat (length key));
            bs = append_uint32 bs (of_nat (length (entry_value e)));
            bs = append_uint64 bs (entry_sequence_number e);
            bs = bs @ [if entry_deleted e then 1 else 0];
            bs = bs @ [0, 0, 0];
            bs = bs @ key;
            bs = bs @ entry_value e
        in Inr (bs @ rest)))"

definition serialize_data_block :: "data_block \<Rightarrow> bytes result" where
  "serialize_data_block block =
     (if db_records block = []
      then Inl (InvalidArgument ''cannot serialize an empty SSTable data block'')
      else if length (db_records block) > unat (- 1 :: u32)
      then Inl (LengthError ''SSTable data block contains too many records'')
      else bind_result (serialize_records [] (db_records block)) (\<lambda>records.
        let bs = append_uint32 kDataBlockMagic (of_nat (length (db_records block))) @ records
        in Inr (append_uint32 bs (crc32 bs))))"

fun parse_records :: "bytes \<Rightarrow> nat \<Rightarrow> u64 \<Rightarrow> nat \<Rightarrow> nat \<Rightarrow> bytes \<Rightarrow> ((bytes \<times> entry) list \<times> nat) result" where
  "parse_records bs payload_end file_offset 0 cursor previous_key = Inr ([], cursor)"
| "parse_records bs payload_end file_offset (Suc n) cursor previous_key =
     (if cursor > payload_end \<or> kRecordFixedSize > payload_end - cursor
      then Inl (SSTableCorruptionError (file_offset + of_nat cursor)
        ''SSTable data block record header is truncated'')
      else bind_result (read_uint32 (subspan cursor 4 bs)) (\<lambda>key_size.
      bind_result (read_uint32 (subspan (cursor + 4) 4 bs)) (\<lambda>value_size.
      bind_result (read_uint64 (subspan (cursor + 8) 8 bs)) (\<lambda>sequence_number.
      let flags = bs ! (cursor + 16); cursor1 = cursor + kRecordFixedSize in
      if key_size = 0 \<or> unat key_size > kMaxKeySize \<or> unat value_size > kMaxValueSize \<or>
         sequence_number = 0 \<or> flags > 1
      then Inl (SSTableCorruptionError (file_offset + of_nat cursor1 - of_nat kRecordFixedSize)
        ''SSTable data block record metadata is invalid'')
      else let deleted = (flags = 1) in
      if deleted \<and> value_size \<noteq> 0
      then Inl (SSTableCorruptionError (file_offset + of_nat cursor1 - 4) ''SSTable tombstone contains a value'')
      else bind_result (read_string (take payload_end bs) cursor1 (unat key_size) file_offset
        ''SSTable data block'') (\<lambda>(key, cursor2).
      bind_result (read_string (take payload_end bs) cursor2 (unat value_size) file_offset
        ''SSTable data block'') (\<lambda>(val, cursor3).
      if previous_key \<noteq> [] \<and> key \<le> previous_key
      then Inl (SSTableCorruptionError (file_offset + of_nat cursor3)
        ''SSTable data block keys are not strictly sorted'')
      else bind_result (parse_records bs payload_end file_offset n cursor3 key) (\<lambda>(rs, cursor4).
        Inr ((key, \<lparr>entry_value = val, entry_sequence_number = sequence_number, entry_deleted = deleted\<rparr>) # rs,
          cursor4))))))))"

definition parse_data_block :: "bytes \<Rightarrow> u64 \<Rightarrow> data_block result" where
  "parse_data_block bs file_offset =
     (if length bs < 12 + kSstChecksumSize
      then Inl (SSTableCorruptionError file_offset ''SSTable data block is truncated'')
      else bind_result (validate_checksum bs file_offset ''SSTable data block'') (\<lambda>_.
      if \<not> has_magic bs kDataBlockMagic
      then Inl (SSTableCorruptionError file_offset ''SSTable data block magic mismatch'')
      else bind_result (read_uint32 (subspan 8 4 bs)) (\<lambda>record_count.
      if record_count = 0
      then Inl (SSTableCorruptionError (file_offset + 8) ''SSTable data block is empty'')
      else let payload_end = length bs - kSstChecksumSize in
      bind_result (parse_records bs payload_end file_offset (unat record_count) 12 []) (\<lambda>(rs, cursor).
      if cursor \<noteq> payload_end
      then Inl (SSTableCorruptionError (file_offset + of_nat cursor) ''SSTable data block contains trailing bytes'')
      else Inr \<lparr>db_records = rs\<rparr>))))"

section \<open>Index block\<close>

fun serialize_index_entries :: "bytes \<Rightarrow> index_entry list \<Rightarrow> bytes result" where
  "serialize_index_entries previous_last_key [] = Inr []"
| "serialize_index_entries previous_last_key (e # es) =
     (if ie_first_key e = [] \<or> ie_last_key e = [] \<or> ie_first_key e > ie_last_key e \<or> ie_block_size e = 0 \<or>
         (previous_last_key \<noteq> [] \<and> ie_first_key e \<le> previous_last_key)
      then Inl (InvalidArgument ''invalid SSTable index entry'')
      else bind_result (serialize_index_entries (ie_last_key e) es) (\<lambda>rest.
        let bs = append_uint64 [] (ie_block_offset e);
            bs = append_uint64 bs (ie_block_size e);
            bs = append_uint32 bs (of_nat (length (ie_first_key e)));
            bs = append_uint32 bs (of_nat (length (ie_last_key e)));
            bs = bs @ ie_first_key e;
            bs = bs @ ie_last_key e
        in Inr (bs @ rest)))"

definition serialize_index_block :: "index_entry list \<Rightarrow> bytes result" where
  "serialize_index_block entries =
     (if entries = [] then Inl (InvalidArgument ''cannot serialize an empty SSTable index'')
      else if length entries > unat (- 1 :: u32)
      then Inl (LengthError ''SSTable index contains too many blocks'')
      else bind_result (serialize_index_entries [] entries) (\<lambda>body.
        let bs = append_uint32 kIndexMagic (of_nat (length entries)) @ body
        in Inr (append_uint32 bs (crc32 bs))))"

fun parse_index_entries :: "bytes \<Rightarrow> nat \<Rightarrow> u64 \<Rightarrow> nat \<Rightarrow> nat \<Rightarrow> bytes \<Rightarrow> (index_entry list \<times> nat) result" where
  "parse_index_entries bs payload_end file_offset 0 cursor previous_last_key = Inr ([], cursor)"
| "parse_index_entries bs payload_end file_offset (Suc n) cursor previous_last_key =
     (if cursor > payload_end \<or> 24 > payload_end - cursor
      then Inl (SSTableCorruptionError (file_offset + of_nat cursor) ''SSTable index entry is truncated'')
      else bind_result (read_uint64 (subspan cursor 8 bs)) (\<lambda>block_offset.
      bind_result (read_uint64 (subspan (cursor + 8) 8 bs)) (\<lambda>block_size.
      bind_result (read_uint32 (subspan (cursor + 16) 4 bs)) (\<lambda>first_size.
      bind_result (read_uint32 (subspan (cursor + 20) 4 bs)) (\<lambda>last_size.
      let cursor1 = cursor + 24 in
      if first_size = 0 \<or> unat first_size > kMaxKeySize \<or> last_size = 0 \<or> unat last_size > kMaxKeySize \<or>
         block_size = 0
      then Inl (SSTableCorruptionError (file_offset + of_nat cursor1 - 24) ''SSTable index metadata is invalid'')
      else bind_result (read_string (take payload_end bs) cursor1 (unat first_size) file_offset
        ''SSTable index'') (\<lambda>(first_key, cursor2).
      bind_result (read_string (take payload_end bs) cursor2 (unat last_size) file_offset
        ''SSTable index'') (\<lambda>(last_key, cursor3).
      if first_key > last_key \<or> (previous_last_key \<noteq> [] \<and> first_key \<le> previous_last_key)
      then Inl (SSTableCorruptionError (file_offset + of_nat cursor3) ''SSTable index key ranges are invalid'')
      else bind_result (parse_index_entries bs payload_end file_offset n cursor3 last_key) (\<lambda>(es, cursor4).
        Inr (\<lparr>ie_first_key = first_key, ie_last_key = last_key, ie_block_offset = block_offset,
          ie_block_size = block_size\<rparr> # es, cursor4)))))))))"

definition parse_index_block :: "bytes \<Rightarrow> u64 \<Rightarrow> index_entry list result" where
  "parse_index_block bs file_offset =
     (if length bs < 12 + kSstChecksumSize
      then Inl (SSTableCorruptionError file_offset ''SSTable index block is truncated'')
      else bind_result (validate_checksum bs file_offset ''SSTable index block'') (\<lambda>_.
      if \<not> has_magic bs kIndexMagic
      then Inl (SSTableCorruptionError file_offset ''SSTable index magic mismatch'')
      else bind_result (read_uint32 (subspan 8 4 bs)) (\<lambda>entry_count.
      if entry_count = 0
      then Inl (SSTableCorruptionError (file_offset + 8) ''SSTable index is empty'')
      else let payload_end = length bs - kSstChecksumSize in
      bind_result (parse_index_entries bs payload_end file_offset (unat entry_count) 12 []) (\<lambda>(es, cursor).
      if cursor \<noteq> payload_end
      then Inl (SSTableCorruptionError (file_offset + of_nat cursor) ''SSTable index contains trailing bytes'')
      else Inr es))))"

end
