(* ===== verification/SSTableCodec.thy ===== *)
theory SSTableCodec
  imports SSTableFormat
begin

text \<open>
  Round trips of the SSTable format: each parser undoes its serialiser, and none of them accepts
  bytes whose checksum does not match.
\<close>

section \<open>Spans and checksums\<close>

lemma subspan_take: "off + n \<le> m \<Longrightarrow> subspan off n (take m xs) = subspan off n xs"
  by (simp add: subspan_def drop_take min_absorb1)

lemma nth_append_offset [simp]: "(pre @ xs) ! (length pre + i) = xs ! i"
  by (simp add: nth_append)

lemma subspan_append_offset [simp]: "subspan (length pre + i) n (pre @ xs) = subspan i n xs"
  by (simp add: subspan_def)

lemma subspan_append_start [simp]: "subspan (length pre) n (pre @ xs) = subspan 0 n xs"
  by (simp add: subspan_def)

lemma read_string_take:
  assumes "cursor + n \<le> m" and "cursor + n \<le> length bs"
  shows "read_string (take m bs) cursor n off c = Inr (subspan cursor n bs, cursor + n)"
proof -
  have "cursor + n \<le> length (take m bs)" using assms by simp
  then have "\<not> (cursor > length (take m bs) \<or> n > length (take m bs) - cursor)" by linarith
  then show ?thesis using assms(1) by (simp only: read_string_def if_False subspan_take)
qed

lemma unat_minus_one_u32: "unat (- 1 :: u32) = 4294967295"
  by (simp add: unsigned_minus_1_eq_mask mask_eq_exp_minus_1)

lemma validate_checksum_append [simp]:
  "validate_checksum (bs @ le_bytes 4 (crc32 bs)) off c = Inr ()"
  by (simp add: validate_checksum_def kSstChecksumSize_def read_uint32_def le_value_le_bytes Let_def throw_if_def)

lemma validate_checksumD:
  assumes "validate_checksum bs off c = Inr u"
  shows "4 \<le> length bs \<and> drop (length bs - 4) bs = le_bytes 4 (crc32 (take (length bs - 4) bs))"
proof -
  from assms have len: "4 \<le> length bs" and crc: "le_value 4 (drop (length bs - 4) bs) = crc32 (take (length bs - 4) bs)"
    by (auto simp: validate_checksum_def kSstChecksumSize_def read_uint32_def Let_def result_simps split: if_splits)
  have "le_bytes 4 (le_value 4 (drop (length bs - 4) bs) :: u32) = drop (length bs - 4) bs"
    using len by (intro le_bytes_le_value) simp_all
  with len crc show ?thesis by simp
qed

text \<open>A change of up to four consecutive bytes, inside the payload or inside the checksum, is noticed.\<close>

lemma validate_checksum_burst:
  assumes ok: "validate_checksum (xs @ ys @ zs) off c = Inr u"
    and ok': "validate_checksum (xs @ ys' @ zs) off' c' = Inr u'"
    and ys: "length ys' = length ys" "length ys \<le> 4"
    and side: "length xs + length ys + 4 \<le> length (xs @ ys @ zs) \<or> length (xs @ ys @ zs) \<le> length xs + 4"
  shows "ys' = ys"
proof (cases "4 \<le> length zs")
  case True
  define k where "k = length zs - 4"
  have n: "length (xs @ ys @ zs) - 4 = length xs + (length ys + k)"
    "length (xs @ ys' @ zs) - 4 = length xs + (length ys' + k)" using True ys(1) by (simp_all add: k_def)
  from validate_checksumD [OF ok] validate_checksumD [OF ok']
  have "drop k zs = le_bytes 4 (crc32 (xs @ ys @ take k zs))" "drop k zs = le_bytes 4 (crc32 (xs @ ys' @ take k zs))"
    unfolding n by simp_all
  then have "crc32 (xs @ ys' @ take k zs) = crc32 (xs @ ys @ take k zs)"
    by (metis le_bytes_eq_iff [where 'a = 32 and k = 4, simplified])
  then show ?thesis using ys crc32_burst [of ys' ys xs "take k zs"] by simp
next
  case False
  with side ys have short: "length ys + length zs \<le> 4" by auto
  have len: "4 \<le> length (xs @ ys @ zs)" using validate_checksumD [OF ok] by simp
  define m where "m = length (xs @ ys @ zs) - 4"
  have m: "m \<le> length xs" "length (xs @ ys' @ zs) - 4 = m" using short ys(1) by (auto simp: m_def)
  have "drop m xs @ ys @ zs = le_bytes 4 (crc32 (take m xs))"
    using validate_checksumD [OF ok, folded m_def] m(1) by simp
  moreover have "drop m xs @ ys' @ zs = le_bytes 4 (crc32 (take m xs))"
    using validate_checksumD [OF ok', unfolded m(2)] m(1) by simp
  ultimately show ?thesis using ys(1) by (metis append_eq_append_conv same_append_eq)
qed

section \<open>Header and footer\<close>

definition valid_header :: "sst_header \<Rightarrow> bool" where
  "valid_header h \<longleftrightarrow> hd_entry_count h \<noteq> 0 \<and> hd_block_count h \<noteq> 0 \<and> hd_min_sequence_number h \<noteq> 0 \<and>
     hd_min_sequence_number h \<le> hd_max_sequence_number h"

definition valid_footer :: "sst_footer \<Rightarrow> bool" where
  "valid_footer f \<longleftrightarrow> ft_index_size f \<noteq> 0 \<and> ft_entry_count f \<noteq> 0 \<and> ft_block_count f \<noteq> 0 \<and>
     ft_min_sequence_number f \<noteq> 0 \<and> ft_min_sequence_number f \<le> ft_max_sequence_number f"

lemma length_magic [simp]:
  "length kHeaderMagic = 8" "length kDataBlockMagic = 8" "length kIndexMagic = 8" "length kFooterMagic = 8"
  by (simp_all add: kHeaderMagic_def kDataBlockMagic_def kIndexMagic_def kFooterMagic_def)

lemmas sst_append = append_uint16_def append_uint32_def append_uint64_def
lemmas sst_read = read_uint16_def read_uint32_def read_uint64_def

lemma length_serialize_header [simp]: "length (serialize_header h) = 56"
  by (simp add: serialize_header_def sst_append Let_def)

lemma length_serialize_footer [simp]: "length (serialize_footer f) = 64"
  by (simp add: serialize_footer_def sst_append Let_def)

lemma parse_serialize_header:
  assumes "valid_header h"
  shows "parse_header (serialize_header h) off = Inr h"
proof -
  define bs where "bs = kHeaderMagic @ le_bytes 2 kSstVersion @ le_bytes 2 (of_nat kSstHeaderSize :: u16) @
    le_bytes 8 (hd_generation h) @ le_bytes 8 (hd_entry_count h) @ le_bytes 4 (hd_block_count h) @
    le_bytes 4 (hd_target_data_block_bytes h) @ le_bytes 8 (hd_min_sequence_number h) @
    le_bytes 8 (hd_max_sequence_number h)"
  have ser: "serialize_header h = bs @ le_bytes 4 (crc32 bs)"
    by (simp add: serialize_header_def sst_append Let_def bs_def)
  have len: "length bs = 52" by (simp add: bs_def)
  have spans: "take 8 bs = kHeaderMagic" "subspan 8 2 bs = le_bytes 2 kSstVersion"
    "subspan 10 2 bs = le_bytes 2 (of_nat kSstHeaderSize :: u16)" "subspan 12 8 bs = le_bytes 8 (hd_generation h)"
    "subspan 20 8 bs = le_bytes 8 (hd_entry_count h)" "subspan 28 4 bs = le_bytes 4 (hd_block_count h)"
    "subspan 32 4 bs = le_bytes 4 (hd_target_data_block_bytes h)"
    "subspan 36 8 bs = le_bytes 8 (hd_min_sequence_number h)"
    "subspan 44 8 bs = le_bytes 8 (hd_max_sequence_number h)"
    by (simp_all add: bs_def)
  show ?thesis
    using assms len
    by (simp add: ser parse_header_def require_size_def throw_if_def kSstHeaderSize_def has_magic_def
        sst_read spans le_value_le_bytes valid_header_def not_less)
qed

lemma parse_serialize_footer:
  assumes "valid_footer f"
  shows "parse_footer (serialize_footer f) off = Inr f"
proof -
  define bs where "bs = kFooterMagic @ le_bytes 2 kSstVersion @ le_bytes 2 (of_nat kFooterSize :: u16) @
    le_bytes 8 (ft_index_offset f) @ le_bytes 8 (ft_index_size f) @ le_bytes 8 (ft_entry_count f) @
    le_bytes 4 (ft_block_count f) @ le_bytes 4 (0 :: u32) @ le_bytes 8 (ft_min_sequence_number f) @
    le_bytes 8 (ft_max_sequence_number f)"
  have ser: "serialize_footer f = bs @ le_bytes 4 (crc32 bs)"
    by (simp add: serialize_footer_def sst_append Let_def bs_def)
  have len: "length bs = 60" by (simp add: bs_def)
  have spans: "take 8 bs = kFooterMagic" "subspan 8 2 bs = le_bytes 2 kSstVersion"
    "subspan 10 2 bs = le_bytes 2 (of_nat kFooterSize :: u16)" "subspan 12 8 bs = le_bytes 8 (ft_index_offset f)"
    "subspan 20 8 bs = le_bytes 8 (ft_index_size f)" "subspan 28 8 bs = le_bytes 8 (ft_entry_count f)"
    "subspan 36 4 bs = le_bytes 4 (ft_block_count f)"
    "subspan 44 8 bs = le_bytes 8 (ft_min_sequence_number f)"
    "subspan 52 8 bs = le_bytes 8 (ft_max_sequence_number f)"
    by (simp_all add: bs_def)
  show ?thesis
    using assms len
    by (simp add: ser parse_footer_def require_size_def throw_if_def kFooterSize_def has_magic_def
        sst_read spans le_value_le_bytes valid_footer_def not_less)
qed


section \<open>Data blocks\<close>

definition record_bytes :: "bytes \<times> entry \<Rightarrow> bytes" where
  "record_bytes r = le_bytes 4 (of_nat (length (fst r)) :: u32) @ le_bytes 4 (of_nat (length (entry_value (snd r))) :: u32) @
     le_bytes 8 (entry_sequence_number (snd r)) @ [if entry_deleted (snd r) then 1 else 0, 0, 0, 0] @
     fst r @ entry_value (snd r)"

lemma length_record_bytes: "length (record_bytes r) = encoded_record_size r"
  by (simp add: record_bytes_def encoded_record_size_def kRecordFixedSize_def)

lemma serialize_records_Cons:
  "serialize_records prev (r # rs) = Inr out \<longleftrightarrow>
     valid_entry r \<and> (prev = [] \<or> prev < fst r) \<and>
     (\<exists>rest. serialize_records (fst r) rs = Inr rest \<and> out = record_bytes r @ rest)"
  by (cases r) (auto simp: valid_entry_def record_bytes_def sst_append Let_def result_simps not_le)

lemma unat_key_size: "length k \<le> kMaxKeySize \<Longrightarrow> unat (of_nat (length k) :: u32) = length k"
  by (simp add: kMaxKeySize_def unat_of_nat take_bit_nat_eq_self)

lemma unat_value_size: "length v \<le> kMaxValueSize \<Longrightarrow> unat (of_nat (length v) :: u32) = length v"
  by (simp add: kMaxValueSize_def unat_of_nat take_bit_nat_eq_self)

lemma parse_records_step:
  assumes "valid_entry r" and "prev = [] \<or> prev < fst r"
    and "length pre + length (record_bytes r) \<le> payload_end" and "bs = pre @ record_bytes r @ post"
  shows "parse_records bs payload_end off (Suc n) (length pre) prev =
    bind_result (parse_records bs payload_end off n (length (pre @ record_bytes r)) (fst r))
      (\<lambda>(rs, cursor). Inr (r # rs, cursor))"
proof -
  obtain key e where r: "r = (key, e)" by (cases r)
  define v where "v = entry_value e"
  from assms(1) have valid: "key \<noteq> []" "length key \<le> kMaxKeySize" "length v \<le> kMaxValueSize"
    "entry_sequence_number e \<noteq> 0" "entry_deleted e \<longrightarrow> v = []" by (auto simp: valid_entry_def r v_def)
  have len: "length (record_bytes r) = 20 + length key + length v"
    by (simp add: length_record_bytes encoded_record_size_def kRecordFixedSize_def r v_def)
  have spans: "subspan (length pre) 4 bs = le_bytes 4 (of_nat (length key) :: u32)"
    "subspan (length pre + 4) 4 bs = le_bytes 4 (of_nat (length v) :: u32)"
    "subspan (length pre + 8) 8 bs = le_bytes 8 (entry_sequence_number e)"
    "bs ! (length pre + 16) = (if entry_deleted e then 1 else 0)"
    by (simp_all add: assms(4) record_bytes_def r v_def nth_append subspan_def)
  define fixed where "fixed = le_bytes 4 (of_nat (length key) :: u32) @ le_bytes 4 (of_nat (length v) :: u32) @
    le_bytes 8 (entry_sequence_number e) @ [if entry_deleted e then 1 else 0, 0, 0, 0]"
  have bs: "bs = pre @ fixed @ key @ v @ post" and fixed: "length fixed = 20"
    by (simp_all add: assms(4) record_bytes_def r v_def fixed_def)
  have strings: "subspan (length pre + 20) (length key) bs = key"
    "subspan (length pre + 20 + length key) (length v) bs = v"
    by (simp_all add: bs fixed add.assoc)
  have str1: "read_string (take payload_end bs) (length pre + 20) (length key) off c = Inr (key, length pre + 20 + length key)" for c
    using assms(3) len by (subst read_string_take) (simp_all add: strings, simp_all add: bs fixed)
  have str2: "read_string (take payload_end bs) (length pre + 20 + length key) (length v) off c =
      Inr (v, length pre + 20 + length key + length v)" for c
    using assms(3) len by (subst read_string_take) (simp_all add: strings, simp_all add: bs fixed)
  have e: "\<lparr>entry_value = v, entry_sequence_number = entry_sequence_number e, entry_deleted = d\<rparr> = e"
    if "d = entry_deleted e" for d
    using that by (simp add: v_def)
  have cursor: "length pre + 20 + length key + length v = length (pre @ record_bytes r)" by (simp add: len)
  have sizes: "(of_nat (length key) :: u32) \<noteq> 0" "(of_nat (length v) :: u32) = 0 \<longleftrightarrow> v = []"
    unfolding unat_eq_zero [symmetric] unat_key_size [OF valid(2)] unat_value_size [OF valid(3)]
    using valid(1) by simp_all
  have fit: "\<not> (length pre > payload_end \<or> 20 > payload_end - length pre)" using assms(3) len by linarith
  have flag: "\<not> ((if entry_deleted e then 1 else 0) > (1 :: byte))"
    "((if entry_deleted e then 1 else 0) = (1 :: byte)) = entry_deleted e" by auto
  have order: "\<not> (prev \<noteq> [] \<and> key \<le> prev)" using assms(2) by (auto simp: r)
  have meta: "\<not> (of_nat (length key) = (0 :: u32) \<or> length key > kMaxKeySize \<or> length v > kMaxValueSize \<or>
      entry_sequence_number e = 0 \<or> (if entry_deleted e then 1 else 0) > (1 :: byte))"
    using valid sizes flag by simp
  have tomb: "\<not> (entry_deleted e \<and> of_nat (length v) \<noteq> (0 :: u32))" using valid(5) sizes by simp
  show ?thesis
    unfolding parse_records.simps kRecordFixedSize_def if_not_P [OF fit] spans read_uint32_def read_uint64_def
    using order meta tomb
    by (simp add: le_value_le_bytes unat_key_size [OF valid(2)] unat_value_size [OF valid(3)] Let_def flag
        str1 str2 cursor e r) blast
qed

lemma parse_serialize_records:
  assumes "serialize_records prev rs = Inr out" and "length pre + length out \<le> payload_end"
  shows "parse_records (pre @ out @ post) payload_end off (length rs) (length pre) prev =
    Inr (rs, length pre + length out)"
  using assms
proof (induction rs arbitrary: prev out pre)
  case (Cons r rs)
  from Cons.prems(1) obtain rest where r: "valid_entry r" "prev = [] \<or> prev < fst r"
    and rest: "serialize_records (fst r) rs = Inr rest" and out: "out = record_bytes r @ rest"
    by (auto simp: serialize_records_Cons)
  have "length pre + length (record_bytes r) \<le> payload_end" using Cons.prems(2) by (simp add: out)
  from parse_records_step [OF r this, of "pre @ out @ post" "rest @ post"]
  have "parse_records (pre @ out @ post) payload_end off (length (r # rs)) (length pre) prev =
      bind_result (parse_records ((pre @ record_bytes r) @ rest @ post) payload_end off (length rs)
        (length (pre @ record_bytes r)) (fst r)) (\<lambda>(rs, cursor). Inr (r # rs, cursor))"
    by (simp add: out)
  also have "\<dots> = Inr (r # rs, length pre + length out)"
    using Cons.IH [OF rest, of "pre @ record_bytes r"] Cons.prems(2) by (simp add: out)
  finally show ?case .
qed simp

lemma serialize_data_blockD:
  assumes "serialize_data_block b = Inr bs"
  obtains out where "serialize_records [] (db_records b) = Inr out" and "db_records b \<noteq> []"
    and "length (db_records b) < 2 ^ 32"
    and "bs = (kDataBlockMagic @ le_bytes 4 (of_nat (length (db_records b)) :: u32) @ out) @
      le_bytes 4 (crc32 (kDataBlockMagic @ le_bytes 4 (of_nat (length (db_records b)) :: u32) @ out))"
  using assms
  by (auto simp: serialize_data_block_def unat_minus_one_u32 sst_append Let_def result_simps split: if_splits)

lemma parse_serialize_data_block:
  assumes "serialize_data_block b = Inr bs"
  shows "parse_data_block bs off = Inr b"
proof -
  from assms obtain out where out: "serialize_records [] (db_records b) = Inr out"
    and n: "db_records b \<noteq> []" "length (db_records b) < 2 ^ 32"
    and bs: "bs = (kDataBlockMagic @ le_bytes 4 (of_nat (length (db_records b)) :: u32) @ out) @
      le_bytes 4 (crc32 (kDataBlockMagic @ le_bytes 4 (of_nat (length (db_records b)) :: u32) @ out))"
    by (rule serialize_data_blockD)
  define pre where "pre = kDataBlockMagic @ le_bytes 4 (of_nat (length (db_records b)) :: u32)"
  define crc where "crc = le_bytes 4 (crc32 (pre @ out))"
  have bs': "bs = pre @ out @ crc" and len: "length pre = 12" "length crc = 4"
    by (simp_all add: bs pre_def crc_def)
  have count: "unat (of_nat (length (db_records b)) :: u32) = length (db_records b)"
    using n(2) by (simp add: unat_of_nat take_bit_nat_eq_self)
  then have nz: "(of_nat (length (db_records b)) :: u32) \<noteq> 0"
    using n(1) by (metis length_0_conv unat_0)
  have magic: "has_magic bs kDataBlockMagic" "subspan 8 4 bs = le_bytes 4 (of_nat (length (db_records b)) :: u32)"
    by (simp_all add: has_magic_def bs)
  have "validate_checksum bs off c = Inr ()" for c
    using validate_checksum_append [of "pre @ out"] by (simp add: bs' crc_def)
  moreover have "parse_records bs (12 + length out) off (length (db_records b)) 12 [] = Inr (db_records b, 12 + length out)"
    using parse_serialize_records [OF out, of pre "12 + length out" crc off] len by (simp add: bs')
  ultimately show ?thesis
    using nz len magic count
    by (simp add: parse_data_block_def kSstChecksumSize_def read_uint32_def le_value_le_bytes)
      (simp add: bs')
qed


section \<open>Index block\<close>

definition index_bytes :: "index_entry \<Rightarrow> bytes" where
  "index_bytes e = le_bytes 8 (ie_block_offset e) @ le_bytes 8 (ie_block_size e) @
     le_bytes 4 (of_nat (length (ie_first_key e)) :: u32) @ le_bytes 4 (of_nat (length (ie_last_key e)) :: u32) @
     ie_first_key e @ ie_last_key e"

definition valid_index_entry :: "index_entry \<Rightarrow> bool" where
  "valid_index_entry e \<longleftrightarrow> valid_key (ie_first_key e) \<and> valid_key (ie_last_key e) \<and>
     ie_first_key e \<le> ie_last_key e \<and> ie_block_size e \<noteq> 0"

lemma length_index_bytes: "length (index_bytes e) = 24 + length (ie_first_key e) + length (ie_last_key e)"
  by (simp add: index_bytes_def)

lemma serialize_index_entries_Cons:
  "serialize_index_entries prev (e # es) = Inr out \<longleftrightarrow>
     ie_first_key e \<noteq> [] \<and> ie_last_key e \<noteq> [] \<and> ie_first_key e \<le> ie_last_key e \<and> ie_block_size e \<noteq> 0 \<and>
     (prev = [] \<or> prev < ie_first_key e) \<and>
     (\<exists>rest. serialize_index_entries (ie_last_key e) es = Inr rest \<and> out = index_bytes e @ rest)"
  by (auto simp: index_bytes_def sst_append Let_def result_simps not_le not_less)

lemma parse_index_entries_step:
  assumes "valid_index_entry e" and "prev = [] \<or> prev < ie_first_key e"
    and "length pre + length (index_bytes e) \<le> payload_end" and "bs = pre @ index_bytes e @ post"
  shows "parse_index_entries bs payload_end off (Suc n) (length pre) prev =
    bind_result (parse_index_entries bs payload_end off n (length (pre @ index_bytes e)) (ie_last_key e))
      (\<lambda>(es, cursor). Inr (e # es, cursor))"
proof -
  define f l where fl: "f = ie_first_key e" "l = ie_last_key e"
  from assms(1) have valid: "f \<noteq> []" "length f \<le> kMaxKeySize" "l \<noteq> []" "length l \<le> kMaxKeySize" "f \<le> l"
    "ie_block_size e \<noteq> 0" by (auto simp: valid_index_entry_def fl)
  define fixed where "fixed = le_bytes 8 (ie_block_offset e) @ le_bytes 8 (ie_block_size e) @
     le_bytes 4 (of_nat (length f) :: u32) @ le_bytes 4 (of_nat (length l) :: u32)"
  have bs: "bs = pre @ fixed @ f @ l @ post" and fixed: "length fixed = 24"
    by (simp_all add: assms(4) index_bytes_def fl fixed_def)
  have len: "length (index_bytes e) = 24 + length f + length l" by (simp add: length_index_bytes fl)
  have spans: "subspan (length pre) 8 bs = le_bytes 8 (ie_block_offset e)"
    "subspan (length pre + 8) 8 bs = le_bytes 8 (ie_block_size e)"
    "subspan (length pre + 16) 4 bs = le_bytes 4 (of_nat (length f) :: u32)"
    "subspan (length pre + 20) 4 bs = le_bytes 4 (of_nat (length l) :: u32)"
    by (simp_all add: bs fixed_def)
  have strings: "subspan (length pre + 24) (length f) bs = f"
    "subspan (length pre + 24 + length f) (length l) bs = l"
    by (simp_all add: bs fixed add.assoc)
  have str1: "read_string (take payload_end bs) (length pre + 24) (length f) off c = Inr (f, length pre + 24 + length f)" for c
    using assms(3) len by (subst read_string_take) (simp_all add: strings, simp_all add: bs fixed)
  have str2: "read_string (take payload_end bs) (length pre + 24 + length f) (length l) off c =
      Inr (l, length pre + 24 + length f + length l)" for c
    using assms(3) len by (subst read_string_take) (simp_all add: strings, simp_all add: bs fixed)
  have e: "\<lparr>ie_first_key = f, ie_last_key = l, ie_block_offset = ie_block_offset e, ie_block_size = ie_block_size e\<rparr> = e"
    by (simp add: fl)
  have cursor: "length pre + 24 + length f + length l = length (pre @ index_bytes e)" by (simp add: len)
  have sizes: "(of_nat (length f) :: u32) \<noteq> 0" "(of_nat (length l) :: u32) \<noteq> 0"
    unfolding unat_eq_zero [symmetric] unat_key_size [OF valid(2)] unat_key_size [OF valid(4)]
    using valid(1,3) by simp_all
  have fit: "\<not> (length pre > payload_end \<or> 24 > payload_end - length pre)" using assms(3) len by linarith
  have order: "\<not> (f > l \<or> (prev \<noteq> [] \<and> f \<le> prev))" using assms(2) valid(5) by (auto simp: fl)
  have meta: "\<not> (of_nat (length f) = (0 :: u32) \<or> length f > kMaxKeySize \<or> of_nat (length l) = (0 :: u32) \<or>
      length l > kMaxKeySize \<or> ie_block_size e = 0)"
    using valid sizes by simp
  show ?thesis
    unfolding parse_index_entries.simps if_not_P [OF fit] spans read_uint32_def read_uint64_def fl(2) [symmetric]
    using meta order
    by (simp add: le_value_le_bytes unat_key_size [OF valid(2)] unat_key_size [OF valid(4)] Let_def
        str1 str2 cursor e) blast
qed

lemma parse_serialize_index_entries:
  assumes "serialize_index_entries prev es = Inr out" and "\<forall>e\<in>set es. valid_index_entry e"
    and "length pre + length out \<le> payload_end"
  shows "parse_index_entries (pre @ out @ post) payload_end off (length es) (length pre) prev =
    Inr (es, length pre + length out)"
  using assms
proof (induction es arbitrary: prev out pre)
  case (Cons e es)
  from Cons.prems(1) obtain rest where e: "prev = [] \<or> prev < ie_first_key e"
    and rest: "serialize_index_entries (ie_last_key e) es = Inr rest" and out: "out = index_bytes e @ rest"
    unfolding serialize_index_entries_Cons by blast
  have fit: "length pre + length (index_bytes e) \<le> payload_end" and v: "valid_index_entry e"
    using Cons.prems(2,3) by (simp_all add: out)
  from parse_index_entries_step [OF v e fit, of "pre @ out @ post" "rest @ post"]
  have "parse_index_entries (pre @ out @ post) payload_end off (length (e # es)) (length pre) prev =
      bind_result (parse_index_entries ((pre @ index_bytes e) @ rest @ post) payload_end off (length es)
        (length (pre @ index_bytes e)) (ie_last_key e)) (\<lambda>(es, cursor). Inr (e # es, cursor))"
    by (simp add: out)
  also have "\<dots> = Inr (e # es, length pre + length out)"
    using Cons.IH [OF rest, of "pre @ index_bytes e"] Cons.prems(2,3) by (simp add: out)
  finally show ?case .
qed simp

lemma parse_serialize_index_block:
  assumes "serialize_index_block es = Inr bs" and "\<forall>e\<in>set es. valid_index_entry e"
  shows "parse_index_block bs off = Inr es"
proof -
  from assms(1) obtain out where out: "serialize_index_entries [] es = Inr out"
    and n: "es \<noteq> []" "length es < 2 ^ 32"
    and bs: "bs = (kIndexMagic @ le_bytes 4 (of_nat (length es) :: u32) @ out) @
      le_bytes 4 (crc32 (kIndexMagic @ le_bytes 4 (of_nat (length es) :: u32) @ out))"
    by (auto simp: serialize_index_block_def unat_minus_one_u32 sst_append Let_def result_simps split: if_splits)
  define pre where "pre = kIndexMagic @ le_bytes 4 (of_nat (length es) :: u32)"
  define crc where "crc = le_bytes 4 (crc32 (pre @ out))"
  have bs': "bs = pre @ out @ crc" and len: "length pre = 12" "length crc = 4"
    by (simp_all add: bs pre_def crc_def)
  have count: "unat (of_nat (length es) :: u32) = length es"
    using n(2) by (simp add: unat_of_nat take_bit_nat_eq_self)
  then have nz: "(of_nat (length es) :: u32) \<noteq> 0"
    using n(1) by (metis length_0_conv unat_0)
  have magic: "has_magic bs kIndexMagic" "subspan 8 4 bs = le_bytes 4 (of_nat (length es) :: u32)"
    by (simp_all add: has_magic_def bs)
  have "validate_checksum bs off c = Inr ()" for c
    using validate_checksum_append [of "pre @ out"] by (simp add: bs' crc_def)
  moreover have "parse_index_entries bs (12 + length out) off (length es) 12 [] = Inr (es, 12 + length out)"
    using parse_serialize_index_entries [OF out assms(2), of pre "12 + length out" crc off] len by (simp add: bs')
  ultimately show ?thesis
    using nz len magic count
    by (simp add: parse_index_block_def kSstChecksumSize_def read_uint32_def le_value_le_bytes)
      (simp add: bs')
qed


section \<open>Properties\<close>

lemma parsers_check_checksum:
  "validate_checksum bs off ''SSTable header'' = Inl e \<Longrightarrow> parse_header bs off \<noteq> Inr h"
  "validate_checksum bs off ''SSTable footer'' = Inl e \<Longrightarrow> parse_footer bs off \<noteq> Inr f"
  "validate_checksum bs off ''SSTable data block'' = Inl e \<Longrightarrow> parse_data_block bs off \<noteq> Inr b"
  "validate_checksum bs off ''SSTable index block'' = Inl e \<Longrightarrow> parse_index_block bs off \<noteq> Inr es"
proof -
  show "validate_checksum bs off ''SSTable header'' = Inl e \<Longrightarrow> parse_header bs off \<noteq> Inr h"
    by (cases "require_size bs kSstHeaderSize off ''SSTable header''") (simp_all add: parse_header_def)
  show "validate_checksum bs off ''SSTable footer'' = Inl e \<Longrightarrow> parse_footer bs off \<noteq> Inr f"
    by (cases "require_size bs kFooterSize off ''SSTable footer''") (simp_all add: parse_footer_def)
qed (simp_all add: parse_data_block_def parse_index_block_def)

text \<open>An accepted part and an accepted variant of it with a changed stretch are the same bytes.\<close>

lemma parsed_burst:
  assumes "length ys' = length ys" and "length ys \<le> 4" and "ys' \<noteq> ys"
    and "length xs + length ys + 4 \<le> length (xs @ ys @ zs) \<or> length (xs @ ys @ zs) \<le> length xs + 4"
    and check: "\<And>bs e x. validate_checksum bs off c = Inl e \<Longrightarrow> parse bs off \<noteq> Inr x"
    and "parse (xs @ ys @ zs) off = Inr x"
  shows "parse (xs @ ys' @ zs) off \<noteq> Inr x'"
proof
  assume "parse (xs @ ys' @ zs) off = Inr x'"
  with check have ok': "validate_checksum (xs @ ys' @ zs) off c = Inr ()"
    by (cases "validate_checksum (xs @ ys' @ zs) off c") auto
  from assms(6) check have ok: "validate_checksum (xs @ ys @ zs) off c = Inr ()"
    by (cases "validate_checksum (xs @ ys @ zs) off c") auto
  from validate_checksum_burst [OF ok ok' assms(1,2,4)] assms(3) show False by simp
qed



end
