(* ===== verification/FileSystem.thy ===== *)
theory FileSystem
  imports Posix
begin

text \<open>
  A directory tree as the storage code uses it: names with the files behind them, and per name what
  a crash would leave.  A name and the contents behind it become durable together when the
  directory is synced; until then a crash may leave the state of the last sync or the current
  one, for each name on its own.  Also the two functions of \<open>std::filesystem::path\<close> whose values
  matter to the program.
\<close>

section \<open>Paths\<close>

abbreviation slash :: byte where
  "slash \<equiv> 47"

text \<open>\<open>operator/\<close> for a relative right-hand side.\<close>

definition path_join :: "bytes \<Rightarrow> bytes \<Rightarrow> bytes" where
  "path_join dir name = (if dir = [] \<or> last dir = slash then dir @ name else dir @ [slash] @ name)"

fun split_path :: "bytes \<Rightarrow> bytes list" where
  "split_path [] = [[]]"
| "split_path (b # bs) =
     (if b = slash then [] # split_path bs
      else case split_path bs of [] \<Rightarrow> [[b]] | c # cs \<Rightarrow> (b # c) # cs)"

definition parent_path :: "bytes \<Rightarrow> bytes" where
  "parent_path p =
     (let d = rev (dropWhile (\<lambda>b. b = slash) (dropWhile (\<lambda>b. b \<noteq> slash) (rev p)))
      in if d = [] \<and> p \<noteq> [] \<and> hd p = slash then [slash] else d)"

definition in_directory :: "bytes \<Rightarrow> bytes \<Rightarrow> bool" where
  "in_directory dir p \<longleftrightarrow> parent_path p = parent_path (path_join dir [0]) \<or> (dir = str ''.'' \<and> parent_path p = [])"

text \<open>\<open>lexically_normal\<close>: the components without dots, with \<open>..\<close> resolved; the flag says whether
  the path ends in a separator.\<close>

definition dot :: bytes where
  "dot = str ''.''"

definition dotdot :: bytes where
  "dotdot = str ''..''"

fun normal_components :: "bool \<Rightarrow> bytes list \<Rightarrow> bytes list \<Rightarrow> bool \<Rightarrow> bytes list \<times> bool" where
  "normal_components rooted stack [] sep = (rev stack, sep)"
| "normal_components rooted stack (c # cs) sep =
     (if c = [] \<or> c = dot then normal_components rooted stack cs True
      else if c = dotdot then
        (case stack of
           [] \<Rightarrow> if rooted then normal_components rooted [] cs True
                  else normal_components rooted [dotdot] cs False
         | c0 # rest \<Rightarrow> if c0 = dotdot then normal_components rooted (dotdot # stack) cs False
                          else normal_components rooted rest cs True)
      else normal_components rooted (c # stack) cs False)"

definition lexically_normal :: "bytes \<Rightarrow> bytes" where
  "lexically_normal p =
     (if p = [] then []
      else let rooted = (hd p = slash);
               (cs, sep) = normal_components rooted [] (split_path p) False;
               body = concat (map (\<lambda>c. c @ [slash]) (butlast cs)) @ (if cs = [] then [] else last cs);
               tail = (if sep \<and> cs \<noteq> [] \<and> last cs \<noteq> dotdot then [slash] else []);
               r = (if rooted then [slash] else []) @ body @ tail
           in if r = [] then dot else r)"

section \<open>Names and files\<close>

record fsys =
  fs_files :: "bytes \<rightharpoonup> disk_file"
  fs_synced :: "bytes \<rightharpoonup> bytes"
  fs_names :: "bytes list" \<comment> \<open>the existing names, in the order a directory iterator yields them\<close>

definition add_name :: "bytes \<Rightarrow> bytes list \<Rightarrow> bytes list" where
  "add_name p names = (if p \<in> set names then names else names @ [p])"

definition fs_create :: "bytes \<Rightarrow> disk_file \<Rightarrow> fsys \<Rightarrow> fsys" where
  "fs_create path f fs = fs\<lparr>fs_files := (fs_files fs)(path \<mapsto> f), fs_names := add_name path (fs_names fs)\<rparr>"

definition fs_remove :: "bytes \<Rightarrow> fsys \<Rightarrow> fsys" where
  "fs_remove path fs = fs\<lparr>fs_files := (fs_files fs)(path := None), fs_names := removeAll path (fs_names fs)\<rparr>"

definition fs_rename :: "bytes \<Rightarrow> bytes \<Rightarrow> fsys \<Rightarrow> fsys" where
  "fs_rename old new fs =
     (case fs_files fs old of
        None \<Rightarrow> fs
      | Some f \<Rightarrow> fs\<lparr>fs_files := (fs_files fs)(old := None, new \<mapsto> f),
                      fs_names := add_name new (removeAll old (fs_names fs))\<rparr>)"

definition fs_sync_directory :: "bytes \<Rightarrow> fsys \<Rightarrow> fsys" where
  "fs_sync_directory dir fs = fs\<lparr>fs_synced :=
     (\<lambda>p. if in_directory dir p then map_option df_durable (fs_files fs p) else fs_synced fs p)\<rparr>"

definition fs_crash :: "fsys \<Rightarrow> (bytes \<rightharpoonup> bytes) \<Rightarrow> bool" where
  "fs_crash fs disk \<longleftrightarrow> (\<forall>p. disk p = fs_synced fs p \<or>
     (case fs_files fs p of None \<Rightarrow> disk p = None | Some f \<Rightarrow> \<exists>img. crash_image f img \<and> disk p = Some img))"

lemma fs_simps [simp]:
  "fs_files (fs_create path f fs) = (fs_files fs)(path \<mapsto> f)"
  "fs_synced (fs_create path f fs) = fs_synced fs"
  "fs_files (fs_remove path fs) = (fs_files fs)(path := None)"
  "fs_synced (fs_remove path fs) = fs_synced fs"
  "fs_synced (fs_rename old new fs) = fs_synced fs"
  "fs_files (fs_sync_directory dir fs) = fs_files fs"
  "in_directory dir p \<Longrightarrow> fs_synced (fs_sync_directory dir fs) p = map_option df_durable (fs_files fs p)"
  "\<not> in_directory dir p \<Longrightarrow> fs_synced (fs_sync_directory dir fs) p = fs_synced fs p"
  by (simp_all add: fs_create_def fs_remove_def fs_rename_def fs_sync_directory_def split: option.splits)

text \<open>The names are those of the existing files.\<close>

definition fs_ok :: "fsys \<Rightarrow> bool" where
  "fs_ok fs \<longleftrightarrow> set (fs_names fs) = dom (fs_files fs)"

lemma fs_ok_steps [intro]:
  "fs_ok fs \<Longrightarrow> fs_ok (fs_create p f fs)"
  "fs_ok fs \<Longrightarrow> fs_ok (fs_remove p fs)"
  "fs_ok fs \<Longrightarrow> fs_ok (fs_rename p q fs)"
  "fs_ok fs \<Longrightarrow> fs_ok (fs_sync_directory dir fs)"
  by (auto simp: fs_ok_def fs_create_def fs_remove_def fs_rename_def fs_sync_directory_def add_name_def
      split: option.splits)

text \<open>The file system a restarted machine finds: what the crash left is all there is, and durable.\<close>

definition fs_restart :: "(bytes \<rightharpoonup> bytes) \<Rightarrow> bytes list \<Rightarrow> fsys" where
  "fs_restart disk names =
     \<lparr>fs_files = (\<lambda>p. map_option (\<lambda>bs. \<lparr>df_contents = bs, df_durable = bs\<rparr>) (disk p)), fs_synced = disk, fs_names = names\<rparr>"

lemma fs_crash_synced:
  assumes "fs_crash fs disk" and "fs_files fs p = Some f" and "df_durable f = df_contents f"
    and "fs_synced fs p = Some (df_contents f)"
  shows "disk p = Some (df_contents f)"
  using assms crash_image_synced [OF assms(3)] by (auto simp: fs_crash_def dest: spec [of _ p])

lemma dropWhile_rev_join:
  "slash \<notin> set n \<Longrightarrow> dropWhile (\<lambda>b. b \<noteq> slash) (rev (path_join dir n)) =
     (if dir = [] then [] else if last dir = slash then rev dir else slash # rev dir)"
  by (cases dir rule: rev_cases) (auto simp: path_join_def dropWhile_append)

lemma parent_path_join:
  assumes "slash \<notin> set n" and "slash \<notin> set m" and "n \<noteq> []" and "m \<noteq> []"
  shows "parent_path (path_join dir n) = parent_path (path_join dir m)"
proof (cases "dir = []")
  case True
  have "hd n \<in> set n" and "hd m \<in> set m" using assms(3,4) by simp_all
  with assms(1,2) have "hd n \<noteq> slash" and "hd m \<noteq> slash" by metis+
  moreover from assms have "dropWhile (\<lambda>b. b \<noteq> slash) (rev n) = []" "dropWhile (\<lambda>b. b \<noteq> slash) (rev m) = []"
    by auto
  ultimately show ?thesis
    using True assms by (simp add: parent_path_def path_join_def del: dropWhile_eq_Nil_conv)
next
  case False
  then have "hd (path_join dir n) = hd (path_join dir m)" "path_join dir n \<noteq> []" "path_join dir m \<noteq> []"
    by (auto simp: path_join_def)
  then show ?thesis
    by (simp add: parent_path_def dropWhile_rev_join [OF assms(1)] dropWhile_rev_join [OF assms(2)])
qed

lemma in_directory_join [simp]: "slash \<notin> set n \<Longrightarrow> n \<noteq> [] \<Longrightarrow> in_directory dir (path_join dir n)"
  by (auto simp: in_directory_def intro: parent_path_join)

section \<open>Calls on the file system\<close>

text \<open>The part of the state every storage component passes along; the components extend the record
  with their own fields.  A call that is not retried fails when its
  event is \<open>Failed\<close> or \<open>Interrupted\<close>.\<close>

record world =
  w_fs :: fsys
  w_events :: "io_event list"

definition sys_call :: "error \<Rightarrow> ('a world_scheme, unit) effect" where
  "sys_call e w =
     (case w_events w of
        [] \<Rightarrow> (Inr (), w)
      | ev # evs \<Rightarrow> (if ev = Failed \<or> ev = Interrupted then Inl e else Inr (), w\<lparr>w_events := evs\<rparr>))"

definition update_fs :: "(fsys \<Rightarrow> fsys) \<Rightarrow> ('a world_scheme, unit) effect" where
  "update_fs g w = (Inr (), w\<lparr>w_fs := g (w_fs w)\<rparr>)"

text \<open>\<open>std::filesystem::remove(path, error_code)\<close> with the error ignored.\<close>

definition remove_ignored :: "bytes \<Rightarrow> 'a world_scheme \<Rightarrow> 'a world_scheme" where
  "remove_ignored path w =
     (case sys_call (SystemError []) w of
        (Inl _, w') \<Rightarrow> w'
      | (Inr _, w') \<Rightarrow> w'\<lparr>w_fs := fs_remove path (w_fs w')\<rparr>)"

definition world_create :: "error \<Rightarrow> bytes \<Rightarrow> ('a world_scheme, unit) effect" where
  "world_create e path = bind_effect (sys_call e) (\<lambda>_. update_fs (fs_create path empty_file))"

definition world_update :: "bytes \<Rightarrow> (disk_file \<Rightarrow> disk_file) \<Rightarrow> fsys \<Rightarrow> fsys" where
  "world_update path g fs = (case fs_files fs path of None \<Rightarrow> fs | Some f \<Rightarrow> fs_create path (g f) fs)"

definition world_write :: "error \<Rightarrow> error \<Rightarrow> bytes \<Rightarrow> bytes \<Rightarrow> ('a world_scheme, unit) effect" where
  "world_write failed zero path bs w =
     (let (r, written, evs) = write_all failed zero (w_events w) bs
      in (r, w\<lparr>w_fs := world_update path (file_append written) (w_fs w), w_events := evs\<rparr>))"

definition world_retry :: "error \<Rightarrow> ('a world_scheme, unit) effect" where
  "world_retry e w = (let (r, evs) = retry_call e (w_events w) in (r, w\<lparr>w_events := evs\<rparr>))"

definition world_fsync :: "error \<Rightarrow> bytes \<Rightarrow> ('a world_scheme, unit) effect" where
  "world_fsync e path = bind_effect (world_retry e) (\<lambda>_. update_fs (world_update path file_sync))"

definition world_rename :: "error \<Rightarrow> bytes \<Rightarrow> bytes \<Rightarrow> ('a world_scheme, unit) effect" where
  "world_rename e old new =
     bind_effect (sys_call e) (\<lambda>_ w.
       if fs_files (w_fs w) old = None then (Inl e, w) else update_fs (fs_rename old new) w)"

definition world_sync_directory :: "error \<Rightarrow> error \<Rightarrow> bytes \<Rightarrow> ('a world_scheme, unit) effect" where
  "world_sync_directory open_failed sync_failed dir =
     bind_effect (sys_call open_failed) (\<lambda>_.
     bind_effect (world_retry sync_failed) (\<lambda>_. update_fs (fs_sync_directory dir)))"

text \<open>The code behind every file that is replaced as a whole: the temporary file is synced, closed and
  renamed, then the directory is synced; when any of this throws the temporary file is removed.\<close>

record publish_errors =
  pe_fsync :: error
  pe_close :: error
  pe_rename :: error
  pe_open_directory :: error
  pe_fsync_directory :: error

definition world_publish :: "publish_errors \<Rightarrow> bytes \<Rightarrow> bytes \<Rightarrow> ('a world_scheme, unit) effect" where
  "world_publish es tmp path =
     bind_effect (world_fsync (pe_fsync es) tmp) (\<lambda>_.
     bind_effect (sys_call (pe_close es)) (\<lambda>_.
     bind_effect (world_rename (pe_rename es) tmp path) (\<lambda>_.
     world_sync_directory (pe_open_directory es) (pe_fsync_directory es)
       (if parent_path path = [] then dot else parent_path path))))"

definition removing_on_error :: "bytes \<Rightarrow> ('a world_scheme, 'b) effect \<Rightarrow> ('a world_scheme, 'b) effect" where
  "removing_on_error tmp m w = (case m w of (Inl e, w') \<Rightarrow> (Inl e, remove_ignored tmp w') | (Inr x, w') \<Rightarrow> (Inr x, w'))"

section \<open>Effects of the calls\<close>

text \<open>\<open>only_file p\<close>: nothing but the file behind \<open>p\<close> and the pending events differ.\<close>

definition only_file :: "bytes \<Rightarrow> 'a world_scheme \<Rightarrow> 'a world_scheme \<Rightarrow> bool" where
  "only_file p w w' \<longleftrightarrow> (\<forall>q. q \<noteq> p \<longrightarrow> fs_files (w_fs w') q = fs_files (w_fs w) q) \<and>
     fs_synced (w_fs w') = fs_synced (w_fs w) \<and> world.more w' = world.more w"

definition whole_file :: "bytes \<Rightarrow> disk_file" where
  "whole_file bs = \<lparr>df_contents = bs, df_durable = bs\<rparr>"

text \<open>\<open>replaces path tmp bs\<close>: the file behind \<open>path\<close> is as before or holds \<open>bs\<close>, durably; names may
  have become durable with the files behind them; nothing else differs but the temporary file.\<close>

definition replaces :: "bytes \<Rightarrow> bytes \<Rightarrow> bytes \<Rightarrow> 'a world_scheme \<Rightarrow> 'a world_scheme \<Rightarrow> bool" where
  "replaces path tmp bs w w' \<longleftrightarrow>
     (\<forall>q. q \<noteq> path \<and> q \<noteq> tmp \<longrightarrow> fs_files (w_fs w') q = fs_files (w_fs w) q) \<and>
     (fs_files (w_fs w') path = fs_files (w_fs w) path \<or> fs_files (w_fs w') path = Some (whole_file bs)) \<and>
     (\<forall>q. q \<noteq> tmp \<longrightarrow> fs_synced (w_fs w') q = fs_synced (w_fs w) q \<or>
        fs_synced (w_fs w') q = map_option df_durable (fs_files (w_fs w') q)) \<and>
     world.more w' = world.more w"

definition replaced :: "bytes \<Rightarrow> bytes \<Rightarrow> 'a world_scheme \<Rightarrow> bool" where
  "replaced path bs w \<longleftrightarrow> fs_files (w_fs w) path = Some (whole_file bs) \<and> fs_synced (w_fs w) path = Some bs"

lemma whole_file_simps [simp]: "df_contents (whole_file bs) = bs" "df_durable (whole_file bs) = bs"
  by (simp_all add: whole_file_def)

lemma file_sync_whole: "file_sync f = whole_file (df_contents f)"
  by (cases f) (simp add: file_sync_def whole_file_def)

lemma only_file_refl [simp]: "only_file p w w"
  by (simp add: only_file_def)

lemma only_file_trans: "only_file p w w' \<Longrightarrow> only_file p w' w'' \<Longrightarrow> only_file p w w''"
  by (simp add: only_file_def)

lemma sys_callD:
  assumes "sys_call e w = (r, w')"
  shows "w_fs w' = w_fs w" and "world.more w' = world.more w"
  using assms by (auto simp: sys_call_def split: list.splits if_splits)

lemma world_retryD:
  assumes "world_retry e w = (r, w')"
  shows "w_fs w' = w_fs w" and "world.more w' = world.more w"
  using assms by (auto simp: world_retry_def Let_def split: prod.splits)

lemma only_file_remove_ignored [simp]: "only_file p w (remove_ignored p w)"
proof (cases "sys_call (SystemError []) w")
  case (Pair r w')
  then show ?thesis
    using sys_callD [OF Pair] by (cases r) (simp_all add: remove_ignored_def only_file_def)
qed

lemma world_createD:
  assumes "world_create e p w = (r, w')"
  shows "only_file p w w'" and "r = Inr u \<Longrightarrow> fs_files (w_fs w') p = Some empty_file"
proof -
  obtain r1 w1 where c: "sys_call e w = (r1, w1)" by fastforce
  from sys_callD [OF c] c assms show "only_file p w w'"
    by (cases r1) (auto simp: world_create_def update_fs_def only_file_def)
  from c assms show "r = Inr u \<Longrightarrow> fs_files (w_fs w') p = Some empty_file"
    by (cases r1) (auto simp: world_create_def update_fs_def)
qed

lemma only_file_world_update [simp]: "only_file p w (w\<lparr>w_fs := world_update p g (w_fs w), w_events := evs\<rparr>)"
  by (simp add: only_file_def world_update_def split: option.splits)

lemma world_writeD:
  assumes "world_write failed zero p bs w = (r, w')"
  shows "only_file p w w'"
    and "r = Inr u \<Longrightarrow> fs_files (w_fs w) p = Some f \<Longrightarrow> fs_files (w_fs w') p = Some (file_append bs f)"
proof -
  obtain r1 written evs where wr: "write_all failed zero (w_events w) bs = (r1, written, evs)"
    by (metis prod_cases3)
  from wr assms have r: "r = r1" and w': "w' = w\<lparr>w_fs := world_update p (file_append written) (w_fs w), w_events := evs\<rparr>"
    by (simp_all add: world_write_def)
  from w' show "only_file p w w'" by simp
  assume "r = Inr u" and "fs_files (w_fs w) p = Some f"
  with write_all_prefix [OF wr] r w' show "fs_files (w_fs w') p = Some (file_append bs f)"
    by (simp add: world_update_def)
qed

lemma world_fsyncD:
  assumes "world_fsync e p w = (r, w')" and "fs_files (w_fs w) p = Some f"
  shows "only_file p w w'" and "r = Inr u \<Longrightarrow> fs_files (w_fs w') p = Some (whole_file (df_contents f))"
    and "\<exists>f'. fs_files (w_fs w') p = Some f'"
proof -
  obtain r1 w1 where c: "world_retry e w = (r1, w1)" by fastforce
  note facts = world_retryD [OF c]
  show "only_file p w w'"
    using facts c assms by (cases r1) (auto simp: world_fsync_def update_fs_def only_file_def world_update_def)
  show "r = Inr u \<Longrightarrow> fs_files (w_fs w') p = Some (whole_file (df_contents f))"
    using facts c assms by (cases r1) (auto simp: world_fsync_def update_fs_def world_update_def file_sync_whole)
  show "\<exists>f'. fs_files (w_fs w') p = Some f'"
    using facts c assms by (cases r1) (auto simp: world_fsync_def update_fs_def world_update_def)
qed

lemma world_renameD:
  assumes "world_rename e old new w = (r, w')" and "fs_files (w_fs w) old = Some f" and "old \<noteq> new"
  shows "fs_synced (w_fs w') = fs_synced (w_fs w)" and "world.more w' = world.more w"
    and "r = Inr u \<Longrightarrow> fs_files (w_fs w') = (fs_files (w_fs w))(old := None, new \<mapsto> f)"
    and "r = Inl x \<Longrightarrow> fs_files (w_fs w') = fs_files (w_fs w)"
proof -
  obtain r1 w1 where c: "sys_call e w = (r1, w1)" by fastforce
  note facts = sys_callD [OF c]
  have "r1 = Inl x' \<Longrightarrow> (r, w') = (Inl x', w1)" for x'
    using assms(1) c by (simp add: world_rename_def)
  moreover have "r1 = Inr v \<Longrightarrow> (r, w') = (Inr (), w1\<lparr>w_fs := fs_rename old new (w_fs w1)\<rparr>)" for v
    using assms(1,2) c facts by (simp add: world_rename_def update_fs_def)
  ultimately consider x' where "r = Inl x'" "w' = w1"
    | "r = Inr ()" "w' = w1\<lparr>w_fs := fs_rename old new (w_fs w1)\<rparr>"
    by (cases r1) auto
  note cases = this
  show "fs_synced (w_fs w') = fs_synced (w_fs w)" by (cases rule: cases) (simp_all add: facts)
  show "world.more w' = world.more w" by (cases rule: cases) (simp_all add: facts)
  show "r = Inr u \<Longrightarrow> fs_files (w_fs w') = (fs_files (w_fs w))(old := None, new \<mapsto> f)"
    by (cases rule: cases) (simp_all add: facts assms(2) fs_rename_def)
  show "r = Inl x \<Longrightarrow> fs_files (w_fs w') = fs_files (w_fs w)"
    by (cases rule: cases) (simp_all add: facts)
qed

lemma world_sync_directoryD:
  assumes "world_sync_directory e1 e2 dir w = (r, w')"
  shows "fs_files (w_fs w') = fs_files (w_fs w)" and "world.more w' = world.more w"
    and "r = Inl x \<Longrightarrow> fs_synced (w_fs w') = fs_synced (w_fs w)"
    and "r = Inr u \<Longrightarrow> w_fs w' = fs_sync_directory dir (w_fs w)"
proof -
  obtain r1 w1 where c: "sys_call e1 w = (r1, w1)" by fastforce
  obtain r2 w2 where d: "world_retry e2 w1 = (r2, w2)" by fastforce
  note facts = sys_callD [OF c] world_retryD [OF d]
  consider x' where "r = Inl x'" "w' = w1" | x' where "r = Inl x'" "w' = w2"
    | "r = Inr ()" "w' = w2\<lparr>w_fs := fs_sync_directory dir (w_fs w2)\<rparr>"
    using assms c d by (cases r1; cases r2) (auto simp: world_sync_directory_def update_fs_def)
  note cases = this
  show "fs_files (w_fs w') = fs_files (w_fs w)" by (cases rule: cases) (simp_all add: facts)
  show "world.more w' = world.more w" by (cases rule: cases) (simp_all add: facts)
  show "r = Inl x \<Longrightarrow> fs_synced (w_fs w') = fs_synced (w_fs w)" by (cases rule: cases) (simp_all add: facts)
  show "r = Inr u \<Longrightarrow> w_fs w' = fs_sync_directory dir (w_fs w)" by (cases rule: cases) (simp_all add: facts)
qed

lemma dropWhile_hd: "dropWhile P xs \<noteq> [] \<Longrightarrow> \<not> P (hd (dropWhile P xs))"
  by (induction xs) auto

lemma parent_path_last: "parent_path p = [] \<or> parent_path p = [slash] \<or> last (parent_path p) \<noteq> slash"
proof -
  define d where "d = dropWhile (\<lambda>b. b = slash) (dropWhile (\<lambda>b. b \<noteq> slash) (rev p))"
  have "d = [] \<or> hd d \<noteq> slash" using dropWhile_hd unfolding d_def by blast
  then have "rev d = [] \<or> last (rev d) \<noteq> slash" by (auto simp: last_rev)
  then show ?thesis by (auto simp: parent_path_def d_def [symmetric] Let_def)
qed

lemma in_directory_parent: "in_directory (if parent_path p = [] then dot else parent_path p) p"
proof (cases "parent_path p = []")
  case True
  then show ?thesis by (simp add: in_directory_def dot_def)
next
  case False
  let ?d = "parent_path p"
  consider (root) "?d = [slash]" | (dir) "last ?d \<noteq> slash" using parent_path_last [of p] False by blast
  then have "parent_path (path_join ?d [0]) = ?d"
  proof cases
    case root
    then show ?thesis by (simp add: parent_path_def path_join_def)
  next
    case dir
    then have "dropWhile (\<lambda>b. b = slash) (dropWhile (\<lambda>b. b \<noteq> slash) (rev (path_join ?d [0]))) = rev ?d"
      using False by (cases ?d rule: rev_cases) (simp_all add: path_join_def)
    then show ?thesis using False by (simp add: parent_path_def [of "path_join ?d [0]"] Let_def)
  qed
  then show ?thesis using False by (simp add: in_directory_def)
qed

lemma replaces_only_file: "only_file tmp w w' \<Longrightarrow> tmp \<noteq> path \<Longrightarrow> replaces path tmp bs w w'"
  by (auto simp: only_file_def replaces_def)

lemma replaces_after: "only_file tmp w0 w \<Longrightarrow> replaces path tmp bs w w' \<Longrightarrow> tmp \<noteq> path \<Longrightarrow> replaces path tmp bs w0 w'"
  by (auto simp: only_file_def replaces_def)

lemma replaces_before: "replaces path tmp bs w w' \<Longrightarrow> only_file tmp w' w'' \<Longrightarrow> tmp \<noteq> path \<Longrightarrow> replaces path tmp bs w w''"
  by (auto simp: only_file_def replaces_def)

lemma world_publishD:
  assumes run: "world_publish es tmp path w = (r, w')" and f: "fs_files (w_fs w) tmp = Some f" and ne: "tmp \<noteq> path"
  shows "replaces path tmp (df_contents f) w w'" and "r = Inr u \<Longrightarrow> replaced path (df_contents f) w'"
proof -
  define dir where "dir = (if parent_path path = [] then dot else parent_path path)"
  obtain r1 w1 where s1: "world_fsync (pe_fsync es) tmp w = (r1, w1)" by fastforce
  obtain r2 w2 where s2: "sys_call (pe_close es) w1 = (r2, w2)" by fastforce
  obtain r3 w3 where s3: "world_rename (pe_rename es) tmp path w2 = (r3, w3)" by fastforce
  obtain r4 w4 where s4: "world_sync_directory (pe_open_directory es) (pe_fsync_directory es) dir w3 = (r4, w4)"
    by fastforce
  note d1 = world_fsyncD [OF s1 f] and d2 = sys_callD [OF s2] and d4 = world_sync_directoryD [OF s4]
  have o1: "only_file tmp w w1" by (rule d1(1))
  have o2: "only_file tmp w w2" using o1 d2 by (simp add: only_file_def)
  consider (a) x where "r1 = Inl x" "r = Inl x" "w' = w1"
    | (b) x where "r1 = Inr ()" "r2 = Inl x" "r = Inl x" "w' = w2"
    | (c) x where "r1 = Inr ()" "r2 = Inr ()" "r3 = Inl x" "r = Inl x" "w' = w3"
    | (d) "r1 = Inr ()" "r2 = Inr ()" "r3 = Inr ()" "r = r4" "w' = w4"
    using run s1 s2 s3 s4
    by (cases r1; cases r2; cases r3) (auto simp: world_publish_def dir_def [symmetric])
  then have "replaces path tmp (df_contents f) w w' \<and> (r = Inr u \<longrightarrow> replaced path (df_contents f) w')"
  proof cases
    case a
    then show ?thesis using o1 ne by (simp add: replaces_only_file)
  next
    case b
    then show ?thesis using o2 ne by (simp add: replaces_only_file)
  next
    case c
    have w2: "fs_files (w_fs w2) tmp = Some (whole_file (df_contents f))" using d1(2) c d2 by simp
    from world_renameD [OF s3 w2 ne] c o2 have "only_file tmp w w3" by (simp add: only_file_def)
    with c ne show ?thesis by (simp add: replaces_only_file)
  next
    case d
    have w2: "fs_files (w_fs w2) tmp = Some (whole_file (df_contents f))" using d1(2) d d2 by simp
    note d3 = world_renameD [OF s3 w2 ne]
    have files: "fs_files (w_fs w') = (fs_files (w_fs w2))(tmp := None, path \<mapsto> whole_file (df_contents f))"
      using d d3(3) d4(1) by simp
    have more: "world.more w' = world.more w" using d d3(2) d4(2) o2 by (simp add: only_file_def)
    have sync: "fs_synced (w_fs w') q = fs_synced (w_fs w) q \<or>
        fs_synced (w_fs w') q = map_option df_durable (fs_files (w_fs w') q)" for q
    proof (cases r4)
      case (Inl x)
      then show ?thesis using d d3(1) d4(3) o2 by (simp add: only_file_def)
    next
      case (Inr v)
      then have "w_fs w' = fs_sync_directory dir (w_fs w3)" using d d4(4) by simp
      then show ?thesis using d3(1) o2 by (cases "in_directory dir q") (simp_all add: only_file_def)
    qed
    have "replaced path (df_contents f) w'" if "r = Inr u"
    proof -
      from that d d4(4) have "w_fs w' = fs_sync_directory dir (w_fs w3)" by simp
      then have "fs_synced (w_fs w') path = map_option df_durable (fs_files (w_fs w') path)"
        using in_directory_parent [of path] by (simp add: dir_def)
      then show ?thesis using files by (simp add: replaced_def)
    qed
    moreover have "replaces path tmp (df_contents f) w w'"
      using files more sync o2 by (simp add: replaces_def only_file_def)
    ultimately show ?thesis by blast
  qed
  then show "replaces path tmp (df_contents f) w w'" and "r = Inr u \<Longrightarrow> replaced path (df_contents f) w'"
    by blast+
qed

section \<open>A kernel that never fails\<close>

text \<open>With no event pending every call succeeds.\<close>

named_theorems reliable_simps \<open>calls of a kernel that never fails\<close>

lemma sys_call_reliable [reliable_simps]: "w_events w = [] \<Longrightarrow> sys_call e w = (Inr (), w)"
  by (simp add: sys_call_def)

lemma world_retry_reliable [reliable_simps]: "w_events w = [] \<Longrightarrow> world_retry e w = (Inr (), w)"
  by (simp add: world_retry_def)

lemma remove_ignored_reliable [reliable_simps]:
  "w_events w = [] \<Longrightarrow> remove_ignored p w = w\<lparr>w_fs := fs_remove p (w_fs w)\<rparr>"
  by (simp add: remove_ignored_def sys_call_def)

lemma world_create_reliable [reliable_simps]:
  "w_events w = [] \<Longrightarrow> world_create e p w = (Inr (), w\<lparr>w_fs := fs_create p empty_file (w_fs w)\<rparr>)"
  by (simp add: world_create_def sys_call_reliable update_fs_def)

lemma world_write_reliable [reliable_simps]:
  "w_events w = [] \<Longrightarrow> world_write failed zero p bs w = (Inr (), w\<lparr>w_fs := world_update p (file_append bs) (w_fs w)\<rparr>)"
  by (simp add: world_write_def)

lemma world_publish_reliable:
  assumes "w_events w = []" and "fs_files (w_fs w) tmp = Some f"
  obtains w' where "world_publish es tmp path w = (Inr (), w')" and "w_events w' = []"
proof -
  define w1 where "w1 = w\<lparr>w_fs := world_update tmp file_sync (w_fs w)\<rparr>"
  have "w_events w1 = []" and "fs_files (w_fs w1) tmp = Some (file_sync f)"
    using assms by (simp_all add: w1_def world_update_def)
  then show ?thesis
    using assms
    by (intro that [of "w1\<lparr>w_fs := fs_sync_directory (if parent_path path = [] then dot else parent_path path)
          (fs_rename tmp path (w_fs w1))\<rparr>"])
      (simp_all add: world_publish_def world_fsync_def world_rename_def world_sync_directory_def
        update_fs_def reliable_simps w1_def [symmetric])
qed

end
