(* ===== verification/SSTableWriter.thy ===== *)
theory SSTableWriter
  imports SSTableCodec FileSystem
begin

text \<open>
  \<open>SSTableWriter\<close> (\<open>src/sstable_writer.cpp\<close>): the entries of a frozen table are checked, cut into
  data blocks of about the target size and written, with header, index and footer, to a temporary
  file that is renamed once it is durable.  Sizes of objects in memory are natural numbers; the
  fields of the file are words of their width.
\<close>

section \<open>Data\<close>

datatype sstable_level = Level0 | Level1

primrec level_name :: "sstable_level \<Rightarrow> string" where
  "level_name Level0 = ''L0''"
| "level_name Level1 = ''L1''"

record sstable_metadata =
  md_path :: bytes
  md_generation :: u64
  md_entry_count :: u64
  md_block_count :: u32
  md_min_sequence_number :: u64
  md_max_sequence_number :: u64
  md_smallest_key :: bytes
  md_largest_key :: bytes
  md_level :: sstable_level

record sstable_writer_options =
  wo_output_path :: bytes
  wo_target_data_block_bytes :: u64
  wo_generation :: u64

definition first_key :: "data_block \<Rightarrow> bytes" where
  "first_key b = fst (hd (db_records b))"

definition last_key :: "data_block \<Rightarrow> bytes" where
  "last_key b = fst (last (db_records b))"

section \<open>Checks and block layout\<close>

definition temporary_path_for :: "bytes \<Rightarrow> bytes" where
  "temporary_path_for path = path @ str ''.tmp''"

definition narrow_block_size :: "u64 \<Rightarrow> u32 result" where
  "narrow_block_size value =
     bind_result (throw_if (value = 0 \<or> value > 4294967295)
       (InvalidArgument ''SSTable target data block size must fit in a 32-bit field'')) (\<lambda>_.
     Inr (ucast value))"

text \<open>The validation loop: the previous key and the running minimum and maximum of the sequence
  numbers.\<close>

fun scan_entries :: "bytes \<Rightarrow> u64 \<Rightarrow> u64 \<Rightarrow> snapshot \<Rightarrow> (u64 \<times> u64) result" where
  "scan_entries previous_key min_sequence max_sequence [] = Inr (min_sequence, max_sequence)"
| "scan_entries previous_key min_sequence max_sequence ((key, e) # rest) =
     (if previous_key \<noteq> [] \<and> key \<le> previous_key
      then Inl (InvalidArgument ''SSTable input keys must be strictly sorted'')
      else if entry_sequence_number e = 0
      then Inl (InvalidArgument ''SSTable entries require non-zero sequence numbers'')
      else scan_entries key (min min_sequence (entry_sequence_number e))
             (max max_sequence (entry_sequence_number e)) rest)"

definition empty_block_size :: nat where
  "empty_block_size = 12 + kSstChecksumSize"

fun split_blocks :: "nat \<Rightarrow> snapshot \<Rightarrow> nat \<Rightarrow> snapshot \<Rightarrow> data_block list" where
  "split_blocks target current current_size [] = (if current \<noteq> [] then [\<lparr>db_records = current\<rparr>] else [])"
| "split_blocks target current current_size (r # rs) =
     (let record_size = encoded_record_size r in
      if current \<noteq> [] \<and> current_size + record_size > target
      then \<lparr>db_records = current\<rparr> # split_blocks target [r] (empty_block_size + record_size) rs
      else split_blocks target (current @ [r]) (current_size + record_size) rs)"

section \<open>Writing\<close>

definition sst_write_all :: "bytes \<Rightarrow> bytes \<Rightarrow> ('a world_scheme, unit) effect" where
  "sst_write_all = world_write (SystemError ''failed to write SSTable file'')
     (RuntimeError ''SSTable write returned zero bytes'')"

fun write_blocks :: "bytes \<Rightarrow> u64 \<Rightarrow> data_block list \<Rightarrow> ('a world_scheme, index_entry list \<times> u64) effect" where
  "write_blocks tmp current_offset [] w = (Inr ([], current_offset), w)"
| "write_blocks tmp current_offset (b # bs) w =
     bind_effect (lift_result (serialize_data_block b)) (\<lambda>encoded.
     bind_effect (sst_write_all tmp encoded) (\<lambda>_.
     bind_effect (write_blocks tmp (current_offset + of_nat (length encoded)) bs) (\<lambda>(index, end_offset) w.
       (Inr (\<lparr>ie_first_key = first_key b, ie_last_key = last_key b, ie_block_offset = current_offset,
              ie_block_size = of_nat (length encoded)\<rparr> # index, end_offset), w)))) w"

definition sst_publish_errors :: publish_errors where
  "sst_publish_errors =
     \<lparr>pe_fsync = SystemError ''failed to fsync temporary SSTable'',
      pe_close = SystemError ''failed to close temporary SSTable'',
      pe_rename = SystemError ''filesystem error: cannot rename'',
      pe_open_directory = SystemError ''failed to open SSTable directory for fsync'',
      pe_fsync_directory = SystemError ''failed to fsync SSTable directory''\<rparr>"

definition write_table_file :: "bytes \<Rightarrow> bytes \<Rightarrow> sst_header \<Rightarrow> data_block list \<Rightarrow> ('a world_scheme, unit) effect" where
  "write_table_file tmp path h blocks =
     bind_effect (sst_write_all tmp (serialize_header h)) (\<lambda>_.
     bind_effect (write_blocks tmp (of_nat kSstHeaderSize) blocks) (\<lambda>(index, index_offset).
     bind_effect (lift_result (serialize_index_block index)) (\<lambda>encoded_index.
     bind_effect (sst_write_all tmp encoded_index) (\<lambda>_.
     bind_effect (sst_write_all tmp (serialize_footer
       \<lparr>ft_index_offset = index_offset, ft_index_size = of_nat (length encoded_index),
        ft_entry_count = hd_entry_count h, ft_block_count = hd_block_count h,
        ft_min_sequence_number = hd_min_sequence_number h,
        ft_max_sequence_number = hd_max_sequence_number h\<rparr>)) (\<lambda>_.
     world_publish sst_publish_errors tmp path)))))"

definition sstable_write :: "snapshot \<Rightarrow> sstable_writer_options \<Rightarrow> ('a world_scheme, sstable_metadata) effect" where
  "sstable_write entries options =
     bind_effect (lift_result (throw_if (wo_output_path options = [])
       (InvalidArgument ''SSTable output path must not be empty''))) (\<lambda>_.
     bind_effect (lift_result (throw_if (entries = []) (InvalidArgument ''cannot write an empty SSTable''))) (\<lambda>_.
     bind_effect (lift_result (narrow_block_size (wo_target_data_block_bytes options))) (\<lambda>target_block_size.
     bind_effect (lift_result (scan_entries [] (- 1) 0 entries)) (\<lambda>(min_sequence, max_sequence).
     let blocks = split_blocks (unat (wo_target_data_block_bytes options)) [] empty_block_size entries;
         path = wo_output_path options;
         tmp = temporary_path_for path;
         h = \<lparr>hd_generation = wo_generation options, hd_entry_count = of_nat (length entries),
              hd_block_count = of_nat (length blocks), hd_target_data_block_bytes = target_block_size,
              hd_min_sequence_number = min_sequence, hd_max_sequence_number = max_sequence\<rparr>
     in
     bind_effect (lift_result (throw_if (length blocks > unat (- 1 :: u32))
       (LengthError ''SSTable contains too many data blocks''))) (\<lambda>_.
     bind_effect (if parent_path path = [] then lift_result (Inr ())
       else sys_call (SystemError ''filesystem error: cannot create directories'')) (\<lambda>_ w.
     bind_effect (world_create (SystemError ''failed to create temporary SSTable'') tmp) (\<lambda>_.
     bind_effect (removing_on_error tmp (write_table_file tmp path h blocks)) (\<lambda>_.
     lift_result (Inr
       \<lparr>md_path = path, md_generation = wo_generation options, md_entry_count = of_nat (length entries),
        md_block_count = of_nat (length blocks), md_min_sequence_number = min_sequence,
        md_max_sequence_number = max_sequence, md_smallest_key = fst (hd entries),
        md_largest_key = fst (last entries), md_level = Level0\<rparr>)))
       (remove_ignored tmp w)))))))"

section \<open>The image of a table file\<close>

text \<open>The bytes of the data blocks with the index entries that describe them, and the whole file, as a
  function of the entries alone.\<close>

fun layout_blocks :: "nat \<Rightarrow> data_block list \<Rightarrow> (bytes \<times> index_entry list) result" where
  "layout_blocks off [] = Inr ([], [])"
| "layout_blocks off (b # bs) =
     bind_result (serialize_data_block b) (\<lambda>encoded.
     bind_result (layout_blocks (off + length encoded) bs) (\<lambda>(body, index).
     Inr (encoded @ body,
       \<lparr>ie_first_key = first_key b, ie_last_key = last_key b, ie_block_offset = of_nat off,
        ie_block_size = of_nat (length encoded)\<rparr> # index)))"

definition table_footer :: "sst_header \<Rightarrow> nat \<Rightarrow> nat \<Rightarrow> sst_footer" where
  "table_footer h index_offset index_size =
     \<lparr>ft_index_offset = of_nat index_offset, ft_index_size = of_nat index_size,
      ft_entry_count = hd_entry_count h, ft_block_count = hd_block_count h,
      ft_min_sequence_number = hd_min_sequence_number h, ft_max_sequence_number = hd_max_sequence_number h\<rparr>"

definition table_image :: "sst_header \<Rightarrow> data_block list \<Rightarrow> bytes result" where
  "table_image h blocks =
     bind_result (layout_blocks kSstHeaderSize blocks) (\<lambda>(body, index).
     bind_result (serialize_index_block index) (\<lambda>encoded_index.
     Inr (serialize_header h @ body @ encoded_index @
       serialize_footer (table_footer h (kSstHeaderSize + length body) (length encoded_index)))))"

lemma split_blocks_concat: "concat (map db_records (split_blocks target current sz rs)) = current @ rs"
  by (induction rs arbitrary: current sz) (simp_all add: Let_def)

lemma split_blocks_nonempty: "b \<in> set (split_blocks target current sz rs) \<Longrightarrow> db_records b \<noteq> []"
proof (induction rs arbitrary: current sz)
  case (Cons r rs)
  then show ?case by (auto simp: Let_def split: if_splits)
qed (simp split: if_splits)

lemma split_blocks_eq_Nil: "split_blocks target current sz rs = [] \<longleftrightarrow> current = [] \<and> rs = []"
  by (induction rs arbitrary: current sz) (simp_all add: Let_def)

lemma sst_write_allD:
  assumes "sst_write_all p bs w = (r, w')"
  shows "only_file p w w'"
    and "r = Inr u \<Longrightarrow> fs_files (w_fs w) p = Some f \<Longrightarrow> fs_files (w_fs w') p = Some (file_append bs f)"
  using world_writeD [OF assms [unfolded sst_write_all_def]] by blast+

lemma file_append_append [simp]: "file_append ys (file_append xs f) = file_append (xs @ ys) f"
  by (simp add: file_append_def)

lemma file_append_Nil [simp]: "file_append [] f = f"
  by (simp add: file_append_def)

lemma write_blocks_only: "write_blocks tmp off bs w = (r, w') \<Longrightarrow> only_file tmp w w'"
proof (induction bs arbitrary: off w r w')
  case (Cons b bs)
  show ?case
  proof (cases "serialize_data_block b")
    case (Inr encoded)
    obtain r1 w1 where s1: "sst_write_all tmp encoded w = (r1, w1)" by fastforce
    obtain r2 w2 where s2: "write_blocks tmp (off + of_nat (length encoded)) bs w1 = (r2, w2)" by fastforce
    have "w' = w1 \<or> w' = w2"
      using Cons.prems Inr s1 s2 by (cases r1; cases r2) (auto simp: split: prod.splits)
    moreover have "only_file tmp w w1" by (rule sst_write_allD(1) [OF s1])
    moreover from this have "only_file tmp w w2" using Cons.IH [OF s2] only_file_trans by blast
    ultimately show ?thesis by blast
  qed (use Cons.prems in simp)
qed simp

lemma write_blocks_Inr:
  assumes "write_blocks tmp (of_nat off) bs w = (Inr (index, end_offset), w')" and "fs_files (w_fs w) tmp = Some f"
  shows "\<exists>body. layout_blocks off bs = Inr (body, index) \<and> end_offset = of_nat (off + length body) \<and>
    fs_files (w_fs w') tmp = Some (file_append body f)"
  using assms
proof (induction bs arbitrary: off w f index)
  case (Cons b bs)
  from Cons.prems(1) obtain encoded where enc: "serialize_data_block b = Inr encoded"
    by (cases "serialize_data_block b") auto
  obtain r1 w1 where s1: "sst_write_all tmp encoded w = (r1, w1)" by fastforce
  obtain r2 w2 where s2: "write_blocks tmp (of_nat (off + length encoded)) bs w1 = (r2, w2)" by fastforce
  from Cons.prems(1) enc s1 s2 obtain rest where r1: "r1 = Inr ()" and r2: "r2 = Inr (rest, end_offset)"
    and w': "w' = w2" and index: "index = \<lparr>ie_first_key = first_key b, ie_last_key = last_key b,
      ie_block_offset = of_nat off, ie_block_size = of_nat (length encoded)\<rparr> # rest"
    by (cases r1; cases r2) (auto split: prod.splits)
  have "fs_files (w_fs w1) tmp = Some (file_append encoded f)"
    using sst_write_allD(2) [OF s1 r1 Cons.prems(2)] .
  moreover have "write_blocks tmp (of_nat (off + length encoded)) bs w1 = (Inr (rest, end_offset), w')"
    using s2 r2 w' by simp
  ultimately obtain body where
    "layout_blocks (off + length encoded) bs = Inr (body, rest)"
    "end_offset = of_nat (off + length encoded + length body)"
    "fs_files (w_fs w2) tmp = Some (file_append (encoded @ body) f)"
    using Cons.IH w' by fastforce
  then show ?case using enc w' index by (simp add: add.assoc)
qed auto

text \<open>A run of the file writer: whatever the kernel does, the target file is untouched or complete, and
  when the writer returns it is complete and durable.\<close>

lemma write_table_fileD:
  assumes run: "write_table_file tmp path h blocks w = (r, w')" and f: "fs_files (w_fs w) tmp = Some empty_file"
    and ne: "tmp \<noteq> path"
  shows "\<exists>bs. replaces path tmp bs w w' \<and> (r = Inr u \<longrightarrow> table_image h blocks = Inr bs \<and> replaced path bs w')"
proof -
  obtain r1 w1 where s1: "sst_write_all tmp (serialize_header h) w = (r1, w1)" by fastforce
  have o1: "only_file tmp w w1" by (rule sst_write_allD(1) [OF s1])
  obtain r2 w2 where s2: "write_blocks tmp (of_nat kSstHeaderSize) blocks w1 = (r2, w2)" by fastforce
  have o2: "only_file tmp w w2" using o1 write_blocks_only [OF s2] only_file_trans by blast
  show ?thesis
  proof (cases "\<exists>ei idx off. r1 = Inr () \<and> r2 = Inr (idx, off) \<and> serialize_index_block idx = Inr ei")
    case False
    then have "w' = w1 \<and> (\<exists>x. r = Inl x) \<or> w' = w2 \<and> (\<exists>x. r = Inl x)"
    proof (cases r1)
      case r1: (Inr v)
      show ?thesis
      proof (cases r2)
        case (Inr p)
        obtain idx off where p: "p = (idx, off)" by fastforce
        with False r1 Inr obtain x where "serialize_index_block idx = Inl x"
          by (cases "serialize_index_block idx") auto
        with run s1 s2 r1 Inr p show ?thesis by (auto simp: write_table_file_def)
      qed (use run s1 s2 r1 in \<open>auto simp: write_table_file_def\<close>)
    qed (use run s1 in \<open>auto simp: write_table_file_def\<close>)
    then show ?thesis using o1 o2 ne replaces_only_file by blast
  next
    case True
    then obtain ei idx off where r1: "r1 = Inr ()" and r2: "r2 = Inr (idx, off)"
      and ei: "serialize_index_block idx = Inr ei" by blast
    define ft where "ft = \<lparr>ft_index_offset = off, ft_index_size = of_nat (length ei),
        ft_entry_count = hd_entry_count h, ft_block_count = hd_block_count h,
        ft_min_sequence_number = hd_min_sequence_number h, ft_max_sequence_number = hd_max_sequence_number h\<rparr>"
    obtain r3 w3 where s3: "sst_write_all tmp ei w2 = (r3, w3)" by fastforce
    obtain r4 w4 where s4: "sst_write_all tmp (serialize_footer ft) w3 = (r4, w4)" by fastforce
    have o3: "only_file tmp w w3" using o2 sst_write_allD(1) [OF s3] only_file_trans by blast
    have o4: "only_file tmp w w4" using o3 sst_write_allD(1) [OF s4] only_file_trans by blast
    have run': "(case r3 of Inl x \<Rightarrow> (Inl x, w3) | Inr _ \<Rightarrow>
        (case r4 of Inl x \<Rightarrow> (Inl x, w4) | Inr _ \<Rightarrow> world_publish sst_publish_errors tmp path w4)) = (r, w')"
      using run s1 s2 r1 r2 ei
      by (simp add: write_table_file_def ft_def [symmetric] bind_effect_case s3 s4 cong: sum.case_cong)
    show ?thesis
    proof (cases "r3 = Inr () \<and> r4 = Inr ()")
      case False
      then have "w' = w3 \<and> (\<exists>x. r = Inl x) \<or> w' = w4 \<and> (\<exists>x. r = Inl x)"
        using run' by (cases r3; cases r4) auto
      then show ?thesis using o3 o4 ne replaces_only_file by blast
    next
      case ok: True
      have "fs_files (w_fs w1) tmp = Some (file_append (serialize_header h) empty_file)"
        using sst_write_allD(2) [OF s1 r1 f] .
      then obtain body where layout: "layout_blocks kSstHeaderSize blocks = Inr (body, idx)"
        and off: "off = of_nat (kSstHeaderSize + length body)"
        and w2: "fs_files (w_fs w2) tmp = Some (file_append (serialize_header h @ body) empty_file)"
        using write_blocks_Inr [OF s2 [unfolded r2]] by auto
      have "fs_files (w_fs w3) tmp = Some (file_append (serialize_header h @ body @ ei) empty_file)"
        using sst_write_allD(2) [OF s3 _ w2] ok by simp
      then have w4: "fs_files (w_fs w4) tmp =
          Some (file_append (serialize_header h @ body @ ei @ serialize_footer ft) empty_file)"
        using sst_write_allD(2) [OF s4] ok by simp
      have pub: "world_publish sst_publish_errors tmp path w4 = (r, w')" using run' ok by simp
      let ?bs = "serialize_header h @ body @ ei @ serialize_footer ft"
      have "replaces path tmp ?bs w4 w'" "r = Inr u \<Longrightarrow> replaced path ?bs w'"
        using world_publishD [OF pub w4 ne] by simp_all
      moreover have "table_image h blocks = Inr ?bs"
        using layout ei off by (simp add: table_image_def table_footer_def ft_def)
      ultimately show ?thesis using replaces_after [OF o4 _ ne] by blast
    qed
  qed
qed

lemma temporary_path_neq [simp]: "temporary_path_for path \<noteq> path" "path \<noteq> temporary_path_for path"
  by (simp_all add: temporary_path_for_def str_def)

text \<open>What a returning writer has written: the checks passed, and the file is the image of the entries
  cut into blocks.\<close>

definition table_blocks :: "snapshot \<Rightarrow> sstable_writer_options \<Rightarrow> data_block list" where
  "table_blocks entries options =
     split_blocks (unat (wo_target_data_block_bytes options)) [] empty_block_size entries"

definition table_written :: "snapshot \<Rightarrow> sstable_writer_options \<Rightarrow> sstable_metadata \<Rightarrow> bytes \<Rightarrow> bool" where
  "table_written entries options md bs \<longleftrightarrow> wo_output_path options \<noteq> [] \<and> entries \<noteq> [] \<and>
     length (table_blocks entries options) < 2 ^ 32 \<and>
     (\<exists>min_sequence max_sequence target.
        scan_entries [] (- 1) 0 entries = Inr (min_sequence, max_sequence) \<and>
        table_image \<lparr>hd_generation = wo_generation options, hd_entry_count = of_nat (length entries),
          hd_block_count = of_nat (length (table_blocks entries options)), hd_target_data_block_bytes = target,
          hd_min_sequence_number = min_sequence, hd_max_sequence_number = max_sequence\<rparr>
          (table_blocks entries options) = Inr bs \<and>
        md = \<lparr>md_path = wo_output_path options, md_generation = wo_generation options,
          md_entry_count = of_nat (length entries),
          md_block_count = of_nat (length (table_blocks entries options)),
          md_min_sequence_number = min_sequence, md_max_sequence_number = max_sequence,
          md_smallest_key = fst (hd entries), md_largest_key = fst (last entries), md_level = Level0\<rparr>)"

lemma removing_on_errorD:
  assumes "removing_on_error tmp m w = (r, w')"
  obtains w1 where "m w = (r, w1)" and "only_file tmp w1 w'" and "\<forall>x. r = Inr x \<longrightarrow> w' = w1"
proof -
  obtain r1 w1 where m: "m w = (r1, w1)" by fastforce
  show ?thesis
  proof (rule that [of w1])
    show "m w = (r, w1)" using assms m by (cases r1) (auto simp: removing_on_error_def)
    show "only_file tmp w1 w'" using assms m by (cases r1) (auto simp: removing_on_error_def)
    show "\<forall>x. r = Inr x \<longrightarrow> w' = w1" using assms m by (cases r1) (auto simp: removing_on_error_def)
  qed
qed

lemma sstable_writeD:
  assumes run: "sstable_write entries options w = (r, w')"
  shows "\<exists>bs. replaces (wo_output_path options) (temporary_path_for (wo_output_path options)) bs w w' \<and>
    (\<forall>md. r = Inr md \<longrightarrow> table_written entries options md bs \<and> replaced (wo_output_path options) bs w')"
proof -
  let ?path = "wo_output_path options" and ?blocks = "table_blocks entries options"
  let ?tmp = "temporary_path_for ?path"
  have id: "replaces ?path ?tmp bs w w" for bs by (simp add: replaces_only_file)
  show ?thesis
  proof (cases "?path \<noteq> [] \<and> entries \<noteq> [] \<and> (\<exists>target mn mx. narrow_block_size (wo_target_data_block_bytes options) = Inr target \<and>
      scan_entries [] (- 1) 0 entries = Inr (mn, mx)) \<and> length ?blocks \<le> unat (- 1 :: u32)")
    case False
    then have "w' = w \<and> (\<exists>x. r = Inl x)"
      using run by (cases "narrow_block_size (wo_target_data_block_bytes options)"; cases "scan_entries [] (- 1) 0 entries")
        (auto simp: sstable_write_def throw_if_def table_blocks_def [symmetric] Let_def split: if_splits)
    then show ?thesis using id by blast
  next
    case True
    then obtain target mn mx where path: "?path \<noteq> []" and ne: "entries \<noteq> []"
      and target: "narrow_block_size (wo_target_data_block_bytes options) = Inr target"
      and scan: "scan_entries [] (- 1) 0 entries = Inr (mn, mx)" and n: "length ?blocks \<le> unat (- 1 :: u32)" by blast
    define h where "h = \<lparr>hd_generation = wo_generation options, hd_entry_count = of_nat (length entries),
      hd_block_count = of_nat (length ?blocks), hd_target_data_block_bytes = target,
      hd_min_sequence_number = mn, hd_max_sequence_number = mx\<rparr>"
    define md where "md = \<lparr>md_path = ?path, md_generation = wo_generation options, md_entry_count = of_nat (length entries),
      md_block_count = of_nat (length ?blocks), md_min_sequence_number = mn, md_max_sequence_number = mx,
      md_smallest_key = fst (hd entries), md_largest_key = fst (last entries), md_level = Level0\<rparr>"
    define dirs :: "('a world_scheme, unit) effect" where "dirs = (if parent_path ?path = [] then lift_result (Inr ())
       else sys_call (SystemError ''filesystem error: cannot create directories''))"
    obtain r1 w1 where s1: "dirs w = (r1, w1)" by fastforce
    obtain r2 w2 where s2: "world_create (SystemError ''failed to create temporary SSTable'') ?tmp (remove_ignored ?tmp w1) = (r2, w2)"
      by fastforce
    obtain r3 w3 where s3: "removing_on_error ?tmp (write_table_file ?tmp ?path h ?blocks) w2 = (r3, w3)" by fastforce
    have o1: "only_file ?tmp w w1"
    proof (cases "parent_path ?path = []")
      case False
      then have "sys_call (SystemError ''filesystem error: cannot create directories'') w = (r1, w1)"
        using s1 by (simp add: dirs_def)
      from sys_callD [OF this] show ?thesis by (simp add: only_file_def)
    qed (use s1 in \<open>simp add: dirs_def\<close>)
    have o2: "only_file ?tmp w w2"
      using o1 only_file_remove_ignored world_createD(1) [OF s2] only_file_trans by blast
    have run': "(case r1 of Inl x \<Rightarrow> (Inl x, w1) | Inr _ \<Rightarrow> (case r2 of Inl x \<Rightarrow> (Inl x, w2) | Inr _ \<Rightarrow>
        (case r3 of Inl x \<Rightarrow> (Inl x, w3) | Inr _ \<Rightarrow> (Inr md, w3)))) = (r, w')"
      using run path ne target scan n
      by (simp add: sstable_write_def throw_if_def table_blocks_def [symmetric] Let_def h_def [symmetric]
          dirs_def [symmetric] md_def [symmetric] bind_effect_case s1 s2 s3 lift_result_def
          cong: sum.case_cong)
    show ?thesis
    proof (cases "r1 = Inr () \<and> r2 = Inr ()")
      case False
      then have "w' = w1 \<and> (\<exists>x. r = Inl x) \<or> w' = w2 \<and> (\<exists>x. r = Inl x)"
        using run' by (cases r1; cases r2) auto
      then show ?thesis using o1 o2 replaces_only_file by (metis Inl_Inr_False temporary_path_neq(1))
    next
      case ok: True
      then have run'': "(case r3 of Inl x \<Rightarrow> (Inl x, w3) | Inr _ \<Rightarrow> (Inr md, w3)) = (r, w')" using run' by simp
      from removing_on_errorD [OF s3] obtain w4 where s4: "write_table_file ?tmp ?path h ?blocks w2 = (r3, w4)"
        and o4: "only_file ?tmp w4 w3" and eq: "\<forall>x. r3 = Inr x \<longrightarrow> w3 = w4" by blast
      from ok have "fs_files (w_fs w2) ?tmp = Some empty_file" using world_createD(2) [OF s2] by simp
      then obtain bs where bs: "replaces ?path ?tmp bs w2 w4"
        "r3 = Inr () \<longrightarrow> table_image h ?blocks = Inr bs \<and> replaced ?path bs w4"
        using write_table_fileD [OF s4 _ temporary_path_neq(1)] by blast
      have w': "w' = w3" using run'' by (cases r3) auto
      have "replaces ?path ?tmp bs w w'"
        using replaces_after [OF o2 replaces_before [OF bs(1) o4]] w' by simp
      moreover have "table_written entries options md' bs \<and> replaced ?path bs w'" if "r = Inr md'" for md'
      proof -
        from that run'' have r3: "r3 = Inr ()" and md': "md' = md" by (cases r3; simp)+
        from r3 bs(2) eq w' have "table_image h ?blocks = Inr bs" "replaced ?path bs w'" by auto
        moreover have "length ?blocks < 2 ^ 32" using n by (simp add: unat_minus_one_u32)
        ultimately show ?thesis
          using path ne scan md' unfolding table_written_def h_def md_def by blast
      qed
      ultimately show ?thesis by blast
    qed
  qed
qed

end
