(* ===== verification/BloomFilter.thy ===== *)
theory BloomFilter
  imports Prelude Complex_Main
begin

text \<open>
  \<open>BloomFilter\<close> (\<open>src/bloom_filter.cpp\<close>): two 64-bit hashes of a key select up to 32 bits of a
  vector of 64-bit words.  The sizing formulas of the constructor are over \<open>double\<close>; they are
  modelled over the reals, so rounding of floating-point operations is not represented, and
  \<open>None\<close> stands for a rate that is not finite.  Everything after the sizing is exact.
\<close>

section \<open>Definitions\<close>

record bloom_filter =
  bf_words :: "u64 list"
  bf_bit_count :: u64
  bf_hash_count :: u64
  bf_inserted_keys :: u64
  bf_target_false_positive_rate :: real

definition kNaturalLogOfTwo :: real where
  "kNaturalLogOfTwo = 0.69314718055994530942"

definition kBitsPerWord :: u64 where
  "kBitsPerWord = 64"

definition kMaximumHashCount :: u64 where
  "kMaximumHashCount = 32"

definition mix64 :: "u64 \<Rightarrow> u64" where
  "mix64 v =
     (let v = v XOR drop_bit 30 v;
          v = v * 0xBF58476D1CE4E5B9;
          v = v XOR drop_bit 27 v;
          v = v * 0x94D049BB133111EB
      in v XOR drop_bit 31 v)"

definition checked_bit_count :: "u64 \<Rightarrow> real \<Rightarrow> u64 result" where
  "checked_bit_count expected_entries false_positive_rate =
     (let numerator = - real (unat expected_entries) * ln false_positive_rate;
          denominator = kNaturalLogOfTwo * kNaturalLogOfTwo;
          calculated = \<lceil>numerator / denominator\<rceil>
      in if calculated \<le> 0 \<or> calculated > 2 ^ 64
         then Inl (LengthError ''Bloom filter size exceeds process limits'')
         else Inr (max (of_int calculated) kBitsPerWord))"

definition checked_hash_count :: "u64 \<Rightarrow> u64 \<Rightarrow> u64" where
  "checked_hash_count bit_count expected_entries =
     (let calculated = round ((real (unat bit_count) / real (unat expected_entries)) * kNaturalLogOfTwo)
      in min (of_int (max 1 calculated)) kMaximumHashCount)"

definition bloom_filter_new :: "u64 \<Rightarrow> real option \<Rightarrow> bloom_filter result" where
  "bloom_filter_new expected_entries false_positive_rate =
     bind_result (throw_if (expected_entries = 0)
       (InvalidArgument ''Bloom filter expected entry count must be positive'')) (\<lambda>_.
     case false_positive_rate of
       None \<Rightarrow> Inl (InvalidArgument ''Bloom filter false-positive rate must be between zero and one'')
     | Some rate \<Rightarrow>
         if rate \<le> 0 \<or> rate \<ge> 1
         then Inl (InvalidArgument ''Bloom filter false-positive rate must be between zero and one'')
         else bind_result (checked_bit_count expected_entries rate) (\<lambda>bit_count.
           let hash_count = checked_hash_count bit_count expected_entries;
               word_count = (bit_count + kBitsPerWord - 1) div kBitsPerWord
           in Inr \<lparr>bf_words = replicate (unat word_count) 0, bf_bit_count = word_count * kBitsPerWord,
                   bf_hash_count = hash_count, bf_inserted_keys = 0,
                   bf_target_false_positive_rate = rate\<rparr>))"

definition primary_hash :: "bytes \<Rightarrow> u64" where
  "primary_hash key =
     mix64 (foldl (\<lambda>hash byte. (hash XOR ucast byte) * 1099511628211) 14695981039346656037 key)"

definition secondary_hash :: "bytes \<Rightarrow> u64" where
  "secondary_hash key =
     (let hash = foldl (\<lambda>hash byte. hash XOR
            (ucast byte + 0x9E3779B97F4A7C15 + push_bit 6 hash + drop_bit 2 hash)) 0x9E3779B97F4A7C15 key;
          hash = mix64 (hash XOR 0xD6E8FEB86659FD93)
      in if hash = 0 then 0xA0761D6478BD642F else hash)"

definition bit_index :: "bloom_filter \<Rightarrow> u64 \<Rightarrow> u64 \<Rightarrow> u64 \<Rightarrow> u64" where
  "bit_index f first second hash_index = (first + hash_index * second) mod bf_bit_count f"

text \<open>The bit positions of a key, in the order the two loops visit them.\<close>

definition bloom_positions :: "bloom_filter \<Rightarrow> bytes \<Rightarrow> u64 list" where
  "bloom_positions f key =
     map (\<lambda>index. bit_index f (primary_hash key) (secondary_hash key) (of_nat index)) [0..<unat (bf_hash_count f)]"

definition set_filter_bit :: "u64 list \<Rightarrow> u64 \<Rightarrow> u64 list" where
  "set_filter_bit words b =
     (let i = unat (b div kBitsPerWord) in words[i := words ! i OR push_bit (unat (b mod kBitsPerWord)) 1])"

definition filter_bit :: "u64 list \<Rightarrow> u64 \<Rightarrow> bool" where
  "filter_bit words b \<longleftrightarrow>
     words ! unat (b div kBitsPerWord) AND push_bit (unat (b mod kBitsPerWord)) 1 \<noteq> 0"

definition bloom_add :: "bloom_filter \<Rightarrow> bytes \<Rightarrow> bloom_filter" where
  "bloom_add f key = f\<lparr>bf_words := foldl set_filter_bit (bf_words f) (bloom_positions f key),
     bf_inserted_keys := bf_inserted_keys f + 1\<rparr>"

definition may_contain :: "bloom_filter \<Rightarrow> bytes \<Rightarrow> bool" where
  "may_contain f key \<longleftrightarrow> list_all (filter_bit (bf_words f)) (bloom_positions f key)"

definition bloom_memory_bytes :: "bloom_filter \<Rightarrow> u64" where
  "bloom_memory_bytes f = of_nat (length (bf_words f)) * 8"

section \<open>The contract of an approximate membership filter\<close>

locale membership_filter =
  fixes add :: "'f \<Rightarrow> 'k \<Rightarrow> 'f"
    and contains :: "'f \<Rightarrow> 'k \<Rightarrow> bool"
    and invar :: "'f \<Rightarrow> bool"
  assumes add_invar: "invar f \<Longrightarrow> invar (add f k)"
    and add_contains: "invar f \<Longrightarrow> contains (add f k) k"
    and add_keeps: "invar f \<Longrightarrow> contains f k \<Longrightarrow> contains (add f k') k"
begin

lemma foldl_add_invar: "invar f \<Longrightarrow> invar (foldl add f ks)"
  by (induction ks arbitrary: f) (simp_all add: add_invar)

lemma foldl_add_keeps: "invar f \<Longrightarrow> contains f k \<Longrightarrow> contains (foldl add f ks) k"
  by (induction ks arbitrary: f) (simp_all add: add_invar add_keeps)

lemma no_false_negative: "invar f \<Longrightarrow> k \<in> set ks \<Longrightarrow> contains (foldl add f ks) k"
  by (induction ks arbitrary: f) (auto simp: add_invar add_contains foldl_add_keeps)

end

section \<open>Bits of the word vector\<close>

definition bloom_inv :: "bloom_filter \<Rightarrow> bool" where
  "bloom_inv f \<longleftrightarrow> bf_words f \<noteq> [] \<and> length (bf_words f) * 64 = unat (bf_bit_count f)"

lemma filter_bit_iff: "filter_bit words b \<longleftrightarrow> bit (words ! (unat b div 64)) (unat b mod 64)"
proof -
  have 1: "w AND push_bit n 1 \<noteq> 0 \<longleftrightarrow> bit w n" if "n < 64" for w :: u64 and n
  proof
    assume "bit w n"
    with that have "bit (w AND push_bit n 1) n" by (simp add: bit_and_iff bit_exp_iff)
    then show "w AND push_bit n 1 \<noteq> 0" by (metis bit_0_eq bot_apply bot_bool_def)
  next
    assume "w AND push_bit n 1 \<noteq> 0"
    then obtain m where "bit (w AND push_bit n 1) m" using bit_eq_iff [of "w AND push_bit n 1" 0] by auto
    then show "bit w n" by (auto simp: bit_and_iff bit_exp_iff)
  qed
  show ?thesis
    unfolding filter_bit_def kBitsPerWord_def by (subst 1) (simp_all add: unat_div unat_mod)
qed

lemma length_set_filter_bit [simp]: "length (set_filter_bit words b) = length words"
  by (simp add: set_filter_bit_def Let_def)

lemma filter_bit_set:
  assumes "unat b div 64 < length words"
  shows "filter_bit (set_filter_bit words b) c \<longleftrightarrow> c = b \<or> filter_bit words c"
proof (cases "unat c div 64 = unat b div 64")
  case True
  have "unat c mod 64 = unat b mod 64 \<longleftrightarrow> c = b"
    using True by (metis div_mult_mod_eq word_unat_eq_iff)
  moreover have "unat c mod 64 < 64" by simp
  ultimately show ?thesis
    using assms True
    by (auto simp: filter_bit_iff set_filter_bit_def Let_def kBitsPerWord_def unat_div unat_mod
        bit_or_iff bit_exp_iff)
next
  case False
  then show ?thesis
    by (auto simp: filter_bit_iff set_filter_bit_def Let_def kBitsPerWord_def unat_div)
qed

lemma foldl_set_filter_bit:
  assumes "\<forall>b\<in>set bs. unat b div 64 < length words"
  shows "length (foldl set_filter_bit words bs) = length words"
    and "filter_bit (foldl set_filter_bit words bs) c \<longleftrightarrow> c \<in> set bs \<or> filter_bit words c"
  using assms by (induction bs arbitrary: words) (auto simp: filter_bit_set)

lemma bloom_positions_bound:
  assumes "bloom_inv f" and "b \<in> set (bloom_positions f key)"
  shows "unat b div 64 < length (bf_words f)"
proof -
  from assms(1) have "bf_words f \<noteq> []" and bits: "length (bf_words f) * 64 = unat (bf_bit_count f)"
    by (simp_all add: bloom_inv_def)
  then have pos: "0 < unat (bf_bit_count f)" unfolding bits [symmetric] by simp
  from assms(2) obtain x where "b = x mod bf_bit_count f"
    by (auto simp: bloom_positions_def bit_index_def)
  then have "unat b < length (bf_words f) * 64"
    using assms(1) pos by (simp add: unat_mod bloom_inv_def)
  then show ?thesis by (simp add: div_less_iff_less_mult)
qed

lemma bloom_positions_add [simp]: "bloom_positions (bloom_add f k) = bloom_positions f"
  by (simp add: fun_eq_iff bloom_positions_def bloom_add_def bit_index_def)

lemma filter_bit_bloom_add:
  "bloom_inv f \<Longrightarrow> filter_bit (bf_words (bloom_add f k)) c \<longleftrightarrow>
    c \<in> set (bloom_positions f k) \<or> filter_bit (bf_words f) c"
  by (simp add: bloom_add_def foldl_set_filter_bit bloom_positions_bound)

interpretation bloom: membership_filter bloom_add may_contain bloom_inv
proof
  show "bloom_inv f \<Longrightarrow> bloom_inv (bloom_add f k)" for f k
    using foldl_set_filter_bit(1) [of "bloom_positions f k" "bf_words f"] bloom_positions_bound [of f _ k]
    by (auto simp: bloom_inv_def bloom_add_def)
qed (auto simp: may_contain_def filter_bit_bloom_add list_all_iff)


section \<open>Construction\<close>

lemma bloom_filter_newD:
  assumes "bloom_filter_new n rate = Inr f" and "bf_bit_count f \<noteq> 0"
  shows "bloom_inv f" and "bf_words f = replicate (length (bf_words f)) 0" and "bf_inserted_keys f = 0"
proof -
  from assms(1) obtain bc where f: "bf_words f = replicate (unat ((bc + kBitsPerWord - 1) div kBitsPerWord)) 0"
    "bf_bit_count f = (bc + kBitsPerWord - 1) div kBitsPerWord * kBitsPerWord" "bf_inserted_keys f = 0"
    by (auto simp: bloom_filter_new_def result_simps Let_def split: option.splits if_splits)
  define wc :: u64 where "wc = (bc + kBitsPerWord - 1) div kBitsPerWord"
  have "unat wc * 64 < 2 ^ 64"
  proof -
    define x where "x = bc + kBitsPerWord - 1"
    have "unat wc = unat x div 64" by (simp add: wc_def x_def kBitsPerWord_def unat_div)
    moreover have "unat x < 2 ^ 64" using unsigned_less [of x, where 'a = nat] by simp
    ultimately show ?thesis by (auto intro: le_less_trans [OF div_times_less_eq_dividend])
  qed
  then have "unat (wc * 64) = unat wc * 64" using unat_mult_lem [of wc 64] by simp
  moreover have "wc \<noteq> 0" using assms(2) f(2) by (auto simp: wc_def)
  then have "0 < unat wc" by (simp add: unat_gt_0)
  ultimately show "bloom_inv f"
    using f(1,2) by (simp add: bloom_inv_def wc_def [symmetric]) (simp add: kBitsPerWord_def)
  show "bf_words f = replicate (length (bf_words f)) 0" "bf_inserted_keys f = 0"
    using f by simp_all
qed

text \<open>C23. No false negatives: a filter built by the constructor and filled with any keys answers
  \<open>may_contain\<close> with true for each of them, in whatever order they came and however the two hash
  functions spread them.\<close>

theorem bloom_no_false_negative:
  assumes "bloom_filter_new expected_entries rate = Inr f" and "bf_bit_count f \<noteq> 0" and "key \<in> set ks"
  shows "may_contain (foldl bloom_add f ks) key"
  using bloom.no_false_negative [OF bloom_filter_newD(1) [OF assms(1,2)] assms(3)] .

theorem bloom_no_false_negative_witness:
  "\<exists>f. bloom_filter_new 1 (Some (exp (- 1))) = Inr f \<and> bf_bit_count f = 64 \<and>
    may_contain (foldl bloom_add f [str ''alpha'', str ''beta'', str ''gamma'']) (str ''beta'')"
proof -
  have "\<lceil>1 / (kNaturalLogOfTwo * kNaturalLogOfTwo)\<rceil> = 3"
    by (rule ceiling_unique) (simp_all add: kNaturalLogOfTwo_def)
  then have "checked_bit_count 1 (exp (- 1)) = Inr 64"
    unfolding checked_bit_count_def Let_def by (simp add: kBitsPerWord_def kNaturalLogOfTwo_def)
  then obtain f where f: "bloom_filter_new 1 (Some (exp (- 1))) = Inr f" "bf_bit_count f = 64"
    by (simp add: bloom_filter_new_def not_le kBitsPerWord_def)
  with bloom_no_false_negative [OF f(1), of "str ''beta''" "[str ''alpha'', str ''beta'', str ''gamma'']"]
  show ?thesis by simp
qed

end
