(* ===== verification/SSTableReader.thy ===== *)
theory SSTableReader
  imports SSTableWriter BloomFilter
begin

text \<open>
  \<open>SSTableReader\<close> (\<open>src/sstable_reader.cpp\<close>).  A reader holds the contents behind its descriptor,
  which outlive the file name, and the parsed footer and index.  Readers share the block cache, and
  the two counters of each reader are mutable behind its pointer, so cache and counters live in the
  state all storage operations pass along.
\<close>

section \<open>State\<close>

record storage = world +
  st_abi :: block_abi
  st_cache :: block_cache
  st_lookup_statistics :: "bytes \<Rightarrow> u64 \<times> u64"

record sstable_reader =
  rd_path :: bytes
  rd_cache_table_id :: bytes
  rd_data :: bytes
  rd_uses_cache :: bool
  rd_bloom_filter :: "bloom_filter option"
  rd_metadata :: sstable_metadata
  rd_index :: "index_entry list"
  rd_footer :: sst_footer

section \<open>Positioned reads\<close>

definition kMaxOffset :: u64 where
  "kMaxOffset = 0x7FFFFFFFFFFFFFFF"

fun pread_loop :: "io_event list \<Rightarrow> bytes \<Rightarrow> u64 \<Rightarrow> nat \<Rightarrow> bytes result \<times> io_event list" where
  "pread_loop [] data pos n =
     (if n = 0 then (Inr [], [])
      else if pos > kMaxOffset
      then (Inl (OverflowError ''SSTable read offset exceeds the platform file range''), [])
      else let got = subspan (unat pos) n data; pos' = pos + of_nat (length got) in
        if length got = n then (Inr got, [])
        else if pos' > kMaxOffset
        then (Inl (OverflowError ''SSTable read offset exceeds the platform file range''), [])
        else (Inl (SSTableCorruptionError pos' ''SSTable file is truncated''), []))"
| "pread_loop (ev # evs) data pos n =
     (if n = 0 then (Inr [], ev # evs)
      else if pos > kMaxOffset
      then (Inl (OverflowError ''SSTable read offset exceeds the platform file range''), ev # evs)
      else case ev of
        Interrupted \<Rightarrow> pread_loop evs data pos n
      | Failed \<Rightarrow> (Inl (SystemError ''failed to read SSTable file''), evs)
      | Zero \<Rightarrow> (Inl (SSTableCorruptionError pos ''SSTable file is truncated''), evs)
      | Short k \<Rightarrow>
          let got = subspan (unat pos) (min (Suc k) n) data in
          if got = [] then (Inl (SSTableCorruptionError pos ''SSTable file is truncated''), evs)
          else case pread_loop evs data (pos + of_nat (length got)) (n - length got) of
            (Inl e, evs') \<Rightarrow> (Inl e, evs')
          | (Inr rest, evs') \<Rightarrow> (Inr (got @ rest), evs'))"

definition sst_read_exact :: "bytes \<Rightarrow> u64 \<Rightarrow> nat \<Rightarrow> ('a world_scheme, bytes) effect" where
  "sst_read_exact data off n w =
     (if off > kMaxOffset
      then (Inl (OverflowError ''SSTable offset exceeds the platform file range''), w)
      else let (r, evs) = pread_loop (w_events w) data off n in (r, w\<lparr>w_events := evs\<rparr>))"

section \<open>Opening a table\<close>

definition checked_file_size :: "bytes \<Rightarrow> ('a world_scheme, bytes) effect" where
  "checked_file_size path =
     bind_effect (sys_call (SystemError ''filesystem error: cannot get file size'')) (\<lambda>_ w.
       case fs_files (w_fs w) path of
         None \<Rightarrow> (Inl (SystemError ''filesystem error: cannot get file size''), w)
       | Some f \<Rightarrow> (Inr (df_contents f), w))"

fun check_index_ranges :: "u64 \<Rightarrow> u64 \<Rightarrow> index_entry list \<Rightarrow> u64 result" where
  "check_index_ranges index_offset previous_end [] = Inr previous_end"
| "check_index_ranges index_offset previous_end (e # es) =
     (if ie_block_offset e < of_nat kSstHeaderSize \<or> ie_block_offset e < previous_end \<or>
         ie_block_offset e > index_offset \<or> ie_block_size e > index_offset - ie_block_offset e
      then Inl (SSTableCorruptionError index_offset ''SSTable index references an invalid data block'')
      else check_index_ranges index_offset (ie_block_offset e + ie_block_size e) es)"

definition sstable_reader_new ::
    "bytes \<Rightarrow> bool \<Rightarrow> bloom_filter option \<Rightarrow> ('a storage_scheme, sstable_reader) effect" where
  "sstable_reader_new path uses_cache bloom =
     bind_effect (lift_result (throw_if (path = []) (InvalidArgument ''SSTable path must not be empty''))) (\<lambda>_.
     bind_effect (checked_file_size path) (\<lambda>data.
     let size = of_nat (length data) in
     bind_effect (lift_result (throw_if (size < of_nat (kSstHeaderSize + kFooterSize))
       (SSTableCorruptionError 0 ''SSTable file is too small''))) (\<lambda>_.
     bind_effect (sys_call (SystemError ''failed to open SSTable file'')) (\<lambda>_.
     bind_effect (sst_read_exact data 0 kSstHeaderSize) (\<lambda>header_bytes.
     bind_effect (lift_result (parse_header header_bytes 0)) (\<lambda>header.
     let footer_offset = size - of_nat kFooterSize in
     bind_effect (sst_read_exact data footer_offset kFooterSize) (\<lambda>footer_bytes.
     bind_effect (lift_result (parse_footer footer_bytes footer_offset)) (\<lambda>footer.
     bind_effect (lift_result (throw_if (ft_index_offset footer < of_nat kSstHeaderSize \<or>
         ft_index_offset footer > footer_offset \<or> ft_index_size footer > footer_offset - ft_index_offset footer)
       (SSTableCorruptionError footer_offset ''SSTable footer references an invalid index range''))) (\<lambda>_.
     bind_effect (lift_result (throw_if (hd_entry_count header \<noteq> ft_entry_count footer \<or>
         hd_block_count header \<noteq> ft_block_count footer \<or>
         hd_min_sequence_number header \<noteq> ft_min_sequence_number footer \<or>
         hd_max_sequence_number header \<noteq> ft_max_sequence_number footer)
       (SSTableCorruptionError footer_offset ''SSTable header and footer metadata disagree''))) (\<lambda>_.
     bind_effect (sst_read_exact data (ft_index_offset footer) (unat (ft_index_size footer))) (\<lambda>index_bytes.
     bind_effect (lift_result (parse_index_block index_bytes (ft_index_offset footer))) (\<lambda>index.
     bind_effect (lift_result (throw_if (of_nat (length index) \<noteq> (ucast (ft_block_count footer) :: u64))
       (SSTableCorruptionError (ft_index_offset footer) ''SSTable block count does not match the index''))) (\<lambda>_.
     bind_effect (lift_result (check_index_ranges (ft_index_offset footer) (of_nat kSstHeaderSize) index)) (\<lambda>previous_end.
     bind_effect (lift_result (throw_if (previous_end \<noteq> ft_index_offset footer)
       (SSTableCorruptionError (ft_index_offset footer) ''SSTable data blocks do not end at the index''))) (\<lambda>_ w.
     (Inr \<lparr>rd_path = path, rd_cache_table_id = lexically_normal path, rd_data = data,
           rd_uses_cache = uses_cache, rd_bloom_filter = bloom,
           rd_metadata =
             \<lparr>md_path = path, md_generation = hd_generation header, md_entry_count = hd_entry_count header,
              md_block_count = hd_block_count header, md_min_sequence_number = hd_min_sequence_number header,
              md_max_sequence_number = hd_max_sequence_number header,
              md_smallest_key = ie_first_key (hd index), md_largest_key = ie_last_key (last index),
              md_level = Level0\<rparr>,
           rd_index = index, rd_footer = footer\<rparr>,
      w\<lparr>st_lookup_statistics := (st_lookup_statistics w)(lexically_normal path := (0, 0))\<rparr>))))))))))))))))"

section \<open>Reading\<close>

definition read_data_block :: "sstable_reader \<Rightarrow> index_entry \<Rightarrow> ('a storage_scheme, data_block) effect" where
  "read_data_block r ie s =
     (let key = (rd_cache_table_id r, ie_block_offset ie);
          (cached, s) = (if rd_uses_cache r
            then let (found, c) = block_cache_get (st_cache s) key in (found, s\<lparr>st_cache := c\<rparr>)
            else (None, s))
      in case cached of
        Some block \<Rightarrow> (Inr block, s)
      | None \<Rightarrow>
          bind_effect (sst_read_exact (rd_data r) (ie_block_offset ie) (unat (ie_block_size ie))) (\<lambda>bs.
          bind_effect (lift_result (parse_data_block bs (ie_block_offset ie))) (\<lambda>block.
          bind_effect (lift_result (throw_if (first_key block \<noteq> ie_first_key ie \<or> last_key block \<noteq> ie_last_key ie)
            (SSTableCorruptionError (ie_block_offset ie) ''SSTable data block does not match its index range''))) (\<lambda>_ s.
          if rd_uses_cache r
          then case block_cache_put (st_abi s) (st_cache s) key (Some block) of
              Inl e \<Rightarrow> (Inl e, s)
            | Inr c \<Rightarrow> (Inr block, s\<lparr>st_cache := c\<rparr>)
          else (Inr block, s)))) s)"

text \<open>\<open>std::lower_bound\<close> on a range partitioned by the predicate: the range from the first element
  that does not satisfy it.\<close>

definition lower_bound :: "('a \<Rightarrow> bool) \<Rightarrow> 'a list \<Rightarrow> 'a list" where
  "lower_bound below xs = dropWhile below xs"

definition find_record :: "bytes \<Rightarrow> data_block \<Rightarrow> entry option" where
  "find_record key block =
     (case lower_bound (\<lambda>rec. fst rec < key) (db_records block) of
        [] \<Rightarrow> None
      | rec # _ \<Rightarrow> if fst rec \<noteq> key then None else Some (snd rec))"

definition bloom_check :: "sstable_reader \<Rightarrow> bytes \<Rightarrow> 'a storage_scheme \<Rightarrow> bool \<times> 'a storage_scheme" where
  "bloom_check r key s =
     (case rd_bloom_filter r of
        None \<Rightarrow> (True, s)
      | Some f \<Rightarrow>
          let (checks, negatives) = st_lookup_statistics s (rd_cache_table_id r);
              found = may_contain f key
          in (found, s\<lparr>st_lookup_statistics := (st_lookup_statistics s)
               (rd_cache_table_id r := (checks + 1, if found then negatives else negatives + 1))\<rparr>))"

definition sstable_get :: "sstable_reader \<Rightarrow> bytes \<Rightarrow> ('a storage_scheme, entry option) effect" where
  "sstable_get r key =
     bind_effect (lift_result (validate_key key)) (\<lambda>_ s.
     if key < md_smallest_key (rd_metadata r) \<or> key > md_largest_key (rd_metadata r) then (Inr None, s)
     else case lower_bound (\<lambda>e. ie_last_key e < key) (rd_index r) of
       [] \<Rightarrow> (Inr None, s)
     | candidate # _ \<Rightarrow>
         if key < ie_first_key candidate then (Inr None, s)
         else let (found, s) = bloom_check r key s in
           if \<not> found then (Inr None, s)
           else bind_effect (read_data_block r candidate) (\<lambda>block. lift_result (Inr (find_record key block))) s)"

fun read_blocks :: "sstable_reader \<Rightarrow> index_entry list \<Rightarrow> ('a storage_scheme, snapshot) effect" where
  "read_blocks r [] s = (Inr [], s)"
| "read_blocks r (ie # ies) s =
     bind_effect (read_data_block r ie) (\<lambda>block.
     bind_effect (read_blocks r ies) (\<lambda>rest. lift_result (Inr (db_records block @ rest)))) s"

definition sstable_read_all :: "sstable_reader \<Rightarrow> ('a storage_scheme, snapshot) effect" where
  "sstable_read_all r =
     bind_effect (read_blocks r (rd_index r)) (\<lambda>result.
     bind_effect (lift_result (throw_if (of_nat (length result) \<noteq> md_entry_count (rd_metadata r))
       (SSTableCorruptionError 0 ''SSTable entry count does not match its metadata''))) (\<lambda>_.
     lift_result (Inr result)))"

definition reset_lookup_statistics :: "sstable_reader \<Rightarrow> 'a storage_scheme \<Rightarrow> 'a storage_scheme" where
  "reset_lookup_statistics r s = s\<lparr>st_lookup_statistics := (st_lookup_statistics s)(rd_cache_table_id r := (0, 0))\<rparr>"

end
