(* ===== verification/SSTableLayout.thy ===== *)
theory SSTableLayout
  imports SSTableWriter
begin

text \<open>
  What the writer's file image contains: every index entry locates the encoding of its block, the
  blocks follow each other up to the index, and for valid sorted entries every encoder succeeds.
\<close>

section \<open>Blocks behind the index\<close>

definition block_at :: "bytes \<Rightarrow> index_entry \<Rightarrow> data_block \<Rightarrow> bool" where
  "block_at data ie b \<longleftrightarrow> (\<exists>encoded. serialize_data_block b = Inr encoded \<and>
     subspan (unat (ie_block_offset ie)) (length encoded) data = encoded \<and>
     unat (ie_block_offset ie) + length encoded \<le> length data \<and>
     unat (ie_block_size ie) = length encoded \<and> ie_first_key ie = first_key b \<and> ie_last_key ie = last_key b)"

lemma unat_of_nat_u64: "n < 2 ^ 64 \<Longrightarrow> unat (of_nat n :: u64) = n"
  by (simp add: unat_of_nat take_bit_nat_eq_self)

lemma layout_blocks_ConsD:
  assumes "layout_blocks off (b # bs) = Inr (body, index)"
  obtains encoded body' index' where "serialize_data_block b = Inr encoded"
    and "layout_blocks (off + length encoded) bs = Inr (body', index')" and "body = encoded @ body'"
    and "index = \<lparr>ie_first_key = first_key b, ie_last_key = last_key b, ie_block_offset = of_nat off,
        ie_block_size = of_nat (length encoded)\<rparr> # index'"
proof -
  from assms obtain encoded where enc: "serialize_data_block b = Inr encoded"
    by (cases "serialize_data_block b") simp_all
  with assms obtain p where rest: "layout_blocks (off + length encoded) bs = Inr p"
    by (cases "layout_blocks (off + length encoded) bs") simp_all
  obtain body' index' where p: "p = (body', index')" by fastforce
  from assms enc rest p show ?thesis by (intro that [OF enc rest [unfolded p]]) simp_all
qed

lemma layout_blocks_block_at:
  assumes "layout_blocks (length pre) bs = Inr (body, index)" and "length (pre @ body @ post) < 2 ^ 64"
  shows "list_all2 (block_at (pre @ body @ post)) index bs"
  using assms
proof (induction bs arbitrary: pre body index)
  case (Cons b bs)
  from layout_blocks_ConsD [OF Cons.prems(1)] obtain encoded body' index' where
    enc: "serialize_data_block b = Inr encoded"
    and rest: "layout_blocks (length (pre @ encoded)) bs = Inr (body', index')" and body: "body = encoded @ body'"
    and index: "index = \<lparr>ie_first_key = first_key b, ie_last_key = last_key b, ie_block_offset = of_nat (length pre),
        ie_block_size = of_nat (length encoded)\<rparr> # index'"
    by auto
  have "list_all2 (block_at ((pre @ encoded) @ body' @ post)) index' bs"
    by (rule Cons.IH [OF rest]) (use Cons.prems(2) body in simp)
  moreover have "unat (of_nat (length pre) :: u64) = length pre" "unat (of_nat (length encoded) :: u64) = length encoded"
    using Cons.prems(2) body by (simp_all add: unat_of_nat_u64)
  moreover from this have "block_at (pre @ body @ post) (hd index) b"
    using enc body index by (simp add: block_at_def)
  ultimately show ?case using body index by simp
qed simp

lemma layout_blocks_length:
  assumes "layout_blocks off bs = Inr (body, index)"
  shows "length index = length bs"
  using assms
proof (induction bs arbitrary: off body index)
  case (Cons b bs)
  show ?case
  proof (rule layout_blocks_ConsD [OF Cons.prems])
    fix encoded body' index'
    assume rest: "layout_blocks (off + length encoded) bs = Inr (body', index')"
      and index: "index = \<lparr>ie_first_key = first_key b, ie_last_key = last_key b, ie_block_offset = of_nat off,
        ie_block_size = of_nat (length encoded)\<rparr> # index'"
    from Cons.IH [OF rest] index show ?thesis by simp
  qed
qed simp

lemma serialize_data_block_length:
  assumes "serialize_data_block b = Inr encoded"
  shows "16 < length encoded"
proof -
  obtain out where out: "serialize_records [] (db_records b) = Inr out" and ne: "db_records b \<noteq> []"
    and "encoded = (kDataBlockMagic @ le_bytes 4 (of_nat (length (db_records b)) :: u32) @ out) @
      le_bytes 4 (crc32 (kDataBlockMagic @ le_bytes 4 (of_nat (length (db_records b)) :: u32) @ out))"
    using serialize_data_blockD [OF assms] by metis
  then have bs: "length encoded = 16 + length out" by (simp only: length_append length_magic length_le_bytes)
  from ne obtain r rs where "db_records b = r # rs" by (cases "db_records b") auto
  with out have "\<exists>rest. out = record_bytes r @ rest" by (auto simp: serialize_records_Cons)
  then have "20 \<le> length out" by (auto simp: length_record_bytes encoded_record_size_def kRecordFixedSize_def)
  with bs show ?thesis by linarith
qed

section \<open>Encoders on valid entries\<close>

definition valid_snapshot :: "snapshot \<Rightarrow> bool" where
  "valid_snapshot rs \<longleftrightarrow> sorted_map rs \<and> (\<forall>r\<in>set rs. valid_entry r)"

lemma valid_snapshot_append:
  "valid_snapshot (xs @ ys) \<longleftrightarrow> valid_snapshot xs \<and> valid_snapshot ys \<and> (\<forall>x\<in>set xs. \<forall>y\<in>set ys. fst x < fst y)"
  by (auto simp: valid_snapshot_def sorted_map_append)

lemma serialize_records_valid:
  assumes "valid_snapshot rs" and "prev = [] \<or> (\<forall>r\<in>set rs. prev < fst r)"
  obtains out where "serialize_records prev rs = Inr out" and "length out = sum_list (map encoded_record_size rs)"
proof -
  from assms have "\<exists>out. serialize_records prev rs = Inr out \<and> length out = sum_list (map encoded_record_size rs)"
  proof (induction rs arbitrary: prev)
    case (Cons r rs)
    from Cons.prems have "valid_snapshot rs" "\<forall>x\<in>set rs. fst r < fst x" "valid_entry r" "prev = [] \<or> prev < fst r"
      by (auto simp: valid_snapshot_def sorted_map_Cons)
    moreover from this Cons.IH [of "fst r"] obtain out where
      "serialize_records (fst r) rs = Inr out" "length out = sum_list (map encoded_record_size rs)" by blast
    ultimately have "serialize_records prev (r # rs) = Inr (record_bytes r @ out)"
      by (simp add: serialize_records_Cons del: serialize_records.simps)
    then show ?case using \<open>length out = _\<close> length_record_bytes [of r] by simp
  qed simp
  then show ?thesis using that by blast
qed

lemma encoded_record_size_bound: "valid_entry r \<Longrightarrow> encoded_record_size r \<le> 2 ^ 21"
  by (auto simp: encoded_record_size_def kRecordFixedSize_def valid_entry_def kMaxKeySize_def kMaxValueSize_def)

lemma serialize_data_block_valid:
  assumes "valid_snapshot (db_records b)" and "db_records b \<noteq> []" and "length (db_records b) < 2 ^ 32"
  obtains encoded where "serialize_data_block b = Inr encoded"
    and "length encoded = 16 + sum_list (map encoded_record_size (db_records b))"
proof -
  from serialize_records_valid [OF assms(1), of "[]"] obtain out where
    out: "serialize_records [] (db_records b) = Inr out"
    "length out = sum_list (map encoded_record_size (db_records b))" by auto
  define body where "body = kDataBlockMagic @ le_bytes 4 (of_nat (length (db_records b)) :: u32) @ out"
  have "serialize_data_block b = Inr (body @ le_bytes 4 (crc32 body))"
    using assms(2,3) out(1) by (simp add: serialize_data_block_def unat_minus_one_u32 Let_def sst_append body_def)
  moreover have "length (body @ le_bytes 4 (crc32 body)) = 16 + sum_list (map encoded_record_size (db_records b))"
    using out(2) by (simp only: body_def length_append length_magic length_le_bytes)
  ultimately show ?thesis by (rule that)
qed

lemma sum_list_bound: "(\<And>x. x \<in> set xs \<Longrightarrow> f x \<le> (c::nat)) \<Longrightarrow> sum_list (map f xs) \<le> length xs * c"
  by (induction xs) (simp_all add: add_mono)

lemma sorted_hd_last:
  assumes "sorted_map rs" and "rs \<noteq> []"
  shows "fst (hd rs) \<le> fst (last rs)"
  using assms by (cases rs) (auto simp: sorted_map_Cons intro: less_imp_le)

lemma first_key_in: "db_records b \<noteq> [] \<Longrightarrow> first_key b \<in> fst ` set (db_records b)"
  by (simp add: first_key_def)

lemma last_key_in: "db_records b \<noteq> [] \<Longrightarrow> last_key b \<in> fst ` set (db_records b)"
  by (simp add: last_key_def)

text \<open>For blocks that together hold a valid snapshot the layout exists, its index is accepted by the
  index encoder, and every index entry is valid.\<close>

definition all_records :: "data_block list \<Rightarrow> snapshot" where
  "all_records bs = concat (map db_records bs)"

lemma all_records_simps [simp]: "all_records [] = []" "all_records (b # bs) = db_records b @ all_records bs"
  by (simp_all add: all_records_def)

lemma layout_blocks_valid:
  assumes "valid_snapshot (all_records bs)" and "\<forall>b\<in>set bs. db_records b \<noteq> [] \<and> length (db_records b) < 2 ^ 32"
    and "prev = [] \<or> (\<forall>r\<in>set (all_records bs). prev < fst r)"
  shows "\<exists>body index out. layout_blocks off bs = Inr (body, index) \<and>
    serialize_index_entries prev index = Inr out \<and> (\<forall>e\<in>set index. valid_index_entry e) \<and>
    length body = 16 * length bs + sum_list (map encoded_record_size (all_records bs)) \<and>
    length out \<le> 2072 * length bs"
  using assms
proof (induction bs arbitrary: off prev)
  case (Cons b bs)
  from Cons.prems have b: "valid_snapshot (db_records b)" "db_records b \<noteq> []" "length (db_records b) < 2 ^ 32"
    and rest: "valid_snapshot (all_records bs)" "\<forall>b\<in>set bs. db_records b \<noteq> [] \<and> length (db_records b) < 2 ^ 32"
    and sep: "\<forall>x\<in>set (db_records b). \<forall>y\<in>set (all_records bs). fst x < fst y"
    by (auto simp: valid_snapshot_append)
  from serialize_data_block_valid [OF b] obtain encoded where enc: "serialize_data_block b = Inr encoded"
    and len: "length encoded = 16 + sum_list (map encoded_record_size (db_records b))" .
  have "\<forall>r\<in>set (all_records bs). last_key b < fst r" using last_key_in [OF b(2)] sep by (metis imageE)
  with Cons.IH [OF rest, of "last_key b" "off + length encoded"] obtain body index out where
    IH: "layout_blocks (off + length encoded) bs = Inr (body, index)"
      "serialize_index_entries (last_key b) index = Inr out" "\<forall>e\<in>set index. valid_index_entry e"
      "length body = 16 * length bs + sum_list (map encoded_record_size (all_records bs))"
      "length out \<le> 2072 * length bs" by blast
  define e where "e = \<lparr>ie_first_key = first_key b, ie_last_key = last_key b, ie_block_offset = of_nat off,
    ie_block_size = (of_nat (length encoded) :: u64)\<rparr>"
  have "sum_list (map encoded_record_size (db_records b)) \<le> length (db_records b) * 2 ^ 21"
    using b(1) by (intro sum_list_bound encoded_record_size_bound) (simp add: valid_snapshot_def)
  also have "\<dots> \<le> 2 ^ 32 * 2 ^ 21" using b(3) by (intro mult_right_mono) simp_all
  finally have "length encoded < 2 ^ 64" using len by simp
  then have size: "ie_block_size e \<noteq> 0"
    using len unat_of_nat_u64 [of "length encoded"] by (auto simp: e_def)
  have keys: "valid_key (first_key b)" "valid_key (last_key b)"
    using first_key_in [OF b(2)] last_key_in [OF b(2)] b(1) by (auto simp: valid_snapshot_def valid_entry_def)
  have le: "first_key b \<le> last_key b"
    using sorted_hd_last [OF _ b(2)] b(1) by (simp add: first_key_def last_key_def valid_snapshot_def)
  obtain r where "r \<in> set (db_records b)" and r: "first_key b = fst r" using first_key_in [OF b(2)] by blast
  then have "r \<in> set (all_records (b # bs))" by simp
  with Cons.prems(3) r have prev: "prev = [] \<or> prev < first_key b" by metis
  have "layout_blocks off (b # bs) = Inr (encoded @ body, e # index)" using enc IH(1) by (simp add: e_def)
  moreover have "serialize_index_entries prev (e # index) = Inr (index_bytes e @ out)"
    using IH(2) size keys le prev by (simp add: serialize_index_entries_Cons e_def del: serialize_index_entries.simps)
  moreover have "\<forall>e'\<in>set (e # index). valid_index_entry e'"
    using IH(3) size keys le by (simp add: valid_index_entry_def) (simp add: e_def)
  moreover have "length (index_bytes e @ out) \<le> 2072 * length (b # bs)"
    using IH(5) keys by (simp add: length_index_bytes e_def kMaxKeySize_def)
  moreover have "length (encoded @ body) = 16 * length (b # bs) + sum_list (map encoded_record_size (all_records (b # bs)))"
    using IH(4) len by simp
  ultimately show ?case by blast
qed simp

lemma serialize_index_block_valid:
  assumes "serialize_index_entries [] index = Inr out" and "index \<noteq> []" and "length index < 2 ^ 32"
  obtains encoded where "serialize_index_block index = Inr encoded" and "length encoded = 16 + length out"
proof -
  define body where "body = kIndexMagic @ le_bytes 4 (of_nat (length index) :: u32) @ out"
  have "serialize_index_block index = Inr (body @ le_bytes 4 (crc32 body))"
    using assms by (simp add: serialize_index_block_def unat_minus_one_u32 Let_def sst_append body_def)
  moreover have "length (body @ le_bytes 4 (crc32 body)) = 16 + length out"
    by (simp only: body_def length_append length_magic length_le_bytes)
  ultimately show ?thesis by (rule that)
qed

section \<open>The scan of the entries\<close>

lemma scan_entries_bounds:
  assumes "scan_entries prev mn mx rs = Inr (mn', mx')"
  shows "mn' \<le> mn \<and> mx \<le> mx' \<and> (\<forall>r\<in>set rs. mn' \<le> entry_sequence_number (snd r) \<and> entry_sequence_number (snd r) \<le> mx') \<and>
    (mn' = mn \<or> mn' \<in> (\<lambda>r. entry_sequence_number (snd r)) ` set rs) \<and>
    (mx' = mx \<or> mx' \<in> (\<lambda>r. entry_sequence_number (snd r)) ` set rs)"
  using assms
proof (induction prev mn mx rs rule: scan_entries.induct)
  case (2 prev mn mx key e rest)
  let ?s = "entry_sequence_number e"
  from "2.prems" have ok: "\<not> (prev \<noteq> [] \<and> key \<le> prev)" "?s \<noteq> 0"
    and scan: "scan_entries key (min mn ?s) (max mx ?s) rest = Inr (mn', mx')" by (simp_all split: if_splits)
  note IH = "2.IH" [OF ok scan]
  from IH have "mn' \<le> min mn ?s" "max mx ?s \<le> mx'" by simp_all
  then have b: "mn' \<le> mn" "mn' \<le> ?s" "mx \<le> mx'" "?s \<le> mx'" by simp_all
  have "mn' = min mn ?s \<or> mn' \<in> (\<lambda>r. entry_sequence_number (snd r)) ` set rest" using IH by blast
  then have mn: "mn' = mn \<or> mn' \<in> (\<lambda>r. entry_sequence_number (snd r)) ` set ((key, e) # rest)"
    by (auto simp: min_def split: if_splits)
  have "mx' = max mx ?s \<or> mx' \<in> (\<lambda>r. entry_sequence_number (snd r)) ` set rest" using IH by blast
  then have mx: "mx' = mx \<or> mx' \<in> (\<lambda>r. entry_sequence_number (snd r)) ` set ((key, e) # rest)"
    by (auto simp: max_def split: if_splits)
  show ?case using b mn mx IH by (simp only: set_simps ball_simps snd_conv) blast
qed simp

lemma scan_entries_valid:
  assumes "valid_snapshot rs" and "prev = [] \<or> (\<forall>r\<in>set rs. prev < fst r)"
  shows "\<exists>p. scan_entries prev mn mx rs = Inr p"
  using assms
proof (induction prev mn mx rs rule: scan_entries.induct)
  case (2 prev mn mx key e rest)
  from "2.prems" have "valid_snapshot rest" "key = [] \<or> (\<forall>r\<in>set rest. key < fst r)"
    and ok: "\<not> (prev \<noteq> [] \<and> key \<le> prev)" "entry_sequence_number e \<noteq> 0"
    by (auto simp: valid_snapshot_def sorted_map_Cons valid_entry_def)
  with "2.IH" [OF ok] ok show ?case by auto
qed simp

lemma scan_entries_sequences:
  assumes "scan_entries [] (- 1) 0 rs = Inr (mn, mx)" and "rs \<noteq> []" and "\<forall>r\<in>set rs. valid_entry r"
  shows "mn \<noteq> 0" and "mn \<le> mx" and "mx \<in> (\<lambda>r. entry_sequence_number (snd r)) ` set rs"
    and "\<forall>r\<in>set rs. mn \<le> entry_sequence_number (snd r) \<and> entry_sequence_number (snd r) \<le> mx"
proof -
  note b = scan_entries_bounds [OF assms(1)]
  from assms(2) obtain r where r: "r \<in> set rs" by (cases rs) auto
  with b have mid: "mn \<le> entry_sequence_number (snd r)" "entry_sequence_number (snd r) \<le> mx" by blast+
  then show "mn \<le> mx" by simp
  have nz: "entry_sequence_number (snd r) \<noteq> 0" if "r \<in> set rs" for r
    using assms(3) that by (simp add: valid_entry_def)
  have "mn = - 1 \<or> mn \<in> (\<lambda>r. entry_sequence_number (snd r)) ` set rs" using b by blast
  then show "mn \<noteq> 0" using nz by auto
  have "mx \<noteq> 0" using mid(2) nz [OF r] by auto
  then show "mx \<in> (\<lambda>r. entry_sequence_number (snd r)) ` set rs" using b by blast
  show "\<forall>r\<in>set rs. mn \<le> entry_sequence_number (snd r) \<and> entry_sequence_number (snd r) \<le> mx" using b by blast
qed

end
