(* ===== verification/SSTable.thy ===== *)
theory SSTable
  imports SSTableReader SSTableLayout
begin

text \<open>
  Writer and reader together: what the writer has written, a reader opens, and its lookups and scans
  return exactly the entries that were written, whatever the block cache and the Bloom filter hold,
  as long as the cache is coherent with the table and the filter knows its keys.
\<close>

section \<open>The writer succeeds on valid entries\<close>

lemma sst_write_all_reliable [reliable_simps]:
  "w_events w = [] \<Longrightarrow> sst_write_all p bs w = (Inr (), w\<lparr>w_fs := world_update p (file_append bs) (w_fs w)\<rparr>)"
  by (simp add: sst_write_all_def reliable_simps)

lemma write_blocks_reliable:
  assumes "layout_blocks off bs = Inr (body, index)" and "w_events w = []"
  shows "\<exists>w'. write_blocks tmp (of_nat off) bs w = (Inr (index, of_nat (off + length body)), w') \<and> w_events w' = []"
  using assms
proof (induction bs arbitrary: off body index w)
  case (Cons b bs)
  show ?case
  proof (rule layout_blocks_ConsD [OF Cons.prems(1)])
    fix encoded body' index'
    assume enc: "serialize_data_block b = Inr encoded"
      and rest: "layout_blocks (off + length encoded) bs = Inr (body', index')" and body: "body = encoded @ body'"
      and index: "index = \<lparr>ie_first_key = first_key b, ie_last_key = last_key b, ie_block_offset = of_nat off,
        ie_block_size = of_nat (length encoded)\<rparr> # index'"
    define w1 where "w1 = w\<lparr>w_fs := world_update tmp (file_append encoded) (w_fs w)\<rparr>"
    have s1: "sst_write_all tmp encoded w = (Inr (), w1)" using Cons.prems(2) by (simp add: reliable_simps w1_def)
    have "w_events w1 = []" using Cons.prems(2) by (simp add: w1_def)
    from Cons.IH [OF rest this] obtain w' where
      "write_blocks tmp (of_nat (off + length encoded)) bs w1 = (Inr (index', of_nat (off + length encoded + length body')), w')"
      and "w_events w' = []" by blast
    then show ?thesis using enc s1 body index by (simp add: add.assoc)
  qed
qed simp

lemma write_table_file_reliable:
  assumes "table_image h blocks = Inr bs" and "w_events w = []" and "fs_files (w_fs w) tmp = Some f"
    and "tmp \<noteq> path"
  shows "\<exists>w'. write_table_file tmp path h blocks w = (Inr (), w') \<and> w_events w' = []"
proof -
  from assms(1) obtain body index ei where layout: "layout_blocks kSstHeaderSize blocks = Inr (body, index)"
    and ei: "serialize_index_block index = Inr ei"
    by (auto simp: table_image_def result_simps)
  define ft where "ft = \<lparr>ft_index_offset = of_nat (kSstHeaderSize + length body), ft_index_size = of_nat (length ei),
      ft_entry_count = hd_entry_count h, ft_block_count = hd_block_count h,
      ft_min_sequence_number = hd_min_sequence_number h, ft_max_sequence_number = hd_max_sequence_number h\<rparr>"
  define w1 where "w1 = w\<lparr>w_fs := world_update tmp (file_append (serialize_header h)) (w_fs w)\<rparr>"
  have s1: "sst_write_all tmp (serialize_header h) w = (Inr (), w1)" and e1: "w_events w1 = []"
    using assms(2) by (simp_all add: reliable_simps w1_def)
  from write_blocks_reliable [OF layout e1, of tmp] obtain w2 where
    s2: "write_blocks tmp (of_nat kSstHeaderSize) blocks w1 = (Inr (index, of_nat (kSstHeaderSize + length body)), w2)"
    and e2: "w_events w2 = []" by blast
  define w3 where "w3 = w2\<lparr>w_fs := world_update tmp (file_append ei) (w_fs w2)\<rparr>"
  have s3: "sst_write_all tmp ei w2 = (Inr (), w3)" and e3: "w_events w3 = []"
    using e2 by (simp_all add: reliable_simps w3_def)
  define w4 where "w4 = w3\<lparr>w_fs := world_update tmp (file_append (serialize_footer ft)) (w_fs w3)\<rparr>"
  have s4: "sst_write_all tmp (serialize_footer ft) w3 = (Inr (), w4)" and e4: "w_events w4 = []"
    using e3 by (simp_all add: reliable_simps w4_def)
  have "\<exists>g. fs_files (w_fs w1) tmp = Some g" using assms(3) by (simp add: w1_def world_update_def)
  then have "\<exists>g. fs_files (w_fs w2) tmp = Some g" using write_blocks_Inr [OF s2] by blast
  then have "\<exists>g. fs_files (w_fs w4) tmp = Some g"
    by (auto simp: w4_def w3_def world_update_def split: option.splits)
  then obtain w5 where "world_publish sst_publish_errors tmp path w4 = (Inr (), w5)" and "w_events w5 = []"
    using world_publish_reliable [OF e4] by blast
  then show ?thesis using s1 s2 s3 s4 ei by (simp add: write_table_file_def ft_def [symmetric] del: of_nat_add)
qed

lemma length_split_blocks: "length (split_blocks target current sz rs) \<le> length (current @ rs)"
proof (induction rs arbitrary: current sz)
  case (Cons r rs)
  have "length (split_blocks target [r] (empty_block_size + encoded_record_size r) rs) \<le> Suc (length rs)"
    using Cons.IH [of "[r]"] by simp
  moreover have "length (split_blocks target (current @ [r]) (sz + encoded_record_size r) rs) \<le> Suc (length current + length rs)"
    using Cons.IH [of "current @ [r]"] by simp
  ultimately show ?case by (cases current) (auto simp: Let_def)
qed (simp add: Suc_le_eq)

lemma all_records_table_blocks [simp]: "all_records (table_blocks entries options) = entries"
  by (simp add: all_records_def table_blocks_def split_blocks_concat)

lemma length_records_le: "b \<in> set bs \<Longrightarrow> length (db_records b) \<le> length (all_records bs)"
  by (induction bs) auto

lemma table_blocks_facts:
  assumes "entries \<noteq> []"
  shows "table_blocks entries options \<noteq> []" and "length (table_blocks entries options) \<le> length entries"
    and "b \<in> set (table_blocks entries options) \<Longrightarrow> db_records b \<noteq> [] \<and> length (db_records b) \<le> length entries"
proof -
  show "table_blocks entries options \<noteq> []" using assms by (simp add: table_blocks_def split_blocks_eq_Nil)
  show "length (table_blocks entries options) \<le> length entries"
    using length_split_blocks [of _ "[]"] by (simp add: table_blocks_def)
  assume "b \<in> set (table_blocks entries options)"
  then show "db_records b \<noteq> [] \<and> length (db_records b) \<le> length entries"
    using length_records_le [of b "table_blocks entries options"]
    by (simp only: all_records_table_blocks) (auto simp: table_blocks_def dest: split_blocks_nonempty)
qed

lemma table_image_valid:
  assumes "valid_snapshot entries" and "entries \<noteq> []" and "length entries < 2 ^ 32"
  shows "\<exists>bs. table_image h (table_blocks entries options) = Inr bs \<and>
    length bs \<le> 200 + 2200 * length entries + sum_list (map encoded_record_size entries)"
proof -
  let ?bs = "table_blocks entries options"
  note f = table_blocks_facts [where options = options, OF assms(2)]
  obtain body index out where layout: "layout_blocks kSstHeaderSize ?bs = Inr (body, index)"
    and out: "serialize_index_entries [] index = Inr out" "length out \<le> 2072 * length ?bs"
    and body: "length body = 16 * length ?bs + sum_list (map encoded_record_size entries)"
    using layout_blocks_valid [of ?bs "[]" kSstHeaderSize] assms f(3) by fastforce
  have "index \<noteq> []" "length index < 2 ^ 32"
    using layout_blocks_length [OF layout] f(1,2) assms(3) by auto
  then obtain ei where ei: "serialize_index_block index = Inr ei" "length ei = 16 + length out"
    using serialize_index_block_valid [OF out(1)] by blast
  define bs where "bs = serialize_header h @ body @ ei @
    serialize_footer (table_footer h (kSstHeaderSize + length body) (length ei))"
  have "table_image h ?bs = Inr bs" using layout ei(1) by (simp add: table_image_def bs_def)
  moreover have "length bs = 136 + length body + length out" using ei(2) by (simp add: bs_def)
  moreover have "length body + length out \<le> 2088 * length entries + sum_list (map encoded_record_size entries)"
    using body out(2) f(2) by linarith
  ultimately show ?thesis by fastforce
qed

lemma sstable_write_reliable:
  assumes "valid_snapshot entries" and "entries \<noteq> []" and "length entries < 2 ^ 32" and "w_events w = []"
    and "wo_output_path options \<noteq> []"
    and "wo_target_data_block_bytes options \<noteq> 0" and "wo_target_data_block_bytes options \<le> 4294967295"
  shows "\<exists>md w'. sstable_write entries options w = (Inr md, w') \<and> w_events w' = []"
proof -
  let ?path = "wo_output_path options" and ?blocks = "table_blocks entries options"
  let ?tmp = "temporary_path_for ?path"
  obtain mn mx where scan: "scan_entries [] (- 1) 0 entries = Inr (mn, mx)"
    using scan_entries_valid [OF assms(1), of "[]"] by fastforce
  have target: "narrow_block_size (wo_target_data_block_bytes options) = Inr (ucast (wo_target_data_block_bytes options))"
    using assms(6,7) by (simp add: narrow_block_size_def throw_if_def not_less)
  have n: "\<not> length ?blocks > unat (- 1 :: u32)"
    using table_blocks_facts(2) [where options = options, OF assms(2)] assms(3) by (simp add: unat_minus_one_u32)
  define h where "h = \<lparr>hd_generation = wo_generation options, hd_entry_count = of_nat (length entries),
      hd_block_count = of_nat (length ?blocks), hd_target_data_block_bytes = ucast (wo_target_data_block_bytes options),
      hd_min_sequence_number = mn, hd_max_sequence_number = mx\<rparr>"
  define w1 where "w1 = remove_ignored ?tmp w"
  have e1: "w_events w1 = []" using assms(4) by (simp add: w1_def reliable_simps)
  define w2 where "w2 = w1\<lparr>w_fs := fs_create ?tmp empty_file (w_fs w1)\<rparr>"
  have s2: "world_create (SystemError ''failed to create temporary SSTable'') ?tmp w1 = (Inr (), w2)"
    and e2: "w_events w2 = []" and f2: "fs_files (w_fs w2) ?tmp = Some empty_file"
    using e1 by (simp_all add: reliable_simps w2_def)
  obtain bs where "table_image h ?blocks = Inr bs" using table_image_valid [OF assms(1-3)] by blast
  from write_table_file_reliable [OF this e2 f2 temporary_path_neq(1)] obtain w3 where
    s3: "write_table_file ?tmp ?path h ?blocks w2 = (Inr (), w3)" and e3: "w_events w3 = []" by blast
  have "removing_on_error ?tmp (write_table_file ?tmp ?path h ?blocks) w2 = (Inr (), w3)"
    using s3 by (simp add: removing_on_error_def)
  then show ?thesis
    using assms(2,4,5) scan target n s2 e3
    by (simp add: sstable_write_def throw_if_def table_blocks_def [symmetric] Let_def h_def [symmetric]
        w1_def [symmetric] sys_call_reliable bind_effect_case lift_result_def)
qed

section \<open>Positioned reads\<close>

lemma subspan_split: "c \<le> n \<Longrightarrow> subspan p c xs @ subspan (p + c) (n - c) xs = subspan p n xs"
  by (simp add: subspan_def) (metis add.commute drop_drop le_add_diff_inverse take_add)

lemma unat_kMaxOffset: "unat kMaxOffset = 2 ^ 63 - 1"
  by (simp add: kMaxOffset_def)

lemma offset_in_range: "unat pos < 2 ^ 63 \<Longrightarrow> \<not> pos > kMaxOffset"
  by (simp add: word_less_nat_alt unat_kMaxOffset)

lemma pread_loop_benign:
  assumes "benign_io evs" and "unat pos + n \<le> length data" and "length data < 2 ^ 63"
  shows "\<exists>evs'. pread_loop evs data pos n = (Inr (subspan (unat pos) n data), evs') \<and> benign_io evs' \<and>
    length evs' \<le> length evs"
  using assms
proof (induction evs arbitrary: pos n)
  case Nil
  then show ?case
  proof (cases "n = 0")
    case False
    with Nil have "\<not> pos > kMaxOffset" by (intro offset_in_range) simp
    with False Nil show ?thesis by (simp add: Let_def)
  qed (simp add: subspan_def)
next
  case (Cons ev evs)
  show ?case
  proof (cases "n = 0")
    case False
    with Cons.prems have range: "\<not> pos > kMaxOffset" by (intro offset_in_range) simp
    show ?thesis
    proof (cases ev)
      case Interrupted
      have "\<exists>evs'. pread_loop evs data pos n = (Inr (subspan (unat pos) n data), evs') \<and> benign_io evs' \<and>
          length evs' \<le> length evs"
        by (rule Cons.IH) (use Cons.prems in simp_all)
      with Interrupted False range show ?thesis by fastforce
    next
      case (Short k)
      define c where "c = min (Suc k) n"
      define got where "got = subspan (unat pos) c data"
      have c: "0 < c" "c \<le> n" using False by (simp_all add: c_def)
      have len: "length got = c" using Cons.prems(2) c by (simp add: got_def)
      have pos': "unat (pos + of_nat c) = unat pos + c"
      proof -
        have "unat (of_nat c :: u64) = c" using Cons.prems(2,3) c by (simp add: unat_of_nat_u64)
        moreover have "unat pos + c < 2 ^ 64" using Cons.prems(2,3) c by simp
        ultimately show ?thesis by (simp add: unat_word_ariths)
      qed
      have "\<exists>evs'. pread_loop evs data (pos + of_nat c) (n - c) = (Inr (subspan (unat (pos + of_nat c)) (n - c) data), evs') \<and>
          benign_io evs' \<and> length evs' \<le> length evs"
        by (rule Cons.IH) (use Cons.prems c pos' in simp_all)
      then obtain evs' where "pread_loop evs data (pos + of_nat c) (n - c) = (Inr (subspan (unat pos + c) (n - c) data), evs')"
        and "benign_io evs'" and "length evs' \<le> length evs"
        unfolding pos' by blast
      moreover have "got \<noteq> []" using len c by auto
      moreover have "got @ subspan (unat pos + c) (n - c) data = subspan (unat pos) n data"
        using c(2) by (simp add: got_def subspan_split)
      ultimately show ?thesis
        using Short False range len by (simp add: c_def [symmetric] got_def [symmetric] Let_def)
    qed (use Cons.prems in simp_all)
  qed (use Cons.prems in \<open>simp add: subspan_def\<close>)
qed

text \<open>\<open>reads\<close>: only the pending events, the cache and the counters may differ.\<close>

definition reads :: "'a storage_scheme \<Rightarrow> 'a storage_scheme \<Rightarrow> bool" where
  "reads s s' \<longleftrightarrow> w_fs s' = w_fs s \<and> st_abi s' = st_abi s \<and> storage.more s' = storage.more s \<and>
     length (w_events s') \<le> length (w_events s)"

lemma reads_refl [simp]: "reads s s"
  by (simp add: reads_def)

lemma reads_trans [trans]: "reads s s' \<Longrightarrow> reads s' s'' \<Longrightarrow> reads s s''"
  by (simp add: reads_def)

lemma pread_loop_Inr:
  assumes "pread_loop evs data pos n = (Inr out, evs')" and "length data < 2 ^ 63"
  shows "out = subspan (unat pos) n data"
  using assms
proof (induction evs data pos n arbitrary: out evs' rule: pread_loop.induct)
  case (1 data pos n)
  then show ?case by (auto simp: subspan_def Let_def split: if_splits)
next
  case (2 ev evs data pos n)
  show ?case
  proof (cases "n = 0")
    case False
    with "2.prems" have range: "\<not> pos > kMaxOffset" by (auto split: if_splits)
    show ?thesis
    proof (cases ev)
      case Interrupted
      with "2.prems" False range show ?thesis by (intro "2.IH"(1) [OF False range Interrupted]) simp
    next
      case (Short k)
      define got where "got = subspan (unat pos) (min (Suc k) n) data"
      from "2.prems" False range Short obtain rest where ne: "got \<noteq> []"
        and rest: "pread_loop evs data (pos + of_nat (length got)) (n - length got) = (Inr rest, evs')"
        and out: "out = got @ rest"
        by (auto simp: got_def [symmetric] Let_def split: if_splits prod.splits sum.splits)
      have len: "length got \<le> n" "length got \<le> length data - unat pos" by (auto simp: got_def subspan_def)
      have in_data: "unat pos < length data" using ne by (auto simp: got_def subspan_def)
      have pos': "unat (pos + of_nat (length got)) = unat pos + length got"
      proof -
        have "length got \<le> length data" by (simp add: got_def subspan_def)
        with "2.prems"(2) have "length got < 2 ^ 64" by simp
        then have "unat (of_nat (length got) :: u64) = length got" by (rule unat_of_nat_u64)
        moreover have "unat pos + length got < 2 ^ 64" using "2.prems"(2) \<open>length got \<le> length data\<close> in_data by simp
        ultimately show ?thesis by (simp add: unat_word_ariths)
      qed
      have "got = subspan (unat pos) (length got) data"
        by (simp add: got_def subspan_def) (simp add: min_def)
      moreover have "rest = subspan (unat pos + length got) (n - length got) data"
        using "2.IH"(2) [OF False range Short got_def ne rest "2.prems"(2)] pos' by simp
      ultimately show ?thesis using out len(1) subspan_split [of "length got" n "unat pos" data] by metis
    qed (use "2.prems" False range in simp_all)
  qed (use "2.prems" in \<open>simp add: subspan_def\<close>)
qed

lemma sst_read_exact_Inr:
  assumes "sst_read_exact data pos n w = (Inr out, w')" and "length data < 2 ^ 63"
  shows "out = subspan (unat pos) n data" and "\<exists>evs. w' = w\<lparr>w_events := evs\<rparr>"
  using assms pread_loop_Inr by (auto simp: sst_read_exact_def split: if_splits prod.splits)

lemma sst_read_exact_benign:
  assumes "benign_io (w_events w)" and "unat pos + n \<le> length data" and "length data < 2 ^ 63"
  shows "\<exists>evs. sst_read_exact data pos n w = (Inr (subspan (unat pos) n data), w\<lparr>w_events := evs\<rparr>) \<and> benign_io evs \<and>
    length evs \<le> length (w_events w)"
proof -
  have "\<not> pos > kMaxOffset" using assms by (intro offset_in_range) simp
  with pread_loop_benign [OF assms] show ?thesis by (auto simp: sst_read_exact_def)
qed

section \<open>What a reader holds\<close>

definition reader_holds :: "sstable_reader \<Rightarrow> data_block list \<Rightarrow> bool" where
  "reader_holds r bs \<longleftrightarrow> list_all2 (block_at (rd_data r)) (rd_index r) bs \<and> length (rd_data r) < 2 ^ 63 \<and>
     bs \<noteq> [] \<and> (\<forall>b\<in>set bs. db_records b \<noteq> []) \<and> valid_snapshot (all_records bs) \<and>
     length (all_records bs) < 2 ^ 64 \<and>
     md_entry_count (rd_metadata r) = of_nat (length (all_records bs)) \<and>
     md_smallest_key (rd_metadata r) = fst (hd (all_records bs)) \<and>
     md_largest_key (rd_metadata r) = fst (last (all_records bs)) \<and>
     (\<forall>f k. rd_bloom_filter r = Some f \<and> k \<in> fst ` set (all_records bs) \<longrightarrow> may_contain f k)"

text \<open>A source of blocks, per table and offset, that knows the blocks of a reader.\<close>

definition source_knows :: "(cache_key \<rightharpoonup> data_block) \<Rightarrow> sstable_reader \<Rightarrow> data_block list \<Rightarrow> bool" where
  "source_knows src r bs \<longleftrightarrow>
     list_all2 (\<lambda>ie b. src (rd_cache_table_id r, ie_block_offset ie) = Some b) (rd_index r) bs"

definition cache_coherent :: "(cache_key \<rightharpoonup> data_block) \<Rightarrow> 'a storage_scheme \<Rightarrow> bool" where
  "cache_coherent src s \<longleftrightarrow> cache_inv (st_cache s) \<and> cache_lookup (st_cache s) \<subseteq>\<^sub>m src"

text \<open>\<open>yields src m v\<close>: whatever the kernel does, \<open>m\<close> only reads, keeps the cache coherent with the
  blocks of \<open>src\<close>, and returns \<open>v\<close> if it returns; when no call fails it does return.\<close>

definition yields :: "(cache_key \<rightharpoonup> data_block) \<Rightarrow> ('a storage_scheme, 'b) effect \<Rightarrow> 'b \<Rightarrow> bool" where
  "yields src m v \<longleftrightarrow> (\<forall>s x s'. cache_coherent src s \<and> m s = (x, s') \<longrightarrow> reads s s' \<and> cache_coherent src s' \<and>
     (\<forall>v'. x = Inr v' \<longrightarrow> v' = v) \<and> (benign_io (w_events s) \<longrightarrow> x = Inr v \<and> benign_io (w_events s')))"

lemma yieldsI:
  assumes "\<And>s x s'. cache_coherent src s \<Longrightarrow> m s = (x, s') \<Longrightarrow> reads s s' \<and> cache_coherent src s' \<and>
    (\<forall>v'. x = Inr v' \<longrightarrow> v' = v) \<and> (benign_io (w_events s) \<longrightarrow> x = Inr v \<and> benign_io (w_events s'))"
  shows "yields src m v"
  using assms unfolding yields_def by blast

lemma yieldsD:
  assumes "yields src m v" and "cache_coherent src s" and "m s = (x, s')"
  shows "reads s s'" and "cache_coherent src s'" and "x = Inr v' \<Longrightarrow> v' = v"
    and "benign_io (w_events s) \<Longrightarrow> x = Inr v" and "benign_io (w_events s) \<Longrightarrow> benign_io (w_events s')"
  using assms unfolding yields_def by blast+

lemma yields_returns:
  assumes "yields src m v" and "cache_coherent src s" and "benign_io (w_events s)"
  shows "\<exists>s'. m s = (Inr v, s') \<and> reads s s' \<and> cache_coherent src s' \<and> benign_io (w_events s')"
proof -
  obtain x s' where run: "m s = (x, s')" by fastforce
  with yieldsD [OF assms(1,2) run] assms(3) show ?thesis by blast
qed

lemma yields_bind:
  assumes "yields src m v" and "yields src (f v) u"
  shows "yields src (bind_effect m f) u"
proof (rule yieldsI)
  fix s x s'
  assume coh: "cache_coherent src s" and run: "bind_effect m f s = (x, s')"
  obtain y s1 where m: "m s = (y, s1)" by fastforce
  note 1 = yieldsD [OF assms(1) coh m]
  show "reads s s' \<and> cache_coherent src s' \<and> (\<forall>v'. x = Inr v' \<longrightarrow> v' = u) \<and>
      (benign_io (w_events s) \<longrightarrow> x = Inr u \<and> benign_io (w_events s'))"
  proof (cases y)
    case (Inl e)
    with m run have "x = Inl e" "s' = s1" by simp_all
    with Inl 1 show ?thesis by auto
  next
    case (Inr v')
    then have "v' = v" using 1(3) by blast
    with Inr m run have "f v s1 = (x, s')" by simp
    note 2 = yieldsD [OF assms(2) 1(2) this]
    show ?thesis using 1 2 reads_trans by blast
  qed
qed

lemma yields_simps [simp]:
  "yields src (lift_result (Inr v)) v" "yields src (\<lambda>s. (Inr v, s)) v"
  "\<not> c \<Longrightarrow> yields src (lift_result (throw_if c e)) ()" "valid_key k \<Longrightarrow> yields src (lift_result (validate_key k)) ()"
  by (simp_all add: yields_def throw_if_def)

lemma pread_loop_shortens: "length (snd (pread_loop evs data pos n)) \<le> length evs"
proof (induction evs data pos n rule: pread_loop.induct)
  case (2 ev evs data pos n)
  show ?case
  proof (cases "n = 0 \<or> pos > kMaxOffset")
    case False
    show ?thesis
    proof (cases ev)
      case (Short k)
      let ?got = "subspan (unat pos) (min (Suc k) n) data"
      show ?thesis
      proof (cases "?got = []")
        case ne: False
        from "2.IH"(2) [OF _ _ Short refl] False ne
        have "length (snd (pread_loop evs data (pos + of_nat (length ?got)) (n - length ?got))) \<le> length evs" by auto
        then show ?thesis using Short False ne
          by (cases "pread_loop evs data (pos + of_nat (length ?got)) (n - length ?got)")
            (auto simp: Let_def split: sum.splits)
      qed (use Short False in simp)
    qed (use 2 False in auto)
  qed auto
qed (simp add: Let_def)

lemma sst_read_exact_yields:
  assumes "unat pos + n \<le> length data" and "length data < 2 ^ 63"
  shows "yields src (sst_read_exact data pos n) (subspan (unat pos) n data)"
proof (rule yieldsI)
  fix s x s' assume coh: "cache_coherent src s" and run: "sst_read_exact data pos n s = (x, s')"
  have "s' = s \<or> s' = s\<lparr>w_events := snd (pread_loop (w_events s) data pos n)\<rparr>"
    using run by (auto simp: sst_read_exact_def split: if_splits prod.splits)
  then have "reads s s' \<and> cache_coherent src s'"
    using coh pread_loop_shortens [of "w_events s" data pos n] by (auto simp: reads_def cache_coherent_def)
  moreover have "\<forall>v'. x = Inr v' \<longrightarrow> v' = subspan (unat pos) n data"
    using sst_read_exact_Inr(1) [OF _ assms(2)] run by blast
  moreover have "benign_io (w_events s) \<longrightarrow> x = Inr (subspan (unat pos) n data) \<and> benign_io (w_events s')"
    using sst_read_exact_benign [OF _ assms, of s] run by auto
  ultimately show "reads s s' \<and> cache_coherent src s' \<and> (\<forall>v'. x = Inr v' \<longrightarrow> v' = subspan (unat pos) n data) \<and>
    (benign_io (w_events s) \<longrightarrow> x = Inr (subspan (unat pos) n data) \<and> benign_io (w_events s'))" by blast
qed

text \<open>The two uses of the cache in \<open>read_data_block\<close>.\<close>

definition cached_block :: "sstable_reader \<Rightarrow> cache_key \<Rightarrow> 'a storage_scheme \<Rightarrow> data_block option \<times> 'a storage_scheme" where
  "cached_block r key s = (if rd_uses_cache r
     then let (found, c) = block_cache_get (st_cache s) key in (found, s\<lparr>st_cache := c\<rparr>) else (None, s))"

lemma cached_block_coherent:
  assumes "cached_block r key s = (found, s')" and "cache_coherent src s" and "src key = Some b"
  shows "reads s s'" and "cache_coherent src s'" and "w_events s' = w_events s" and "found = None \<or> found = Some b"
proof -
  obtain f c where g: "block_cache_get (st_cache s) key = (f, c)" by fastforce
  from blocks.get_coherent [OF _ _ g, of src] assms(2,3) have "cache_inv c" "cache_lookup c \<subseteq>\<^sub>m src"
    and "f = None \<or> f = Some b" by (auto simp: cache_coherent_def)
  with g assms show "reads s s'" "cache_coherent src s'" "w_events s' = w_events s" "found = None \<or> found = Some b"
    by (auto simp: cached_block_def reads_def cache_coherent_def split: if_splits)
qed

lemma cache_store_yields:
  assumes "src key = Some b"
  shows "yields src (\<lambda>s. if rd_uses_cache r
      then case block_cache_put (st_abi s) (st_cache s) key (Some b) of
          Inl e \<Rightarrow> (Inl e, s) | Inr c \<Rightarrow> (Inr b, s\<lparr>st_cache := c\<rparr>)
      else (Inr b, s)) b"
proof (rule yieldsI)
  fix s x s'
  assume coh: "cache_coherent src s" and run: "(if rd_uses_cache r
      then case block_cache_put (st_abi s) (st_cache s) key (Some b) of
          Inl e \<Rightarrow> (Inl e, s) | Inr c \<Rightarrow> (Inr b, s\<lparr>st_cache := c\<rparr>)
      else (Inr b, s)) = (x, s')"
  then have "x = Inr b" and s': "s' = (if rd_uses_cache r
      then s\<lparr>st_cache := block_cache_store (st_abi s) (st_cache s) key b\<rparr> else s)"
    by (auto simp: block_cache_put_def split: if_splits)
  moreover have "cache_coherent src s'"
    using coh blocks.store_coherent [of "st_cache s" src key b "st_abi s"] block_cache_store_inv assms
    by (simp add: s' cache_coherent_def)
  ultimately show "reads s s' \<and> cache_coherent src s' \<and> (\<forall>v'. x = Inr v' \<longrightarrow> v' = b) \<and>
      (benign_io (w_events s) \<longrightarrow> x = Inr b \<and> benign_io (w_events s'))" by (simp add: reads_def)
qed

lemma read_data_block_yields:
  assumes at: "block_at (rd_data r) ie b" and size: "length (rd_data r) < 2 ^ 63"
    and src: "src (rd_cache_table_id r, ie_block_offset ie) = Some b"
  shows "yields src (read_data_block r ie :: ('a storage_scheme, data_block) effect) b"
proof (rule yieldsI)
  let ?key = "(rd_cache_table_id r, ie_block_offset ie)"
  let ?fetch = "bind_effect (sst_read_exact (rd_data r) (ie_block_offset ie) (unat (ie_block_size ie))) (\<lambda>bs.
      bind_effect (lift_result (parse_data_block bs (ie_block_offset ie))) (\<lambda>block.
      bind_effect (lift_result (throw_if (first_key block \<noteq> ie_first_key ie \<or> last_key block \<noteq> ie_last_key ie)
        (SSTableCorruptionError (ie_block_offset ie) ''SSTable data block does not match its index range''))) (\<lambda>_ s.
      if rd_uses_cache r
      then case block_cache_put (st_abi s) (st_cache s) ?key (Some block) of
          Inl e \<Rightarrow> (Inl e, s) | Inr c \<Rightarrow> (Inr block, s\<lparr>st_cache := c\<rparr>)
      else (Inr block, s)))) :: ('a storage_scheme, data_block) effect"
  from at obtain encoded where enc: "serialize_data_block b = Inr encoded"
    and span: "subspan (unat (ie_block_offset ie)) (length encoded) (rd_data r) = encoded"
    and le: "unat (ie_block_offset ie) + length encoded \<le> length (rd_data r)"
    and sz: "unat (ie_block_size ie) = length encoded"
    and keys: "ie_first_key ie = first_key b" "ie_last_key ie = last_key b"
    by (auto simp: block_at_def)
  have parse: "parse_data_block encoded (ie_block_offset ie) = Inr b" by (rule parse_serialize_data_block [OF enc])
  have fetch: "yields src ?fetch b"
  proof (rule yields_bind)
    show "yields src (sst_read_exact (rd_data r) (ie_block_offset ie) (unat (ie_block_size ie))) encoded"
      using sst_read_exact_yields [OF le size] by (simp add: sz span)
    show "yields src (bind_effect (lift_result (parse_data_block encoded (ie_block_offset ie))) (\<lambda>block.
      bind_effect (lift_result (throw_if (first_key block \<noteq> ie_first_key ie \<or> last_key block \<noteq> ie_last_key ie)
        (SSTableCorruptionError (ie_block_offset ie) ''SSTable data block does not match its index range''))) (\<lambda>_ s.
      if rd_uses_cache r
      then case block_cache_put (st_abi s) (st_cache s) ?key (Some block) of
          Inl e \<Rightarrow> (Inl e, s) | Inr c \<Rightarrow> (Inr block, s\<lparr>st_cache := c\<rparr>)
      else (Inr block, s)))) b"
      by (rule yields_bind [where v = b], simp add: parse, rule yields_bind [where v = "()"], simp add: keys,
          rule cache_store_yields [where src = src and key = ?key and b = b], rule src)
  qed
  fix s :: "'a storage_scheme" and x s' assume coh: "cache_coherent src s" and run: "read_data_block r ie s = (x, s')"
  obtain found s1 where c: "cached_block r ?key s = (found, s1)" by fastforce
  note 1 = cached_block_coherent [OF c coh src]
  have run': "(case found of Some block \<Rightarrow> (Inr block, s1) | None \<Rightarrow> ?fetch s1) = (x, s')"
    using run c by (simp add: read_data_block_def cached_block_def Let_def split: option.splits if_splits prod.splits)
  show "reads s s' \<and> cache_coherent src s' \<and> (\<forall>v'. x = Inr v' \<longrightarrow> v' = b) \<and>
      (benign_io (w_events s) \<longrightarrow> x = Inr b \<and> benign_io (w_events s'))"
  proof (cases found)
    case None
    with run' have "?fetch s1 = (x, s')" by simp
    note y = yieldsD [OF fetch 1(2) this]
    have "reads s s'" by (rule reads_trans [OF 1(1) y(1)])
    moreover have "\<forall>v'. x = Inr v' \<longrightarrow> v' = b" using y(3) by blast
    moreover have "benign_io (w_events s) \<longrightarrow> x = Inr b \<and> benign_io (w_events s')" using y(4,5) 1(3) by simp
    ultimately show ?thesis using y(2) by blast
  next
    case (Some block)
    with run' 1 show ?thesis by auto
  qed
qed

lemma read_blocks_yields:
  assumes "list_all2 (block_at (rd_data r)) ies bs" and "length (rd_data r) < 2 ^ 63"
    and "list_all2 (\<lambda>ie b. src (rd_cache_table_id r, ie_block_offset ie) = Some b) ies bs"
  shows "yields src (read_blocks r ies :: ('a storage_scheme, snapshot) effect) (all_records bs)"
  using assms
proof (induction ies bs rule: list_all2_induct)
  case (Cons ie ies b bs)
  have "(read_blocks r (ie # ies) :: ('a storage_scheme, snapshot) effect) = bind_effect (read_data_block r ie) (\<lambda>block.
      bind_effect (read_blocks r ies) (\<lambda>rest. lift_result (Inr (db_records block @ rest))))" by (rule ext) simp
  moreover have "yields src (read_data_block r ie :: ('a storage_scheme, data_block) effect) b" using Cons.prems by (intro read_data_block_yields [OF Cons.hyps(1)]) simp_all
  moreover have "yields src (read_blocks r ies :: ('a storage_scheme, snapshot) effect) (all_records bs)"
    using Cons.IH Cons.prems by simp
  ultimately show ?case by (auto intro!: yields_bind)
qed (simp add: yields_def)

lemma sstable_read_all_yields:
  assumes "reader_holds r bs" and "source_knows src r bs"
  shows "yields src (sstable_read_all r) (all_records bs)"
  unfolding sstable_read_all_def
proof (rule yields_bind)
  show "yields src (read_blocks r (rd_index r)) (all_records bs)"
    using assms by (intro read_blocks_yields) (simp_all add: reader_holds_def source_knows_def)
  show "yields src (bind_effect (lift_result (throw_if (of_nat (length (all_records bs)) \<noteq> md_entry_count (rd_metadata r))
      (SSTableCorruptionError 0 ''SSTable entry count does not match its metadata''))) (\<lambda>_. lift_result (Inr (all_records bs))))
      (all_records bs)"
    using assms(1) by (intro yields_bind [where v = "()"]) (simp_all add: reader_holds_def)
qed

section \<open>Lookups\<close>

lemma lower_bound_records:
  assumes "sorted_map rs"
  shows "(case lower_bound (\<lambda>r. fst r < k) rs of [] \<Rightarrow> None | r # _ \<Rightarrow> if fst r \<noteq> k then None else Some (snd r)) = map_of rs k"
  using assms
proof (induction rs)
  case (Cons r rs)
  then have IH: "(case dropWhile (\<lambda>r. fst r < k) rs of [] \<Rightarrow> None | r # _ \<Rightarrow> if fst r \<noteq> k then None else Some (snd r)) = map_of rs k"
    and gt: "\<forall>x\<in>set rs. fst r < fst x" and "sorted_map rs"
    by (simp_all add: sorted_map_Cons lower_bound_def)
  consider "fst r < k" | "fst r = k" | "k < fst r" by fastforce
  then show ?case
  proof cases
    case 1
    then have "lower_bound (\<lambda>r. fst r < k) (r # rs) = dropWhile (\<lambda>r. fst r < k) rs"
      and "map_of (r # rs) k = map_of rs k" by (cases r, auto simp: lower_bound_def)+
    then show ?thesis using IH by simp
  next
    case 2
    then show ?thesis by (simp add: lower_bound_def)
  next
    case 3
    then have "\<forall>x\<in>set rs. k < fst x" using gt by (meson less_trans)
    with \<open>sorted_map rs\<close> have "map_of rs k = None" by (rule sorted_map_less_None)
    with 3 show ?thesis by (auto simp: lower_bound_def)
  qed
qed (simp add: lower_bound_def)

lemma sorted_last_ge: "sorted_map rs \<Longrightarrow> r \<in> set rs \<Longrightarrow> fst r \<le> fst (last rs)"
  by (induction rs) (auto simp: sorted_map_Cons intro: less_imp_le)

lemma map_of_eq_None: "\<forall>r\<in>set rs. fst r \<noteq> k \<Longrightarrow> map_of rs k = None"
  by (auto simp: map_of_eq_None_iff)

lemma locate_block:
  assumes "list_all2 (block_at data) idx bs" and "\<forall>b\<in>set bs. db_records b \<noteq> []" and "sorted_map (all_records bs)"
  shows "(case lower_bound (\<lambda>e. ie_last_key e < k) idx of
      [] \<Rightarrow> map_of (all_records bs) k = None
    | e # _ \<Rightarrow> \<exists>b. (e, b) \<in> set (zip idx bs) \<and> map_of (all_records bs) k = map_of (db_records b) k \<and>
        (k < ie_first_key e \<longrightarrow> map_of (all_records bs) k = None))"
  using assms
proof (induction idx bs rule: list_all2_induct)
  case (Cons e es b bs)
  have keys: "ie_first_key e = first_key b" "ie_last_key e = last_key b"
    using Cons.hyps(1) by (auto simp: block_at_def)
  have b: "db_records b \<noteq> []" "sorted_map (db_records b)"
    and rest: "\<forall>b\<in>set bs. db_records b \<noteq> []" "sorted_map (all_records bs)"
    and sep: "\<forall>x\<in>set (db_records b). \<forall>y\<in>set (all_records bs). fst x < fst y"
    using Cons.prems by (auto simp: sorted_map_append)
  note IH = Cons.IH [OF rest]
  show ?case
  proof (cases "last_key b < k")
    case True
    have "\<forall>x\<in>set (db_records b). fst x \<noteq> k"
      using sorted_last_ge [OF b(2)] True by (auto simp: last_key_def dest!: leD)
    then have "map_of (db_records b) k = None" by (rule map_of_eq_None)
    then have "map_of (all_records (b # bs)) k = map_of (all_records bs) k" by (simp add: map_add_def split: option.splits)
    moreover have "lower_bound (\<lambda>e. ie_last_key e < k) (e # es) = lower_bound (\<lambda>e. ie_last_key e < k) es"
      using True keys by (simp add: lower_bound_def)
    ultimately show ?thesis using IH by (cases "lower_bound (\<lambda>e. ie_last_key e < k) es") auto
  next
    case False
    obtain l where l: "l \<in> set (db_records b)" "last_key b = fst l" using last_key_in [OF b(1)] by blast
    have "\<forall>y\<in>set (all_records bs). k < fst y"
    proof
      fix y assume "y \<in> set (all_records bs)"
      with sep l have "last_key b < fst y" by simp
      with False show "k < fst y" by simp
    qed
    then have "map_of (all_records bs) k = None" using sorted_map_less_None [OF rest(2)] by blast
    then have eq: "map_of (all_records (b # bs)) k = map_of (db_records b) k"
      by (simp add: map_add_def split: option.splits)
    have "map_of (db_records b) k = None" if "k < first_key b"
    proof (rule sorted_map_less_None [OF b(2)], rule)
      fix x assume "x \<in> set (db_records b)"
      then have "first_key b \<le> fst x"
        using b by (cases "db_records b") (auto simp: first_key_def sorted_map_Cons intro: less_imp_le)
      with that show "k < fst x" by simp
    qed
    then show ?thesis using False eq keys by (auto simp: lower_bound_def)
  qed
qed (simp add: lower_bound_def)

lemma sorted_all_records: "sorted_map (all_records bs) \<Longrightarrow> b \<in> set bs \<Longrightarrow> sorted_map (db_records b)"
  by (induction bs) (auto simp: sorted_map_append)

lemma bloom_checkD:
  assumes "bloom_check r k s = (found, s')"
  shows "reads s s'" and "w_events s' = w_events s" and "st_cache s' = st_cache s"
    and "found \<longleftrightarrow> (\<forall>f. rd_bloom_filter r = Some f \<longrightarrow> may_contain f k)"
  using assms by (auto simp: bloom_check_def reads_def Let_def split: option.splits prod.splits)

lemma smallest_largest:
  assumes "sorted_map rs" and "k < fst (hd rs) \<or> k > fst (last rs)"
  shows "map_of rs k = None"
proof (rule map_of_eq_None, rule)
  fix x assume x: "x \<in> set rs"
  have "fst x \<le> fst (last rs)" by (rule sorted_last_ge [OF assms(1) x])
  moreover have "fst (hd rs) \<le> fst x"
    using x assms(1) by (cases rs) (auto simp: sorted_map_Cons intro: less_imp_le)
  ultimately show "fst x \<noteq> k" using assms(2) by auto
qed

lemma find_in_block_yields:
  assumes "block_at (rd_data r) e b" and "src (rd_cache_table_id r, ie_block_offset e) = Some b"
    and "length (rd_data r) < 2 ^ 63" and "sorted_map (db_records b)"
  shows "yields src (bind_effect (read_data_block r e) (\<lambda>block. lift_result (Inr (find_record k block))))
    (map_of (db_records b) k)"
proof (rule yields_bind)
  show "yields src (read_data_block r e) b" by (rule read_data_block_yields [OF assms(1,3)]) (rule assms(2))
  have "find_record k b = map_of (db_records b) k"
    unfolding find_record_def by (rule lower_bound_records [OF assms(4)])
  then show "yields src (lift_result (Inr (find_record k b))) (map_of (db_records b) k)" by simp
qed

lemma sstable_get_yields:
  assumes holds: "reader_holds r bs" and src: "source_knows src r bs" and key: "valid_key k"
  shows "yields src (sstable_get r k :: ('a storage_scheme, entry option) effect) (map_of (all_records bs) k)"
proof (rule yieldsI)
  have at: "list_all2 (block_at (rd_data r)) (rd_index r) bs" and size: "length (rd_data r) < 2 ^ 63"
    and ne: "bs \<noteq> []" "\<forall>b\<in>set bs. db_records b \<noteq> []" and sorted: "sorted_map (all_records bs)"
    and md: "md_smallest_key (rd_metadata r) = fst (hd (all_records bs))"
      "md_largest_key (rd_metadata r) = fst (last (all_records bs))"
    using holds by (auto simp: reader_holds_def valid_snapshot_def)
  note loc = locate_block [OF at ne(2) sorted, of k]
  fix s :: "'a storage_scheme" and x s' assume coh: "cache_coherent src s" and run: "sstable_get r k s = (x, s')"
  let ?goal = "reads s s' \<and> cache_coherent src s' \<and> (\<forall>v'. x = Inr v' \<longrightarrow> v' = map_of (all_records bs) k) \<and>
      (benign_io (w_events s) \<longrightarrow> x = Inr (map_of (all_records bs) k) \<and> benign_io (w_events s'))"
  have quiet: ?goal if "x = Inr None" "s' = s" "map_of (all_records bs) k = None" using that coh by simp
  show ?goal
  proof (cases "k < md_smallest_key (rd_metadata r) \<or> k > md_largest_key (rd_metadata r)")
    case True
    then have "map_of (all_records bs) k = None" using smallest_largest [OF sorted] md by simp
    then show ?thesis using True run key by (intro quiet) (simp_all add: sstable_get_def)
  next
    case inside: False
    show ?thesis
    proof (cases "lower_bound (\<lambda>e. ie_last_key e < k) (rd_index r)")
      case Nil
      then show ?thesis using loc inside run key by (intro quiet) (simp_all add: sstable_get_def)
    next
      case (Cons e es)
      with loc obtain b where mem: "(e, b) \<in> set (zip (rd_index r) bs)"
        and eq: "map_of (all_records bs) k = map_of (db_records b) k"
        and below: "k < ie_first_key e \<longrightarrow> map_of (all_records bs) k = None" by auto
      have e: "block_at (rd_data r) e b" "src (rd_cache_table_id r, ie_block_offset e) = Some b"
        using at src mem by (auto simp: list_all2_iff source_knows_def)
      have b: "sorted_map (db_records b)" using sorted_all_records [OF sorted set_zip_rightD [OF mem]] .
      obtain found s1 where chk: "bloom_check r k s = (found, s1)" by fastforce
      note c = bloom_checkD [OF chk]
      have coh1: "cache_coherent src s1" using coh c by (simp add: cache_coherent_def)
      show ?thesis
      proof (cases "k < ie_first_key e")
        case True
        then show ?thesis using Cons below inside run key by (intro quiet) (simp_all add: sstable_get_def)
      next
        case above: False
        show ?thesis
        proof (cases found)
          case False
          then have "map_of (all_records bs) k = None"
            using c(4) holds by (auto simp: reader_holds_def map_of_eq_None_iff)
          then show ?thesis using Cons above inside run key False chk c coh1 by (auto simp: sstable_get_def)
        next
          case True
          let ?find = "bind_effect (read_data_block r e) (\<lambda>block. lift_result (Inr (find_record k block)))"
          have find: "?find s1 = (x, s')" using Cons above inside run key True chk by (simp add: sstable_get_def)
          have "yields src (?find :: ('a storage_scheme, entry option) effect) (map_of (db_records b) k)"
            by (rule find_in_block_yields [where src = src, OF e(1) _ size b]) (rule e(2))
          note y = yieldsD [OF this coh1 find]
          have "reads s s'" by (rule reads_trans [OF c(1) y(1)])
          moreover have "\<forall>v'. x = Inr v' \<longrightarrow> v' = map_of (all_records bs) k" using y(3) eq by auto
          moreover have "benign_io (w_events s) \<longrightarrow> x = Inr (map_of (all_records bs) k) \<and> benign_io (w_events s')"
            using y(4,5) c(2) eq by simp
          ultimately show ?thesis using y(2) by blast
        qed
      qed
    qed
  qed
qed

section \<open>Opening what was written\<close>

lemma layout_blocks_ranges:
  assumes "layout_blocks off bs = Inr (body, index)" and "56 \<le> off" and "off + length body \<le> io" and "io < 2 ^ 63"
  shows "check_index_ranges (of_nat io) (of_nat off) index = Inr (of_nat (off + length body))"
    and "\<forall>e\<in>set index. off \<le> unat (ie_block_offset e)" and "distinct (map ie_block_offset index)"
proof -
  have "check_index_ranges (of_nat io) (of_nat off) index = Inr (of_nat (off + length body)) \<and>
      (\<forall>e\<in>set index. off \<le> unat (ie_block_offset e)) \<and> distinct (map ie_block_offset index)"
    using assms
  proof (induction bs arbitrary: off body index)
    case (Cons b bs)
    show ?case
    proof (rule layout_blocks_ConsD [OF Cons.prems(1)])
      fix encoded body' index'
      assume enc: "serialize_data_block b = Inr encoded"
        and rest: "layout_blocks (off + length encoded) bs = Inr (body', index')" and body: "body = encoded @ body'"
        and index: "index = \<lparr>ie_first_key = first_key b, ie_last_key = last_key b, ie_block_offset = of_nat off,
          ie_block_size = of_nat (length encoded)\<rparr> # index'"
      have len: "16 < length encoded" by (rule serialize_data_block_length [OF enc])
      have IH: "check_index_ranges (of_nat io) (of_nat (off + length encoded)) index' =
            Inr (of_nat (off + length encoded + length body'))"
          "\<forall>e\<in>set index'. off + length encoded \<le> unat (ie_block_offset e)" "distinct (map ie_block_offset index')"
        using Cons.IH [OF rest] Cons.prems body by auto
      have u: "unat (of_nat off :: u64) = off" "unat (of_nat io :: u64) = io" "unat (of_nat (length encoded) :: u64) = length encoded"
        "unat (of_nat kSstHeaderSize :: u64) = 56"
        using Cons.prems body by (simp_all add: unat_of_nat_u64 kSstHeaderSize_def)
      have le: "(of_nat off :: u64) \<le> of_nat io" using u Cons.prems body by (simp add: word_le_nat_alt)
      then have "unat (of_nat io - of_nat off :: u64) = io - off" using u by (simp add: unat_sub)
      then have ok: "\<not> ((of_nat off :: u64) < of_nat kSstHeaderSize \<or> (of_nat off :: u64) < of_nat off \<or>
          (of_nat off :: u64) > of_nat io \<or> (of_nat (length encoded) :: u64) > of_nat io - of_nat off)"
        using u Cons.prems body by (simp add: word_less_nat_alt)
      have "check_index_ranges (of_nat io) (of_nat off) index = Inr (of_nat (off + length body))"
        using ok IH(1) body index by (simp add: add.assoc)
      moreover have "\<forall>e\<in>set index. off \<le> unat (ie_block_offset e)" using IH(2) index u by fastforce
      moreover have "distinct (map ie_block_offset index)"
      proof -
        have "of_nat off \<notin> set (map ie_block_offset index')"
        proof
          assume "of_nat off \<in> set (map ie_block_offset index')"
          then obtain e where "e \<in> set index'" "ie_block_offset e = of_nat off" by auto
          with IH(2) u(1) have "off + length encoded \<le> off" by metis
          with len show False by simp
        qed
        with IH(3) index show ?thesis by simp
      qed
      ultimately show ?thesis by blast
    qed
  qed simp
  then show "check_index_ranges (of_nat io) (of_nat off) index = Inr (of_nat (off + length body))"
    and "\<forall>e\<in>set index. off \<le> unat (ie_block_offset e)" and "distinct (map ie_block_offset index)" by blast+
qed

end
