(* ===== verification/SSTableOpen.thy ===== *)
theory SSTableOpen
  imports SSTable
begin

text \<open>
  Opening the file a writer left: the reader that results holds the written entries.  The closing
  properties compose the writer, the file system, the reader, the Bloom filter and the block cache.
\<close>

section \<open>The parts of a file image\<close>

lemma table_image_parts:
  assumes "table_image h blocks = Inr bs"
  obtains body index ei where "layout_blocks kSstHeaderSize blocks = Inr (body, index)"
    and "serialize_index_block index = Inr ei"
    and "bs = serialize_header h @ body @ ei @ serialize_footer (table_footer h (56 + length body) (length ei))"
  using assms by (auto simp: table_image_def result_simps kSstHeaderSize_def)

lemma layout_keys:
  assumes "list_all2 (block_at data) index bs"
  shows "map ie_first_key index = map first_key bs" and "map ie_last_key index = map last_key bs"
  using assms by (induction rule: list_all2_induct) (auto simp: block_at_def)

lemma hd_all_records: "bs \<noteq> [] \<Longrightarrow> \<forall>b\<in>set bs. db_records b \<noteq> [] \<Longrightarrow> hd (all_records bs) = hd (db_records (hd bs))"
  by (cases bs) simp_all

lemma last_all_records: "bs \<noteq> [] \<Longrightarrow> \<forall>b\<in>set bs. db_records b \<noteq> [] \<Longrightarrow> last (all_records bs) = last (db_records (last bs))"
  by (cases bs rule: rev_cases) (simp_all add: all_records_def)

lemma checked_file_sizeD:
  assumes "checked_file_size path w = (Inr data, w')"
  shows "\<exists>f. fs_files (w_fs w) path = Some f \<and> data = df_contents f" and "\<exists>evs. w' = w\<lparr>w_events := evs\<rparr>"
proof -
  obtain r w1 where c: "sys_call (SystemError ''filesystem error: cannot get file size'') w = (r, w1)" by fastforce
  have "\<exists>evs. w1 = w\<lparr>w_events := evs\<rparr>"
    using c by (auto simp: sys_call_def split: list.splits if_splits intro: exI [of _ "w_events w"])
  with assms c sys_callD [OF c] show "\<exists>f. fs_files (w_fs w) path = Some f \<and> data = df_contents f"
    and "\<exists>evs. w' = w\<lparr>w_events := evs\<rparr>"
    by (cases r; auto simp: checked_file_size_def split: option.splits)+
qed

lemma sys_call_events: "sys_call e w = (r, w') \<Longrightarrow> \<exists>evs. w' = w\<lparr>w_events := evs\<rparr>"
  by (auto simp: sys_call_def split: list.splits if_splits intro: exI [of _ "w_events w"])

text \<open>The reader that a file image determines.\<close>

definition image_reader :: "bytes \<Rightarrow> bool \<Rightarrow> bloom_filter option \<Rightarrow> sst_header \<Rightarrow> bytes \<Rightarrow> index_entry list \<Rightarrow> sst_footer \<Rightarrow> sstable_reader" where
  "image_reader path c bloom h bs index ft =
     \<lparr>rd_path = path, rd_cache_table_id = lexically_normal path, rd_data = bs, rd_uses_cache = c, rd_bloom_filter = bloom,
      rd_metadata = \<lparr>md_path = path, md_generation = hd_generation h, md_entry_count = hd_entry_count h,
        md_block_count = hd_block_count h, md_min_sequence_number = hd_min_sequence_number h,
        md_max_sequence_number = hd_max_sequence_number h, md_smallest_key = ie_first_key (hd index),
        md_largest_key = ie_last_key (last index), md_level = Level0\<rparr>,
      rd_index = index, rd_footer = ft\<rparr>"

definition written_image :: "sst_header \<Rightarrow> bytes \<Rightarrow> index_entry list \<Rightarrow> bytes \<Rightarrow> bytes \<Rightarrow> sst_footer \<Rightarrow> bool" where
  "written_image h body index ei bs ft \<longleftrightarrow> bs = serialize_header h @ body @ ei @ serialize_footer ft \<and>
     ft = table_footer h (56 + length body) (length ei) \<and> length bs < 2 ^ 63 \<and> valid_header h \<and> valid_footer ft \<and>
     (\<forall>off. parse_index_block ei off = Inr index) \<and>
     check_index_ranges (of_nat (56 + length body)) 56 index = Inr (of_nat (56 + length body)) \<and>
     of_nat (length index) = (ucast (hd_block_count h) :: u64)"

lemma written_image_sizes:
  assumes "written_image h body index ei bs ft"
  shows "length bs = 120 + length body + length ei" and "unat (of_nat (length bs) :: u64) = length bs"
    and "unat (of_nat (length bs) - 64 :: u64) = 56 + length body + length ei"
    and "unat (ft_index_offset ft) = 56 + length body" and "unat (ft_index_size ft) = length ei"
    and "ft_index_offset ft = of_nat (56 + length body)"
proof -
  have bs: "bs = serialize_header h @ body @ ei @ serialize_footer ft" and small: "length bs < 2 ^ 63"
    and ft: "ft = table_footer h (56 + length body) (length ei)" using assms unfolding written_image_def by blast+
  show len: "length bs = 120 + length body + length ei" by (simp add: bs)
  show n: "unat (of_nat (length bs) :: u64) = length bs" using small by (simp add: unat_of_nat_u64)
  define N where "N = (of_nat (length bs) :: u64)"
  have "(64 :: u64) \<le> N" using n len by (simp add: word_le_nat_alt N_def)
  then have "unat (N - 64) = unat N - 64" by (simp add: unat_sub)
  then show "unat (of_nat (length bs) - 64 :: u64) = 56 + length body + length ei" using n len by (simp add: N_def)
  show io: "ft_index_offset ft = of_nat (56 + length body)" by (simp add: ft table_footer_def)
  show "unat (ft_index_offset ft) = 56 + length body"
    unfolding io by (rule unat_of_nat_u64) (use small len in simp)
  have "ft_index_size ft = of_nat (length ei)" by (simp add: ft table_footer_def)
  then show "unat (ft_index_size ft) = length ei"
    using small len by (simp only:) (rule unat_of_nat_u64, simp)
qed

lemma written_image_spans:
  assumes "written_image h body index ei bs ft"
  shows "subspan 0 56 bs = serialize_header h"
    and "subspan (56 + length body + length ei) 64 bs = serialize_footer ft"
    and "subspan (56 + length body) (length ei) bs = ei"
proof -
  have parts: "bs = serialize_header h @ body @ ei @ serialize_footer ft" using assms unfolding written_image_def by blast
  show "subspan 0 56 bs = serialize_header h" by (simp add: parts subspan_def)
  have "subspan (length (serialize_header h @ body @ ei)) 64 ((serialize_header h @ body @ ei) @ serialize_footer ft) = serialize_footer ft"
    by (simp only: subspan_append_start) simp
  then show "subspan (56 + length body + length ei) 64 bs = serialize_footer ft" by (simp add: parts add.assoc)
  have "subspan (length (serialize_header h @ body)) (length ei) ((serialize_header h @ body) @ ei @ serialize_footer ft) = ei"
    by (simp only: append_assoc subspan_middle) (simp add: subspan_def)
  then show "subspan (56 + length body) (length ei) bs = ei" by (simp add: parts)
qed

lemma written_image_checks:
  assumes "written_image h body index ei bs ft"
  shows "\<not> of_nat (length bs) < (120 :: u64)"
    and "\<not> (ft_index_offset ft < 56 \<or> ft_index_offset ft > of_nat (length bs) - 64 \<or>
      ft_index_size ft > of_nat (length bs) - 64 - ft_index_offset ft)"
proof -
  note s = written_image_sizes [OF assms]
  show "\<not> of_nat (length bs) < (120 :: u64)"
    unfolding word_less_nat_alt using s(2) by (simp only: s(1)) simp
  have le: "ft_index_offset ft \<le> of_nat (length bs) - 64" unfolding word_le_nat_alt s(3) s(4) by simp
  then have "unat (of_nat (length bs) - 64 - ft_index_offset ft) = length ei"
    using s(3,4) by (simp add: unat_sub)
  then have "\<not> ft_index_size ft > of_nat (length bs) - 64 - ft_index_offset ft"
    unfolding word_less_nat_alt s(5) by simp
  moreover have "\<not> ft_index_offset ft < 56" unfolding word_less_nat_alt s(4) by simp
  ultimately show "\<not> (ft_index_offset ft < 56 \<or> ft_index_offset ft > of_nat (length bs) - 64 \<or>
      ft_index_size ft > of_nat (length bs) - 64 - ft_index_offset ft)" using le by (simp add: not_less)
qed

lemma sstable_reader_new_image:
  assumes run: "sstable_reader_new path c bloom s = (Inr r, s')" and img: "written_image h body index ei bs ft"
    and f: "fs_files (w_fs s) path = Some f" "df_contents f = bs"
  shows "r = image_reader path c bloom h bs index ft"
    and "\<exists>evs. s' = s\<lparr>w_events := evs, st_lookup_statistics := (st_lookup_statistics s)(lexically_normal path := (0, 0))\<rparr>"
proof -
  note sizes = written_image_sizes [OF img] and spans = written_image_spans [OF img]
    and checks = written_image_checks [OF img]
  have small: "length bs < 2 ^ 63" and hok: "valid_header h" and fok: "valid_footer ft"
    and iok: "\<forall>off. parse_index_block ei off = Inr index"
    and rng: "check_index_ranges (ft_index_offset ft) 56 index = Inr (ft_index_offset ft)"
    and cnt: "of_nat (length index) = (ucast (hd_block_count h) :: u64)" and ft: "ft = table_footer h (56 + length body) (length ei)"
    using img unfolding sizes(6) unfolding written_image_def by blast+
  have path: "path \<noteq> []" using run by (auto simp: sstable_reader_new_def throw_if_def)
  have hb: "parse_header (serialize_header h) 0 = Inr h" by (rule parse_serialize_header [OF hok])
  have fb: "parse_footer (serialize_footer ft) off = Inr ft" for off by (rule parse_serialize_footer [OF fok])
  have agree: "hd_entry_count h = ft_entry_count ft" "hd_block_count h = ft_block_count ft"
    "hd_min_sequence_number h = ft_min_sequence_number ft" "hd_max_sequence_number h = ft_max_sequence_number ft"
    by (simp_all add: ft table_footer_def)
  note unf = sstable_reader_new_def throw_if_def Let_def kSstHeaderSize_def kFooterSize_def
  obtain r1 s1 where c1: "checked_file_size path s = (r1, s1)" by fastforce
  have r1: "r1 = Inr bs" using run path c1 f checked_file_sizeD(1) [of path s _ s1] by (cases r1) (auto simp: unf)
  obtain r2 s2 where c2: "sys_call (SystemError ''failed to open SSTable file'') s1 = (r2, s2)" by fastforce
  have r2: "r2 = Inr ()" using run path c1 r1 c2 by (cases r2) (simp_all add: unf split: if_splits)
  obtain r3 s3 where c3: "sst_read_exact bs 0 56 s2 = (r3, s3)" by fastforce
  have "r3 \<noteq> Inl x" for x using run path c1 r1 c2 r2 c3 by (auto simp: unf split: if_splits)
  then have r3: "r3 = Inr (serialize_header h)"
    using c3 sst_read_exact_Inr(1) [of bs 0 56 s2 _ s3, OF _ small] spans(1) by (cases r3) auto
  obtain r4 s4 where c4: "sst_read_exact bs (of_nat (length bs) - 64) 64 s3 = (r4, s4)" by fastforce
  have "r4 \<noteq> Inl x" for x using run path c1 r1 c2 r2 c3 r3 c4 hb by (auto simp: unf split: if_splits)
  then have r4: "r4 = Inr (serialize_footer ft)"
    using c4 sst_read_exact_Inr(1) [of bs "of_nat (length bs) - 64" 64 s3 _ s4, OF _ small] spans(2) sizes(3) by (cases r4) auto
  obtain r5 s5 where c5: "sst_read_exact bs (ft_index_offset ft) (unat (ft_index_size ft)) s4 = (r5, s5)" by fastforce
  have "r5 \<noteq> Inl x" for x
    using run path c1 r1 c2 r2 c3 r3 c4 r4 c5 hb fb checks agree by (auto simp: unf split: if_splits)
  then have r5: "r5 = Inr ei"
    using c5 sst_read_exact_Inr(1) [of bs "ft_index_offset ft" "length ei" s4 _ s5, OF _ small] spans(3) sizes(4,5) by (cases r5) auto
  have result: "sstable_reader_new path c bloom s = (Inr (image_reader path c bloom h bs index ft),
      s5\<lparr>st_lookup_statistics := (st_lookup_statistics s5)(lexically_normal path := (0, 0))\<rparr>)"
    using path c1 r1 c2 r2 c3 r3 c4 r4 c5 r5 hb fb checks agree iok rng cnt
    by (simp add: unf image_reader_def)
  with run show "r = image_reader path c bloom h bs index ft" by simp
  obtain e1 where e1: "s1 = s\<lparr>w_events := e1\<rparr>" using checked_file_sizeD(2) [OF c1 [unfolded r1]] by blast
  obtain e2 where e2: "s2 = s1\<lparr>w_events := e2\<rparr>" using sys_call_events [OF c2] by blast
  obtain e3 where e3: "s3 = s2\<lparr>w_events := e3\<rparr>" using sst_read_exact_Inr(2) [OF c3 [unfolded r3] small] by blast
  obtain e4 where e4: "s4 = s3\<lparr>w_events := e4\<rparr>" using sst_read_exact_Inr(2) [OF c4 [unfolded r4] small] by blast
  obtain e5 where e5: "s5 = s4\<lparr>w_events := e5\<rparr>" using sst_read_exact_Inr(2) [OF c5 [unfolded r5] small] by blast
  have "s5 = s\<lparr>w_events := e5\<rparr>" by (simp add: e1 e2 e3 e4 e5)
  with result run
  show "\<exists>evs. s' = s\<lparr>w_events := evs, st_lookup_statistics := (st_lookup_statistics s)(lexically_normal path := (0, 0))\<rparr>"
    by auto
qed

lemma sstable_reader_new_reliable:
  assumes img: "written_image h body index ei bs ft" and f: "fs_files (w_fs s) path = Some f" "df_contents f = bs"
    and path: "path \<noteq> []" and io: "w_events s = []"
  shows "\<exists>r s'. sstable_reader_new path c bloom s = (Inr r, s') \<and> w_events s' = []"
proof -
  note sizes = written_image_sizes [OF img] and spans = written_image_spans [OF img]
    and checks = written_image_checks [OF img]
  have small: "length bs < 2 ^ 63" and hok: "valid_header h" and fok: "valid_footer ft"
    and iok: "\<forall>off. parse_index_block ei off = Inr index"
    and rng: "check_index_ranges (ft_index_offset ft) 56 index = Inr (ft_index_offset ft)"
    and cnt: "of_nat (length index) = (ucast (hd_block_count h) :: u64)" and ft: "ft = table_footer h (56 + length body) (length ei)"
    using img unfolding sizes(6) unfolding written_image_def by blast+
  have hb: "parse_header (serialize_header h) 0 = Inr h" by (rule parse_serialize_header [OF hok])
  have fb: "parse_footer (serialize_footer ft) off = Inr ft" for off by (rule parse_serialize_footer [OF fok])
  have agree: "hd_entry_count h = ft_entry_count ft" "hd_block_count h = ft_block_count ft"
    "hd_min_sequence_number h = ft_min_sequence_number ft" "hd_max_sequence_number h = ft_max_sequence_number ft"
    by (simp_all add: ft table_footer_def)
  have read: "sst_read_exact bs pos n s = (Inr (subspan (unat pos) n bs), s)" if "unat pos + n \<le> length bs" for pos n
    using sst_read_exact_benign [of s pos n bs] that small io by auto
  have c1: "checked_file_size path s = (Inr bs, s)"
    using f by (simp add: checked_file_size_def sys_call_reliable [OF io])
  have c3: "sst_read_exact bs 0 56 s = (Inr (serialize_header h), s)" using read [of 0 56] sizes(1) spans(1) by simp
  have c4: "sst_read_exact bs (of_nat (length bs) - 64) 64 s = (Inr (serialize_footer ft), s)"
    using read [of "of_nat (length bs) - 64" 64] sizes(1,3) spans(2) by simp
  have c5: "sst_read_exact bs (ft_index_offset ft) (unat (ft_index_size ft)) s = (Inr ei, s)"
    using read [of "ft_index_offset ft" "unat (ft_index_size ft)"] sizes(1,4,5) spans(3) by simp
  show ?thesis
    using path c1 c3 c4 c5 hb fb checks agree iok rng cnt sys_call_reliable [OF io] io
    by (simp add: sstable_reader_new_def throw_if_def Let_def kSstHeaderSize_def kFooterSize_def)
qed

text \<open>A reader that agrees with written metadata and finds all written blocks.\<close>

definition opened_as :: "sstable_reader \<Rightarrow> bytes \<Rightarrow> bool \<Rightarrow> bloom_filter option \<Rightarrow> sstable_metadata \<Rightarrow> bytes \<Rightarrow> data_block list \<Rightarrow> bool" where
  "opened_as r path c bloom md bs blocks \<longleftrightarrow> rd_path r = path \<and> rd_cache_table_id r = lexically_normal path \<and> rd_data r = bs \<and>
     rd_uses_cache r = c \<and> rd_bloom_filter r = bloom \<and> rd_metadata r = md \<and> distinct (map ie_block_offset (rd_index r)) \<and>
     list_all2 (block_at bs) (rd_index r) blocks"

lemma sum_record_sizes: "20 * length rs \<le> sum_list (map encoded_record_size rs)"
  by (induction rs) (simp_all add: encoded_record_size_def kRecordFixedSize_def)

lemma table_written_image:
  assumes written: "table_written entries options md bs" and valid: "valid_snapshot entries" and small: "length bs < 2 ^ 63"
  shows "\<exists>h body index ei ft. written_image h body index ei bs ft \<and>
    (\<forall>c bloom. opened_as (image_reader (wo_output_path options) c bloom h bs index ft) (wo_output_path options) c bloom md bs
      (table_blocks entries options)) \<and> length entries < 2 ^ 63"
proof -
  let ?blocks = "table_blocks entries options" and ?path = "wo_output_path options"
  from written obtain mn mx target h where path: "?path \<noteq> []" and ne: "entries \<noteq> []" and nb: "length ?blocks < 2 ^ 32"
    and scan: "scan_entries [] (- 1) 0 entries = Inr (mn, mx)"
    and h: "h = \<lparr>hd_generation = wo_generation options, hd_entry_count = of_nat (length entries),
          hd_block_count = of_nat (length ?blocks), hd_target_data_block_bytes = target,
          hd_min_sequence_number = mn, hd_max_sequence_number = mx\<rparr>"
    and image: "table_image h ?blocks = Inr bs"
    and md: "md = \<lparr>md_path = ?path, md_generation = wo_generation options, md_entry_count = of_nat (length entries),
          md_block_count = of_nat (length ?blocks), md_min_sequence_number = mn, md_max_sequence_number = mx,
          md_smallest_key = fst (hd entries), md_largest_key = fst (last entries), md_level = Level0\<rparr>"
    unfolding table_written_def by blast
  note tb = table_blocks_facts [where options = options, OF ne]
  from table_image_parts [OF image] obtain body index ei where
    layout: "layout_blocks kSstHeaderSize ?blocks = Inr (body, index)" and ei: "serialize_index_block index = Inr ei"
    and bs: "bs = serialize_header h @ body @ ei @ serialize_footer (table_footer h (56 + length body) (length ei))" .
  define ft where "ft = table_footer h (56 + length body) (length ei)"
  have len: "length bs = 120 + length body + length ei" by (simp add: bs)
  have layout': "layout_blocks (length (serialize_header h)) ?blocks = Inr (body, index)"
    using layout by (simp add: kSstHeaderSize_def)
  have at: "list_all2 (block_at bs) index ?blocks"
    using layout_blocks_block_at [OF layout', of "ei @ serialize_footer ft"] small len by (simp add: bs ft_def)
  have blk: "db_records b \<noteq> [] \<and> length (db_records b) < 2 ^ 32" if "b \<in> set ?blocks" for b
  proof -
    from at that obtain ie where "block_at bs ie b" by (metis in_set_conv_nth list_all2_conv_all_nth)
    then obtain e where "serialize_data_block b = Inr e" by (auto simp: block_at_def)
    then show ?thesis by (auto elim: serialize_data_blockD)
  qed
  have "valid_snapshot (all_records ?blocks)" using valid by simp
  then obtain out where out: "serialize_index_entries [] index = Inr out" "\<forall>e\<in>set index. valid_index_entry e"
    and body: "length body = 16 * length ?blocks + sum_list (map encoded_record_size entries)"
    using layout_blocks_valid [of ?blocks "[]" kSstHeaderSize] blk layout by auto
  have "20 * length entries \<le> length body" using sum_record_sizes [of entries] body by simp
  then have n: "length entries < 2 ^ 63" using small len by simp
  then have ec: "unat (of_nat (length entries) :: u64) = length entries" by (simp add: unat_of_nat_u64)
  have bc: "unat (of_nat (length ?blocks) :: u32) = length ?blocks"
    using nb by (simp add: unat_of_nat take_bit_nat_eq_self)
  have ei_ne: "unat (of_nat (length ei) :: u64) = length ei" using small len by (simp add: unat_of_nat_u64)
  have ei_len: "0 < length ei" using ei by (auto simp: serialize_index_block_def Let_def result_simps sst_append kIndexMagic_def str_def split: if_splits)
  have "\<forall>r\<in>set entries. valid_entry r" using valid by (simp add: valid_snapshot_def)
  note sq = scan_entries_sequences [OF scan ne this]
  have nz: "(of_nat (length entries) :: u64) \<noteq> 0" "(of_nat (length ?blocks) :: u32) \<noteq> 0" "(of_nat (length ei) :: u64) \<noteq> 0"
    using ec bc ei_ne ei_len ne tb(1) by (auto simp: unat_eq_zero [symmetric] simp del: unat_eq_zero)
  have hok: "valid_header h" using nz sq by (simp add: valid_header_def h)
  have fok: "valid_footer ft" using nz sq by (simp add: valid_footer_def ft_def table_footer_def h)
  have iok: "\<forall>off. parse_index_block ei off = Inr index" using parse_serialize_index_block [OF ei out(2)] by blast
  note rg = layout_blocks_ranges [OF layout, of "56 + length body"]
  have rng: "check_index_ranges (of_nat (56 + length body)) 56 index = Inr (of_nat (56 + length body))"
    using rg(1) small len by (simp add: kSstHeaderSize_def)
  have dist: "distinct (map ie_block_offset index)" using rg(3) small len by (simp add: kSstHeaderSize_def)
  have cnt: "of_nat (length index) = (ucast (hd_block_count h) :: u64)"
    using layout_blocks_length [OF layout] bc nb by (simp add: h word_unat_eq_iff unsigned_ucast_eq unat_of_nat take_bit_nat_eq_self)
  have img: "written_image h body index ei bs ft"
    unfolding written_image_def using bs ft_def small hok fok iok rng cnt by blast
  have "index \<noteq> []" using layout_blocks_length [OF layout] tb(1) by auto
  then have keys: "ie_first_key (hd index) = fst (hd entries)" "ie_last_key (last index) = fst (last entries)"
    using layout_keys [OF at] tb(1) blk hd_all_records [of ?blocks] last_all_records [of ?blocks]
    by (metis all_records_table_blocks first_key_def hd_map, metis all_records_table_blocks last_key_def last_map)
  have "opened_as (image_reader ?path c bloom h bs index ft) ?path c bloom md bs ?blocks" for c bloom
    using dist at keys by (simp add: opened_as_def image_reader_def md h)
  with img n show ?thesis by blast
qed

section \<open>Reading back what was written\<close>

text \<open>A source of blocks for one more table under a fresh identifier.\<close>

definition extend_source :: "sstable_reader \<Rightarrow> data_block list \<Rightarrow> (cache_key \<rightharpoonup> data_block) \<Rightarrow> cache_key \<rightharpoonup> data_block" where
  "extend_source r bs src = (\<lambda>(table, off). if table = rd_cache_table_id r
     then map_of (zip (map ie_block_offset (rd_index r)) bs) off else src (table, off))"

lemma source_knows_extend:
  assumes "opened_as r path c bloom md data bs"
  shows "source_knows (extend_source r bs src) r bs"
proof -
  have len: "length (rd_index r) = length bs" and dist: "distinct (map ie_block_offset (rd_index r))"
    using assms by (auto simp: opened_as_def dest: list_all2_lengthD)
  have "map_of (zip (map ie_block_offset (rd_index r)) bs) (map ie_block_offset (rd_index r) ! i) = Some (bs ! i)"
    if "i < length bs" for i
    using that len dist by (intro map_of_zip_nth) simp_all
  then show ?thesis using len by (simp add: source_knows_def list_all2_conv_all_nth extend_source_def)
qed

lemma source_knows_other:
  "rd_cache_table_id r' \<noteq> rd_cache_table_id r \<Longrightarrow> source_knows src r' bs' \<Longrightarrow> source_knows (extend_source r bs src) r' bs'"
  by (simp add: source_knows_def extend_source_def)

lemma opened_as_holds:
  assumes "opened_as r path c bloom md bs (table_blocks entries options)" and "table_written entries options md bs"
    and "valid_snapshot entries" and "length bs < 2 ^ 63" and "length entries < 2 ^ 64"
    and "\<forall>f k. bloom = Some f \<and> k \<in> fst ` set entries \<longrightarrow> may_contain f k"
  shows "reader_holds r (table_blocks entries options)"
proof -
  have ne: "entries \<noteq> []" using assms(2) by (simp add: table_written_def)
  note tb = table_blocks_facts [where options = options, OF ne]
  have "md_entry_count md = of_nat (length entries) \<and> md_smallest_key md = fst (hd entries) \<and> md_largest_key md = fst (last entries)"
    using assms(2) by (auto simp: table_written_def)
  then show ?thesis
    using assms tb by (simp add: reader_holds_def opened_as_def)
qed

lemma open_written_table:
  assumes written: "table_written entries options md bs" and valid: "valid_snapshot entries" and small: "length bs < 2 ^ 63"
    and f: "fs_files (w_fs s) (wo_output_path options) = Some (whole_file bs)"
  shows "sstable_reader_new (wo_output_path options) c bloom s = (Inr r, s') \<Longrightarrow>
      opened_as r (wo_output_path options) c bloom md bs (table_blocks entries options) \<and> length entries < 2 ^ 63 \<and>
      (\<exists>evs. s' = s\<lparr>w_events := evs, st_lookup_statistics :=
        (st_lookup_statistics s)(lexically_normal (wo_output_path options) := (0, 0))\<rparr>)"
    and "w_events s = [] \<Longrightarrow> \<exists>r s'. sstable_reader_new (wo_output_path options) c bloom s = (Inr r, s') \<and> w_events s' = []"
proof -
  obtain h body index ei ft where img: "written_image h body index ei bs ft"
    and op: "\<And>c bloom. opened_as (image_reader (wo_output_path options) c bloom h bs index ft) (wo_output_path options) c bloom md bs
      (table_blocks entries options)" and n: "length entries < 2 ^ 63"
    using table_written_image [OF written valid small] by blast
  have path: "wo_output_path options \<noteq> []" using written by (simp add: table_written_def)
  show "opened_as r (wo_output_path options) c bloom md bs (table_blocks entries options) \<and> length entries < 2 ^ 63 \<and>
      (\<exists>evs. s' = s\<lparr>w_events := evs, st_lookup_statistics :=
        (st_lookup_statistics s)(lexically_normal (wo_output_path options) := (0, 0))\<rparr>)"
    if run: "sstable_reader_new (wo_output_path options) c bloom s = (Inr r, s')"
    using sstable_reader_new_image [OF run img f] op [of c bloom] n by simp
  show "\<exists>r s'. sstable_reader_new (wo_output_path options) c bloom s = (Inr r, s') \<and> w_events s' = []" if io: "w_events s = []"
    using sstable_reader_new_reliable [OF img f _ path io] by simp
qed

lemma table_written_small:
  assumes "table_written entries options md bs" and "valid_snapshot entries" and "length entries < 2 ^ 32"
  shows "length bs < 2 ^ 63"
proof -
  have ne: "entries \<noteq> []" using assms(1) by (simp add: table_written_def)
  from assms(1) obtain h where "table_image h (table_blocks entries options) = Inr bs" unfolding table_written_def by blast
  with table_image_valid [OF assms(2) ne assms(3), of h options]
  have "length bs \<le> 200 + 2200 * length entries + sum_list (map encoded_record_size entries)" by simp
  moreover have "sum_list (map encoded_record_size entries) \<le> length entries * 2 ^ 21"
    using assms(2) by (intro sum_list_bound encoded_record_size_bound) (simp add: valid_snapshot_def)
  ultimately have "length bs \<le> 200 + 2099352 * length entries" by simp
  also have "\<dots> \<le> 200 + 2099352 * 2 ^ 32" using assms(3) by (intro add_left_mono mult_left_mono) simp_all
  finally show ?thesis by simp
qed

text \<open>What every reader of a table answers, on top of any state its cache is coherent in.\<close>

definition answers :: "sstable_reader \<Rightarrow> snapshot \<Rightarrow> (cache_key \<rightharpoonup> data_block) \<Rightarrow> 'a storage_scheme \<Rightarrow> bool" where
  "answers r entries src s \<longleftrightarrow>
     (\<forall>k. valid_key k \<longrightarrow> (\<exists>s'. sstable_get r k s = (Inr (map_of entries k), s') \<and> cache_coherent src s')) \<and>
     (\<exists>s'. sstable_read_all r s = (Inr entries, s') \<and> cache_coherent src s')"

text \<open>C26. Reading back.  When the writer returns for valid entries, the file under the output path
  survives every crash as it is; a reader opens it on a kernel that does not fail; and every reader
  opened on it, with any Bloom filter that knows the written keys, has a source of blocks such that, in
  every state whose block cache is coherent with the source, it answers each lookup with exactly the
  written entry and scans exactly the written entries in order, under interrupted and shortened reads.\<close>

theorem sstable_write_then_read:
  fixes s0 s :: "'a storage_scheme"
  assumes written: "sstable_write entries options s0 = (Inr md, s)" and valid: "valid_snapshot entries"
    and few: "length entries < 2 ^ 32"
  shows "(\<forall>disk. fs_crash (w_fs s) disk \<longrightarrow>
      disk (wo_output_path options) = map_option df_contents (fs_files (w_fs s) (wo_output_path options))) \<and>
    (w_events s = [] \<longrightarrow> (\<exists>r s1. sstable_reader_new (wo_output_path options) c bloom s = (Inr r, s1))) \<and>
    (\<forall>r s1. sstable_reader_new (wo_output_path options) c bloom s = (Inr r, s1) \<and>
       (\<forall>f k. bloom = Some f \<and> k \<in> fst ` set entries \<longrightarrow> may_contain f k) \<longrightarrow>
       rd_metadata r = md \<and>
       (\<exists>src. \<forall>s2 :: 'a storage_scheme. cache_coherent src s2 \<and> benign_io (w_events s2) \<longrightarrow> answers r entries src s2))"
proof (intro conjI allI impI)
  let ?path = "wo_output_path options" and ?blocks = "table_blocks entries options"
  from sstable_writeD [OF written] obtain bs where tw: "table_written entries options md bs"
    and rp: "replaced ?path bs s" by blast
  have f: "fs_files (w_fs s) ?path = Some (whole_file bs)" and sync: "fs_synced (w_fs s) ?path = Some bs"
    using rp by (simp_all add: replaced_def)
  have small: "length bs < 2 ^ 63" by (rule table_written_small [OF tw valid few])
  note op = open_written_table [OF tw valid small f]
  show "disk ?path = map_option df_contents (fs_files (w_fs s) ?path)" if "fs_crash (w_fs s) disk" for disk
    using fs_crash_synced [OF that f] sync f by simp
  show "\<exists>r s1. sstable_reader_new ?path c bloom s = (Inr r, s1)" if "w_events s = []" using op(2) that by blast
  fix r s1
  assume "sstable_reader_new ?path c bloom s = (Inr r, s1) \<and>
       (\<forall>f k. bloom = Some f \<and> k \<in> fst ` set entries \<longrightarrow> may_contain f k)"
  then have run: "sstable_reader_new ?path c bloom s = (Inr r, s1)"
    and bloom: "\<forall>f k. bloom = Some f \<and> k \<in> fst ` set entries \<longrightarrow> may_contain f k" by blast+
  from op(1) [OF run] have o: "opened_as r ?path c bloom md bs ?blocks" and n: "length entries < 2 ^ 63" by blast+
  then show "rd_metadata r = md" by (simp add: opened_as_def)
  have holds: "reader_holds r ?blocks" using opened_as_holds [OF o tw valid small _ bloom] n by simp
  have "source_knows (extend_source r ?blocks Map.empty) r ?blocks" by (rule source_knows_extend [OF o])
  then have "cache_coherent (extend_source r ?blocks Map.empty) s2 \<and> benign_io (w_events s2) \<longrightarrow>
      answers r entries (extend_source r ?blocks Map.empty) s2" for s2 :: "'a storage_scheme"
    using yields_returns [OF sstable_get_yields [OF holds], of "extend_source r ?blocks Map.empty" _ s2]
      yields_returns [OF sstable_read_all_yields [OF holds], of "extend_source r ?blocks Map.empty" s2]
    unfolding answers_def all_records_table_blocks by blast
  then show "\<exists>src. \<forall>s2 :: 'a storage_scheme. cache_coherent src s2 \<and> benign_io (w_events s2) \<longrightarrow> answers r entries src s2"
    by blast
qed

definition sample_storage :: storage where
  "sample_storage = \<lparr>w_fs = \<lparr>fs_files = Map.empty, fs_synced = Map.empty, fs_names = []\<rparr>, w_events = [],
     st_abi = \<lparr>sizeof_DataBlock = 24, sizeof_Record = 72\<rparr>,
     st_cache = \<lparr>bc_capacity_bytes = 4096, bc_lru = [], bc_current_bytes = 0, bc_hits = 0, bc_misses = 0, bc_evictions = 0\<rparr>,
     st_lookup_statistics = (\<lambda>_. (0, 0))\<rparr>"

definition sample_entries :: snapshot where
  "sample_entries = [(str ''a'', \<lparr>entry_value = str ''1'', entry_sequence_number = 7, entry_deleted = False\<rparr>),
     (str ''b'', \<lparr>entry_value = [], entry_sequence_number = 9, entry_deleted = True\<rparr>)]"

lemma sample_entries_valid: "valid_snapshot sample_entries" "length sample_entries < 2 ^ 32" "sample_entries \<noteq> []"
proof -
  have "str ''a'' < str ''b''" by code_simp
  then show "valid_snapshot sample_entries"
    by (simp add: valid_snapshot_def sample_entries_def sorted_map_Cons valid_entry_def kMaxKeySize_def kMaxValueSize_def)
      (simp add: str_def)
qed (simp_all add: sample_entries_def)

lemma sample_cache_coherent: "cache_coherent src sample_storage"
  by (simp add: cache_coherent_def sample_storage_def cache_inv_def cache_lookup_def cache_find_def map_le_def dom_def)

theorem sstable_write_then_read_witness:
  "\<exists>md s r s1 s2. sstable_write sample_entries
       \<lparr>wo_output_path = str ''t.sst'', wo_target_data_block_bytes = 40, wo_generation = 3\<rparr> sample_storage = (Inr md, s) \<and>
     sstable_reader_new (str ''t.sst'') True None s = (Inr r, s1) \<and> rd_metadata r = md \<and>
     sstable_get r (str ''b'') sample_storage =
       (Inr (Some \<lparr>entry_value = [], entry_sequence_number = 9, entry_deleted = True\<rparr>), s2)"
proof -
  let ?o = "\<lparr>wo_output_path = str ''t.sst'', wo_target_data_block_bytes = 40, wo_generation = 3\<rparr>"
  have "w_events sample_storage = []" "wo_output_path ?o \<noteq> []"
    by (simp_all add: sample_storage_def str_def)
  then obtain md s where w: "sstable_write sample_entries ?o sample_storage = (Inr md, s)" and io: "w_events s = []"
    using sstable_write_reliable [OF sample_entries_valid(1,3,2)] by fastforce
  have path: "wo_output_path ?o = str ''t.sst''" by simp
  note main = sstable_write_then_read [OF w sample_entries_valid(1,2), of True None, unfolded path]
  from main io obtain r s1 where r: "sstable_reader_new (str ''t.sst'') True None s = (Inr r, s1)" by auto
  have "\<forall>f k. (None :: bloom_filter option) = Some f \<and> k \<in> fst ` set sample_entries \<longrightarrow> may_contain f k" by simp
  with main r obtain src where md: "rd_metadata r = md"
    and ans: "cache_coherent src sample_storage \<and> benign_io (w_events sample_storage) \<longrightarrow> answers r sample_entries src sample_storage"
    by blast
  have "answers r sample_entries src sample_storage" using ans sample_cache_coherent by (simp add: sample_storage_def)
  moreover have "valid_key (str ''b'')" by (simp add: kMaxKeySize_def) (simp add: str_def)
  ultimately obtain s2 where "sstable_get r (str ''b'') sample_storage = (Inr (map_of sample_entries (str ''b'')), s2)"
    unfolding answers_def by blast
  moreover have "map_of sample_entries (str ''b'') = Some \<lparr>entry_value = [], entry_sequence_number = 9, entry_deleted = True\<rparr>"
    by code_simp
  ultimately show ?thesis using w r md by auto
qed

end
