(* ===== verification/Decoder.thy ===== *)
theory Decoder
  imports Checksum
begin

text \<open>
  The two sequential decoders of the program (the class \<open>Decoder\<close> of \<open>src/manifest.cpp\<close> and that of
  \<open>src/raft/serialization.hpp\<close>): bounds-checked reads that advance a position.  The state is what is
  left of the input.  The message of the exception is a parameter, as the two classes differ in it.
\<close>

section \<open>Reads\<close>

definition dec_require :: "error \<Rightarrow> nat \<Rightarrow> (bytes, unit) effect" where
  "dec_require e n rest = (if n > length rest then (Inl e, rest) else (Inr (), rest))"

definition dec_advance :: "nat \<Rightarrow> (bytes, bytes) effect" where
  "dec_advance n rest = (Inr (take n rest), drop n rest)"

definition dec_bytes :: "error \<Rightarrow> nat \<Rightarrow> (bytes, bytes) effect" where
  "dec_bytes e n = bind_effect (dec_require e n) (\<lambda>_. dec_advance n)"

definition dec_uint8 :: "error \<Rightarrow> (bytes, byte) effect" where
  "dec_uint8 e = bind_effect (dec_bytes e 1) (\<lambda>bs. lift_result (Inr (le_value 1 bs)))"

definition dec_uint16 :: "error \<Rightarrow> (bytes, u16) effect" where
  "dec_uint16 e = bind_effect (dec_bytes e 2) (\<lambda>bs. lift_result (Inr (le_value 2 bs)))"

definition dec_uint32 :: "error \<Rightarrow> (bytes, u32) effect" where
  "dec_uint32 e = bind_effect (dec_bytes e 4) (\<lambda>bs. lift_result (Inr (le_value 4 bs)))"

definition dec_uint64 :: "error \<Rightarrow> (bytes, u64) effect" where
  "dec_uint64 e = bind_effect (dec_bytes e 8) (\<lambda>bs. lift_result (Inr (le_value 8 bs)))"

text \<open>Rejecting what was read.\<close>

definition dec_check :: "bool \<Rightarrow> error \<Rightarrow> (bytes, unit) effect" where
  "dec_check bad e = lift_result (throw_if bad e)"

section \<open>Decoding what was encoded\<close>

definition decodes :: "(bytes, 'a) effect \<Rightarrow> bytes \<Rightarrow> 'a \<Rightarrow> bool" where
  "decodes dec enc x \<longleftrightarrow> (\<forall>rest. dec (enc @ rest) = (Inr x, rest))"

named_theorems decode_intros \<open>decoders undo encoders\<close>

lemma decodes_bind:
  assumes "decodes dec enc x" and "decodes (f x) enc' y"
  shows "decodes (bind_effect dec f) (enc @ enc') y"
  using assms by (simp add: decodes_def)

lemma decodes_return [decode_intros]: "decodes (lift_result (Inr x)) [] x"
  by (simp add: decodes_def)

lemma decodes_check [decode_intros]: "\<not> bad \<Longrightarrow> decodes (dec_check bad e) [] ()"
  by (simp add: decodes_def dec_check_def throw_if_def)

lemma decodes_bytes: "decodes (dec_bytes e (length bs)) bs bs"
  by (simp add: decodes_def dec_bytes_def dec_require_def dec_advance_def bind_effect_def)

lemma decodes_bytes' [decode_intros]: "n = length bs \<Longrightarrow> decodes (dec_bytes e n) bs bs"
  by (simp add: decodes_bytes)

lemma decodes_uint [decode_intros]:
  "decodes (dec_uint8 e) (le_bytes 1 (v8 :: byte)) v8"
  "decodes (dec_uint16 e) (le_bytes 2 (v16 :: u16)) v16"
  "decodes (dec_uint32 e) (le_bytes 4 (v32 :: u32)) v32"
  "decodes (dec_uint64 e) (le_bytes 8 (v64 :: u64)) v64"
  by (simp_all add: decodes_def dec_uint8_def dec_uint16_def dec_uint32_def dec_uint64_def dec_bytes_def dec_require_def
      dec_advance_def bind_effect_def le_value_le_bytes)

lemma decodesD: "decodes dec enc x \<Longrightarrow> dec enc = (Inr x, [])"
  by (auto simp: decodes_def dest: spec [of _ "[]"])

lemma decodes_append: "decodes dec enc x \<Longrightarrow> dec (enc @ rest) = (Inr x, rest)"
  by (simp add: decodes_def)

end
