(* ===== verification/Manifest.thy ===== *)
theory Manifest
  imports SSTableWriter Decoder
begin

text \<open>
  \<open>ManifestManager\<close> (\<open>src/manifest.cpp\<close>): the set of live tables is a versioned file
  \<open>MANIFEST-<generation>\<close>, and the file \<open>CURRENT\<close> names the version in force.  Both are replaced as
  a whole.  The manager's own fields are passed in and out; an exception leaves them as they were.
\<close>

section \<open>Data\<close>

record manifest_snapshot =
  mf_generation :: u64
  mf_next_file_id :: u64
  mf_tables :: "sstable_metadata list"

record manifest_manager =
  mm_directory :: bytes
  mm_current_generation :: u64
  mm_active_manifest_path :: bytes

definition kManifestMagic :: bytes where
  "kManifestMagic = str ''NBLMAN01''"

definition kCurrentMagic :: bytes where
  "kCurrentMagic = str ''NBLCUR01''"

definition kManifestVersion :: u16 where
  "kManifestVersion = 1"

definition kMaximumMetadataFileBytes :: nat where
  "kMaximumMetadataFileBytes = 64 * 1024 * 1024"

definition kMaximumManifestTables :: nat where
  "kMaximumManifestTables = 2 ^ 20"

definition kMaximumFilenameBytes :: nat where
  "kMaximumFilenameBytes = 4096"

section \<open>Encoding\<close>

text \<open>\<open>std::filesystem::path\<close> queries: the last component, and whether a path is more than it.\<close>

definition path_filename :: "bytes \<Rightarrow> bytes" where
  "path_filename p = rev (takeWhile (\<lambda>b. b \<noteq> slash) (rev p))"

definition is_absolute :: "bytes \<Rightarrow> bool" where
  "is_absolute p \<longleftrightarrow> p \<noteq> [] \<and> hd p = slash"

definition has_parent_path :: "bytes \<Rightarrow> bool" where
  "has_parent_path p \<longleftrightarrow> parent_path p \<noteq> []"

definition text_of :: "bytes \<Rightarrow> string" where
  "text_of bs = map (\<lambda>b. char_of (unat b)) bs"

definition checked_uint32 :: "nat \<Rightarrow> string \<Rightarrow> u32 result" where
  "checked_uint32 value message =
     (if value > unat (- 1 :: u32) then Inl (LengthError message) else Inr (of_nat value))"

definition append_checksum :: "bytes \<Rightarrow> bytes" where
  "append_checksum bs = bs @ le_bytes 4 (crc32 bs)"

definition verified_payload :: "bytes \<Rightarrow> bytes result" where
  "verified_payload bs =
     (if length bs < 4 then Inl (RuntimeError ''metadata file is too small'')
      else let payload_size = length bs - 4;
               expected = le_value 4 (drop payload_size bs);
               payload = take payload_size bs
           in if crc32 payload \<noteq> expected then Inl (RuntimeError ''metadata checksum mismatch'')
              else Inr payload)"

definition serialize_current :: "bytes \<Rightarrow> bytes result" where
  "serialize_current manifest_filename =
     (if manifest_filename = [] \<or> length manifest_filename > kMaximumFilenameBytes
      then Inl (InvalidArgument ''manifest filename is invalid'')
      else bind_result (checked_uint32 (length manifest_filename) ''manifest filename is too large'') (\<lambda>n.
        Inr (append_checksum (kCurrentMagic @ le_bytes 2 kManifestVersion @ le_bytes 2 (0 :: u16) @
          le_bytes 4 n @ manifest_filename))))"

definition level_byte :: "sstable_level \<Rightarrow> byte" where
  "level_byte level = (case level of Level0 \<Rightarrow> 0 | Level1 \<Rightarrow> 1)"

fun serialize_tables :: "bytes list \<Rightarrow> sstable_metadata list \<Rightarrow> bytes result" where
  "serialize_tables filenames [] = Inr []"
| "serialize_tables filenames (t # ts) =
     (let filename = path_filename (md_path t) in
      if filename = [] \<or> length filename > kMaximumFilenameBytes \<or> is_absolute (md_path t) \<or> has_parent_path (md_path t)
      then Inl (InvalidArgument ''manifest SSTable path must be a filename'')
      else if filename \<in> set filenames
      then Inl (InvalidArgument ''manifest contains duplicate SSTable filenames'')
      else if md_smallest_key t = [] \<or> md_largest_key t = [] \<or> md_smallest_key t > md_largest_key t
      then Inl (InvalidArgument ''manifest contains an invalid SSTable key range'')
      else bind_result (checked_uint32 (length filename) ''SSTable filename is too large'') (\<lambda>filename_size.
      bind_result (checked_uint32 (length (md_smallest_key t)) ''SSTable smallest key is too large'') (\<lambda>smallest_size.
      bind_result (checked_uint32 (length (md_largest_key t)) ''SSTable largest key is too large'') (\<lambda>largest_size.
      bind_result (serialize_tables (filename # filenames) ts) (\<lambda>rest.
      Inr (le_bytes 1 (level_byte (md_level t)) @ le_bytes 1 (0 :: byte) @ le_bytes 2 (0 :: u16) @
        le_bytes 8 (md_generation t) @ le_bytes 8 (md_entry_count t) @ le_bytes 4 (md_block_count t) @
        le_bytes 8 (md_min_sequence_number t) @ le_bytes 8 (md_max_sequence_number t) @
        le_bytes 4 filename_size @ le_bytes 4 smallest_size @ le_bytes 4 largest_size @
        filename @ md_smallest_key t @ md_largest_key t @ rest))))))"

definition serialize_manifest :: "manifest_snapshot \<Rightarrow> bytes result" where
  "serialize_manifest m =
     (if mf_generation m = 0 \<or> mf_next_file_id m = 0
      then Inl (InvalidArgument ''manifest counters must be non-zero'')
      else if length (mf_tables m) > kMaximumManifestTables
      then Inl (LengthError ''manifest contains too many SSTables'')
      else bind_result (checked_uint32 (length (mf_tables m)) ''manifest table count is too large'') (\<lambda>count.
      bind_result (serialize_tables [] (mf_tables m)) (\<lambda>body.
      Inr (append_checksum (kManifestMagic @ le_bytes 2 kManifestVersion @ le_bytes 2 (0 :: u16) @
        le_bytes 8 (mf_generation m) @ le_bytes 8 (mf_next_file_id m) @ le_bytes 4 count @ le_bytes 4 (0 :: u32) @ body)))))"

section \<open>Decoding\<close>

definition truncated :: error where
  "truncated = RuntimeError ''metadata file is truncated''"

definition expect_magic :: "bytes \<Rightarrow> (bytes, unit) effect" where
  "expect_magic magic =
     bind_effect (dec_require truncated (length magic)) (\<lambda>_ rest.
       if take (length magic) rest \<noteq> magic
       then (Inl (RuntimeError ''metadata file has an invalid magic value''), rest)
       else (Inr (), drop (length magic) rest))"

definition at_end :: "string \<Rightarrow> (bytes, unit) effect" where
  "at_end message rest = (if rest \<noteq> [] then Inl (RuntimeError message) else Inr (), rest)"

definition manifest_prefix :: bytes where
  "manifest_prefix = str ''MANIFEST-''"

definition decode_current :: "(bytes, bytes) effect" where
  "decode_current =
     bind_effect (expect_magic kCurrentMagic) (\<lambda>_.
     bind_effect (dec_uint16 truncated) (\<lambda>version.
     bind_effect (dec_check (version \<noteq> kManifestVersion)
       (RuntimeError ''CURRENT references an unsupported metadata version'')) (\<lambda>_.
     bind_effect (dec_uint16 truncated) (\<lambda>flags.
     bind_effect (dec_check (flags \<noteq> 0) (RuntimeError ''CURRENT contains unsupported flags'')) (\<lambda>_.
     bind_effect (dec_uint32 truncated) (\<lambda>size.
     bind_effect (dec_check (size = 0 \<or> unat size > kMaximumFilenameBytes)
       (RuntimeError ''CURRENT contains an invalid manifest filename length'')) (\<lambda>_.
     bind_effect (dec_bytes truncated (unat size)) (\<lambda>filename.
     bind_effect (at_end ''CURRENT contains trailing data'') (\<lambda>_.
     bind_effect (dec_check (is_absolute filename \<or> has_parent_path filename \<or> \<not> prefix manifest_prefix filename)
       (RuntimeError ''CURRENT contains an unsafe manifest filename'')) (\<lambda>_.
     lift_result (Inr filename)))))))))))"

definition parse_current :: "bytes \<Rightarrow> bytes result" where
  "parse_current bs = bind_result (verified_payload bs) (\<lambda>payload. fst (decode_current payload))"

definition decode_level :: "byte \<Rightarrow> sstable_level result" where
  "decode_level raw_level =
     (if raw_level = level_byte Level0 then Inr Level0
      else if raw_level = level_byte Level1 then Inr Level1
      else Inl (RuntimeError ''manifest contains an unsupported SSTable level''))"

definition decode_table :: "bytes \<Rightarrow> bytes list \<Rightarrow> (bytes, sstable_metadata \<times> bytes) effect" where
  "decode_table directory filenames =
     bind_effect (dec_uint8 truncated) (\<lambda>raw_level.
     bind_effect (dec_uint8 truncated) (\<lambda>flags8.
     bind_effect (dec_check (flags8 \<noteq> 0) (RuntimeError ''manifest table record contains unsupported flags'')) (\<lambda>_.
     bind_effect (dec_uint16 truncated) (\<lambda>flags16.
     bind_effect (dec_check (flags16 \<noteq> 0) (RuntimeError ''manifest table record contains unsupported flags'')) (\<lambda>_.
     bind_effect (lift_result (decode_level raw_level)) (\<lambda>level.
     bind_effect (dec_uint64 truncated) (\<lambda>generation.
     bind_effect (dec_uint64 truncated) (\<lambda>entry_count.
     bind_effect (dec_uint32 truncated) (\<lambda>block_count.
     bind_effect (dec_uint64 truncated) (\<lambda>min_sequence.
     bind_effect (dec_uint64 truncated) (\<lambda>max_sequence.
     bind_effect (dec_uint32 truncated) (\<lambda>filename_size.
     bind_effect (dec_uint32 truncated) (\<lambda>smallest_size.
     bind_effect (dec_uint32 truncated) (\<lambda>largest_size.
     bind_effect (dec_check (filename_size = 0 \<or> unat filename_size > kMaximumFilenameBytes \<or> smallest_size = 0 \<or> largest_size = 0)
       (RuntimeError ''manifest contains invalid variable-length fields'')) (\<lambda>_.
     bind_effect (dec_bytes truncated (unat filename_size)) (\<lambda>filename.
     bind_effect (dec_check (is_absolute filename \<or> has_parent_path filename \<or> filename \<in> set filenames)
       (RuntimeError ''manifest contains an unsafe or duplicate SSTable filename'')) (\<lambda>_.
     bind_effect (dec_bytes truncated (unat smallest_size)) (\<lambda>smallest.
     bind_effect (dec_bytes truncated (unat largest_size)) (\<lambda>largest.
     bind_effect (dec_check (smallest > largest \<or> entry_count = 0 \<or> block_count = 0 \<or> min_sequence = 0 \<or> min_sequence > max_sequence)
       (RuntimeError ''manifest contains invalid SSTable metadata'')) (\<lambda>_.
     lift_result (Inr
       (\<lparr>md_path = path_join directory filename, md_generation = generation, md_entry_count = entry_count,
         md_block_count = block_count, md_min_sequence_number = min_sequence, md_max_sequence_number = max_sequence,
         md_smallest_key = smallest, md_largest_key = largest, md_level = level\<rparr>, filename))))))))))))))))))))))"

fun decode_tables :: "bytes \<Rightarrow> bytes list \<Rightarrow> nat \<Rightarrow> (bytes, sstable_metadata list) effect" where
  "decode_tables directory filenames 0 rest = (Inr [], rest)"
| "decode_tables directory filenames (Suc n) rest =
     bind_effect (decode_table directory filenames) (\<lambda>(t, filename).
     bind_effect (decode_tables directory (filename # filenames) n) (\<lambda>ts. lift_result (Inr (t # ts)))) rest"

definition decode_manifest :: "bytes \<Rightarrow> (bytes, manifest_snapshot) effect" where
  "decode_manifest directory =
     bind_effect (expect_magic kManifestMagic) (\<lambda>_.
     bind_effect (dec_uint16 truncated) (\<lambda>version.
     bind_effect (dec_check (version \<noteq> kManifestVersion) (RuntimeError ''manifest uses an unsupported version'')) (\<lambda>_.
     bind_effect (dec_uint16 truncated) (\<lambda>flags.
     bind_effect (dec_check (flags \<noteq> 0) (RuntimeError ''manifest contains unsupported flags'')) (\<lambda>_.
     bind_effect (dec_uint64 truncated) (\<lambda>generation.
     bind_effect (dec_uint64 truncated) (\<lambda>next_file_id.
     bind_effect (dec_uint32 truncated) (\<lambda>table_count.
     bind_effect (dec_uint32 truncated) (\<lambda>header_flags.
     bind_effect (dec_check (header_flags \<noteq> 0) (RuntimeError ''manifest header contains unsupported flags'')) (\<lambda>_.
     bind_effect (dec_check (generation = 0 \<or> next_file_id = 0 \<or> unat table_count > kMaximumManifestTables)
       (RuntimeError ''manifest header contains invalid counters'')) (\<lambda>_.
     bind_effect (decode_tables directory [] (unat table_count)) (\<lambda>tables.
     bind_effect (at_end ''manifest contains trailing data'') (\<lambda>_.
     lift_result (Inr \<lparr>mf_generation = generation, mf_next_file_id = next_file_id, mf_tables = tables\<rparr>))))))))))))))"

definition parse_manifest :: "bytes \<Rightarrow> bytes \<Rightarrow> manifest_snapshot result" where
  "parse_manifest bs directory = bind_result (verified_payload bs) (\<lambda>payload. fst (decode_manifest directory payload))"

section \<open>Files\<close>

definition meta_read_file :: "bytes \<Rightarrow> ('a world_scheme, bytes) effect" where
  "meta_read_file path =
     (let open_error = RuntimeError (''failed to open metadata file: '' @ text_of path) in
     bind_effect (sys_call open_error) (\<lambda>_ w.
       case fs_files (w_fs w) path of
         None \<Rightarrow> (Inl open_error, w)
       | Some f \<Rightarrow>
           bind_effect (sys_call (RuntimeError ''failed to determine metadata file size'')) (\<lambda>_.
           bind_effect (lift_result (throw_if (length (df_contents f) > kMaximumMetadataFileBytes)
             (RuntimeError ''metadata file exceeds the supported size limit''))) (\<lambda>_.
           bind_effect (if df_contents f = [] then lift_result (Inr ())
             else sys_call (RuntimeError ''failed to read metadata file'')) (\<lambda>_.
           lift_result (Inr (df_contents f))))) w))"

definition meta_publish_errors :: publish_errors where
  "meta_publish_errors =
     \<lparr>pe_fsync = SystemError ''failed to fsync metadata file'',
      pe_close = SystemError ''failed to close metadata file'',
      pe_rename = SystemError ''filesystem error: cannot rename'',
      pe_open_directory = SystemError ''failed to open metadata directory for fsync'',
      pe_fsync_directory = SystemError ''failed to fsync metadata directory''\<rparr>"

definition atomic_write :: "bytes \<Rightarrow> bytes \<Rightarrow> ('a world_scheme, unit) effect" where
  "atomic_write path bs w =
     (let tmp = path @ str ''.tmp'' in
      bind_effect (world_create (SystemError ''failed to create temporary metadata file'') tmp) (\<lambda>_.
      removing_on_error tmp
        (bind_effect (world_write (SystemError ''failed to write metadata file'')
           (RuntimeError ''metadata write returned zero bytes'') tmp bs) (\<lambda>_.
         world_publish meta_publish_errors tmp path))) (remove_ignored tmp w))"

section \<open>The manager\<close>

text \<open>\<open>std::setw(20) << std::setfill('0')\<close>.\<close>

definition zero_padded :: "u64 \<Rightarrow> bytes" where
  "zero_padded v = (let ds = dec_digits (unat v) in str (replicate (20 - length ds) CHR ''0'' @ ds))"

definition current_path :: "manifest_manager \<Rightarrow> bytes" where
  "current_path mm = path_join (mm_directory mm) (str ''CURRENT'')"

definition manifest_name :: "u64 \<Rightarrow> bytes" where
  "manifest_name generation = manifest_prefix @ zero_padded generation"

definition manifest_path :: "manifest_manager \<Rightarrow> u64 \<Rightarrow> bytes" where
  "manifest_path mm generation = path_join (mm_directory mm) (manifest_name generation)"

definition manifest_manager_new :: "bytes \<Rightarrow> ('a world_scheme, manifest_manager) effect" where
  "manifest_manager_new directory =
     bind_effect (lift_result (throw_if (directory = []) (InvalidArgument ''manifest directory must not be empty''))) (\<lambda>_.
     bind_effect (sys_call (SystemError ''filesystem error: cannot create directories'')) (\<lambda>_.
     lift_result (Inr \<lparr>mm_directory = directory, mm_current_generation = 0, mm_active_manifest_path = []\<rparr>)))"

definition exists_file :: "bytes \<Rightarrow> 'a world_scheme \<Rightarrow> bool" where
  "exists_file path w \<longleftrightarrow> fs_files (w_fs w) path \<noteq> None"

definition directory_files :: "bytes \<Rightarrow> 'a world_scheme \<Rightarrow> bytes list" where
  "directory_files dir w = filter (in_directory dir) (fs_names (w_fs w))"

text \<open>\<open>extension\<close> and \<open>stem\<close> of the last component.\<close>

definition path_extension :: "bytes \<Rightarrow> bytes" where
  "path_extension p =
     (let n = path_filename p; ext = rev (takeWhile (\<lambda>b. b \<noteq> 46) (rev n)) in
      if n = dot \<or> n = dotdot \<or> 46 \<notin> set n \<or> length ext + 1 = length n then [] else 46 # ext)"

definition path_stem :: "bytes \<Rightarrow> bytes" where
  "path_stem p = (let n = path_filename p in take (length n - length (path_extension p)) n)"

definition is_versioned_manifest :: "bytes \<Rightarrow> bool" where
  "is_versioned_manifest p \<longleftrightarrow> prefix manifest_prefix (path_filename p) \<and> path_extension p \<noteq> str ''.tmp''"

definition manifest_load :: "manifest_manager \<Rightarrow> ('a world_scheme, manifest_manager \<times> manifest_snapshot option) effect" where
  "manifest_load mm w =
     (if \<not> exists_file (current_path mm) w
      then if list_ex is_versioned_manifest (directory_files (mm_directory mm) w)
        then (Inl (RuntimeError ''CURRENT is missing while versioned manifests are present''), w)
        else (Inr (mm, None), w)
      else
        bind_effect (meta_read_file (current_path mm)) (\<lambda>current_bytes.
        bind_effect (lift_result (parse_current current_bytes)) (\<lambda>filename w.
        let path = path_join (mm_directory mm) filename in
        if \<not> exists_file path w
        then (Inl (RuntimeError (''CURRENT references a missing manifest: '' @ text_of path)), w)
        else bind_effect (meta_read_file path) (\<lambda>manifest_bytes.
        bind_effect (lift_result (parse_manifest manifest_bytes (mm_directory mm))) (\<lambda>m w.
        if filename \<noteq> manifest_name (mf_generation m)
        then (Inl (RuntimeError ''manifest filename does not match its generation''), w)
        else case find (\<lambda>t. \<not> exists_file (md_path t) w) (mf_tables m) of
          Some t \<Rightarrow> (Inl (RuntimeError (''manifest references a missing SSTable: '' @ text_of (md_path t))), w)
        | None \<Rightarrow> (Inr (mm\<lparr>mm_current_generation := mf_generation m, mm_active_manifest_path := path\<rparr>, Some m), w))) w)) w)"

definition manifest_commit :: "manifest_manager \<Rightarrow> sstable_metadata list \<Rightarrow> u64 \<Rightarrow>
    ('a world_scheme, manifest_manager \<times> manifest_snapshot) effect" where
  "manifest_commit mm tables next_file_id =
     bind_effect (lift_result (throw_if (mm_current_generation mm = - 1)
       (OverflowError ''manifest generation space is exhausted''))) (\<lambda>_.
     let m = \<lparr>mf_generation = mm_current_generation mm + 1, mf_next_file_id = next_file_id,
              mf_tables = map (\<lambda>t. t\<lparr>md_path := path_filename (md_path t)\<rparr>) tables\<rparr>;
         path = manifest_path mm (mf_generation m)
     in
     bind_effect (lift_result (serialize_manifest m)) (\<lambda>manifest_bytes.
     bind_effect (atomic_write path manifest_bytes) (\<lambda>_.
     bind_effect (lift_result (serialize_current (path_filename path))) (\<lambda>current_bytes.
     bind_effect (atomic_write (current_path mm) current_bytes) (\<lambda>_.
     lift_result (Inr (mm\<lparr>mm_current_generation := mf_generation m, mm_active_manifest_path := path\<rparr>, m)))))))"

end
