(* ===== verification/ManifestCodec.thy ===== *)
theory ManifestCodec
  imports Manifest
begin

text \<open>
  The manifest formats round-trip: what \<open>serialize_manifest\<close> and \<open>serialize_current\<close> accept,
  \<open>parse_manifest\<close> and \<open>parse_current\<close> return, for every table list the storage engine produces.
\<close>

section \<open>Reads of encoded values\<close>

lemma dec_simps [simp]:
  "dec_uint8 e (le_bytes (Suc 0) v8 @ rest) = (Inr v8, rest)"
  "dec_uint16 e (le_bytes 2 v16 @ rest) = (Inr v16, rest)"
  "dec_uint32 e (le_bytes 4 v32 @ rest) = (Inr v32, rest)"
  "dec_uint64 e (le_bytes 8 v64 @ rest) = (Inr v64, rest)"
  "n = length bs \<Longrightarrow> dec_bytes e n (bs @ rest) = (Inr bs, rest)"
  using decodes_uint [THEN decodes_append] decodes_bytes [THEN decodes_append] by simp_all

lemma dec_check_simps [simp]:
  "\<not> bad \<Longrightarrow> dec_check bad e rest = (Inr (), rest)"
  by (simp add: dec_check_def throw_if_def)

lemma expect_magic_append [simp]: "expect_magic magic (magic @ rest) = (Inr (), rest)"
  by (simp add: expect_magic_def dec_require_def)

lemma at_end_Nil [simp]: "at_end message [] = (Inr (), [])"
  by (simp add: at_end_def)

lemma verified_payload_checksum [simp]: "verified_payload (append_checksum bs) = Inr bs"
  by (simp add: verified_payload_def append_checksum_def le_value_le_bytes Let_def)

lemma unat_of_nat_u32: "n < 2 ^ 32 \<Longrightarrow> unat (of_nat n :: u32) = n"
  by (simp add: unat_of_nat take_bit_nat_eq_self)

lemma checked_uint32_Inr: "checked_uint32 n message = Inr v \<longleftrightarrow> n < 2 ^ 32 \<and> v = of_nat n"
  by (auto simp: checked_uint32_def unat_minus_one_u32)

section \<open>File names\<close>

definition plain_name :: "bytes \<Rightarrow> bool" where
  "plain_name n \<longleftrightarrow> n \<noteq> [] \<and> slash \<notin> set n"

lemma plain_name_path:
  assumes "plain_name n"
  shows "path_filename n = n" and "\<not> is_absolute n" and "\<not> has_parent_path n"
    and "path_filename (path_join dir n) = n"
proof -
  have ns: "slash \<notin> set n" and ne: "n \<noteq> []" using assms by (simp_all add: plain_name_def)
  have "\<forall>b\<in>set (rev n). b \<noteq> slash" using ns by auto
  then have tw: "takeWhile (\<lambda>b. b \<noteq> slash) (rev n) = rev n" and dw: "dropWhile (\<lambda>b. b \<noteq> slash) (rev n) = []" by auto
  show "path_filename n = n" by (simp add: path_filename_def tw)
  have hd: "hd n \<noteq> slash" using ns ne by (cases n) auto
  then show "\<not> is_absolute n" by (simp add: is_absolute_def)
  show "\<not> has_parent_path n" using hd dw by (simp add: has_parent_path_def parent_path_def del: dropWhile_eq_Nil_conv)
  show "path_filename (path_join dir n) = n"
  proof (cases "dir = []")
    case False
    then have "\<exists>d. rev (path_join dir n) = rev n @ slash # d"
      by (cases dir rule: rev_cases) (simp_all add: path_join_def)
    then show ?thesis
      using \<open>\<forall>b\<in>set (rev n). b \<noteq> slash\<close> by (auto simp: path_filename_def takeWhile_append)
  qed (simp add: path_join_def path_filename_def tw)
qed

lemma path_filename_plain: "path_filename p \<noteq> [] \<Longrightarrow> plain_name (path_filename p)"
  by (auto simp: plain_name_def path_filename_def dest: set_takeWhileD)

lemma path_filename_no_parent:
  assumes "\<not> has_parent_path p"
  shows "path_filename p = p"
proof -
  define d where "d = dropWhile (\<lambda>b. b \<noteq> slash) (rev p)"
  have split: "rev p = takeWhile (\<lambda>b. b \<noteq> slash) (rev p) @ d" by (simp add: d_def)
  have "d = []"
  proof (rule ccontr)
    assume "d \<noteq> []"
    have "dropWhile (\<lambda>b. b = slash) d = []" and not_root: "p = [] \<or> hd p \<noteq> slash"
      using assms by (auto simp: has_parent_path_def parent_path_def d_def [symmetric] Let_def split: if_splits)
    then have "last d = slash" using \<open>d \<noteq> []\<close> by auto
    moreover have "last (rev p) = last d" using split \<open>d \<noteq> []\<close> by (metis last_appendR)
    moreover have "p \<noteq> []" using split \<open>d \<noteq> []\<close> by auto
    ultimately show False using not_root by (simp add: last_rev)
  qed
  with split show ?thesis by (simp add: path_filename_def)
qed

section \<open>Round trips\<close>

definition valid_table :: "sstable_metadata \<Rightarrow> bool" where
  "valid_table t \<longleftrightarrow> md_entry_count t \<noteq> 0 \<and> md_block_count t \<noteq> 0 \<and> md_min_sequence_number t \<noteq> 0 \<and>
     md_min_sequence_number t \<le> md_max_sequence_number t"

lemma decode_level_byte [simp]: "decode_level (level_byte l) = Inr l"
  by (cases l) (simp_all add: decode_level_def level_byte_def)

lemma decode_tables_serialized:
  assumes "serialize_tables filenames ts = Inr body" and "\<forall>t\<in>set ts. valid_table t"
  shows "decode_tables directory filenames (length ts) (body @ rest) =
    (Inr (map (\<lambda>t. t\<lparr>md_path := path_join directory (md_path t)\<rparr>) ts), rest)"
  using assms
proof (induction ts arbitrary: filenames body)
  case (Cons t ts)
  define n where "n = path_filename (md_path t)"
  from Cons.prems(1) obtain body' where
    name: "n \<noteq> []" "length n \<le> kMaximumFilenameBytes" "\<not> is_absolute (md_path t)" "\<not> has_parent_path (md_path t)"
    and new: "n \<notin> set filenames"
    and keys: "md_smallest_key t \<noteq> []" "md_largest_key t \<noteq> []" "md_smallest_key t \<le> md_largest_key t"
    and sizes: "length n < 2 ^ 32" "length (md_smallest_key t) < 2 ^ 32" "length (md_largest_key t) < 2 ^ 32"
    and rest: "serialize_tables (n # filenames) ts = Inr body'"
    and body: "body = le_bytes 1 (level_byte (md_level t)) @ le_bytes 1 (0 :: byte) @ le_bytes 2 (0 :: u16) @
        le_bytes 8 (md_generation t) @ le_bytes 8 (md_entry_count t) @ le_bytes 4 (md_block_count t) @
        le_bytes 8 (md_min_sequence_number t) @ le_bytes 8 (md_max_sequence_number t) @
        le_bytes 4 (of_nat (length n) :: u32) @ le_bytes 4 (of_nat (length (md_smallest_key t)) :: u32) @
        le_bytes 4 (of_nat (length (md_largest_key t)) :: u32) @ n @ md_smallest_key t @ md_largest_key t @ body'"
    by (auto simp: n_def Let_def result_simps checked_uint32_Inr split: if_splits)
  have plain: "plain_name n" using path_filename_plain name(1) by (simp add: n_def)
  have path: "md_path t = n" using path_filename_no_parent [OF name(4)] by (simp add: n_def)
  have u: "unat (of_nat (length n) :: u32) = length n" "(of_nat (length n) :: u32) \<noteq> 0"
    "unat (of_nat (length (md_smallest_key t)) :: u32) = length (md_smallest_key t)" "(of_nat (length (md_smallest_key t)) :: u32) \<noteq> 0"
    "unat (of_nat (length (md_largest_key t)) :: u32) = length (md_largest_key t)" "(of_nat (length (md_largest_key t)) :: u32) \<noteq> 0"
    using sizes name(1) keys unat_of_nat_u32 by (auto simp: unat_eq_zero [symmetric] simp del: unat_eq_zero)
  have vt: "valid_table t" using Cons.prems(2) by simp
  have "decode_table directory filenames (body @ rest) = (Inr (t\<lparr>md_path := path_join directory n\<rparr>, n), body' @ rest)"
    using name new keys u vt plain_name_path(2,3) [OF plain]
    by (simp add: decode_table_def body valid_table_def not_less)
  moreover have "decode_tables directory (n # filenames) (length ts) (body' @ rest) =
      (Inr (map (\<lambda>t. t\<lparr>md_path := path_join directory (md_path t)\<rparr>) ts), rest)"
    using Cons.IH [OF rest] Cons.prems(2) by simp
  ultimately show ?case by (simp add: path)
qed simp

lemma parse_serialize_manifest:
  assumes "serialize_manifest m = Inr bs" and "\<forall>t\<in>set (mf_tables m). valid_table t"
  shows "parse_manifest bs directory = Inr (m\<lparr>mf_tables := map (\<lambda>t. t\<lparr>md_path := path_join directory (md_path t)\<rparr>) (mf_tables m)\<rparr>)"
proof -
  from assms(1) obtain body where counters: "mf_generation m \<noteq> 0" "mf_next_file_id m \<noteq> 0"
    and n: "length (mf_tables m) \<le> kMaximumManifestTables" and body: "serialize_tables [] (mf_tables m) = Inr body"
    and bs: "bs = append_checksum (kManifestMagic @ le_bytes 2 kManifestVersion @ le_bytes 2 (0 :: u16) @
        le_bytes 8 (mf_generation m) @ le_bytes 8 (mf_next_file_id m) @
        le_bytes 4 (of_nat (length (mf_tables m)) :: u32) @ le_bytes 4 (0 :: u32) @ body)"
    by (auto simp: serialize_manifest_def result_simps checked_uint32_Inr split: if_splits)
  have u: "unat (of_nat (length (mf_tables m)) :: u32) = length (mf_tables m)"
    using n by (simp add: unat_of_nat_u32 kMaximumManifestTables_def)
  have "decode_tables directory [] (length (mf_tables m)) body =
      (Inr (map (\<lambda>t. t\<lparr>md_path := path_join directory (md_path t)\<rparr>) (mf_tables m)), [])"
    using decode_tables_serialized [OF body assms(2), of directory "[]"] by simp
  then show ?thesis
    using counters n u by (simp add: parse_manifest_def bs decode_manifest_def)
qed

lemma parse_serialize_current:
  assumes "serialize_current n = Inr bs" and "plain_name n" and "prefix manifest_prefix n"
  shows "parse_current bs = Inr n"
proof -
  from assms(1) have n: "n \<noteq> []" "length n \<le> kMaximumFilenameBytes" "length n < 2 ^ 32"
    and bs: "bs = append_checksum (kCurrentMagic @ le_bytes 2 kManifestVersion @ le_bytes 2 (0 :: u16) @
          le_bytes 4 (of_nat (length n) :: u32) @ n)"
    by (auto simp: serialize_current_def result_simps checked_uint32_Inr split: if_splits)
  have u: "unat (of_nat (length n) :: u32) = length n" using n(3) by (rule unat_of_nat_u32)
  moreover from this n(1) have "(of_nat (length n) :: u32) \<noteq> 0" by (auto simp: unat_eq_zero [symmetric] simp del: unat_eq_zero)
  moreover have "dec_bytes truncated (length n) n = (Inr n, [])" using decodesD [OF decodes_bytes] .
  ultimately show ?thesis
    using n assms(3) plain_name_path(2,3) [OF assms(2)] by (simp add: parse_current_def bs decode_current_def)
qed

end
