(* ===== verification/ManifestStore.thy ===== *)
theory ManifestStore
  imports ManifestCodec
begin

text \<open>
  Committing and loading a manifest against the file system: a commit is atomic under crashes at
  every point, and what it committed is what a restart loads.
\<close>

section \<open>Names in the directory\<close>

definition dec_value :: "string \<Rightarrow> nat" where
  "dec_value s = foldl (\<lambda>a c. 10 * a + (of_char c - 48)) 0 s"

lemma dec_value_append [simp]: "dec_value (s @ [c]) = 10 * dec_value s + (of_char c - 48)"
  by (simp add: dec_value_def)

lemma dec_value_digits [simp]: "dec_value (dec_digits n) = n"
proof (induction n rule: dec_digits.induct)
  case (1 n)
  show ?case
  proof (cases "n < 10")
    case True
    then show ?thesis by (simp add: dec_digits.simps [of n] dec_value_def)
  next
    case False
    then have "dec_digits n = dec_digits (n div 10) @ [char_of (48 + n mod 10)]" by (simp add: dec_digits.simps [of n])
    then show ?thesis using 1 False by simp
  qed
qed

lemma dec_value_zeros [simp]: "dec_value (replicate k (CHR ''0'') @ s) = dec_value s"
proof (induction k)
  case (Suc k)
  then show ?case by (simp add: dec_value_def)
qed simp

lemma unat_of_char: "unat (of_char c :: byte) = of_char c"
proof -
  have "(of_char c :: nat) < 2 ^ 8" using nat_of_char_less_256 [of c] by simp
  then have "unat (of_nat (of_char c) :: byte) = of_char c" by (simp add: unat_of_nat take_bit_nat_eq_self del: of_nat_of_char)
  then show ?thesis by (simp only: of_nat_of_char)
qed

lemma str_inject [simp]: "str s = str s' \<longleftrightarrow> s = s'"
proof
  have "inj (of_char :: char \<Rightarrow> byte)"
  proof (rule injI)
    fix c d :: char
    assume "(of_char c :: byte) = of_char d"
    then have "(of_char c :: nat) = of_char d" by (metis unat_of_char)
    then show "c = d" by simp
  qed
  then show "str s = str s' \<Longrightarrow> s = s'" by (simp add: str_def inj_map_eq_map)
qed simp

lemma zero_padded_inject [simp]: "zero_padded g = zero_padded g' \<longleftrightarrow> g = g'"
proof
  assume "zero_padded g = zero_padded g'"
  then have "replicate (20 - length (dec_digits (unat g))) CHR ''0'' @ dec_digits (unat g) =
      replicate (20 - length (dec_digits (unat g'))) CHR ''0'' @ dec_digits (unat g')"
    by (simp add: zero_padded_def Let_def)
  then have "unat g = unat g'" by (metis dec_value_digits dec_value_zeros)
  then show "g = g'" by (simp add: word_unat_eq_iff)
qed simp

lemma manifest_name_inject [simp]: "manifest_name g = manifest_name g' \<longleftrightarrow> g = g'"
  by (simp add: manifest_name_def)

lemma path_join_inject [simp]: "path_join dir n = path_join dir n' \<longleftrightarrow> n = n'"
  by (simp add: path_join_def)

lemma path_join_append: "path_join dir n @ s = path_join dir (n @ s)"
  by (simp add: path_join_def)

text \<open>The bytes of decimal digits, and how the names of the directory end.\<close>

lemma dec_digits_set: "c \<in> set (dec_digits n) \<Longrightarrow> \<exists>d<10. c = char_of (48 + d :: nat)"
proof (induction n rule: dec_digits.induct)
  case (1 n)
  show ?case
  proof (cases "n < 10")
    case True
    then show ?thesis using "1.prems" by (auto simp: dec_digits.simps [of n])
  next
    case False
    then have "dec_digits n = dec_digits (n div 10) @ [char_of (48 + n mod 10)]" by (simp add: dec_digits.simps [of n])
    then have "c = char_of (48 + n mod 10) \<or> c \<in> set (dec_digits (n div 10))" using "1.prems" by auto
    then show ?thesis
    proof
      assume "c = char_of (48 + n mod 10)"
      then show ?thesis by (intro exI [of _ "n mod 10"]) simp
    qed (rule "1.IH" [OF False])
  qed
qed

lemma dec_digits_nonempty [simp]: "dec_digits n \<noteq> []"
  by (subst dec_digits.simps) simp

lemma zero_padded_set:
  assumes "b \<in> set (zero_padded g)"
  shows "\<exists>d<10. b = of_nat (48 + d)"
proof -
  let ?ds = "dec_digits (unat g)"
  have "set (zero_padded g) = of_char ` set (replicate (20 - length ?ds) CHR ''0'' @ ?ds)"
    by (simp only: zero_padded_def str_def Let_def set_map)
  with assms obtain c where c: "c \<in> set (replicate (20 - length ?ds) CHR ''0'' @ ?ds)" and b: "b = of_char c" by blast
  from c have "c = CHR ''0'' \<or> c \<in> set ?ds" by auto
  then obtain d where d: "d < 10" "c = char_of (48 + d :: nat)"
  proof
    assume "c = CHR ''0''"
    moreover have "char_of (of_char CHR ''0'' :: nat) = CHR ''0''" by (rule char_of_char)
    ultimately have "c = char_of (48 + 0 :: nat)" by simp
    then show ?thesis by (rule that [rotated]) simp
  qed (use dec_digits_set that in blast)
  have "(of_char c :: nat) = 48 + d" using d by simp
  then have "b = of_nat (48 + d)" using b by (metis of_nat_of_char)
  then show ?thesis using d(1) by blast
qed

lemma zero_padded_nonempty [simp]: "zero_padded g \<noteq> []"
  by (simp add: zero_padded_def str_def Let_def)

lemma digit_facts:
  assumes "b \<in> set (zero_padded g)"
  shows "b \<noteq> slash" and "b \<noteq> 116" and "b \<noteq> 112"
proof -
  obtain d where d: "d < 10" "b = of_nat (48 + d)" using zero_padded_set [OF assms] by blast
  have "unat b = 48 + d" using d by (simp add: unat_of_nat take_bit_nat_eq_self del: of_nat_add)
  then show "b \<noteq> slash" and "b \<noteq> 116" and "b \<noteq> 112" using d(1) by (auto simp: word_unat_eq_iff)
qed

abbreviation tmp_name :: "bytes \<Rightarrow> bytes" where
  "tmp_name n \<equiv> n @ str ''.tmp''"

abbreviation current_name :: bytes where
  "current_name \<equiv> str ''CURRENT''"

definition table_name :: "bytes \<Rightarrow> bool" where
  "table_name n \<longleftrightarrow> plain_name n \<and> suffix (str ''.sst'') n"

lemma plain_manifest_name: "plain_name (manifest_name g)"
  using digit_facts(1) by (auto simp: plain_name_def manifest_name_def manifest_prefix_def str_def)

lemma last_names:
  "last (manifest_name g) \<noteq> 116" "last (manifest_name g) \<noteq> 112" "last current_name = 84" "last (tmp_name n) = 112"
  "table_name n \<Longrightarrow> last n = 116"
proof -
  have "last (manifest_name g) \<in> set (zero_padded g)" by (simp add: manifest_name_def)
  then show "last (manifest_name g) \<noteq> 116" "last (manifest_name g) \<noteq> 112" using digit_facts by blast+
  show "last current_name = 84" "last (tmp_name n) = 112" by (simp_all add: str_def)
  show "table_name n \<Longrightarrow> last n = 116" by (auto simp: table_name_def suffix_def str_def)
qed

lemma names_distinct:
  "current_name \<noteq> manifest_name g" "current_name \<noteq> tmp_name n" "manifest_name g \<noteq> tmp_name n"
  "table_name n' \<Longrightarrow> n' \<noteq> manifest_name g" "table_name n' \<Longrightarrow> n' \<noteq> current_name" "table_name n' \<Longrightarrow> n' \<noteq> tmp_name n"
proof -
  show "current_name \<noteq> manifest_name g" by (simp add: manifest_name_def manifest_prefix_def str_def)
  show "current_name \<noteq> tmp_name n" using last_names(3,4) by fastforce
  show "manifest_name g \<noteq> tmp_name n" using last_names(2,4) by metis
  show "table_name n' \<Longrightarrow> n' \<noteq> manifest_name g" using last_names(1,5) by metis
  show "table_name n' \<Longrightarrow> n' \<noteq> current_name" using last_names(3,5) by fastforce
  show "table_name n' \<Longrightarrow> n' \<noteq> tmp_name n" using last_names(4,5) by fastforce
qed

section \<open>Replacing a file\<close>

lemma atomic_writeD:
  assumes "atomic_write path bs w = (r, w')"
  shows "replaces path (tmp_name path) bs w w'" and "r = Inr u \<Longrightarrow> replaced path bs w'"
proof -
  let ?tmp = "tmp_name path"
  have ne: "?tmp \<noteq> path" by (simp add: str_def)
  define m :: "('a world_scheme, unit) effect" where "m = bind_effect (world_write (SystemError ''failed to write metadata file'')
      (RuntimeError ''metadata write returned zero bytes'') ?tmp bs) (\<lambda>_. world_publish meta_publish_errors ?tmp path)"
  obtain r1 w1 where c1: "world_create (SystemError ''failed to create temporary metadata file'') ?tmp (remove_ignored ?tmp w) = (r1, w1)"
    by fastforce
  have o1: "only_file ?tmp w w1" using only_file_trans [OF only_file_remove_ignored world_createD(1) [OF c1]] .
  have "replaces path ?tmp bs w w' \<and> (r = Inr u \<longrightarrow> replaced path bs w')"
  proof (cases r1)
    case (Inl e)
    then have "w' = w1" "r = Inl e" using assms c1 by (simp_all add: atomic_write_def)
    then show ?thesis using o1 ne by (simp add: replaces_only_file)
  next
    case (Inr v)
    then have "removing_on_error ?tmp m w1 = (r, w')" using assms c1 by (simp add: atomic_write_def m_def Let_def)
    then obtain w2 where run: "m w1 = (r, w2)" and o2: "only_file ?tmp w2 w'" and eq: "\<forall>x. r = Inr x \<longrightarrow> w' = w2"
      by (rule removing_on_errorD)
    have f1: "fs_files (w_fs w1) ?tmp = Some empty_file" using world_createD(2) [OF c1] Inr by simp
    obtain r3 w3 where c3: "world_write (SystemError ''failed to write metadata file'')
      (RuntimeError ''metadata write returned zero bytes'') ?tmp bs w1 = (r3, w3)" by fastforce
    note d3 = world_writeD [OF c3]
    have o3: "only_file ?tmp w w3" using o1 d3(1) only_file_trans by blast
    have "replaces path ?tmp bs w w2 \<and> (r = Inr u \<longrightarrow> replaced path bs w2)"
    proof (cases r3)
      case (Inl e)
      then have "w2 = w3" "r = Inl e" using run c3 by (simp_all add: m_def)
      then show ?thesis using o3 ne by (simp add: replaces_only_file)
    next
      case (Inr v)
      then have pub: "world_publish meta_publish_errors ?tmp path w3 = (r, w2)" using run c3 by (simp add: m_def)
      have "fs_files (w_fs w3) ?tmp = Some (file_append bs empty_file)" using d3(2) Inr f1 by simp
      from world_publishD [OF pub this ne] show ?thesis using replaces_after [OF o3 _ ne] by simp
    qed
    then show ?thesis using replaces_before [OF _ o2 ne] eq by blast
  qed
  then show "replaces path ?tmp bs w w'" and "r = Inr u \<Longrightarrow> replaced path bs w'" by blast+
qed

lemma replaces_keeps:
  assumes "replaces path tmp bs w w'" and "replaced q c w" and "q \<noteq> path" and "q \<noteq> tmp"
  shows "replaced q c w'"
proof -
  have "fs_files (w_fs w') q = Some (whole_file c)" using assms by (auto simp: replaces_def replaced_def)
  moreover have "fs_synced (w_fs w') q = fs_synced (w_fs w) q \<or> fs_synced (w_fs w') q = map_option df_durable (fs_files (w_fs w') q)"
    using assms(1,4) by (simp add: replaces_def)
  ultimately show ?thesis using assms(2) by (auto simp: replaced_def)
qed

lemma replaced_crash: "replaced q c w \<Longrightarrow> fs_crash (w_fs w) disk \<Longrightarrow> disk q = Some c"
  using fs_crash_synced [of "w_fs w" disk q "whole_file c"] by (simp add: replaced_def)

lemma replaces_crash:
  assumes "replaces path tmp bs w w'" and "replaced path c w" and "path \<noteq> tmp" and crash: "fs_crash (w_fs w') disk"
  shows "disk path = Some c \<or> disk path = Some bs"
proof -
  have f: "fs_files (w_fs w') path = Some (whole_file c) \<or> fs_files (w_fs w') path = Some (whole_file bs)"
    using assms(1,2) by (auto simp: replaces_def replaced_def)
  have s: "fs_synced (w_fs w') path = Some c \<or> fs_synced (w_fs w') path = map_option df_durable (fs_files (w_fs w') path)"
    using assms(1-3) by (auto simp: replaces_def replaced_def)
  have "disk path = fs_synced (w_fs w') path \<or> (case fs_files (w_fs w') path of None \<Rightarrow> disk path = None
      | Some f \<Rightarrow> \<exists>img. crash_image f img \<and> disk path = Some img)" using crash by (auto simp: fs_crash_def)
  with f s show ?thesis by (auto simp: crash_image_synced)
qed

section \<open>What a disk holds\<close>

definition manifest_on_disk :: "bytes \<Rightarrow> manifest_snapshot \<Rightarrow> (bytes \<rightharpoonup> bytes) \<Rightarrow> bool" where
  "manifest_on_disk dir m disk \<longleftrightarrow>
     (\<exists>cb mb. disk (path_join dir current_name) = Some cb \<and> parse_current cb = Inr (manifest_name (mf_generation m)) \<and>
        disk (path_join dir (manifest_name (mf_generation m))) = Some mb \<and> parse_manifest mb dir = Inr m \<and>
        length cb \<le> kMaximumMetadataFileBytes \<and> length mb \<le> kMaximumMetadataFileBytes) \<and>
     (\<forall>t\<in>set (mf_tables m). disk (md_path t) \<noteq> None)"

definition visible_files :: "'a world_scheme \<Rightarrow> bytes \<rightharpoonup> bytes" where
  "visible_files w p = map_option df_contents (fs_files (w_fs w) p)"

text \<open>The same, durably: every file the manifest is made of has been replaced as a whole.\<close>

definition manifest_durable :: "bytes \<Rightarrow> manifest_snapshot \<Rightarrow> 'a world_scheme \<Rightarrow> bool" where
  "manifest_durable dir m w \<longleftrightarrow>
     (\<exists>cb mb. replaced (path_join dir current_name) cb w \<and> parse_current cb = Inr (manifest_name (mf_generation m)) \<and>
        replaced (path_join dir (manifest_name (mf_generation m))) mb w \<and> parse_manifest mb dir = Inr m \<and>
        length cb \<le> kMaximumMetadataFileBytes \<and> length mb \<le> kMaximumMetadataFileBytes) \<and>
     (\<forall>t\<in>set (mf_tables m). \<exists>bs. replaced (md_path t) bs w)"

lemma manifest_durable_disk:
  assumes "manifest_durable dir m w" and disk: "\<And>q c. replaced q c w \<Longrightarrow> disk q = Some c"
  shows "manifest_on_disk dir m disk"
proof -
  from assms(1) obtain cb mb where "replaced (path_join dir current_name) cb w" "parse_current cb = Inr (manifest_name (mf_generation m))"
    "replaced (path_join dir (manifest_name (mf_generation m))) mb w" "parse_manifest mb dir = Inr m"
    "length cb \<le> kMaximumMetadataFileBytes" "length mb \<le> kMaximumMetadataFileBytes"
    unfolding manifest_durable_def by blast
  moreover have "disk (md_path t) \<noteq> None" if "t \<in> set (mf_tables m)" for t
    using assms(1) that disk unfolding manifest_durable_def by blast
  ultimately show ?thesis using disk unfolding manifest_on_disk_def by blast
qed

lemma manifest_durable_crash: "manifest_durable dir m w \<Longrightarrow> fs_crash (w_fs w) disk \<Longrightarrow> manifest_on_disk dir m disk"
  by (erule manifest_durable_disk) (rule replaced_crash)

lemma manifest_durable_visible: "manifest_durable dir m w \<Longrightarrow> manifest_on_disk dir m (visible_files w)"
  by (erule manifest_durable_disk) (simp add: visible_files_def replaced_def)

lemma meta_read_file_reliable:
  assumes "w_events w = []" and "visible_files w path = Some bs" and "length bs \<le> kMaximumMetadataFileBytes"
  shows "meta_read_file path w = (Inr bs, w)"
proof -
  obtain f where "fs_files (w_fs w) path = Some f" "df_contents f = bs" using assms(2) by (auto simp: visible_files_def)
  then show ?thesis
    using assms by (simp add: meta_read_file_def sys_call_reliable throw_if_def bind_effect_case Let_def)
qed

lemma manifest_load_on_disk:
  assumes "manifest_on_disk (mm_directory mm) m (visible_files w)" and "w_events w = []"
  shows "manifest_load mm w = (Inr (mm\<lparr>mm_current_generation := mf_generation m,
      mm_active_manifest_path := path_join (mm_directory mm) (manifest_name (mf_generation m))\<rparr>, Some m), w)"
proof -
  from assms(1) obtain cb mb where cb: "visible_files w (current_path mm) = Some cb" "parse_current cb = Inr (manifest_name (mf_generation m))"
      "length cb \<le> kMaximumMetadataFileBytes"
    and mb: "visible_files w (path_join (mm_directory mm) (manifest_name (mf_generation m))) = Some mb"
      "parse_manifest mb (mm_directory mm) = Inr m" "length mb \<le> kMaximumMetadataFileBytes"
    and tables: "\<forall>t\<in>set (mf_tables m). visible_files w (md_path t) \<noteq> None"
    by (auto simp: manifest_on_disk_def current_path_def)
  have ex: "exists_file (current_path mm) w" "exists_file (path_join (mm_directory mm) (manifest_name (mf_generation m))) w"
    using cb(1) mb(1) by (auto simp: exists_file_def visible_files_def)
  have "find (\<lambda>t. \<not> exists_file (md_path t) w) (mf_tables m) = None"
    using tables by (auto simp: find_None_iff exists_file_def visible_files_def)
  then show ?thesis
    using ex cb(2) mb(2) meta_read_file_reliable [OF assms(2) cb(1,3)] meta_read_file_reliable [OF assms(2) mb(1,3)]
    by (simp add: manifest_load_def)
qed

section \<open>Commits are atomic\<close>

text \<open>The tables a commit may list: distinct, valid and durable table files of the directory.\<close>

definition committable :: "bytes \<Rightarrow> sstable_metadata list \<Rightarrow> 'a world_scheme \<Rightarrow> bool" where
  "committable dir tables w \<longleftrightarrow>
     (\<forall>t\<in>set tables. valid_table t \<and> (\<exists>n bs. md_path t = path_join dir n \<and> table_name n \<and> replaced (md_path t) bs w))"

definition next_manifest :: "manifest_manager \<Rightarrow> sstable_metadata list \<Rightarrow> u64 \<Rightarrow> manifest_snapshot" where
  "next_manifest mm tables next_file_id =
     \<lparr>mf_generation = mm_current_generation mm + 1, mf_next_file_id = next_file_id, mf_tables = tables\<rparr>"

definition stored_manifest :: "manifest_snapshot \<Rightarrow> manifest_snapshot" where
  "stored_manifest m = m\<lparr>mf_tables := map (\<lambda>t. t\<lparr>md_path := path_filename (md_path t)\<rparr>) (mf_tables m)\<rparr>"

lemma stored_manifest_paths:
  assumes "committable dir (mf_tables m) w" and "serialize_manifest (stored_manifest m) = Inr mb"
  shows "parse_manifest mb dir = Inr m"
proof -
  have ts: "map (\<lambda>t. t\<lparr>md_path := path_join dir (md_path t)\<rparr>) (map (\<lambda>t. t\<lparr>md_path := path_filename (md_path t)\<rparr>) (mf_tables m)) = mf_tables m"
  proof (rule nth_equalityI)
    fix i assume "i < length (map (\<lambda>t. t\<lparr>md_path := path_join dir (md_path t)\<rparr>)
        (map (\<lambda>t. t\<lparr>md_path := path_filename (md_path t)\<rparr>) (mf_tables m)))"
    then have "i < length (mf_tables m)" by simp
    moreover from this obtain n where "md_path (mf_tables m ! i) = path_join dir n" "table_name n"
      using assms(1) unfolding committable_def by (meson nth_mem)
    ultimately show "map (\<lambda>t. t\<lparr>md_path := path_join dir (md_path t)\<rparr>) (map (\<lambda>t. t\<lparr>md_path := path_filename (md_path t)\<rparr>)
        (mf_tables m)) ! i = mf_tables m ! i"
      using plain_name_path(4) [of n dir] by (simp add: table_name_def)
  qed simp
  have "\<forall>t\<in>set (mf_tables (stored_manifest m)). valid_table t"
    using assms(1) by (auto simp: stored_manifest_def committable_def valid_table_def)
  from parse_serialize_manifest [OF assms(2) this, of dir] show ?thesis using ts by (simp add: stored_manifest_def)
qed

lemma length_dec_digits: "n < 10 ^ Suc k \<Longrightarrow> length (dec_digits n) \<le> Suc k"
proof (induction k arbitrary: n)
  case 0
  then show ?case by (simp add: dec_digits.simps [of n])
next
  case (Suc k)
  have "n div 10 < 10 ^ Suc k" using Suc.prems by (simp add: less_mult_imp_div_less mult.commute)
  from Suc.IH [OF this] show ?case by (simp add: dec_digits.simps [of n])
qed

lemma length_manifest_name: "length (manifest_name g) = 29"
proof -
  have "unat g < 2 ^ 64" using unsigned_less [of g, where 'a = nat] by simp
  also have "(2 ^ 64 :: nat) \<le> 10 ^ Suc 19" by simp
  finally have "length (dec_digits (unat g)) \<le> Suc 19" by (rule length_dec_digits)
  then show ?thesis by (simp add: manifest_name_def manifest_prefix_def zero_padded_def Let_def)
qed

lemma serialize_current_name: "\<exists>cb. serialize_current (manifest_name g) = Inr cb \<and> length cb \<le> kMaximumMetadataFileBytes"
proof -
  have "manifest_name g \<noteq> []" using length_manifest_name [of g] by auto
  then show ?thesis
    using length_manifest_name [of g]
    by (simp add: serialize_current_def checked_uint32_def unat_minus_one_u32 kMaximumFilenameBytes_def append_checksum_def
        kMaximumMetadataFileBytes_def kCurrentMagic_def)
qed

lemma manifest_commit_steps:
  assumes "manifest_commit mm tables next_file_id w = (r, w')"
  obtains (rejected) e where "r = Inl e" and "w' = w"
  | (first_failed) e mb where "r = Inl e"
      and "serialize_manifest (stored_manifest (next_manifest mm tables next_file_id)) = Inr mb"
      and "atomic_write (manifest_path mm (mm_current_generation mm + 1)) mb w = (Inl e, w')"
  | (second) mb cb w1 u where "serialize_manifest (stored_manifest (next_manifest mm tables next_file_id)) = Inr mb"
      and "serialize_current (manifest_name (mm_current_generation mm + 1)) = Inr cb"
      and "atomic_write (manifest_path mm (mm_current_generation mm + 1)) mb w = (Inr (), w1)"
      and "atomic_write (current_path mm) cb w1 = (u, w')" and "mm_current_generation mm \<noteq> - 1"
      and "r = (case u of Inl e \<Rightarrow> Inl e | Inr _ \<Rightarrow> Inr (mm\<lparr>mm_current_generation := mm_current_generation mm + 1,
        mm_active_manifest_path := manifest_path mm (mm_current_generation mm + 1)\<rparr>,
        stored_manifest (next_manifest mm tables next_file_id)))"
proof -
  let ?g = "mm_current_generation mm + 1"
  let ?m = "stored_manifest (next_manifest mm tables next_file_id)"
  have name: "path_filename (manifest_path mm ?g) = manifest_name ?g"
    using plain_name_path(4) [OF plain_manifest_name] by (simp add: manifest_path_def)
  have m: "\<lparr>mf_generation = ?g, mf_next_file_id = next_file_id,
      mf_tables = map (\<lambda>t. t\<lparr>md_path := path_filename (md_path t)\<rparr>) tables\<rparr> = ?m"
    by (simp add: stored_manifest_def next_manifest_def)
  have mg: "mf_generation ?m = ?g" by (simp add: stored_manifest_def next_manifest_def)
  obtain cb where cb: "serialize_current (manifest_name ?g) = Inr cb" using serialize_current_name by blast
  show ?thesis
  proof (cases "mm_current_generation mm = - 1 \<or> (\<exists>e. serialize_manifest ?m = Inl e)")
    case True
    then have "\<exists>e. (r, w') = (Inl e, w)"
    proof
      assume "\<exists>e. serialize_manifest ?m = Inl e"
      then show ?thesis using assms by (auto simp: manifest_commit_def throw_if_def m [symmetric] Let_def split: if_splits)
    qed (use assms in \<open>auto simp: manifest_commit_def throw_if_def\<close>)
    then show ?thesis using rejected by blast
  next
    case False
    then obtain mb where mb: "serialize_manifest ?m = Inr mb" by (cases "serialize_manifest ?m") auto
    have gen: "mm_current_generation mm \<noteq> - 1" using False by blast
    obtain r1 w1 where s1: "atomic_write (manifest_path mm ?g) mb w = (r1, w1)" by fastforce
    obtain r2 w2 where s2: "atomic_write (current_path mm) cb w1 = (r2, w2)" by fastforce
    have run: "(case r1 of Inl e \<Rightarrow> (Inl e, w1) | Inr _ \<Rightarrow> (case r2 of Inl e \<Rightarrow> (Inl e, w2) | Inr _ \<Rightarrow>
        (Inr (mm\<lparr>mm_current_generation := ?g, mm_active_manifest_path := manifest_path mm ?g\<rparr>, ?m), w2))) = (r, w')"
      using assms gen mb cb name s1 s2
      by (simp add: manifest_commit_def throw_if_def Let_def m mg bind_effect_case lift_result_def cong: sum.case_cong)
    show ?thesis
    proof (cases r1)
      case (Inl e)
      then show ?thesis using first_failed [OF _ mb] run s1 by simp
    next
      case (Inr v)
      then show ?thesis using second [OF mb cb _ _ gen] run s1 s2 by (cases r2) simp_all
    qed
  qed
qed

lemma manifest_durable_replaces:
  assumes "manifest_durable dir m w" and "replaces path tmp bs w w'"
    and "path_join dir current_name \<notin> {path, tmp}" and "path_join dir (manifest_name (mf_generation m)) \<notin> {path, tmp}"
    and "\<forall>t\<in>set (mf_tables m). md_path t \<notin> {path, tmp}"
  shows "manifest_durable dir m w'"
proof -
  have keep: "replaced q c w \<Longrightarrow> q \<notin> {path, tmp} \<Longrightarrow> replaced q c w'" for q c
    using replaces_keeps [OF assms(2)] by blast
  show ?thesis using assms(1,3-5) keep unfolding manifest_durable_def by meson
qed

definition table_paths :: "bytes \<Rightarrow> sstable_metadata list \<Rightarrow> bool" where
  "table_paths dir ts \<longleftrightarrow> (\<forall>t\<in>set ts. \<exists>n. md_path t = path_join dir n \<and> table_name n)"

lemma table_paths_avoid:
  assumes "table_paths dir ts" and "t \<in> set ts"
  shows "md_path t \<noteq> path_join dir (manifest_name g)" and "md_path t \<noteq> path_join dir current_name"
    and "md_path t \<noteq> tmp_name (path_join dir n)"
  using assms names_distinct(4-6) unfolding table_paths_def by (auto simp: path_join_append)

lemma manifest_commit_durable:
  assumes run: "manifest_commit mm tables next_file_id w = (Inr x, w')"
    and new: "committable (mm_directory mm) tables w"
    and limit: "\<forall>mb. serialize_manifest (stored_manifest (next_manifest mm tables next_file_id)) = Inr mb \<longrightarrow>
      length mb \<le> kMaximumMetadataFileBytes"
  shows "manifest_durable (mm_directory mm) (next_manifest mm tables next_file_id) w'"
    and "x = (mm\<lparr>mm_current_generation := mm_current_generation mm + 1,
        mm_active_manifest_path := manifest_path mm (mm_current_generation mm + 1)\<rparr>,
        stored_manifest (next_manifest mm tables next_file_id))"
    and "mm_current_generation mm \<noteq> - 1"
proof -
  let ?dir = "mm_directory mm" and ?g = "mm_current_generation mm + 1" and ?m' = "next_manifest mm tables next_file_id"
  have tp: "table_paths ?dir tables" using new unfolding committable_def table_paths_def by blast
  have mt: "mf_tables ?m' = tables" "mf_generation ?m' = ?g" by (simp_all add: next_manifest_def)
  from run obtain mb cb w1 u where mb: "serialize_manifest (stored_manifest ?m') = Inr mb"
    and cb: "serialize_current (manifest_name ?g) = Inr cb"
    and s1: "atomic_write (manifest_path mm ?g) mb w = (Inr (), w1)" and s2: "atomic_write (current_path mm) cb w1 = (u, w')"
    and gen: "mm_current_generation mm \<noteq> - 1"
    and x: "Inr x = (case u of Inl e \<Rightarrow> Inl e | Inr _ \<Rightarrow> Inr (mm\<lparr>mm_current_generation := ?g,
        mm_active_manifest_path := manifest_path mm ?g\<rparr>, stored_manifest ?m'))"
    by (cases rule: manifest_commit_steps) simp_all
  show "mm_current_generation mm \<noteq> - 1" by (rule gen)
  have u: "u = Inr ()" using x by (cases u) auto
  with x show "x = (mm\<lparr>mm_current_generation := ?g, mm_active_manifest_path := manifest_path mm ?g\<rparr>, stored_manifest ?m')"
    by simp
  have parse: "parse_manifest mb ?dir = Inr ?m'" "parse_current cb = Inr (manifest_name ?g)"
    using stored_manifest_paths [OF _ mb] parse_serialize_current [OF cb plain_manifest_name] new
    by (simp_all add: next_manifest_def manifest_name_def)
  have small: "length mb \<le> kMaximumMetadataFileBytes" "length cb \<le> kMaximumMetadataFileBytes"
    using limit mb cb serialize_current_name [of ?g] by auto
  note rep1 = atomic_writeD(1) [OF s1] and rep2 = atomic_writeD(1) [OF s2]
  have cur: "replaced (path_join ?dir current_name) cb w'" using atomic_writeD(2) [OF s2 u] by (simp add: current_path_def)
  have "replaced (path_join ?dir (manifest_name ?g)) mb w1" using atomic_writeD(2) [OF s1] by (simp add: manifest_path_def)
  moreover have "path_join ?dir (manifest_name ?g) \<noteq> current_path mm" "path_join ?dir (manifest_name ?g) \<noteq> tmp_name (current_path mm)"
    using names_distinct(1) [of ?g] names_distinct(3) [of ?g current_name] unfolding current_path_def path_join_append path_join_inject
    by metis+
  ultimately have man: "replaced (path_join ?dir (manifest_name ?g)) mb w'" by (rule replaces_keeps [OF rep2])
  have "\<exists>bs. replaced (md_path t) bs w'" if t: "t \<in> set tables" for t
  proof -
    obtain bs where "replaced (md_path t) bs w" using new t unfolding committable_def by blast
    then have "replaced (md_path t) bs w1"
      using replaces_keeps [OF rep1] table_paths_avoid [OF tp t] unfolding manifest_path_def by blast
    then have "replaced (md_path t) bs w'"
      using replaces_keeps [OF rep2] table_paths_avoid [OF tp t] unfolding current_path_def by blast
    then show ?thesis ..
  qed
  then show "manifest_durable ?dir ?m' w'" using parse cur man small unfolding manifest_durable_def mt by blast
qed

lemma manifest_commit_crash:
  assumes run: "manifest_commit mm tables next_file_id w = (r, w')"
    and old: "manifest_durable (mm_directory mm) m w" "mf_generation m = mm_current_generation mm"
      "table_paths (mm_directory mm) (mf_tables m)"
    and new: "committable (mm_directory mm) tables w"
    and limit: "\<forall>mb. serialize_manifest (stored_manifest (next_manifest mm tables next_file_id)) = Inr mb \<longrightarrow>
      length mb \<le> kMaximumMetadataFileBytes"
  shows "\<forall>disk. fs_crash (w_fs w') disk \<longrightarrow> manifest_on_disk (mm_directory mm) m disk \<or>
      manifest_on_disk (mm_directory mm) (next_manifest mm tables next_file_id) disk"
proof -
  let ?dir = "mm_directory mm" and ?g = "mm_current_generation mm + 1" and ?m' = "next_manifest mm tables next_file_id"
  have neq: "mm_current_generation mm + 1 \<noteq> mm_current_generation mm" by simp
  have kept: "manifest_durable ?dir m w2" if "atomic_write (manifest_path mm ?g) mb w = (r2, w2)" for mb r2 w2
    by (rule manifest_durable_replaces [OF old(1) atomic_writeD(1) [OF that]])
      (use table_paths_avoid [OF old(3)] names_distinct neq old(2) in \<open>auto simp: manifest_path_def path_join_append\<close>)
  have tp: "table_paths ?dir tables" using new unfolding committable_def table_paths_def by blast
  have mt: "mf_tables ?m' = tables" "mf_generation ?m' = ?g" by (simp_all add: next_manifest_def)
  show ?thesis
    using run
  proof (cases rule: manifest_commit_steps)
    case rejected
    then show ?thesis using old(1) manifest_durable_crash by auto
  next
    case (first_failed e mb)
    have "manifest_durable ?dir m w'" by (rule kept [OF first_failed(3)])
    then show ?thesis using first_failed(1) manifest_durable_crash by auto
  next
    case (second mb cb w1 u)
    note rep1 = atomic_writeD(1) [OF second(3)] and rep2 = atomic_writeD [OF second(4)]
    have parse: "parse_manifest mb ?dir = Inr ?m'" "parse_current cb = Inr (manifest_name ?g)"
      using stored_manifest_paths [OF _ second(1)] parse_serialize_current [OF second(2) plain_manifest_name] new
      by (simp_all add: next_manifest_def manifest_name_def)
    have small: "length mb \<le> kMaximumMetadataFileBytes" "length cb \<le> kMaximumMetadataFileBytes"
      using limit second(1,2) serialize_current_name [of ?g] by auto
    have m1: "manifest_durable ?dir m w1" by (rule kept [OF second(3)])
    then obtain cb0 mb0 where cb0: "replaced (path_join ?dir current_name) cb0 w1" "parse_current cb0 = Inr (manifest_name (mf_generation m))"
      and mb0: "replaced (path_join ?dir (manifest_name (mf_generation m))) mb0 w1" "parse_manifest mb0 ?dir = Inr m"
      and small0: "length cb0 \<le> kMaximumMetadataFileBytes" "length mb0 \<le> kMaximumMetadataFileBytes"
      and tab0: "\<forall>t\<in>set (mf_tables m). \<exists>bs. replaced (md_path t) bs w1"
      unfolding manifest_durable_def by blast
    have keep2: "replaced q c w1 \<Longrightarrow> q \<noteq> path_join ?dir current_name \<Longrightarrow> q \<noteq> path_join ?dir (tmp_name current_name) \<Longrightarrow> replaced q c w'"
      for q c using replaces_keeps [OF rep2(1)] by (simp add: current_path_def path_join_append)
    have man: "replaced (path_join ?dir (manifest_name ?g)) mb w1"
      using atomic_writeD(2) [OF second(3)] by (simp add: manifest_path_def)
    have tab: "\<forall>t\<in>set tables. \<exists>bs. replaced (md_path t) bs w1"
    proof
      fix t assume t: "t \<in> set tables"
      then obtain bs where "replaced (md_path t) bs w" using new unfolding committable_def by blast
      then show "\<exists>bs. replaced (md_path t) bs w1"
        using replaces_keeps [OF rep1] table_paths_avoid [OF tp t] unfolding manifest_path_def by blast
    qed
    have man': "replaced (path_join ?dir (manifest_name ?g)) mb w'" "replaced (path_join ?dir (manifest_name (mf_generation m))) mb0 w'"
      using keep2 [OF man] keep2 [OF mb0(1)] names_distinct(1,3) by (metis path_join_inject)+
    have tab': "t \<in> set tables \<union> set (mf_tables m) \<Longrightarrow> \<exists>bs. replaced (md_path t) bs w'" for t
      using tab tab0 keep2 table_paths_avoid [OF tp] table_paths_avoid [OF old(3)] by (metis UnE path_join_append)
    have "manifest_on_disk ?dir m disk \<or> manifest_on_disk ?dir ?m' disk" if crash: "fs_crash (w_fs w') disk" for disk
    proof -
      have d: "replaced q c w' \<Longrightarrow> disk q = Some c" for q c using replaced_crash crash by blast
      have td: "t \<in> set tables \<union> set (mf_tables m) \<Longrightarrow> disk (md_path t) \<noteq> None" for t using tab' d by blast
      have "disk (path_join ?dir current_name) = Some cb0 \<or> disk (path_join ?dir current_name) = Some cb"
        using replaces_crash [OF rep2(1) _ _ crash] cb0(1) by (simp add: current_path_def str_def)
      then show ?thesis
      proof
        assume "disk (path_join ?dir current_name) = Some cb0"
        then have "manifest_on_disk ?dir m disk"
          using cb0(2) d [OF man'(2)] mb0(2) small0 td unfolding manifest_on_disk_def by blast
        then show ?thesis ..
      next
        assume "disk (path_join ?dir current_name) = Some cb"
        then have "manifest_on_disk ?dir ?m' disk"
          using parse d [OF man'(1)] small td unfolding manifest_on_disk_def mt by blast
        then show ?thesis ..
      qed
    qed
    then show ?thesis by blast
  qed
qed

lemma atomic_write_reliable:
  assumes "w_events w = []"
  shows "\<exists>w'. atomic_write path bs w = (Inr (), w') \<and> w_events w' = []"
proof -
  let ?tmp = "tmp_name path"
  define w1 where "w1 = (remove_ignored ?tmp w)\<lparr>w_fs := fs_create ?tmp empty_file (w_fs (remove_ignored ?tmp w))\<rparr>"
  have e0: "w_events (remove_ignored ?tmp w) = []" using assms by (simp add: reliable_simps)
  then have c1: "world_create (SystemError ''failed to create temporary metadata file'') ?tmp (remove_ignored ?tmp w) = (Inr (), w1)"
    and e1: "w_events w1 = []" by (simp_all add: reliable_simps w1_def)
  define w2 where "w2 = w1\<lparr>w_fs := world_update ?tmp (file_append bs) (w_fs w1)\<rparr>"
  have c2: "world_write (SystemError ''failed to write metadata file'')
      (RuntimeError ''metadata write returned zero bytes'') ?tmp bs w1 = (Inr (), w2)" and e2: "w_events w2 = []"
    using e1 by (simp_all add: reliable_simps w2_def)
  have "fs_files (w_fs w2) ?tmp = Some (file_append bs empty_file)" by (simp add: w2_def w1_def world_update_def)
  from world_publish_reliable [OF e2 this] obtain w3 where
    "world_publish meta_publish_errors ?tmp path w2 = (Inr (), w3)" "w_events w3 = []" by blast
  then show ?thesis using c1 c2 by (simp add: atomic_write_def Let_def removing_on_error_def)
qed

lemma manifest_commit_reliable:
  assumes "w_events w = []" and "mm_current_generation mm \<noteq> - 1"
    and "serialize_manifest (stored_manifest (next_manifest mm tables next_file_id)) = Inr mb"
  shows "\<exists>x w'. manifest_commit mm tables next_file_id w = (Inr x, w') \<and> w_events w' = []"
proof -
  let ?g = "mm_current_generation mm + 1"
  have name: "path_filename (manifest_path mm ?g) = manifest_name ?g"
    using plain_name_path(4) [OF plain_manifest_name] by (simp add: manifest_path_def)
  have m: "serialize_manifest \<lparr>mf_generation = ?g, mf_next_file_id = next_file_id,
      mf_tables = map (\<lambda>t. t\<lparr>md_path := path_filename (md_path t)\<rparr>) tables\<rparr> = Inr mb"
    using assms(3) by (simp add: stored_manifest_def next_manifest_def)
  obtain cb where cb: "serialize_current (manifest_name ?g) = Inr cb" using serialize_current_name by blast
  obtain w1 where s1: "atomic_write (manifest_path mm ?g) mb w = (Inr (), w1)" and e1: "w_events w1 = []"
    using atomic_write_reliable [OF assms(1)] by blast
  obtain w2 where s2: "atomic_write (current_path mm) cb w1 = (Inr (), w2)" and e2: "w_events w2 = []"
    using atomic_write_reliable [OF e1] by blast
  show ?thesis using assms(2) m cb name s1 s2 e2 by (simp add: manifest_commit_def throw_if_def Let_def)
qed

section \<open>Properties\<close>


definition sample_table :: sstable_metadata where
  "sample_table = \<lparr>md_path = str ''t.sst'', md_generation = 4, md_entry_count = 2, md_block_count = 1,
     md_min_sequence_number = 7, md_max_sequence_number = 9, md_smallest_key = str ''a'', md_largest_key = str ''b'',
     md_level = Level1\<rparr>"

lemma sample_table_serializes:
  "\<exists>bs. serialize_manifest \<lparr>mf_generation = 1, mf_next_file_id = 8, mf_tables = [sample_table]\<rparr> = Inr bs"
proof -
  have "plain_name (str ''t.sst'')" by (simp add: plain_name_def str_def)
  note p = plain_name_path [OF this]
  have "\<not> str ''b'' < str ''a''" by code_simp
  then show ?thesis
    using p by (simp add: serialize_manifest_def sample_table_def kMaximumManifestTables_def checked_uint32_def unat_minus_one_u32
        kMaximumFilenameBytes_def Let_def) (simp add: str_def)
qed


text \<open>A machine that restarts on a disk: nothing pending, the files as the disk has them.\<close>

definition restarts_to :: "bytes \<Rightarrow> (bytes \<rightharpoonup> bytes) \<Rightarrow> manifest_snapshot \<Rightarrow> bool" where
  "restarts_to dir disk m \<longleftrightarrow> (\<forall>names mm. mm_directory mm = dir \<longrightarrow>
     (let w = \<lparr>w_fs = fs_restart disk names, w_events = []\<rparr> in \<exists>mm'. manifest_load mm w = (Inr (mm', Some m), w)))"

lemma manifest_on_disk_restarts: "manifest_on_disk dir m disk \<Longrightarrow> restarts_to dir disk m"
proof -
  assume disk: "manifest_on_disk dir m disk"
  have "visible_files \<lparr>w_fs = fs_restart disk names, w_events = []\<rparr> = disk" for names
    by (simp add: fun_eq_iff visible_files_def fs_restart_def option.map_comp comp_def option.map_ident)
  then show ?thesis
    using manifest_load_on_disk [of _ m "\<lparr>w_fs = fs_restart disk names, w_events = []\<rparr>" for names] disk
    by (auto simp: restarts_to_def Let_def)
qed


definition empty_world :: world where
  "empty_world = \<lparr>w_fs = \<lparr>fs_files = Map.empty, fs_synced = Map.empty, fs_names = []\<rparr>, w_events = []\<rparr>"

definition fresh_manager :: manifest_manager where
  "fresh_manager = \<lparr>mm_directory = str ''d'', mm_current_generation = 0, mm_active_manifest_path = []\<rparr>"

lemma serialize_empty_manifest:
  assumes "g \<noteq> 0" and "n \<noteq> 0"
  shows "\<exists>bs. serialize_manifest \<lparr>mf_generation = g, mf_next_file_id = n, mf_tables = []\<rparr> = Inr bs \<and>
    length bs \<le> kMaximumMetadataFileBytes"
  using assms by (simp add: serialize_manifest_def checked_uint32_def append_checksum_def kMaximumMetadataFileBytes_def kManifestMagic_def)


text \<open>A script of eight full transfers carries one replacement.\<close>

lemma atomic_write_eight:
  assumes "w_events w = Short k # Short k # Short k # Short k # Short k # Short k # Short k # Short k # evs"
    and "length bs \<le> k" and "bs \<noteq> []"
  shows "\<exists>w'. atomic_write path bs w = (Inr (), w') \<and> w_events w' = evs"
proof -
  let ?tmp = "tmp_name path"
  have ne: "?tmp \<noteq> path" by (simp add: str_def)
  have wr: "write_all f z (Short k # e # es) bs = (Inr (), bs, e # es)" for f z e es using assms(2,3) by (simp add: Let_def)
  define w1 where "w1 = w\<lparr>w_fs := fs_create ?tmp empty_file (fs_remove ?tmp (w_fs w)), w_events := drop 2 (w_events w)\<rparr>"
  have c1: "world_create e ?tmp (remove_ignored ?tmp w) = (Inr (), w1)" for e
    using assms(1) by (simp add: world_create_def remove_ignored_def sys_call_def update_fs_def w1_def)
  define w2 where "w2 = w1\<lparr>w_fs := fs_create ?tmp (file_append bs empty_file) (w_fs w1), w_events := drop 3 (w_events w)\<rparr>"
  have c2: "world_write f z ?tmp bs w1 = (Inr (), w2)" for f z
    using assms(1) wr by (simp add: world_write_def w1_def w2_def world_update_def)
  have "\<exists>w'. world_publish es ?tmp path w2 = (Inr (), w') \<and> w_events w' = evs" for es
    using assms(1) by (simp add: world_publish_def world_fsync_def world_retry_def update_fs_def world_update_def world_rename_def
        world_sync_directory_def sys_call_def w2_def w1_def bind_effect_def)
  then obtain w3 where "world_publish meta_publish_errors ?tmp path w2 = (Inr (), w3)" "w_events w3 = evs" by blast
  then show ?thesis using c1 c2 by (simp add: atomic_write_def Let_def removing_on_error_def)
qed

lemma manifest_name_no_dot: "46 \<notin> set (manifest_name g)"
proof -
  have "(46 :: byte) \<notin> set (zero_padded g)"
  proof
    assume "46 \<in> set (zero_padded g)"
    then obtain d where d: "d < 10" "(46 :: byte) = of_nat (48 + d)" using zero_padded_set by blast
    have "unat (of_nat (48 + d) :: byte) = 48 + d" using d(1) by (simp add: unat_of_nat take_bit_nat_eq_self del: of_nat_add)
    moreover have "unat (46 :: byte) = 46" by simp
    ultimately show False using d(2) by simp
  qed
  then show ?thesis by (simp add: manifest_name_def manifest_prefix_def str_def)
qed

lemma versioned_manifest_name: "is_versioned_manifest (path_join dir (manifest_name g))"
proof -
  have "path_filename (path_join dir (manifest_name g)) = manifest_name g" by (rule plain_name_path(4) [OF plain_manifest_name])
  moreover have "path_extension (path_join dir (manifest_name g)) = []"
    using calculation manifest_name_no_dot by (simp add: path_extension_def Let_def)
  ultimately show ?thesis by (simp add: is_versioned_manifest_def manifest_name_def str_def)
qed

text \<open>C29. The first commit is not atomic.  On an empty directory, a crash after the first manifest file
  is in place and before \<open>CURRENT\<close> is leaves a disk on which loading throws, at every later start.
  The script lets the eight calls of the first replacement succeed and stops at the second.\<close>

theorem manifest_first_commit_crash:
  "\<exists>e w' disk names. manifest_commit fresh_manager [] 1
       (empty_world\<lparr>w_events := replicate 8 (Short 1000) @ [Failed, Failed]\<rparr>) = (Inl e, w') \<and>
     fs_crash (w_fs w') disk \<and> fs_ok (fs_restart disk names) \<and>
     manifest_load fresh_manager \<lparr>w_fs = fs_restart disk names, w_events = []\<rparr> =
       (Inl (RuntimeError ''CURRENT is missing while versioned manifests are present''),
        \<lparr>w_fs = fs_restart disk names, w_events = []\<rparr>)"
proof -
  let ?w = "empty_world\<lparr>w_events := replicate 8 (Short 1000) @ [Failed, Failed]\<rparr>"
  let ?path = "path_join (str ''d'') (manifest_name 1)"
  let ?cur = "path_join (str ''d'') current_name"
  have path: "manifest_path fresh_manager 1 = ?path" "mm_current_generation fresh_manager = 0" "mm_directory fresh_manager = str ''d''"
      "current_path fresh_manager = ?cur"
    by (simp_all add: manifest_path_def current_path_def fresh_manager_def)
  have name: "path_filename ?path = manifest_name 1" by (rule plain_name_path(4) [OF plain_manifest_name])
  have "kManifestMagic \<noteq> []" by (simp add: kManifestMagic_def str_def)
  then obtain mb where mb: "serialize_manifest \<lparr>mf_generation = 1, mf_next_file_id = 1, mf_tables = []\<rparr> = Inr mb" "length mb \<le> 1000" "mb \<noteq> []"
    by (simp add: serialize_manifest_def checked_uint32_def append_checksum_def kManifestMagic_def)
  obtain cb where cb: "serialize_current (manifest_name 1) = Inr cb" using serialize_current_name by blast
  have "w_events ?w = Short 1000 # Short 1000 # Short 1000 # Short 1000 # Short 1000 # Short 1000 # Short 1000 # Short 1000 # [Failed, Failed]"
    by (simp add: numeral_eq_Suc)
  from atomic_write_eight [OF this mb(2,3)] obtain w1 where s1: "atomic_write ?path mb ?w = (Inr (), w1)"
    and e1: "w_events w1 = [Failed, Failed]" by blast
  define w' where "w' = w1\<lparr>w_events := []\<rparr>"
  have s2: "atomic_write ?cur cb w1 = (Inl (SystemError ''failed to create temporary metadata file''), w')"
    using e1 by (simp add: atomic_write_def Let_def remove_ignored_def world_create_def sys_call_def w'_def)
  have run: "manifest_commit fresh_manager [] 1 ?w = (Inl (SystemError ''failed to create temporary metadata file''), w')"
    using mb(1) cb s1 s2 name path by (simp add: manifest_commit_def throw_if_def Let_def)
  define disk where "disk = fs_synced (w_fs w')"
  have crash: "fs_crash (w_fs w') disk" by (simp add: fs_crash_def disk_def)
  have rp: "replaced ?path mb w1" using atomic_writeD(2) [OF s1] by simp
  have rs: "replaces ?path (tmp_name ?path) mb ?w w1" by (rule atomic_writeD(1) [OF s1])
  have none: "disk q = None" if "q \<noteq> ?path" "q \<noteq> tmp_name ?path" for q
    using rs that by (auto simp: replaces_def empty_world_def disk_def w'_def)
  have dp: "disk ?path = Some mb" using rp by (simp add: replaced_def disk_def w'_def)
  have "?cur \<noteq> ?path" "?cur \<noteq> tmp_name ?path"
    using names_distinct(1) [of 1] names_distinct(2) [of "manifest_name 1"] by (auto simp: path_join_append)
  then have dc: "disk ?cur = None" by (rule none)
  define names where "names = ?path # (if disk (tmp_name ?path) = None then [] else [tmp_name ?path])"
  let ?r = "\<lparr>w_fs = fs_restart disk names, w_events = []\<rparr>"
  have "dom disk = set names" using none dp by (auto simp: names_def dom_def) (metis option.distinct(1))+
  then have ok: "fs_ok (fs_restart disk names)" by (simp add: fs_ok_def fs_restart_def dom_map_option)
  have plain: "slash \<notin> set (manifest_name 1)" "manifest_name 1 \<noteq> []" using plain_manifest_name [of 1] by (simp_all add: plain_name_def)
  have "list_ex is_versioned_manifest (directory_files (str ''d'') ?r)"
    using versioned_manifest_name in_directory_join [OF plain] by (simp add: directory_files_def fs_restart_def names_def)
  moreover have "\<not> exists_file ?cur ?r" using dc by (simp add: exists_file_def fs_restart_def)
  ultimately have "manifest_load fresh_manager ?r = (Inl (RuntimeError ''CURRENT is missing while versioned manifests are present''), ?r)"
    using path by (simp add: manifest_load_def)
  then show ?thesis using run crash ok by blast
qed

end
