(* ===== verification/SSTableManager.thy ===== *)
theory SSTableManager
  imports SSTableOpen ManifestStore
begin

text \<open>
  \<open>SSTableManager\<close> (\<open>src/sstable_manager.cpp\<close>): the set of open tables of a directory, flushing of
  MemTables into new tables, compaction of level 0 into level 1, and start-up from the manifest.
  The manager owns the block cache, so its state extends the storage state.  Every method body that
  runs under the mutex is one step; what other threads do between two such steps of \<open>flush\<close> and
  \<open>compact_level0\<close> is a parameter of these operations.
\<close>

section \<open>State\<close>

record sstable_manager_options =
  mo_directory :: bytes
  mo_target_data_block_bytes :: u64
  mo_block_cache_capacity_bytes :: u64
  mo_bloom_false_positive_rate :: "real option"
  mo_level0_compaction_trigger :: u64
  mo_level0_compaction_max_tables :: u64

record bloom_aggregate_statistics =
  ba_filter_count :: u64
  ba_inserted_keys :: u64
  ba_memory_bytes :: u64
  ba_checks :: u64
  ba_negative_results :: u64

record compaction_result =
  cr_performed :: bool
  cr_input_tables :: u64
  cr_output_tables :: u64
  cr_input_entries :: u64
  cr_output_entries :: u64
  cr_tombstones_dropped :: u64
  cr_output_file_id :: u64

record compaction_statistics =
  cs_runs :: u64
  cs_input_tables :: u64
  cs_output_tables :: u64
  cs_input_entries :: u64
  cs_output_entries :: u64
  cs_tombstones_dropped :: u64

record managed_table =
  tb_reader :: sstable_reader
  tb_level :: sstable_level

record compaction_selection =
  se_selected :: "managed_table list"
  se_unselected :: "managed_table list"
  se_smallest_key :: bytes
  se_largest_key :: bytes

record sstable_manager = storage +
  sm_directory :: bytes
  sm_target_data_block_bytes :: u64
  sm_bloom_false_positive_rate :: "real option"
  sm_level0_compaction_trigger :: u64
  sm_level0_compaction_max_tables :: u64
  sm_manifest :: manifest_manager
  sm_readers :: "managed_table list"
  sm_live_key_count :: u64
  sm_max_sequence_number :: u64
  sm_next_generation :: u64
  sm_next_file_id :: u64
  sm_compaction_statistics :: compaction_statistics
  sm_state_version :: u64

abbreviation tb_metadata :: "managed_table \<Rightarrow> sstable_metadata" where
  "tb_metadata t \<equiv> rd_metadata (tb_reader t)"

definition no_compaction :: compaction_result where
  "no_compaction = \<lparr>cr_performed = False, cr_input_tables = 0, cr_output_tables = 0, cr_input_entries = 0,
     cr_output_entries = 0, cr_tombstones_dropped = 0, cr_output_file_id = 0\<rparr>"

section \<open>Helpers\<close>

definition is_sstable_path :: "bytes \<Rightarrow> bool" where
  "is_sstable_path path \<longleftrightarrow> path_extension path = str ''.sst''"

definition is_temporary_storage_path :: "bytes \<Rightarrow> bool" where
  "is_temporary_storage_path path \<longleftrightarrow>
     (path_extension path = str ''.tmp'' \<and> path_extension (path_stem path) = str ''.sst'') \<or>
     path_filename path = str ''CURRENT.tmp'' \<or>
     (prefix (str ''MANIFEST-'') (path_filename path) \<and> path_extension path = str ''.tmp'')"

definition ranges_overlap :: "bytes \<Rightarrow> bytes \<Rightarrow> bytes \<Rightarrow> bytes \<Rightarrow> bool" where
  "ranges_overlap left_smallest left_largest right_smallest right_largest \<longleftrightarrow>
     left_smallest \<le> right_largest \<and> right_smallest \<le> left_largest"

definition newer_table :: "managed_table \<Rightarrow> managed_table \<Rightarrow> bool" where
  "newer_table left right \<longleftrightarrow>
     (let lhs = tb_metadata left; rhs = tb_metadata right in
      if md_max_sequence_number lhs \<noteq> md_max_sequence_number rhs
      then md_max_sequence_number lhs > md_max_sequence_number rhs
      else if md_generation lhs \<noteq> md_generation rhs then md_generation lhs > md_generation rhs
      else path_filename (md_path lhs) > path_filename (md_path rhs))"

definition sort_tables :: "managed_table list \<Rightarrow> managed_table list" where
  "sort_tables tables = std_sort newer_table tables"

definition metadata_for :: "managed_table list \<Rightarrow> sstable_metadata list" where
  "metadata_for tables = map (\<lambda>t. (tb_metadata t)\<lparr>md_level := tb_level t\<rparr>) tables"

fun adjacent_disjoint :: "sstable_metadata list \<Rightarrow> bool" where
  "adjacent_disjoint (a # b # ms) \<longleftrightarrow> \<not> md_largest_key a \<ge> md_smallest_key b \<and> adjacent_disjoint (b # ms)"
| "adjacent_disjoint ms \<longleftrightarrow> True"

definition validate_level1_ranges :: "managed_table list \<Rightarrow> unit result" where
  "validate_level1_ranges tables =
     (let level1 = metadata_for (filter (\<lambda>t. tb_level t = Level1) tables);
          level1 = std_sort (\<lambda>l r. md_smallest_key l < md_smallest_key r) level1
      in throw_if (\<not> adjacent_disjoint level1) (LogicError ''Level-1 SSTable ranges must not overlap''))"

definition manager_sync_directory :: "bytes \<Rightarrow> ('a world_scheme, unit) effect" where
  "manager_sync_directory directory =
     bind_effect (world_sync_directory (SystemError ''failed to open SSTable directory for fsync'')
       (SystemError ''failed to fsync SSTable directory'') directory) (\<lambda>_.
     sys_call (SystemError ''failed to close SSTable directory''))"

definition metadata_matches :: "sstable_metadata \<Rightarrow> sstable_metadata \<Rightarrow> bool" where
  "metadata_matches expected actual \<longleftrightarrow>
     md_generation expected = md_generation actual \<and> md_entry_count expected = md_entry_count actual \<and>
     md_block_count expected = md_block_count actual \<and>
     md_min_sequence_number expected = md_min_sequence_number actual \<and>
     md_max_sequence_number expected = md_max_sequence_number actual \<and>
     md_smallest_key expected = md_smallest_key actual \<and> md_largest_key expected = md_largest_key actual"

definition out_of_range :: "managed_table \<Rightarrow> bytes \<Rightarrow> bool" where
  "out_of_range t key \<longleftrightarrow> key < md_smallest_key (tb_metadata t) \<or> key > md_largest_key (tb_metadata t)"

definition newer_candidate :: "entry option \<Rightarrow> entry option \<Rightarrow> entry option" where
  "newer_candidate candidate newest =
     (case candidate of
        None \<Rightarrow> newest
      | Some c \<Rightarrow> (case newest of
          None \<Rightarrow> candidate
        | Some n \<Rightarrow> if entry_sequence_number c > entry_sequence_number n then candidate else newest))"

fun newest_entry_loop :: "managed_table list \<Rightarrow> bytes \<Rightarrow> entry option \<Rightarrow> ('a storage_scheme, entry option) effect" where
  "newest_entry_loop [] key newest s = (Inr newest, s)"
| "newest_entry_loop (t # ts) key newest s =
     (if out_of_range t key then newest_entry_loop ts key newest s
      else bind_effect (sstable_get (tb_reader t) key) (\<lambda>candidate.
        newest_entry_loop ts key (newer_candidate candidate newest)) s)"

definition newest_entry_from_tables :: "managed_table list \<Rightarrow> bytes \<Rightarrow> ('a storage_scheme, entry option) effect" where
  "newest_entry_from_tables tables key = newest_entry_loop tables key None"

definition is_live :: "entry option \<Rightarrow> bool" where
  "is_live e \<longleftrightarrow> (case e of None \<Rightarrow> False | Some x \<Rightarrow> \<not> entry_deleted x)"

definition count_flushed :: "entry option \<Rightarrow> entry \<Rightarrow> u64 \<Rightarrow> u64" where
  "count_flushed previous e live_count =
     (if (case previous of None \<Rightarrow> False | Some p \<Rightarrow> entry_sequence_number p \<ge> entry_sequence_number e) then live_count
      else if \<not> is_live previous \<and> \<not> entry_deleted e then live_count + 1
      else if is_live previous \<and> entry_deleted e then live_count - 1
      else live_count)"

fun live_count_after_flush :: "managed_table list \<Rightarrow> snapshot \<Rightarrow> u64 \<Rightarrow> ('a storage_scheme, u64) effect" where
  "live_count_after_flush current [] live_count s = (Inr live_count, s)"
| "live_count_after_flush current ((key, e) # incoming) live_count s =
     bind_effect (newest_entry_from_tables current key) (\<lambda>previous.
     live_count_after_flush current incoming (count_flushed previous e live_count)) s"

definition merge_record :: "snapshot \<Rightarrow> bytes \<times> entry \<Rightarrow> snapshot" where
  "merge_record merged r =
     (case map_of merged (fst r) of
        None \<Rightarrow> map_insert_or_assign (fst r) (snd r) merged
      | Some existing \<Rightarrow>
          if entry_sequence_number (snd r) > entry_sequence_number existing
          then map_insert_or_assign (fst r) (snd r) merged else merged)"

fun merge_tables :: "managed_table list \<Rightarrow> snapshot \<Rightarrow> ('a storage_scheme, snapshot) effect" where
  "merge_tables [] merged s = (Inr merged, s)"
| "merge_tables (t # ts) merged s =
     bind_effect (sstable_read_all (tb_reader t)) (\<lambda>records. merge_tables ts (foldl merge_record merged records)) s"

definition compute_live_key_count :: "managed_table list \<Rightarrow> ('a storage_scheme, u64) effect" where
  "compute_live_key_count tables =
     bind_effect (merge_tables tables []) (\<lambda>latest.
     lift_result (Inr (of_nat (length (filter (\<lambda>item. \<not> entry_deleted (snd item)) latest)))))"

section \<open>Private methods\<close>

definition build_bloom_filter :: "real option \<Rightarrow> snapshot \<Rightarrow> bloom_filter result" where
  "build_bloom_filter rate snapshot =
     bind_result (bloom_filter_new (of_nat (length snapshot)) rate) (\<lambda>f. Inr (foldl bloom_add f (map fst snapshot)))"

definition table_path :: "bytes \<Rightarrow> sstable_level \<Rightarrow> u64 \<Rightarrow> u64 \<Rightarrow> u64 \<Rightarrow> bytes" where
  "table_path directory level file_id generation max_sequence =
     path_join directory (str ''sstable-'' @ str (level_name level) @ str ''-f'' @ zero_padded file_id @
       str ''-g'' @ zero_padded generation @ str ''-s'' @ zero_padded max_sequence @ str ''.sst'')"

definition reserve_file_id :: "('a sstable_manager_scheme, u64) effect" where
  "reserve_file_id s =
     (if sm_next_file_id s = - 1 then (Inl (OverflowError ''SSTable file identifier space is exhausted''), s)
      else (Inr (sm_next_file_id s), s\<lparr>sm_next_file_id := sm_next_file_id s + 1\<rparr>))"

definition max_sequence_in :: "snapshot \<Rightarrow> u64" where
  "max_sequence_in snapshot = foldl (\<lambda>m r. max m (entry_sequence_number (snd r))) 0 snapshot"

definition maximum_sequence :: "managed_table list \<Rightarrow> u64" where
  "maximum_sequence tables = foldl (\<lambda>m t. max m (md_max_sequence_number (tb_metadata t))) 0 tables"

definition maximum_generation :: "managed_table list \<Rightarrow> u64" where
  "maximum_generation tables = foldl (\<lambda>m t. max m (md_generation (tb_metadata t))) 0 tables"

definition next_generation_after :: "managed_table list \<Rightarrow> u64 result" where
  "next_generation_after tables =
     (if tables = [] then Inr 0
      else if maximum_generation tables = - 1 then Inl (OverflowError ''SSTable generation space is exhausted'')
      else Inr (maximum_generation tables + 1))"

definition publish_tables_locked :: "managed_table list \<Rightarrow> u64 \<Rightarrow> ('a sstable_manager_scheme, unit) effect" where
  "publish_tables_locked tables live_key_count =
     (let tables = sort_tables tables in
      bind_effect (lift_result (validate_level1_ranges tables)) (\<lambda>_.
      bind_effect (lift_result (next_generation_after tables)) (\<lambda>new_next_generation s.
      bind_effect (manifest_commit (sm_manifest s) (metadata_for tables) (sm_next_file_id s)) (\<lambda>(manifest, _) s.
        (Inr (), s\<lparr>sm_manifest := manifest, sm_readers := tables, sm_live_key_count := live_key_count,
           sm_max_sequence_number := maximum_sequence tables, sm_next_generation := new_next_generation,
           sm_state_version := sm_state_version s + 1,
           st_cache := block_cache_reset_statistics (block_cache_clear (st_cache s))\<rparr>)) s)))"

definition recalculate_state_locked :: "('a sstable_manager_scheme, unit) effect" where
  "recalculate_state_locked s =
     (let s = s\<lparr>sm_max_sequence_number := maximum_sequence (sm_readers s)\<rparr> in
      bind_effect (lift_result (next_generation_after (sm_readers s))) (\<lambda>g s.
        (Inr (), s\<lparr>sm_next_generation := g\<rparr>)) s)"

abbreviation table_id :: "managed_table \<Rightarrow> bytes" where
  "table_id t \<equiv> lexically_normal (md_path (tb_metadata t))"

text \<open>The selection starts with the oldest level-0 tables and takes in level-1 tables until none of the
  others overlaps its key range.\<close>

definition older_level0 :: "managed_table \<Rightarrow> managed_table \<Rightarrow> bool" where
  "older_level0 left right \<longleftrightarrow>
     (let lhs = tb_metadata left; rhs = tb_metadata right in
      if md_max_sequence_number lhs \<noteq> md_max_sequence_number rhs
      then md_max_sequence_number lhs < md_max_sequence_number rhs
      else md_generation lhs < md_generation rhs)"

definition widen_selection :: "managed_table \<Rightarrow> compaction_selection \<Rightarrow> compaction_selection" where
  "widen_selection t sel = sel\<lparr>se_smallest_key := min (se_smallest_key sel) (md_smallest_key (tb_metadata t)),
     se_largest_key := max (se_largest_key sel) (md_largest_key (tb_metadata t))\<rparr>"

fun expand_pass :: "managed_table list \<Rightarrow> bool \<times> compaction_selection \<times> bytes set \<Rightarrow>
    bool \<times> compaction_selection \<times> bytes set" where
  "expand_pass [] st = st"
| "expand_pass (t # ts) (expanded, sel, paths) = expand_pass ts
     (if tb_level t \<noteq> Level1 then (expanded, sel, paths)
      else if table_id t \<in> paths then (expanded, sel, paths)
      else if ranges_overlap (se_smallest_key sel) (se_largest_key sel)
        (md_smallest_key (tb_metadata t)) (md_largest_key (tb_metadata t))
      then (True, widen_selection t (sel\<lparr>se_selected := se_selected sel @ [t]\<rparr>), insert (table_id t) paths)
      else (expanded, sel, paths))"

lemma expand_pass_Cons:
  assumes "expand_pass (t # ts) (expanded, sel, paths) = r"
  obtains (skip) "expand_pass ts (expanded, sel, paths) = r"
      and "tb_level t = Level1 \<and> table_id t \<notin> paths \<longrightarrow> \<not> ranges_overlap (se_smallest_key sel) (se_largest_key sel)
        (md_smallest_key (tb_metadata t)) (md_largest_key (tb_metadata t))"
  | (take) "tb_level t = Level1" and "table_id t \<notin> paths"
      and "expand_pass ts (True, widen_selection t (sel\<lparr>se_selected := se_selected sel @ [t]\<rparr>),
        insert (table_id t) paths) = r"
  using assms by (simp split: if_splits)

lemma expand_pass_paths:
  assumes "expand_pass ts (expanded, sel, paths) = (expanded', sel', paths')"
  shows "paths \<subseteq> paths' \<and> paths' \<subseteq> paths \<union> table_id ` set ts \<and> (expanded' \<longleftrightarrow> expanded \<or> paths' \<noteq> paths)"
  using assms
proof (induction ts arbitrary: expanded sel paths)
  case (Cons t ts)
  from Cons.prems show ?case
  proof (cases rule: expand_pass_Cons)
    case skip
    from Cons.IH [OF skip(1)] show ?thesis by auto
  next
    case take
    from Cons.IH [OF take(3)] take(2) show ?thesis by auto
  qed
qed simp

function expand_selection :: "managed_table list \<Rightarrow> compaction_selection \<Rightarrow> bytes set \<Rightarrow>
    compaction_selection \<times> bytes set" where
  "expand_selection readers sel paths =
     (let (expanded, sel', paths') = expand_pass readers (False, sel, paths) in
      if expanded then expand_selection readers sel' paths' else (sel', paths'))"
  by auto

termination
proof (relation "measure (\<lambda>(readers, sel, paths). card (table_id ` set readers - paths))", goal_cases)
  case (2 readers sel paths st expanded y sel' paths')
  then have "expand_pass readers (False, sel, paths) = (expanded, sel', paths')" by simp
  note facts = expand_pass_paths [OF this]
  have "paths' \<noteq> paths" using facts 2 by simp
  then obtain p where "p \<in> paths'" "p \<notin> paths" using facts by blast
  then have "table_id ` set readers - paths' \<subset> table_id ` set readers - paths" using facts by blast
  then show ?case by (simp add: psubset_card_mono)
qed simp

declare expand_selection.simps [simp del]

definition select_level0_compaction_locked :: "bool \<Rightarrow> 'a sstable_manager_scheme \<Rightarrow> compaction_selection" where
  "select_level0_compaction_locked force_all s =
     (let nothing = \<lparr>se_selected = [], se_unselected = [], se_smallest_key = [], se_largest_key = []\<rparr>;
          level0 = filter (\<lambda>t. tb_level t = Level0) (sm_readers s)
      in if level0 = [] \<or> (\<not> force_all \<and> of_nat (length level0) < sm_level0_compaction_trigger s) then nothing
      else
        let level0 = std_sort older_level0 level0;
            selected_count = (if force_all then length level0
              else min (length level0) (unat (sm_level0_compaction_max_tables s)));
            selected = take selected_count level0;
            sel = foldl (\<lambda>sel t. widen_selection t sel)
              (nothing\<lparr>se_selected := selected, se_smallest_key := md_smallest_key (tb_metadata (hd selected)),
                 se_largest_key := md_largest_key (tb_metadata (hd selected))\<rparr>) selected;
            (sel, selected_paths) = expand_selection (sm_readers s) sel (table_id ` set selected)
        in sel\<lparr>se_unselected := filter (\<lambda>t. table_id t \<notin> selected_paths) (sm_readers s)\<rparr>)"

fun can_drop_tombstone :: "bytes \<Rightarrow> entry \<Rightarrow> managed_table list \<Rightarrow> ('a storage_scheme, bool) effect" where
  "can_drop_tombstone key tomb [] s = (Inr True, s)"
| "can_drop_tombstone key tomb (t # ts) s =
     (if out_of_range t key then can_drop_tombstone key tomb ts s
      else bind_effect (sstable_get (tb_reader t) key) (\<lambda>e.
        if is_live e \<and> entry_sequence_number (the e) \<le> entry_sequence_number tomb
        then lift_result (Inr False)
        else can_drop_tombstone key tomb ts) s)"

fun drop_tombstones :: "managed_table list \<Rightarrow> snapshot \<Rightarrow> ('a storage_scheme, snapshot \<times> u64) effect" where
  "drop_tombstones unselected [] s = (Inr ([], 0), s)"
| "drop_tombstones unselected (r # merged) s =
     bind_effect (if entry_deleted (snd r) then can_drop_tombstone (fst r) (snd r) unselected
       else lift_result (Inr False)) (\<lambda>drop.
     bind_effect (drop_tombstones unselected merged) (\<lambda>(kept, dropped).
     lift_result (Inr (if drop then (kept, dropped + 1) else (r # kept, dropped))))) s"

section \<open>Writing tables\<close>

text \<open>Writing one table and opening it, as \<open>flush\<close> and \<open>compact_level0\<close> do.\<close>

definition write_and_open :: "snapshot \<Rightarrow> sstable_level \<Rightarrow> u64 \<Rightarrow>
    ('a sstable_manager_scheme, u64 \<times> sstable_metadata \<times> sstable_reader) effect" where
  "write_and_open snapshot level generation =
     bind_effect reserve_file_id (\<lambda>file_id s.
     let options = \<lparr>wo_output_path = table_path (sm_directory s) level file_id generation (max_sequence_in snapshot),
           wo_target_data_block_bytes = sm_target_data_block_bytes s, wo_generation = generation\<rparr>
     in
     bind_effect (sstable_write snapshot options) (\<lambda>metadata.
     bind_effect (lift_result (build_bloom_filter (sm_bloom_false_positive_rate s) snapshot)) (\<lambda>bloom.
     bind_effect (sstable_reader_new (md_path metadata) True (Some bloom)) (\<lambda>reader.
     lift_result (Inr (file_id, metadata\<lparr>md_level := level\<rparr>, reader))))) s)"

text \<open>The optimistic loop of \<open>flush\<close>: the live count is computed on a copy of the state, and the
  publication is tried again when the state has changed meanwhile.  The list holds what other threads
  do to the manager between the copy and the publication, turn by turn.\<close>

fun flush_loop :: "('a sstable_manager_scheme \<Rightarrow> 'a sstable_manager_scheme) list \<Rightarrow> snapshot \<Rightarrow> sstable_reader \<Rightarrow>
    ('a sstable_manager_scheme, unit) effect" where
  "flush_loop [] snapshot reader s =
     bind_effect (live_count_after_flush (sm_readers s) snapshot (sm_live_key_count s)) (\<lambda>new_live_count.
     publish_tables_locked (sm_readers s @ [\<lparr>tb_reader = reader, tb_level = Level0\<rparr>]) new_live_count) s"
| "flush_loop (others # rest) snapshot reader s =
     bind_effect (live_count_after_flush (sm_readers s) snapshot (sm_live_key_count s)) (\<lambda>new_live_count s1.
     let s2 = others s1 in
     if sm_state_version s2 \<noteq> sm_state_version s then flush_loop rest snapshot reader s2
     else publish_tables_locked (sm_readers s @ [\<lparr>tb_reader = reader, tb_level = Level0\<rparr>]) new_live_count s2) s"

definition sstable_flush :: "('a sstable_manager_scheme \<Rightarrow> 'a sstable_manager_scheme) list \<Rightarrow> memtable \<Rightarrow>
    ('a sstable_manager_scheme, sstable_metadata) effect" where
  "sstable_flush interference table =
     bind_effect (lift_result (throw_if (\<not> mt_immutable table)
       (InvalidArgument ''only immutable MemTables can be flushed to SSTables''))) (\<lambda>_.
     let snapshot = memtable_snapshot table in
     bind_effect (lift_result (throw_if (snapshot = []) (InvalidArgument ''cannot flush an empty MemTable''))) (\<lambda>_.
     bind_effect (write_and_open snapshot Level0 (mt_generation table)) (\<lambda>(file_id, metadata, reader).
     bind_effect (flush_loop interference snapshot reader) (\<lambda>_.
     lift_result (Inr metadata)))))"

section \<open>Compaction\<close>

text \<open>\<open>std::filesystem::remove(path, error)\<close>: an error, or whether the file existed.\<close>

definition try_remove :: "bytes \<Rightarrow> 'a world_scheme \<Rightarrow> bool option \<times> 'a world_scheme" where
  "try_remove path w =
     (case sys_call (SystemError []) w of
        (Inl _, w') \<Rightarrow> (None, w')
      | (Inr _, w') \<Rightarrow> (Some (fs_files (w_fs w') path \<noteq> None), w'\<lparr>w_fs := fs_remove path (w_fs w')\<rparr>))"

fun remove_obsolete :: "bytes list \<Rightarrow> bool \<Rightarrow> 'a world_scheme \<Rightarrow> bool \<times> 'a world_scheme" where
  "remove_obsolete [] removed_any w = (removed_any, w)"
| "remove_obsolete (path # paths) removed_any w =
     (let (removed, w') = try_remove path w in remove_obsolete paths (removed_any \<or> removed = Some True) w')"

definition count_compaction :: "compaction_result \<Rightarrow> compaction_statistics \<Rightarrow> compaction_statistics" where
  "count_compaction result c =
     \<lparr>cs_runs = cs_runs c + 1, cs_input_tables = cs_input_tables c + cr_input_tables result,
      cs_output_tables = cs_output_tables c + cr_output_tables result,
      cs_input_entries = cs_input_entries c + cr_input_entries result,
      cs_output_entries = cs_output_entries c + cr_output_entries result,
      cs_tombstones_dropped = cs_tombstones_dropped c + cr_tombstones_dropped result\<rparr>"

definition publish_compaction :: "managed_table list \<Rightarrow> managed_table option \<Rightarrow> compaction_result \<Rightarrow>
    ('a sstable_manager_scheme, bytes list) effect" where
  "publish_compaction selected output result s =
     (let selected_paths = table_id ` set selected;
          obsolete = map (\<lambda>t. md_path (tb_metadata t)) (filter (\<lambda>t. table_id t \<in> selected_paths) (sm_readers s));
          replacement = filter (\<lambda>t. table_id t \<notin> selected_paths) (sm_readers s) @
            (case output of None \<Rightarrow> [] | Some t \<Rightarrow> [t])
      in
      bind_effect (lift_result (throw_if (\<not> selected_paths \<subseteq> table_id ` set (sm_readers s))
        (RuntimeError ''compaction input changed before manifest publication''))) (\<lambda>_.
      bind_effect (publish_tables_locked replacement (sm_live_key_count s)) (\<lambda>_ s.
        (Inr obsolete, s\<lparr>sm_compaction_statistics := count_compaction result (sm_compaction_statistics s)\<rparr>))) s)"

text \<open>Writing the output table, when anything is left of the input.\<close>

definition write_compacted :: "snapshot \<Rightarrow> u64 \<Rightarrow> compaction_result \<Rightarrow>
    ('a sstable_manager_scheme, managed_table option \<times> compaction_result) effect" where
  "write_compacted compacted output_generation result =
     (if compacted = [] then lift_result (Inr (None, result))
      else bind_effect (write_and_open compacted Level1 output_generation) (\<lambda>(file_id, metadata, reader).
        lift_result (Inr (Some \<lparr>tb_reader = reader, tb_level = Level1\<rparr>,
          result\<lparr>cr_output_file_id := file_id, cr_output_tables := 1\<rparr>))))"

definition compact_level0 :: "('a sstable_manager_scheme \<Rightarrow> 'a sstable_manager_scheme) \<Rightarrow> bool \<Rightarrow>
    ('a sstable_manager_scheme, compaction_result) effect" where
  "compact_level0 others force_all s =
     (let selection = select_level0_compaction_locked force_all s; selected = se_selected selection in
      if selected = [] then (Inr no_compaction, s)
      else
        bind_effect (merge_tables selected []) (\<lambda>merged.
        bind_effect (drop_tombstones (se_unselected selection) merged) (\<lambda>(compacted, dropped).
        let result = no_compaction\<lparr>cr_performed := True, cr_input_tables := of_nat (length selected),
              cr_input_entries := foldl (\<lambda>n t. n + md_entry_count (tb_metadata t)) 0 selected,
              cr_tombstones_dropped := dropped, cr_output_entries := of_nat (length compacted)\<rparr>
        in
        bind_effect (write_compacted compacted (maximum_generation selected) result) (\<lambda>(output, result) s.
        bind_effect (publish_compaction selected output result) (\<lambda>obsolete s.
        let (removed_any, s) = remove_obsolete obsolete False s in
        bind_effect (if removed_any then manager_sync_directory (sm_directory s) else lift_result (Inr ())) (\<lambda>_.
        lift_result (Inr result)) s) (others s)))) s)"

section \<open>Queries\<close>

definition sstable_manager_get :: "bytes \<Rightarrow> ('a sstable_manager_scheme, entry option) effect" where
  "sstable_manager_get key =
     bind_effect (lift_result (validate_key key)) (\<lambda>_ s. newest_entry_from_tables (sm_readers s) key s)"

definition table_count :: "'a sstable_manager_scheme \<Rightarrow> u64" where
  "table_count s = of_nat (length (sm_readers s))"

definition level_table_count :: "sstable_level \<Rightarrow> 'a sstable_manager_scheme \<Rightarrow> u64" where
  "level_table_count level s = of_nat (length (filter (\<lambda>t. tb_level t = level) (sm_readers s)))"

definition needs_compaction :: "'a sstable_manager_scheme \<Rightarrow> bool" where
  "needs_compaction s \<longleftrightarrow> level_table_count Level0 s \<ge> sm_level0_compaction_trigger s"

definition compact_if_needed :: "('a sstable_manager_scheme \<Rightarrow> 'a sstable_manager_scheme) \<Rightarrow>
    ('a sstable_manager_scheme, compaction_result) effect" where
  "compact_if_needed others s = (if \<not> needs_compaction s then (Inr no_compaction, s) else compact_level0 others False s)"

definition sstable_manager_metadata :: "'a sstable_manager_scheme \<Rightarrow> sstable_metadata list" where
  "sstable_manager_metadata s = metadata_for (sm_readers s)"

definition add_bloom_statistics :: "'a sstable_manager_scheme \<Rightarrow> bloom_aggregate_statistics \<Rightarrow> managed_table \<Rightarrow>
    bloom_aggregate_statistics" where
  "add_bloom_statistics s a t =
     (let a = (case rd_bloom_filter (tb_reader t) of
            None \<Rightarrow> a
          | Some f \<Rightarrow> a\<lparr>ba_filter_count := ba_filter_count a + 1,
              ba_inserted_keys := ba_inserted_keys a + bf_inserted_keys f,
              ba_memory_bytes := ba_memory_bytes a + bloom_memory_bytes f\<rparr>);
          (checks, negatives) = st_lookup_statistics s (rd_cache_table_id (tb_reader t))
      in a\<lparr>ba_checks := ba_checks a + checks, ba_negative_results := ba_negative_results a + negatives\<rparr>)"

definition bloom_filter_statistics :: "'a sstable_manager_scheme \<Rightarrow> bloom_aggregate_statistics" where
  "bloom_filter_statistics s = foldl (add_bloom_statistics s)
     \<lparr>ba_filter_count = 0, ba_inserted_keys = 0, ba_memory_bytes = 0, ba_checks = 0, ba_negative_results = 0\<rparr>
     (sm_readers s)"

definition clear_block_cache :: "'a storage_scheme \<Rightarrow> 'a storage_scheme" where
  "clear_block_cache s = s\<lparr>st_cache := block_cache_clear (st_cache s)\<rparr>"

definition reset_read_statistics :: "'a sstable_manager_scheme \<Rightarrow> 'a sstable_manager_scheme" where
  "reset_read_statistics s =
     (let s = s\<lparr>st_cache := block_cache_reset_statistics (st_cache s)\<rparr>
      in foldl (\<lambda>s t. reset_lookup_statistics (tb_reader t) s) s (sm_readers s))"

section \<open>Start-up\<close>

fun remove_temporaries :: "bytes list \<Rightarrow> 'a world_scheme \<Rightarrow> 'a world_scheme" where
  "remove_temporaries [] w = w"
| "remove_temporaries (p # ps) w =
     remove_temporaries ps (if is_temporary_storage_path p then remove_ignored p w else w)"

text \<open>A table is opened twice: once to read its keys, and once with the Bloom filter built from them.\<close>

definition open_table :: "bytes \<Rightarrow> sstable_level \<Rightarrow> (sstable_metadata \<Rightarrow> unit result) \<Rightarrow>
    ('a sstable_manager_scheme, managed_table) effect" where
  "open_table path level accept =
     bind_effect (sstable_reader_new path True None) (\<lambda>uncached.
     bind_effect (lift_result (accept (rd_metadata uncached))) (\<lambda>_.
     bind_effect (sstable_read_all uncached) (\<lambda>contents s.
     bind_effect (lift_result (build_bloom_filter (sm_bloom_false_positive_rate s) contents)) (\<lambda>bloom.
     bind_effect (sstable_reader_new path True (Some bloom)) (\<lambda>reader.
     lift_result (Inr \<lparr>tb_reader = reader, tb_level = level\<rparr>))) s)))"

fun load_tables :: "sstable_metadata list \<Rightarrow> ('a sstable_manager_scheme, managed_table list) effect" where
  "load_tables [] s = (Inr [], s)"
| "load_tables (expected # ms) s =
     bind_effect (open_table (md_path expected) (md_level expected) (\<lambda>actual.
       throw_if (\<not> metadata_matches expected actual)
         (RuntimeError (''manifest metadata mismatch for SSTable: '' @ text_of (md_path expected))))) (\<lambda>t.
     bind_effect (load_tables ms) (\<lambda>ts. lift_result (Inr (t # ts)))) s"

definition load_manifest_snapshot :: "manifest_snapshot \<Rightarrow> ('a sstable_manager_scheme, unit) effect" where
  "load_manifest_snapshot m =
     bind_effect (load_tables (mf_tables m)) (\<lambda>loaded s.
     let s = s\<lparr>sm_readers := sort_tables loaded\<rparr> in
     bind_effect (lift_result (validate_level1_ranges (sm_readers s))) (\<lambda>_ s.
       (Inr (), s\<lparr>sm_next_file_id := mf_next_file_id m\<rparr>)) s)"

fun load_legacy :: "bytes list \<Rightarrow> ('a sstable_manager_scheme, unit) effect" where
  "load_legacy [] s = (Inr (), s)"
| "load_legacy (path # paths) s =
     bind_effect (open_table path Level0 (\<lambda>_. Inr ())) (\<lambda>t s.
     load_legacy paths (s\<lparr>sm_readers := sm_readers s @ [t]\<rparr>)) s"

definition migrate_legacy_tables :: "('a sstable_manager_scheme, unit) effect" where
  "migrate_legacy_tables s =
     (let paths = std_sort (<) (filter is_sstable_path (directory_files (sm_directory s) s)) in
      bind_effect (load_legacy paths) (\<lambda>_ s.
      let s = s\<lparr>sm_readers := sort_tables (sm_readers s), sm_next_file_id := 1\<rparr> in
      bind_effect (manifest_commit (sm_manifest s) (metadata_for (sm_readers s)) (sm_next_file_id s)) (\<lambda>(manifest, _) s.
        (Inr (), s\<lparr>sm_manifest := manifest\<rparr>)) s) s)"

fun remove_abandoned :: "bytes set \<Rightarrow> bytes list \<Rightarrow> bool \<Rightarrow> ('a world_scheme, bool) effect" where
  "remove_abandoned active [] removed_any w = (Inr removed_any, w)"
| "remove_abandoned active (p # ps) removed_any w =
     (if \<not> is_sstable_path p \<or> path_filename p \<in> active then remove_abandoned active ps removed_any w
      else case try_remove p w of
        (None, w') \<Rightarrow> (Inl (SystemError ''failed to remove abandoned SSTable file''), w')
      | (Some removed, w') \<Rightarrow> remove_abandoned active ps (removed_any \<or> removed) w')"

definition cleanup_abandoned_files :: "bytes \<Rightarrow> sstable_metadata list \<Rightarrow> ('a world_scheme, unit) effect" where
  "cleanup_abandoned_files directory active_tables w =
     bind_effect (remove_abandoned ((\<lambda>t. path_filename (md_path t)) ` set active_tables) (directory_files directory w) False)
       (\<lambda>removed_any. if removed_any then manager_sync_directory directory else lift_result (Inr ())) w"

definition load_existing :: "('a sstable_manager_scheme, unit) effect" where
  "load_existing s =
     (let s = remove_temporaries (directory_files (sm_directory s) s) s in
      bind_effect (manifest_load (sm_manifest s)) (\<lambda>(manifest, snapshot) s.
      let s = s\<lparr>sm_manifest := manifest\<rparr> in
      bind_effect (case snapshot of Some m \<Rightarrow> load_manifest_snapshot m | None \<Rightarrow> migrate_legacy_tables) (\<lambda>_ s.
      bind_effect (cleanup_abandoned_files (sm_directory s) (metadata_for (sm_readers s))) (\<lambda>_ s.
      bind_effect (compute_live_key_count (sm_readers s)) (\<lambda>n s.
      bind_effect recalculate_state_locked (\<lambda>_ s.
        (Inr (), s\<lparr>st_cache := block_cache_reset_statistics (block_cache_clear (st_cache s))\<rparr>))
        (s\<lparr>sm_live_key_count := n\<rparr>)) s) s) s) s)"

definition initial_manager :: "sstable_manager_options \<Rightarrow> block_cache \<Rightarrow> manifest_manager \<Rightarrow> 'a sstable_manager_scheme \<Rightarrow>
    'a sstable_manager_scheme" where
  "initial_manager options cache manifest s = s\<lparr>st_cache := cache, sm_directory := mo_directory options,
     sm_target_data_block_bytes := mo_target_data_block_bytes options,
     sm_bloom_false_positive_rate := mo_bloom_false_positive_rate options,
     sm_level0_compaction_trigger := mo_level0_compaction_trigger options,
     sm_level0_compaction_max_tables := mo_level0_compaction_max_tables options,
     sm_manifest := manifest, sm_readers := [], sm_live_key_count := 0, sm_max_sequence_number := 0,
     sm_next_generation := 0, sm_next_file_id := 1,
     sm_compaction_statistics := \<lparr>cs_runs = 0, cs_input_tables = 0, cs_output_tables = 0, cs_input_entries = 0,
       cs_output_entries = 0, cs_tombstones_dropped = 0\<rparr>,
     sm_state_version := 0\<rparr>"

definition sstable_manager_new :: "sstable_manager_options \<Rightarrow> ('a sstable_manager_scheme, unit) effect" where
  "sstable_manager_new options =
     bind_effect (lift_result (block_cache_new (mo_block_cache_capacity_bytes options))) (\<lambda>cache.
     bind_effect (manifest_manager_new (mo_directory options)) (\<lambda>manifest.
     bind_effect (lift_result (throw_if (mo_directory options = []) (InvalidArgument ''SSTable directory must not be empty''))) (\<lambda>_.
     bind_effect (lift_result (throw_if (mo_target_data_block_bytes options = 0 \<or> mo_target_data_block_bytes options > 4294967295)
       (InvalidArgument ''SSTable target data block size is invalid''))) (\<lambda>_.
     bind_effect (lift_result (throw_if (case mo_bloom_false_positive_rate options of None \<Rightarrow> True | Some r \<Rightarrow> r \<le> 0 \<or> r \<ge> 1)
       (InvalidArgument ''SSTable Bloom filter false-positive rate must be between zero and one''))) (\<lambda>_.
     bind_effect (lift_result (throw_if (mo_level0_compaction_trigger options < 2 \<or> mo_level0_compaction_max_tables options < 2 \<or>
         mo_level0_compaction_max_tables options < mo_level0_compaction_trigger options)
       (InvalidArgument ''Level-0 compaction limits must be at least two and max must meet trigger''))) (\<lambda>_.
     bind_effect (sys_call (SystemError ''filesystem error: cannot create directories'')) (\<lambda>_ s.
     load_existing (initial_manager options cache manifest s))))))))"

end
