(* ===== verification/TableSet.thy ===== *)
theory TableSet
  imports SSTableManager
begin

text \<open>
  What a set of tables says.  Every well-formed table stands for a sorted snapshot; for each key the
  entry with the highest sequence number over all tables is the valid one.  The loops of the manager
  that read tables (lookup, merge, tombstone test, live counts) are shown to compute functions of
  these snapshots, on every kernel behaviour under which they return.
\<close>

section \<open>The contents of a table\<close>

definition reader_blocks :: "sstable_reader \<Rightarrow> data_block list" where
  "reader_blocks r = map (\<lambda>ie. projr (parse_data_block
     (subspan (unat (ie_block_offset ie)) (unat (ie_block_size ie)) (rd_data r)) (ie_block_offset ie))) (rd_index r)"

definition table_entries :: "managed_table \<Rightarrow> snapshot" where
  "table_entries t = all_records (reader_blocks (tb_reader t))"

definition table_ok :: "managed_table \<Rightarrow> bool" where
  "table_ok t \<longleftrightarrow> (\<exists>options bloom.
     table_written (table_entries t) options (tb_metadata t) (rd_data (tb_reader t)) \<and>
     valid_snapshot (table_entries t) \<and> length (table_entries t) < 2 ^ 32 \<and>
     opened_as (tb_reader t) (wo_output_path options) True (Some bloom) (tb_metadata t) (rd_data (tb_reader t))
       (table_blocks (table_entries t) options) \<and>
     (\<forall>k\<in>fst ` set (table_entries t). may_contain bloom k))"

lemma reader_blocks_eq:
  assumes "list_all2 (block_at (rd_data r)) (rd_index r) bs"
  shows "reader_blocks r = bs"
proof -
  have "projr (parse_data_block (subspan (unat (ie_block_offset ie)) (unat (ie_block_size ie)) (rd_data r)) (ie_block_offset ie)) = b"
    if "block_at (rd_data r) ie b" for ie b
    using that parse_serialize_data_block [of b] by (auto simp: block_at_def)
  with assms have "list_all2 (\<lambda>ie b. projr (parse_data_block
      (subspan (unat (ie_block_offset ie)) (unat (ie_block_size ie)) (rd_data r)) (ie_block_offset ie)) = b) (rd_index r) bs"
    by (rule list_all2_mono)
  then show ?thesis by (auto simp: reader_blocks_def list_all2_conv_all_nth intro: nth_equalityI)
qed

lemma table_okI:
  assumes "table_written es options (tb_metadata t) bs" and "valid_snapshot es" and "length es < 2 ^ 32"
    and "opened_as (tb_reader t) (wo_output_path options) True (Some bloom) (tb_metadata t) bs (table_blocks es options)"
    and "\<forall>k\<in>fst ` set es. may_contain bloom k"
  shows "table_ok t" and "table_entries t = es"
proof -
  have bs: "rd_data (tb_reader t) = bs" using assms(4) by (simp add: opened_as_def)
  have "reader_blocks (tb_reader t) = table_blocks es options"
    using assms(4) by (intro reader_blocks_eq) (simp add: opened_as_def)
  then show es: "table_entries t = es" by (simp add: table_entries_def)
  show "table_ok t" using assms unfolding table_ok_def es bs by blast
qed

text \<open>What a well-formed table promises.\<close>

lemma table_okD:
  assumes "table_ok t"
  shows "reader_holds (tb_reader t) (reader_blocks (tb_reader t))"
    and "rd_cache_table_id (tb_reader t) = table_id t" and "distinct (map ie_block_offset (rd_index (tb_reader t)))"
    and "valid_table (tb_metadata t)" and "md_level (tb_metadata t) = Level0"
    and "table_entries t \<noteq> []" and "valid_snapshot (table_entries t)" and "length (table_entries t) < 2 ^ 32"
    and "md_smallest_key (tb_metadata t) = fst (hd (table_entries t))"
    and "md_largest_key (tb_metadata t) = fst (last (table_entries t))"
    and "md_entry_count (tb_metadata t) = of_nat (length (table_entries t))"
    and "md_max_sequence_number (tb_metadata t) \<in> (\<lambda>r. entry_sequence_number (snd r)) ` set (table_entries t)"
    and "\<forall>r\<in>set (table_entries t). entry_sequence_number (snd r) \<le> md_max_sequence_number (tb_metadata t)"
    and "rd_uses_cache (tb_reader t)" and "length (rd_data (tb_reader t)) < 2 ^ 63"
proof -
  let ?r = "tb_reader t" and ?es = "table_entries t"
  from assms obtain options bloom where tw: "table_written ?es options (tb_metadata t) (rd_data ?r)"
    and valid: "valid_snapshot ?es" and few: "length ?es < 2 ^ 32"
    and op: "opened_as ?r (wo_output_path options) True (Some bloom) (tb_metadata t) (rd_data ?r) (table_blocks ?es options)"
    and bloom: "\<forall>k\<in>fst ` set ?es. may_contain bloom k" unfolding table_ok_def by blast
  have small: "length (rd_data ?r) < 2 ^ 63" by (rule table_written_small [OF tw valid few])
  have blocks: "reader_blocks ?r = table_blocks ?es options" using op by (intro reader_blocks_eq) (simp add: opened_as_def)
  show "reader_holds ?r (reader_blocks ?r)"
    unfolding blocks by (rule opened_as_holds [OF op tw valid small]) (use few bloom in auto)
  from tw obtain mn mx target where ne: "?es \<noteq> []" and nb: "length (table_blocks ?es options) < 2 ^ 32"
    and scan: "scan_entries [] (- 1) 0 ?es = Inr (mn, mx)"
    and md: "tb_metadata t = \<lparr>md_path = wo_output_path options, md_generation = wo_generation options,
          md_entry_count = of_nat (length ?es), md_block_count = of_nat (length (table_blocks ?es options)),
          md_min_sequence_number = mn, md_max_sequence_number = mx,
          md_smallest_key = fst (hd ?es), md_largest_key = fst (last ?es), md_level = Level0\<rparr>"
    unfolding table_written_def by blast
  have "\<forall>r\<in>set ?es. valid_entry r" using valid by (simp add: valid_snapshot_def)
  note sq = scan_entries_sequences [OF scan ne this]
  show "table_entries t \<noteq> []" "valid_snapshot ?es" "length ?es < 2 ^ 32" "length (rd_data ?r) < 2 ^ 63"
    by (rule ne valid few small)+
  show "rd_cache_table_id ?r = table_id t" "distinct (map ie_block_offset (rd_index ?r))" "rd_uses_cache ?r"
    using op md by (auto simp: opened_as_def)
  have "unat (of_nat (length ?es) :: u64) = length ?es" using few by (intro unat_of_nat_u64) simp
  then have "(of_nat (length ?es) :: u64) \<noteq> 0" using ne by (metis length_0_conv unat_0)
  moreover have "unat (of_nat (length (table_blocks ?es options)) :: u32) = length (table_blocks ?es options)"
    using nb by (simp add: unat_of_nat take_bit_nat_eq_self)
  then have "(of_nat (length (table_blocks ?es options)) :: u32) \<noteq> 0"
    using table_blocks_facts(1) [OF ne] by (metis length_0_conv unat_0)
  ultimately show "valid_table (tb_metadata t)" using sq by (simp add: valid_table_def md)
  show "md_level (tb_metadata t) = Level0" "md_smallest_key (tb_metadata t) = fst (hd ?es)"
    "md_largest_key (tb_metadata t) = fst (last ?es)" "md_entry_count (tb_metadata t) = of_nat (length ?es)"
    "md_max_sequence_number (tb_metadata t) \<in> (\<lambda>r. entry_sequence_number (snd r)) ` set ?es"
    "\<forall>r\<in>set ?es. entry_sequence_number (snd r) \<le> md_max_sequence_number (tb_metadata t)"
    using sq by (simp_all add: md)
qed

lemma table_sorted: "table_ok t \<Longrightarrow> sorted_map (table_entries t)"
  by (simp add: table_okD(7) [unfolded valid_snapshot_def])

lemma out_of_range_None: "table_ok t \<Longrightarrow> out_of_range t k \<Longrightarrow> map_of (table_entries t) k = None"
  using smallest_largest [OF table_sorted] by (simp add: out_of_range_def table_okD(9,10))

section \<open>Versions of a key\<close>

definition versions :: "managed_table set \<Rightarrow> bytes \<Rightarrow> entry set" where
  "versions T k = {e. \<exists>t\<in>T. map_of (table_entries t) k = Some e}"

text \<open>No two entries of a key share a sequence number.\<close>

definition consistent :: "managed_table set \<Rightarrow> bool" where
  "consistent T \<longleftrightarrow> (\<forall>k. inj_on entry_sequence_number (versions T k))"

definition newest_of :: "entry set \<Rightarrow> entry \<Rightarrow> bool" where
  "newest_of E e \<longleftrightarrow> e \<in> E \<and> (\<forall>e'\<in>E. entry_sequence_number e' \<le> entry_sequence_number e)"

definition newest :: "managed_table list \<Rightarrow> bytes \<Rightarrow> entry option" where
  "newest ts k = foldl (\<lambda>n t. newer_candidate (map_of (table_entries t) k) n) None ts"

lemma versions_simps [simp]:
  "versions {} k = {}"
  "versions (insert t T) k = set_option (map_of (table_entries t) k) \<union> versions T k"
  "versions (T \<union> T') k = versions T k \<union> versions T' k"
  by (auto simp: versions_def)

lemma newest_of_unique:
  assumes "inj_on entry_sequence_number E" and "newest_of E e" and "newest_of E e'"
  shows "e = e'"
proof -
  have "entry_sequence_number e = entry_sequence_number e'" using assms(2,3) by (intro antisym) (simp_all add: newest_of_def)
  with assms show ?thesis by (auto simp: newest_of_def dest: inj_onD)
qed

lemma newest_cases:
  "(newest ts k = None \<and> versions (set ts) k = {}) \<or> (\<exists>e. newest ts k = Some e \<and> newest_of (versions (set ts) k) e)"
proof (induction ts rule: rev_induct)
  case (snoc t ts)
  have step: "newest (ts @ [t]) k = newer_candidate (map_of (table_entries t) k) (newest ts k)" by (simp add: newest_def)
  show ?case
  proof (cases "map_of (table_entries t) k")
    case None
    with snoc step show ?thesis by (simp add: newer_candidate_def)
  next
    case c: (Some c)
    from snoc show ?thesis
    proof
      assume "newest ts k = None \<and> versions (set ts) k = {}"
      with c step show ?thesis by (simp add: newer_candidate_def newest_of_def)
    next
      assume "\<exists>e. newest ts k = Some e \<and> newest_of (versions (set ts) k) e"
      then obtain e where e: "newest ts k = Some e" "newest_of (versions (set ts) k) e" by blast
      show ?thesis
      proof (cases "entry_sequence_number e < entry_sequence_number c")
        case True
        have "newest_of (versions (set (ts @ [t])) k) c" using e c True by (auto simp: newest_of_def)
        with e c step True show ?thesis by (auto simp: newer_candidate_def)
      next
        case False
        have "newest_of (versions (set (ts @ [t])) k) e" using e c False by (auto simp: newest_of_def)
        with e c step False show ?thesis by (auto simp: newer_candidate_def)
      qed
    qed
  qed
qed (simp add: newest_def)

lemma newest_None_iff: "newest ts k = None \<longleftrightarrow> versions (set ts) k = {}"
  using newest_cases [of ts k] by (auto simp: newest_of_def)

lemma newest_Some_iff:
  assumes "consistent (set ts)"
  shows "newest ts k = Some e \<longleftrightarrow> newest_of (versions (set ts) k) e"
proof -
  have inj: "inj_on entry_sequence_number (versions (set ts) k)" using assms by (simp add: consistent_def)
  show ?thesis
    using newest_cases [of ts k] newest_of_unique [OF inj] by (auto simp: newest_of_def)
qed

lemma newest_cong:
  assumes "consistent (set ts)" and "set ts' = set ts"
  shows "newest ts' = newest ts"
proof
  fix k
  have "consistent (set ts')" using assms by simp
  then have "newest ts' k = Some e \<longleftrightarrow> newest ts k = Some e" for e
    using assms by (simp add: newest_Some_iff)
  then show "newest ts' k = newest ts k" by (metis not_Some_eq)
qed

lemma consistent_subset: "consistent T \<Longrightarrow> T' \<subseteq> T \<Longrightarrow> consistent T'"
  unfolding consistent_def versions_def by (blast intro: inj_on_subset)

section \<open>Reading several tables\<close>

definition knows :: "(cache_key \<rightharpoonup> data_block) \<Rightarrow> managed_table set \<Rightarrow> bool" where
  "knows src T \<longleftrightarrow> (\<forall>t\<in>T. table_ok t \<and> source_knows src (tb_reader t) (reader_blocks (tb_reader t)))"

lemma knows_simps [simp]:
  "knows src {}"
  "knows src (insert t T) \<longleftrightarrow> table_ok t \<and> source_knows src (tb_reader t) (reader_blocks (tb_reader t)) \<and> knows src T"
  by (simp_all add: knows_def)

lemma knows_subset: "knows src T \<Longrightarrow> T' \<subseteq> T \<Longrightarrow> knows src T'"
  unfolding knows_def by blast

lemma knows_table:
  assumes "knows src T" and "t \<in> T"
  shows "valid_key k \<Longrightarrow> yields src (sstable_get (tb_reader t) k) (map_of (table_entries t) k)"
    and "yields src (sstable_read_all (tb_reader t)) (table_entries t)"
  using assms unfolding knows_def table_entries_def
  by (auto intro!: sstable_get_yields sstable_read_all_yields table_okD(1))

lemma newest_entry_loop_yields:
  assumes "knows src (set ts)" and "valid_key k"
  shows "yields src (newest_entry_loop ts k n :: ('a storage_scheme, entry option) effect)
    (foldl (\<lambda>n t. newer_candidate (map_of (table_entries t) k) n) n ts)"
  using assms(1)
proof (induction ts arbitrary: n)
  case (Cons t ts)
  have "yields src (newest_entry_loop ts k n :: ('a storage_scheme, entry option) effect)
      (foldl (\<lambda>n t. newer_candidate (map_of (table_entries t) k) n) n ts)" for n
    using Cons by simp
  note IH = this
  show ?case
  proof (cases "out_of_range t k")
    case True
    have "newest_entry_loop (t # ts) k n = (newest_entry_loop ts k n :: ('a storage_scheme, entry option) effect)"
      using True by (intro ext) simp
    moreover have "map_of (table_entries t) k = None" using True Cons.prems by (intro out_of_range_None) simp_all
    ultimately show ?thesis using IH [of n] by (simp add: newer_candidate_def)
  next
    case False
    have "newest_entry_loop (t # ts) k n = (bind_effect (sstable_get (tb_reader t) k) (\<lambda>candidate.
        newest_entry_loop ts k (newer_candidate candidate n)) :: ('a storage_scheme, entry option) effect)"
      using False by (intro ext) simp
    moreover have "yields src (sstable_get (tb_reader t) k) (map_of (table_entries t) k)"
      by (intro knows_table(1) [OF Cons.prems _ assms(2)]) simp
    ultimately show ?thesis using IH by (auto intro!: yields_bind)
  qed
qed (simp add: yields_def)

lemma newest_entry_yields:
  assumes "knows src (set ts)" and "valid_key k"
  shows "yields src (newest_entry_from_tables ts k) (newest ts k)"
  unfolding newest_entry_from_tables_def newest_def by (rule newest_entry_loop_yields [OF assms])

subsection \<open>Merging\<close>

lemma map_of_merge_record:
  "map_of (merge_record m r) k = (if k = fst r then newer_candidate (Some (snd r)) (map_of m k) else map_of m k)"
  by (auto simp: merge_record_def newer_candidate_def split: option.splits)

lemma sorted_merge_record: "sorted_map m \<Longrightarrow> sorted_map (merge_record m r)"
  by (auto simp: merge_record_def sorted_map_insert_or_assign split: option.splits)

lemma merge_records:
  assumes "sorted_map m" and "distinct (map fst rs)"
  shows "sorted_map (foldl merge_record m rs)"
    and "map_of (foldl merge_record m rs) k = newer_candidate (map_of rs k) (map_of m k)"
proof -
  have "sorted_map (foldl merge_record m rs) \<and>
      map_of (foldl merge_record m rs) k = newer_candidate (map_of rs k) (map_of m k)"
    using assms
  proof (induction rs arbitrary: m)
    case (Cons r rs)
    have IH: "sorted_map (foldl merge_record (merge_record m r) rs)"
      "map_of (foldl merge_record (merge_record m r) rs) k = newer_candidate (map_of rs k) (map_of (merge_record m r) k)"
      using Cons sorted_merge_record by auto
    show ?case
    proof (cases "k = fst r")
      case True
      then have "map_of rs k = None" using Cons.prems(2) by (simp add: map_of_eq_None_iff)
      with True IH show ?thesis by (simp add: map_of_merge_record newer_candidate_def)
    next
      case False
      then have "map_of (r # rs) k = map_of rs k" by (cases r) auto
      with False IH show ?thesis by (simp add: map_of_merge_record)
    qed
  qed (simp add: newer_candidate_def)
  then show "sorted_map (foldl merge_record m rs)"
    "map_of (foldl merge_record m rs) k = newer_candidate (map_of rs k) (map_of m k)" by blast+
qed

definition merged :: "managed_table list \<Rightarrow> snapshot" where
  "merged ts = foldl (\<lambda>m t. foldl merge_record m (table_entries t)) [] ts"

lemma merged_facts:
  assumes "\<forall>t\<in>set ts. table_ok t"
  shows "sorted_map (merged ts)" and "map_of (merged ts) = newest ts"
proof -
  have "sorted_map (foldl (\<lambda>m t. foldl merge_record m (table_entries t)) m ts) \<and>
      map_of (foldl (\<lambda>m t. foldl merge_record m (table_entries t)) m ts) k =
        foldl (\<lambda>n t. newer_candidate (map_of (table_entries t) k) n) (map_of m k) ts" if "sorted_map m" for m k
    using assms that
  proof (induction ts arbitrary: m)
    case (Cons t ts)
    have "distinct (map fst (table_entries t))" using Cons.prems by (simp add: table_sorted sorted_map_distinct)
    from merge_records [OF Cons.prems(2) this] Cons show ?case by simp
  qed simp
  from this [of "[]"] show "sorted_map (merged ts)" "map_of (merged ts) = newest ts"
    by (auto simp: merged_def newest_def fun_eq_iff)
qed

lemma merge_tables_yields:
  assumes "knows src (set ts)"
  shows "yields src (merge_tables ts m :: ('a storage_scheme, snapshot) effect)
    (foldl (\<lambda>m t. foldl merge_record m (table_entries t)) m ts)"
  using assms
proof (induction ts arbitrary: m)
  case (Cons t ts)
  have IH: "yields src (merge_tables ts m :: ('a storage_scheme, snapshot) effect)
      (foldl (\<lambda>m t. foldl merge_record m (table_entries t)) m ts)" for m using Cons by simp
  have "merge_tables (t # ts) m = (bind_effect (sstable_read_all (tb_reader t)) (\<lambda>records.
      merge_tables ts (foldl merge_record m records)) :: ('a storage_scheme, snapshot) effect)" by (rule ext) simp
  moreover have "yields src (sstable_read_all (tb_reader t)) (table_entries t)" by (intro knows_table(2) [OF Cons.prems]) simp
  ultimately show ?case using IH by (auto intro!: yields_bind)
qed (simp add: yields_def)

lemma merged_yields: "knows src (set ts) \<Longrightarrow> yields src (merge_tables ts []) (merged ts)"
  unfolding merged_def by (rule merge_tables_yields)

subsection \<open>Dropping tombstones\<close>

definition droppable :: "managed_table set \<Rightarrow> bytes \<times> entry \<Rightarrow> bool" where
  "droppable U r \<longleftrightarrow> entry_deleted (snd r) \<and>
     (\<forall>e\<in>versions U (fst r). entry_deleted e \<or> entry_sequence_number (snd r) < entry_sequence_number e)"

lemma can_drop_tombstone_yields:
  assumes "knows src (set U)" and "valid_key k"
  shows "yields src (can_drop_tombstone k e U :: ('a storage_scheme, bool) effect)
    (\<forall>e'\<in>versions (set U) k. entry_deleted e' \<or> entry_sequence_number e < entry_sequence_number e')"
  using assms(1)
proof (induction U)
  case (Cons t ts)
  let ?ok = "\<lambda>T. \<forall>e'\<in>versions T k. entry_deleted e' \<or> entry_sequence_number e < entry_sequence_number e'"
  have IH: "yields src (can_drop_tombstone k e ts :: ('a storage_scheme, bool) effect) (?ok (set ts))" using Cons by simp
  show ?case
  proof (cases "out_of_range t k")
    case True
    have "can_drop_tombstone k e (t # ts) = (can_drop_tombstone k e ts :: ('a storage_scheme, bool) effect)"
      using True by (intro ext) simp
    moreover have "map_of (table_entries t) k = None" using True Cons.prems by (intro out_of_range_None) simp_all
    ultimately show ?thesis using IH by simp
  next
    case False
    let ?old = "is_live (map_of (table_entries t) k) \<and>
        entry_sequence_number (the (map_of (table_entries t) k)) \<le> entry_sequence_number e"
    have eq: "can_drop_tombstone k e (t # ts) = (bind_effect (sstable_get (tb_reader t) k) (\<lambda>e'.
        if is_live e' \<and> entry_sequence_number (the e') \<le> entry_sequence_number e
        then lift_result (Inr False) else can_drop_tombstone k e ts) :: ('a storage_scheme, bool) effect)"
      using False by (intro ext) simp
    have get: "yields src (sstable_get (tb_reader t) k) (map_of (table_entries t) k)"
      by (intro knows_table(1) [OF Cons.prems _ assms(2)]) simp
    show ?thesis
    proof (cases ?old)
      case True
      then have "?ok (set (t # ts)) = False" by (auto simp: is_live_def split: option.splits)
      then show ?thesis using True unfolding eq by (intro yields_bind [OF get]) (simp only: if_True simp_thms yields_simps)
    next
      case new: False
      then have "?ok (set (t # ts)) = ?ok (set ts)" by (auto simp: is_live_def split: option.splits)
      then show ?thesis using new IH unfolding eq by (intro yields_bind [OF get]) (simp only: if_False)
    qed
  qed
qed (simp add: yields_def)

definition kept :: "managed_table set \<Rightarrow> snapshot \<Rightarrow> snapshot" where
  "kept U rs = filter (\<lambda>r. \<not> droppable U r) rs"

lemma drop_tombstones_yields:
  assumes "knows src (set U)" and "\<forall>r\<in>set rs. valid_key (fst r)"
  shows "yields src (drop_tombstones U rs :: ('a storage_scheme, snapshot \<times> u64) effect)
    (kept (set U) rs, of_nat (length (filter (droppable (set U)) rs)))"
  using assms(2)
proof (induction rs)
  case (Cons r rs)
  let ?T = "\<lambda>rs. (kept (set U) rs, of_nat (length (filter (droppable (set U)) rs))) :: snapshot \<times> u64"
  have IH: "yields src (drop_tombstones U rs :: ('a storage_scheme, snapshot \<times> u64) effect) (?T rs)" using Cons by simp
  have eq: "drop_tombstones U (r # rs) = (bind_effect (if entry_deleted (snd r) then can_drop_tombstone (fst r) (snd r) U
       else lift_result (Inr False)) (\<lambda>drop.
     bind_effect (drop_tombstones U rs) (\<lambda>(kept, dropped).
     lift_result (Inr (if drop then (kept, dropped + 1) else (r # kept, dropped)))))
       :: ('a storage_scheme, snapshot \<times> u64) effect)" by (rule ext) simp
  have "yields src ((if entry_deleted (snd r) then can_drop_tombstone (fst r) (snd r) U
       else lift_result (Inr False)) :: ('a storage_scheme, bool) effect) (droppable (set U) r)"
    using Cons.prems by (auto simp: droppable_def intro!: can_drop_tombstone_yields [OF assms(1)])
  moreover have "yields src (bind_effect (drop_tombstones U rs) (\<lambda>(kept, dropped).
     lift_result (Inr (if droppable (set U) r then (kept, dropped + 1) else (r # kept, dropped))))
       :: ('a storage_scheme, snapshot \<times> u64) effect) (?T (r # rs))"
    by (rule yields_bind [OF IH]) (simp add: kept_def add.commute)
  ultimately show ?case unfolding eq by (rule yields_bind)
qed (simp add: yields_def kept_def)

subsection \<open>Live counts\<close>

definition counted :: "managed_table list \<Rightarrow> snapshot \<Rightarrow> u64 \<Rightarrow> u64" where
  "counted ts incoming n = foldl (\<lambda>n r. count_flushed (newest ts (fst r)) (snd r) n) n incoming"

lemma live_count_after_flush_yields:
  assumes "knows src (set ts)" and "\<forall>r\<in>set incoming. valid_key (fst r)"
  shows "yields src (live_count_after_flush ts incoming n :: ('a storage_scheme, u64) effect) (counted ts incoming n)"
  using assms(2)
proof (induction incoming arbitrary: n)
  case (Cons r incoming)
  obtain k e where r: "r = (k, e)" by fastforce
  have "live_count_after_flush ts (r # incoming) n = (bind_effect (newest_entry_from_tables ts k) (\<lambda>previous.
      live_count_after_flush ts incoming (count_flushed previous e n)) :: ('a storage_scheme, u64) effect)"
    by (rule ext) (simp add: r)
  moreover have "yields src (newest_entry_from_tables ts k) (newest ts k)"
    using Cons.prems by (intro newest_entry_yields [OF assms(1)]) (simp_all add: r)
  moreover have "yields src (live_count_after_flush ts incoming n :: ('a storage_scheme, u64) effect) (counted ts incoming n)" for n
    using Cons by simp
  ultimately show ?case by (auto simp: counted_def r intro!: yields_bind)
qed (simp add: yields_def counted_def)

lemma compute_live_key_count_yields:
  assumes "knows src (set ts)"
  shows "yields src (compute_live_key_count ts) (of_nat (length (filter (\<lambda>r. \<not> entry_deleted (snd r)) (merged ts))))"
  unfolding compute_live_key_count_def by (rule yields_bind [OF merged_yields [OF assms]]) simp

end
