(* ===== verification/TableViews.thy ===== *)
theory TableViews
  imports TableSet MemTableSet
begin

text \<open>
  How the valid entries change when a table is added (flush) and when tables are merged into one
  (compaction), the live counts, and the disjointness of the level-1 key ranges.
\<close>

section \<open>Views\<close>

definition table_view :: "managed_table list \<Rightarrow> bytes \<rightharpoonup> bytes" where
  "table_view ts k = visible (newest ts k)"

lemma is_live_visible: "is_live e \<longleftrightarrow> visible e \<noteq> None"
  by (cases e) (auto simp: is_live_def visible_def)

lemma versions_entry: "e \<in> versions T k \<Longrightarrow> \<exists>t\<in>T. (k, e) \<in> set (table_entries t)"
  by (auto simp: versions_def dest: map_of_SomeD)

lemma finite_versions_keys: "finite {k. versions (set ts) k \<noteq> {}}"
proof -
  have "{k. versions (set ts) k \<noteq> {}} \<subseteq> (\<Union>t\<in>set ts. fst ` set (table_entries t))"
  proof
    fix k assume "k \<in> {k. versions (set ts) k \<noteq> {}}"
    then obtain e where "e \<in> versions (set ts) k" by blast
    then obtain t where "t \<in> set ts" "(k, e) \<in> set (table_entries t)" using versions_entry by blast
    then show "k \<in> (\<Union>t\<in>set ts. fst ` set (table_entries t))" by force
  qed
  then show ?thesis by (rule finite_subset) simp
qed

lemma finite_table_view [simp]: "finite (dom (table_view ts))"
proof -
  have "dom (table_view ts) \<subseteq> {k. versions (set ts) k \<noteq> {}}"
    by (force simp: table_view_def newest_None_iff [symmetric])
  then show ?thesis using finite_versions_keys by (rule finite_subset)
qed

section \<open>Adding a table\<close>

definition newer_than :: "snapshot \<Rightarrow> managed_table set \<Rightarrow> bool" where
  "newer_than es T \<longleftrightarrow> (\<forall>r\<in>set es. \<forall>t\<in>T. \<forall>r'\<in>set (table_entries t). entry_sequence_number (snd r') < entry_sequence_number (snd r))"

lemma newer_than_versions:
  "newer_than es T \<Longrightarrow> map_of es k = Some e \<Longrightarrow> e' \<in> versions T k \<Longrightarrow> entry_sequence_number e' < entry_sequence_number e"
  by (fastforce simp: newer_than_def dest: versions_entry map_of_SomeD)

lemma consistent_add:
  assumes "consistent T" and "newer_than (table_entries t) T"
  shows "consistent (insert t T)"
  unfolding consistent_def
proof
  fix k
  have "inj_on entry_sequence_number (versions T k)" using assms(1) by (simp add: consistent_def)
  then show "inj_on entry_sequence_number (versions (insert t T) k)"
    using newer_than_versions [OF assms(2), of k] less_irrefl
    by (cases "map_of (table_entries t) k") (simp, fastforce simp: inj_on_insert)
qed

lemma newest_add:
  assumes "consistent (set ts)" and "newer_than (table_entries t) (set ts)"
  shows "newest (ts @ [t]) k = (case map_of (table_entries t) k of None \<Rightarrow> newest ts k | Some e \<Rightarrow> Some e)"
proof (cases "map_of (table_entries t) k")
  case (Some e)
  have "newest_of (versions (set (ts @ [t])) k) e"
    using Some newer_than_versions [OF assms(2) Some] by (auto simp: newest_of_def intro: less_imp_le)
  moreover have "consistent (set (ts @ [t]))" using consistent_add [OF assms] by simp
  ultimately show ?thesis using Some by (simp add: newest_Some_iff)
qed (simp add: newest_def newer_candidate_def)

lemma table_view_add:
  assumes "consistent (set ts)" and "newer_than (table_entries t) (set ts)"
  shows "table_view (ts @ [t]) k = (case map_of (table_entries t) k of None \<Rightarrow> table_view ts k | Some e \<Rightarrow> visible (Some e))"
  using newest_add [OF assms] by (simp add: table_view_def split: option.splits)

text \<open>The incremental live count is exact.\<close>

lemma count_flushed_upd:
  assumes "finite (dom f)" and "f k = visible previous"
    and "\<forall>p. previous = Some p \<longrightarrow> entry_sequence_number p < entry_sequence_number e"
  shows "count_flushed previous e (of_nat (card (dom f))) = of_nat (card (dom (f(k := visible (Some e)))))"
proof -
  have "\<not> (case previous of None \<Rightarrow> False | Some p \<Rightarrow> entry_sequence_number p \<ge> entry_sequence_number e)"
    using assms(3) by (auto split: option.splits)
  then show ?thesis
    using of_nat_card_dom_upd [OF assms(1), of k "visible (Some e)", where 'a = u64] assms(2)
    by (auto simp: count_flushed_def is_live_visible visible_def split: option.splits)
qed

lemma counted_exact:
  assumes "distinct (map fst es)" and "newer_than es (set ts)" and "finite (dom f)"
    and "\<forall>k\<in>fst ` set es. f k = table_view ts k"
  shows "counted ts es (of_nat (card (dom f))) =
    of_nat (card (dom (\<lambda>k. case map_of es k of None \<Rightarrow> f k | Some e \<Rightarrow> visible (Some e))))"
  using assms
proof (induction es arbitrary: f)
  case (Cons r es)
  let ?f = "f(fst r := visible (Some (snd r)))"
  have r: "newest ts (fst r) = Some p \<Longrightarrow> entry_sequence_number p < entry_sequence_number (snd r)" for p
  proof -
    assume "newest ts (fst r) = Some p"
    then have "p \<in> versions (set ts) (fst r)" using newest_cases [of ts "fst r"] by (auto simp: newest_of_def)
    then show "entry_sequence_number p < entry_sequence_number (snd r)"
      using versions_entry Cons.prems(2) by (fastforce simp: newer_than_def)
  qed
  have step: "counted ts (r # es) (of_nat (card (dom f))) = counted ts es (of_nat (card (dom ?f)))"
    using count_flushed_upd [OF Cons.prems(3), of "fst r" "newest ts (fst r)" "snd r"] r Cons.prems(4)
    by (simp add: counted_def table_view_def)
  have "counted ts es (of_nat (card (dom ?f))) =
      of_nat (card (dom (\<lambda>k. case map_of es k of None \<Rightarrow> ?f k | Some e \<Rightarrow> visible (Some e))))"
  proof (rule Cons.IH)
    show "finite (dom ?f)" using Cons.prems(3) by (simp add: dom_fun_upd)
    show "\<forall>k\<in>fst ` set es. ?f k = table_view ts k"
    proof
      fix k assume k: "k \<in> fst ` set es"
      moreover have "fst r \<notin> fst ` set es" using Cons.prems(1) by simp
      ultimately have "k \<noteq> fst r" by blast
      with k Cons.prems(4) show "?f k = table_view ts k" by auto
    qed
    show "distinct (map fst es)" using Cons.prems(1) by simp
    show "newer_than es (set ts)" using Cons.prems(2) unfolding newer_than_def by simp
  qed
  moreover have "(\<lambda>k. case map_of es k of None \<Rightarrow> ?f k | Some e \<Rightarrow> visible (Some e)) =
      (\<lambda>k. case map_of (r # es) k of None \<Rightarrow> f k | Some e \<Rightarrow> visible (Some e))"
  proof
    fix k
    have "map_of es (fst r) = None" using Cons.prems(1) by (simp add: map_of_eq_None_iff)
    then show "(case map_of es k of None \<Rightarrow> ?f k | Some e \<Rightarrow> visible (Some e)) =
      (case map_of (r # es) k of None \<Rightarrow> f k | Some e \<Rightarrow> visible (Some e))"
      by (cases r, cases "k = fst r") (auto split: option.splits)
  qed
  ultimately show ?case using step by simp
qed (simp add: counted_def)

lemma live_count_add:
  assumes "table_ok t" and "consistent (set ts)" and "newer_than (table_entries t) (set ts)"
  shows "counted ts (table_entries t) (of_nat (card (dom (table_view ts)))) = of_nat (card (dom (table_view (ts @ [t]))))"
proof -
  have "distinct (map fst (table_entries t))" using assms(1) by (simp add: table_sorted sorted_map_distinct)
  from counted_exact [OF this assms(3), of "table_view ts"]
  have "counted ts (table_entries t) (of_nat (card (dom (table_view ts)))) =
    of_nat (card (dom (\<lambda>k. case map_of (table_entries t) k of None \<Rightarrow> table_view ts k | Some e \<Rightarrow> visible (Some e))))"
    by simp
  moreover have "(\<lambda>k. case map_of (table_entries t) k of None \<Rightarrow> table_view ts k | Some e \<Rightarrow> visible (Some e)) = table_view (ts @ [t])"
    using table_view_add [OF assms(2,3)] by (simp add: fun_eq_iff)
  ultimately show ?thesis by simp
qed

lemma sorted_map_filter_dom:
  assumes "sorted_map m"
  shows "card (dom (\<lambda>k. visible (map_of m k))) = length (filter (\<lambda>r. \<not> entry_deleted (snd r)) m)"
proof -
  have d: "distinct (map fst m)" by (rule sorted_map_distinct [OF assms])
  have "dom (\<lambda>k. visible (map_of m k)) = fst ` set (filter (\<lambda>r. \<not> entry_deleted (snd r)) m)"
    using d by (force simp: visible_def image_iff split: option.splits if_splits dest: map_of_SomeD)
  moreover have "distinct (map fst (filter (\<lambda>r. \<not> entry_deleted (snd r)) m))" using d by (simp add: distinct_map_filter)
  ultimately show ?thesis by (metis distinct_card length_map set_map)
qed

lemma live_count_merged:
  assumes "\<forall>t\<in>set ts. table_ok t"
  shows "length (filter (\<lambda>r. \<not> entry_deleted (snd r)) (merged ts)) = card (dom (table_view ts))"
proof -
  have "(\<lambda>k. visible (map_of (merged ts) k)) = table_view ts" by (simp add: fun_eq_iff table_view_def merged_facts(2) [OF assms])
  then show ?thesis using sorted_map_filter_dom [OF merged_facts(1) [OF assms]] by simp
qed

section \<open>Merging tables\<close>

lemma kept_lookup:
  assumes "sorted_map m"
  shows "map_of (kept U m) k = (case map_of m k of None \<Rightarrow> None | Some e \<Rightarrow> if droppable U (k, e) then None else Some e)"
proof -
  have d: "distinct (map fst m)" by (rule sorted_map_distinct [OF assms])
  have "map_of (filter (\<lambda>r. \<not> droppable U r) m) k =
      (case map_of m k of None \<Rightarrow> None | Some e \<Rightarrow> if droppable U (k, e) then None else Some e)"
    using d by (induction m) (auto simp: map_of_eq_None_iff rev_image_eqI split: option.splits)
  then show ?thesis by (simp add: kept_def)
qed

text \<open>Replacing the tables \<open>S\<close> by one table of their newest entries, less some droppable tombstones.\<close>

lemma replace_versions:
  assumes old: "newest_of (A \<union> B) e" and a: "newest_of A a" and inj: "inj_on entry_sequence_number (A \<union> B)"
    and out: "A' = {a} \<or> A' = {} \<and> entry_deleted a \<and> (\<forall>b\<in>B. entry_deleted b \<or> entry_sequence_number a < entry_sequence_number b)"
    and new: "newest_of (A' \<union> B) e'"
  shows "visible (Some e') = visible (Some e)"
  using out
proof
  assume A': "A' = {a}"
  have "newest_of (A \<union> B) e'" using new a unfolding A' newest_of_def by (auto intro: order_trans)
  then show ?thesis using newest_of_unique [OF inj old] by simp
next
  assume A': "A' = {} \<and> entry_deleted a \<and> (\<forall>b\<in>B. entry_deleted b \<or> entry_sequence_number a < entry_sequence_number b)"
  then have e': "e' \<in> B" "\<forall>b\<in>B. entry_sequence_number b \<le> entry_sequence_number e'" using new by (auto simp: newest_of_def)
  show ?thesis
  proof (cases "entry_deleted e'")
    case False
    then have "entry_sequence_number a < entry_sequence_number e'" using A' e' by auto
    then have "newest_of (A \<union> B) e'" using e' a by (fastforce simp: newest_of_def)
    then show ?thesis using newest_of_unique [OF inj old] by simp
  next
    case True
    have "entry_deleted e"
    proof (cases "e \<in> A")
      case True
      then have "newest_of A e" using old by (simp add: newest_of_def)
      moreover have "inj_on entry_sequence_number A" using inj by (rule inj_on_subset) simp
      ultimately show ?thesis using newest_of_unique a A' by blast
    next
      case False
      then have "e \<in> B" using old by (auto simp: newest_of_def)
      then have "entry_sequence_number e = entry_sequence_number e'" using old e' by (intro antisym) (auto simp: newest_of_def)
      then have "e = e'" using inj \<open>e \<in> B\<close> e'(1) by (auto dest: inj_onD)
      then show ?thesis using True by simp
    qed
    then show ?thesis using True by simp
  qed
qed

text \<open>\<open>S\<close> is merged, \<open>R\<close> stays, and \<open>out\<close> is the table written, if any.\<close>

lemma replace_tables_view:
  assumes ok: "\<forall>t\<in>set S. table_ok t" and cons: "consistent (set S \<union> set R)"
    and out: "\<And>k. versions (set out) k = set_option (map_of (kept U (merged S)) k)"
    and drop: "\<And>r. r \<in> set (merged S) \<Longrightarrow> droppable U r \<Longrightarrow> droppable (set R) r"
    and ts: "set ts = set S \<union> set R" and ts': "set ts' = set R \<union> set out"
  shows "table_view ts' = table_view ts" and "consistent (set ts')"
proof -
  note m = merged_facts [OF ok]
  have sub: "versions (set out) k \<subseteq> versions (set S) k" for k
    using out [of k] kept_lookup [OF m(1), of U k] newest_cases [of S k]
    by (auto simp: m(2) newest_of_def split: option.splits if_splits)
  show cons': "consistent (set ts')"
    unfolding consistent_def ts'
  proof
    fix k
    have "inj_on entry_sequence_number (versions (set S \<union> set R) k)" using cons by (simp add: consistent_def)
    then show "inj_on entry_sequence_number (versions (set R \<union> set out) k)"
      by (rule inj_on_subset) (use sub [of k] in auto)
  qed
  have "consistent (set ts)" using cons ts by simp
  note new = newest_Some_iff [OF cons'] and old = newest_Some_iff [OF this]
  show "table_view ts' = table_view ts"
  proof
    fix k
    let ?A = "versions (set S) k" and ?B = "versions (set R) k" and ?A' = "versions (set out) k"
    have inj: "inj_on entry_sequence_number (?A \<union> ?B)" using cons by (simp add: consistent_def)
    have v: "versions (set ts) k = ?A \<union> ?B" "versions (set ts') k = ?A' \<union> ?B" by (auto simp: ts ts')
    show "table_view ts' k = table_view ts k"
    proof (cases "newest S k")
      case None
      then have "?A = {}" by (simp add: newest_None_iff)
      then have "?A' = {}" using sub [of k] by simp
      with \<open>?A = {}\<close> v have "newest ts' k = Some e \<longleftrightarrow> newest ts k = Some e" for e by (simp add: new old)
      then have "newest ts' k = newest ts k" by (metis not_Some_eq)
      then show ?thesis by (simp add: table_view_def)
    next
      case (Some a)
      then have a: "newest_of ?A a" using newest_cases [of S k] by auto
      then have ne: "?A \<noteq> {}" by (auto simp: newest_of_def)
      then obtain e where e: "newest ts k = Some e" using newest_None_iff [of ts k] v by auto
      have la: "map_of (merged S) k = Some a" using Some m(2) by simp
      have A': "?A' = {a} \<or> ?A' = {} \<and> entry_deleted a \<and>
          (\<forall>b\<in>?B. entry_deleted b \<or> entry_sequence_number a < entry_sequence_number b)"
      proof (cases "droppable U (k, a)")
        case True
        then have "droppable (set R) (k, a)" using drop [OF map_of_SomeD [OF la]] by simp
        then show ?thesis using True out [of k] kept_lookup [OF m(1), of U k] la by (simp add: droppable_def)
      qed (use out [of k] kept_lookup [OF m(1), of U k] la in simp)
      show ?thesis
      proof (cases "newest ts' k")
        case None
        then have "?A' = {}" "?B = {}" using v by (simp_all add: newest_None_iff)
        then have "e = a" using e a v inj old newest_of_unique by auto
        then show ?thesis using A' \<open>?A' = {}\<close> e None by (simp add: table_view_def)
      next
        case (Some e')
        have "visible (Some e') = visible (Some e)"
          by (rule replace_versions [OF _ a inj A']) (use e Some new old v in simp_all)
        then show ?thesis using e Some by (simp add: table_view_def)
      qed
    qed
  qed
qed

end
