(* ===== verification/Selection.thy ===== *)
theory Selection
  imports TableViews
begin

text \<open>
  The tables a compaction takes: the selection is closed under overlap with level 1, so the output
  table keeps the key ranges of level 1 disjoint, and it always contains a level-0 table.
\<close>

section \<open>Disjoint key ranges\<close>

definition disjoint_ranges :: "sstable_metadata \<Rightarrow> sstable_metadata \<Rightarrow> bool" where
  "disjoint_ranges a b \<longleftrightarrow> \<not> ranges_overlap (md_smallest_key a) (md_largest_key a) (md_smallest_key b) (md_largest_key b)"

definition level1_disjoint :: "managed_table list \<Rightarrow> bool" where
  "level1_disjoint ts \<longleftrightarrow> sorted_wrt disjoint_ranges (map tb_metadata (filter (\<lambda>t. tb_level t = Level1) ts))"

lemma disjoint_ranges_sym: "disjoint_ranges a b \<longleftrightarrow> disjoint_ranges b a"
  by (auto simp: disjoint_ranges_def ranges_overlap_def)

lemma sorted_wrt_insert_by:
  assumes "\<And>a b. P a b \<longleftrightarrow> P b a"
  shows "sorted_wrt P (insert_by cmp x ys) \<longleftrightarrow> (\<forall>y\<in>set ys. P x y) \<and> sorted_wrt P ys"
  using assms by (induction ys) auto

lemma sorted_wrt_std_sort:
  assumes "\<And>a b. P a b \<longleftrightarrow> P b a"
  shows "sorted_wrt P (std_sort cmp xs) \<longleftrightarrow> sorted_wrt P xs"
proof (induction xs)
  case (Cons x xs)
  have "set (foldr (insert_by cmp) xs []) = set xs" using set_std_sort [of cmp xs] by (simp add: std_sort_def)
  with Cons sorted_wrt_insert_by [of P, OF assms] show ?case by (simp add: std_sort_def)
qed (simp add: std_sort_def)

lemma adjacent_disjoint_iff:
  assumes "sorted (map md_smallest_key ms)" and "\<forall>m\<in>set ms. md_smallest_key m \<le> md_largest_key m"
  shows "adjacent_disjoint ms \<longleftrightarrow> sorted_wrt disjoint_ranges ms"
  using assms
proof (induction ms rule: adjacent_disjoint.induct)
  case (1 a b ms)
  have IH: "adjacent_disjoint (b # ms) \<longleftrightarrow> sorted_wrt disjoint_ranges (b # ms)" using 1 by simp
  have ab: "md_smallest_key a \<le> md_smallest_key b" "md_smallest_key b \<le> md_largest_key b" using "1.prems" by simp_all
  have near: "disjoint_ranges a b \<longleftrightarrow> \<not> md_smallest_key b \<le> md_largest_key a"
    using ab by (auto simp: disjoint_ranges_def ranges_overlap_def)
  have "disjoint_ranges a c" if "\<not> md_smallest_key b \<le> md_largest_key a" "c \<in> set ms" for c
  proof -
    have "md_smallest_key b \<le> md_smallest_key c" using "1.prems"(1) that(2) by auto
    then show ?thesis using that(1) by (auto simp: disjoint_ranges_def ranges_overlap_def)
  qed
  with IH near show ?case by auto
qed simp_all

lemma level1_disjoint_perm: "level1_disjoint (std_sort cmp ts) \<longleftrightarrow> level1_disjoint ts"
proof -
  let ?P = "\<lambda>a b. tb_level a = Level1 \<and> tb_level b = Level1 \<longrightarrow> disjoint_ranges (tb_metadata a) (tb_metadata b)"
  have "level1_disjoint us \<longleftrightarrow> sorted_wrt ?P us" for us
    unfolding level1_disjoint_def by (induction us) (auto simp: sorted_wrt_map)
  moreover have "sorted_wrt ?P (std_sort cmp ts) \<longleftrightarrow> sorted_wrt ?P ts"
    by (rule sorted_wrt_std_sort) (use disjoint_ranges_sym in blast)
  ultimately show ?thesis by simp
qed

lemma validate_level1_ranges_iff:
  assumes "\<forall>t\<in>set ts. md_smallest_key (tb_metadata t) \<le> md_largest_key (tb_metadata t)"
  shows "validate_level1_ranges ts = throw_if (\<not> level1_disjoint ts) (LogicError ''Level-1 SSTable ranges must not overlap'')"
proof -
  let ?ms = "metadata_for (filter (\<lambda>t. tb_level t = Level1) ts)"
  let ?sorted = "std_sort (\<lambda>l r. md_smallest_key l < md_smallest_key r) ?ms"
  have "adjacent_disjoint ?sorted \<longleftrightarrow> sorted_wrt disjoint_ranges ?sorted"
  proof (rule adjacent_disjoint_iff)
    show "sorted (map md_smallest_key ?sorted)" by (rule sorted_std_sort)
    show "\<forall>m\<in>set ?sorted. md_smallest_key m \<le> md_largest_key m" using assms by (auto simp: metadata_for_def)
  qed
  also have "\<dots> \<longleftrightarrow> sorted_wrt disjoint_ranges ?ms" by (rule sorted_wrt_std_sort) (rule disjoint_ranges_sym)
  also have "\<dots> \<longleftrightarrow> level1_disjoint ts"
    by (simp add: level1_disjoint_def metadata_for_def sorted_wrt_map disjoint_ranges_def)
  finally show ?thesis by (simp add: validate_level1_ranges_def Let_def)
qed

lemma table_ok_range:
  assumes "table_ok t"
  shows "md_smallest_key (tb_metadata t) \<le> md_largest_key (tb_metadata t)"
    and "r \<in> set (table_entries t) \<Longrightarrow> md_smallest_key (tb_metadata t) \<le> fst r \<and> fst r \<le> md_largest_key (tb_metadata t)"
proof -
  note ne = table_okD(6) [OF assms] and s = table_sorted [OF assms]
  have b: "fst (hd (table_entries t)) \<le> fst r \<and> fst r \<le> fst (last (table_entries t))" if "r \<in> set (table_entries t)" for r
  proof
    show "fst r \<le> fst (last (table_entries t))" by (rule sorted_last_ge [OF s that])
    show "fst (hd (table_entries t)) \<le> fst r"
      using s that by (cases "table_entries t") (auto simp: sorted_map_Cons intro: less_imp_le)
  qed
  show "md_smallest_key (tb_metadata t) \<le> md_largest_key (tb_metadata t)"
    using b [of "hd (table_entries t)"] ne by (simp add: table_okD(9,10) [OF assms])
  show "r \<in> set (table_entries t) \<Longrightarrow> md_smallest_key (tb_metadata t) \<le> fst r \<and> fst r \<le> md_largest_key (tb_metadata t)"
    using b by (simp add: table_okD(9,10) [OF assms])
qed

section \<open>The selection\<close>

definition covers :: "compaction_selection \<Rightarrow> managed_table \<Rightarrow> bool" where
  "covers sel t \<longleftrightarrow> se_smallest_key sel \<le> md_smallest_key (tb_metadata t) \<and> md_largest_key (tb_metadata t) \<le> se_largest_key sel"

definition selection_inv :: "managed_table list \<Rightarrow> compaction_selection \<Rightarrow> bytes set \<Rightarrow> bool" where
  "selection_inv readers sel paths \<longleftrightarrow> set (se_selected sel) \<subseteq> set readers \<and> paths = table_id ` set (se_selected sel) \<and>
     distinct (map table_id (se_selected sel)) \<and> (\<forall>t\<in>set (se_selected sel). covers sel t)"

lemma covers_widen [simp]: "covers (widen_selection t sel) t"
  "covers sel u \<Longrightarrow> covers (widen_selection t sel) u"
  by (auto simp: covers_def widen_selection_def min_def max_def)

lemma se_selected_widen [simp]: "se_selected (widen_selection t sel) = se_selected sel"
  by (simp add: widen_selection_def)

lemma covers_selected [simp]: "covers (sel\<lparr>se_selected := ts\<rparr>) = covers sel"
  by (simp add: covers_def fun_eq_iff)

lemma expand_pass_inv:
  assumes "expand_pass ts (ex, sel, paths) = (ex', sel', paths')" and "set ts \<subseteq> set readers" and "selection_inv readers sel paths"
  shows "selection_inv readers sel' paths' \<and> (\<exists>more. se_selected sel' = se_selected sel @ more \<and> (\<forall>t\<in>set more. tb_level t = Level1))"
  using assms
proof (induction ts arbitrary: ex sel paths)
  case (Cons t ts)
  from Cons.prems(1) show ?case
  proof (cases rule: expand_pass_Cons)
    case skip
    then show ?thesis using Cons.IH [OF skip(1)] Cons.prems by simp
  next
    case take
    have "selection_inv readers (widen_selection t (sel\<lparr>se_selected := se_selected sel @ [t]\<rparr>)) (insert (table_id t) paths)"
      using Cons.prems(2,3) take(2) by (auto simp: selection_inv_def)
    from Cons.IH [OF take(3) _ this] Cons.prems(2) take(1) show ?thesis by auto
  qed
qed simp

lemma expand_pass_closed:
  assumes "expand_pass ts (False, sel, paths) = (False, sel', paths')"
  shows "sel' = sel \<and> paths' = paths \<and> (\<forall>t\<in>set ts. tb_level t = Level1 \<and> table_id t \<notin> paths \<longrightarrow>
    \<not> ranges_overlap (se_smallest_key sel) (se_largest_key sel) (md_smallest_key (tb_metadata t)) (md_largest_key (tb_metadata t)))"
  using assms
proof (induction ts)
  case (Cons t ts)
  from Cons.prems show ?case
  proof (cases rule: expand_pass_Cons)
    case skip
    then show ?thesis using Cons.IH by auto
  next
    case take
    from expand_pass_paths [OF take(3)] show ?thesis by simp
  qed
qed simp

lemma expand_selection_facts:
  assumes "expand_selection readers sel paths = (sel', paths')" and "selection_inv readers sel paths"
  shows "selection_inv readers sel' paths' \<and> (\<exists>more. se_selected sel' = se_selected sel @ more \<and> (\<forall>t\<in>set more. tb_level t = Level1)) \<and>
    (\<forall>t\<in>set readers. tb_level t = Level1 \<and> table_id t \<notin> paths' \<longrightarrow>
      \<not> ranges_overlap (se_smallest_key sel') (se_largest_key sel') (md_smallest_key (tb_metadata t)) (md_largest_key (tb_metadata t)))"
  using assms
proof (induction readers sel paths rule: expand_selection.induct)
  case (1 readers sel paths)
  obtain ex sel1 paths1 where pass: "expand_pass readers (False, sel, paths) = (ex, sel1, paths1)" by (metis prod_cases3)
  have inv: "selection_inv readers sel1 paths1"
      "\<exists>more. se_selected sel1 = se_selected sel @ more \<and> (\<forall>t\<in>set more. tb_level t = Level1)"
    using expand_pass_inv [OF pass _ "1.prems"(2)] by simp_all
  show ?case
  proof (cases ex)
    case True
    then have run: "expand_selection readers sel1 paths1 = (sel', paths')"
      using "1.prems"(1) pass by (subst (asm) expand_selection.simps) simp
    from "1.IH" [OF pass [symmetric] refl refl True run inv(1)]
    have IH: "selection_inv readers sel' paths'"
      "\<exists>more. se_selected sel' = se_selected sel1 @ more \<and> (\<forall>t\<in>set more. tb_level t = Level1)"
      "\<forall>t\<in>set readers. tb_level t = Level1 \<and> table_id t \<notin> paths' \<longrightarrow>
      \<not> ranges_overlap (se_smallest_key sel') (se_largest_key sel') (md_smallest_key (tb_metadata t)) (md_largest_key (tb_metadata t))"
      by blast+
    moreover have "\<exists>more. se_selected sel' = se_selected sel @ more \<and> (\<forall>t\<in>set more. tb_level t = Level1)"
      using inv(2) IH(2) by auto
    ultimately show ?thesis by blast
  next
    case False
    then have "sel' = sel1" "paths' = paths1"
      using "1.prems"(1) pass by (subst (asm) expand_selection.simps, simp)+
    moreover have "expand_pass readers (False, sel, paths) = (False, sel1, paths1)" using pass False by simp
    from expand_pass_closed [OF this] have "sel1 = sel" "paths1 = paths"
      "\<forall>t\<in>set readers. tb_level t = Level1 \<and> table_id t \<notin> paths \<longrightarrow>
      \<not> ranges_overlap (se_smallest_key sel) (se_largest_key sel) (md_smallest_key (tb_metadata t)) (md_largest_key (tb_metadata t))"
      by blast+
    ultimately show ?thesis using inv by simp
  qed
qed

lemma foldl_widen:
  assumes "\<forall>u\<in>U. covers sel u"
  shows "se_selected (foldl (\<lambda>sel t. widen_selection t sel) sel ts) = se_selected sel"
    and "\<forall>u\<in>U \<union> set ts. covers (foldl (\<lambda>sel t. widen_selection t sel) sel ts) u"
proof -
  have "se_selected (foldl (\<lambda>sel t. widen_selection t sel) sel ts) = se_selected sel \<and>
      (\<forall>u\<in>U \<union> set ts. covers (foldl (\<lambda>sel t. widen_selection t sel) sel ts) u)"
    using assms
  proof (induction ts arbitrary: sel U)
    case (Cons t ts)
    from Cons.IH [of "insert t U" "widen_selection t sel"] Cons.prems show ?case by auto
  qed simp
  then show "se_selected (foldl (\<lambda>sel t. widen_selection t sel) sel ts) = se_selected sel"
    "\<forall>u\<in>U \<union> set ts. covers (foldl (\<lambda>sel t. widen_selection t sel) sel ts) u" by blast+
qed

lemma select_facts:
  assumes sel: "sel = select_level0_compaction_locked force_all s" and ne: "se_selected sel \<noteq> []"
    and dist: "distinct (map table_id (sm_readers s))" and max: "sm_level0_compaction_max_tables s \<noteq> 0"
  shows "set (se_selected sel) \<subseteq> set (sm_readers s)"
    and "distinct (map table_id (se_selected sel))"
    and "se_unselected sel = filter (\<lambda>t. table_id t \<notin> table_id ` set (se_selected sel)) (sm_readers s)"
    and "t \<in> set (se_selected sel) \<Longrightarrow> covers sel t"
    and "u \<in> set (se_unselected sel) \<Longrightarrow> tb_level u = Level1 \<Longrightarrow>
      \<not> ranges_overlap (se_smallest_key sel) (se_largest_key sel) (md_smallest_key (tb_metadata u)) (md_largest_key (tb_metadata u))"
    and "\<exists>t\<in>set (se_selected sel). tb_level t = Level0"
proof -
  define nothing where "nothing = \<lparr>se_selected = [], se_unselected = [], se_smallest_key = [], se_largest_key = []\<rparr>"
  define level0 where "level0 = std_sort older_level0 (filter (\<lambda>t. tb_level t = Level0) (sm_readers s))"
  define n where "n = (if force_all then length level0 else min (length level0) (unat (sm_level0_compaction_max_tables s)))"
  define chosen where "chosen = take n level0"
  define sel1 where "sel1 = foldl (\<lambda>sel t. widen_selection t sel)
    (nothing\<lparr>se_selected := chosen, se_smallest_key := md_smallest_key (tb_metadata (hd chosen)),
       se_largest_key := md_largest_key (tb_metadata (hd chosen))\<rparr>) chosen"
  obtain sel2 paths where ex: "expand_selection (sm_readers s) sel1 (table_id ` set chosen) = (sel2, paths)" by fastforce
  have cond: "\<not> (filter (\<lambda>t. tb_level t = Level0) (sm_readers s) = [] \<or> (\<not> force_all \<and>
      of_nat (length (filter (\<lambda>t. tb_level t = Level0) (sm_readers s))) < sm_level0_compaction_trigger s))"
  proof
    assume "filter (\<lambda>t. tb_level t = Level0) (sm_readers s) = [] \<or> (\<not> force_all \<and>
      of_nat (length (filter (\<lambda>t. tb_level t = Level0) (sm_readers s))) < sm_level0_compaction_trigger s)"
    then have "se_selected sel = []" unfolding sel select_level0_compaction_locked_def Let_def by simp
    with ne show False by simp
  qed
  then have l0: "level0 \<noteq> []" by (simp add: level0_def)
  have sel2: "sel = sel2\<lparr>se_unselected := filter (\<lambda>t. table_id t \<notin> paths) (sm_readers s)\<rparr>"
    unfolding sel select_level0_compaction_locked_def Let_def if_not_P [OF cond]
      level0_def [symmetric] n_def [symmetric] chosen_def [symmetric] nothing_def [symmetric] sel1_def [symmetric] ex by simp
  have "0 < n" using l0 max by (auto simp: n_def unat_gt_0 [symmetric] simp del: unat_gt_0)
  then have ch: "chosen \<noteq> []" using l0 by (simp add: chosen_def)
  have sub: "set chosen \<subseteq> set level0" by (simp add: chosen_def set_take_subset)
  then have lev: "\<forall>t\<in>set chosen. tb_level t = Level0 \<and> t \<in> set (sm_readers s)" by (auto simp: level0_def)
  have "distinct (map table_id level0)" using dist by (simp add: level0_def distinct_map_filter)
  then have "distinct (map table_id chosen)" by (simp add: chosen_def take_map [symmetric] distinct_take)
  moreover have s1: "se_selected sel1 = chosen" "\<forall>t\<in>set chosen. covers sel1 t"
    using foldl_widen [of "{}" _ chosen] by (simp_all add: sel1_def)
  ultimately have "selection_inv (sm_readers s) sel1 (table_id ` set chosen)"
    using lev by (auto simp: selection_inv_def)
  note facts = expand_selection_facts [OF ex this]
  have s2: "se_selected sel = se_selected sel2" "covers sel = covers sel2"
    "se_smallest_key sel = se_smallest_key sel2" "se_largest_key sel = se_largest_key sel2"
    by (simp_all add: sel2 covers_def fun_eq_iff)
  have paths: "paths = table_id ` set (se_selected sel)" using facts s2 by (simp add: selection_inv_def)
  show "set (se_selected sel) \<subseteq> set (sm_readers s)" "distinct (map table_id (se_selected sel))"
    "t \<in> set (se_selected sel) \<Longrightarrow> covers sel t"
    using facts s2 by (auto simp: selection_inv_def)
  show un: "se_unselected sel = filter (\<lambda>t. table_id t \<notin> table_id ` set (se_selected sel)) (sm_readers s)"
    using paths s2(1) by (simp add: sel2)
  show "u \<in> set (se_unselected sel) \<Longrightarrow> tb_level u = Level1 \<Longrightarrow>
      \<not> ranges_overlap (se_smallest_key sel) (se_largest_key sel) (md_smallest_key (tb_metadata u)) (md_largest_key (tb_metadata u))"
    using facts s2 paths by (auto simp: un)
  obtain more where "se_selected sel2 = chosen @ more" using facts s1 by auto
  then have "hd chosen \<in> set (se_selected sel)" using ch s2 by simp
  moreover have "tb_level (hd chosen) = Level0" using lev ch by simp
  ultimately show "\<exists>t\<in>set (se_selected sel). tb_level t = Level0" by blast
qed

end
