(* ===== verification/PathNames.thy ===== *)
theory PathNames
  imports SSTableManager
begin

text \<open>
  File names of the table directory: different names give different cache identifiers after
  lexical normalisation, and different file identifiers give different table names.
\<close>

section \<open>Lexical normalisation\<close>

lemma split_path_plain: "slash \<notin> set n \<Longrightarrow> split_path n = [n]"
  by (induction n) simp_all

lemma split_path_slash: "slash \<notin> set n \<Longrightarrow> split_path (d @ slash # n) = split_path d @ [n]"
proof (induction d)
  case Nil
  then show ?case by (simp add: split_path_plain)
next
  case (Cons b d)
  moreover have "split_path d \<noteq> []" by (induction d rule: split_path.induct) (auto split: list.splits)
  ultimately show ?case by (auto split: list.splits)
qed

lemma split_path_join: "\<exists>cs. \<forall>n. slash \<notin> set n \<longrightarrow> split_path (path_join dir n) = cs @ [n]"
proof (cases "dir = []")
  case True
  then show ?thesis by (intro exI [of _ "[]"]) (simp add: path_join_def split_path_plain)
next
  case False
  show ?thesis
  proof (cases "last dir = slash")
    case True
    with False obtain d where d: "dir = d @ [slash]" by (metis append_butlast_last_id)
    have "split_path (path_join dir n) = split_path d @ [n]" if "slash \<notin> set n" for n
      using split_path_slash [OF that, of d] by (simp add: path_join_def d)
    then show ?thesis by blast
  next
    case nslash: False
    have "split_path (path_join dir n) = split_path dir @ [n]" if "slash \<notin> set n" for n
      using split_path_slash [OF that, of dir] False nslash by (simp add: path_join_def)
    then show ?thesis by blast
  qed
qed

lemma normal_components_last:
  "\<exists>st'. \<forall>n. n \<noteq> [] \<and> n \<noteq> dot \<and> n \<noteq> dotdot \<longrightarrow> normal_components rooted st (cs @ [n]) sep = (rev (n # st'), False)"
proof (induction cs arbitrary: st sep)
  case Nil
  show ?case by (intro exI [of _ st]) simp
next
  case (Cons c cs)
  show ?case
  proof (cases "c = [] \<or> c = dot")
    case True
    then show ?thesis using Cons [of st True] by auto
  next
    case c: False
    show ?thesis
    proof (cases "c = dotdot")
      case True
      show ?thesis
      proof (cases st)
        case Nil
        then show ?thesis using c True Cons [of "[]" True] Cons [of "[dotdot]" False] by (cases rooted) auto
      next
        case (Cons c0 rest)
        then show ?thesis
          using c True Cons.IH [of "dotdot # st" False] Cons.IH [of rest True] by (cases "c0 = dotdot") auto
      qed
    next
      case False
      then show ?thesis using c Cons [of "c # st" False] by auto
    qed
  qed
qed

lemma hd_path_join: "plain_name n \<Longrightarrow> hd (path_join dir n) = slash \<longleftrightarrow> dir \<noteq> [] \<and> hd dir = slash"
  by (cases n; cases dir) (auto simp: path_join_def plain_name_def)

lemma lexically_normal_join:
  "\<exists>P. \<forall>n. plain_name n \<and> n \<noteq> dot \<and> n \<noteq> dotdot \<longrightarrow> lexically_normal (path_join dir n) = P @ n"
proof -
  let ?rooted = "dir \<noteq> [] \<and> hd dir = slash"
  obtain cs where cs: "\<forall>n. slash \<notin> set n \<longrightarrow> split_path (path_join dir n) = cs @ [n]" using split_path_join by blast
  obtain st where st: "\<forall>n. n \<noteq> [] \<and> n \<noteq> dot \<and> n \<noteq> dotdot \<longrightarrow>
      normal_components ?rooted [] (cs @ [n]) False = (rev (n # st), False)"
    using normal_components_last [of ?rooted "[]" cs False] by blast
  have "lexically_normal (path_join dir n) =
      ((if ?rooted then [slash] else []) @ concat (map (\<lambda>c. c @ [slash]) (rev st))) @ n"
    if n: "plain_name n" "n \<noteq> dot" "n \<noteq> dotdot" for n
  proof -
    have "slash \<notin> set n" "n \<noteq> []" using n by (simp_all add: plain_name_def)
    moreover have "path_join dir n \<noteq> []" using \<open>n \<noteq> []\<close> by (auto simp: path_join_def)
    ultimately show ?thesis
      using cs st n hd_path_join [OF n(1), of dir] by (auto simp: lexically_normal_def Let_def)
  qed
  then show ?thesis by blast
qed

lemma table_name_normal: "table_name n \<Longrightarrow> plain_name n \<and> n \<noteq> dot \<and> n \<noteq> dotdot"
  using last_names(5) [of n] by (auto simp: table_name_def dot_def dotdot_def str_def)

lemma lexically_normal_tables:
  assumes "table_name n" and "table_name n'"
  shows "lexically_normal (path_join dir n) = lexically_normal (path_join dir n') \<longleftrightarrow> n = n'"
proof -
  obtain P where "\<forall>n. plain_name n \<and> n \<noteq> dot \<and> n \<noteq> dotdot \<longrightarrow> lexically_normal (path_join dir n) = P @ n"
    using lexically_normal_join by blast
  with assms table_name_normal show ?thesis by simp
qed

section \<open>Table names\<close>

definition table_file_name :: "sstable_level \<Rightarrow> u64 \<Rightarrow> u64 \<Rightarrow> u64 \<Rightarrow> bytes" where
  "table_file_name level file_id generation max_sequence =
     str ''sstable-'' @ str (level_name level) @ str ''-f'' @ zero_padded file_id @
       str ''-g'' @ zero_padded generation @ str ''-s'' @ zero_padded max_sequence @ str ''.sst''"

lemma table_path_name: "table_path dir level i g q = path_join dir (table_file_name level i g q)"
  by (simp add: table_path_def table_file_name_def)

lemma length_zero_padded: "length (zero_padded g) = 20"
  using length_manifest_name [of g] by (simp add: manifest_name_def manifest_prefix_def str_def)

lemma table_name_file: "table_name (table_file_name level i g q)"
proof -
  have "slash \<notin> set (zero_padded v)" for v using digit_facts(1) by blast
  moreover have "slash \<notin> set (str (level_name level))" by (cases level) (simp_all add: str_def)
  ultimately have "plain_name (table_file_name level i g q)"
    by (simp add: plain_name_def table_file_name_def str_def)
  moreover have "suffix (str ''.sst'') (table_file_name level i g q)"
    by (simp add: table_file_name_def suffix_def)
  ultimately show ?thesis by (simp add: table_name_def)
qed

lemma table_file_name_id: "table_file_name l i g q = table_file_name l' i' g' q' \<Longrightarrow> i = i'"
proof -
  assume eq: "table_file_name l i g q = table_file_name l' i' g' q'"
  have len: "length (str (level_name l)) = 2" for l by (cases l) simp_all
  have "take 20 (drop 12 (table_file_name l i g q)) = zero_padded i" for l i g q
    using len [of l] by (simp add: table_file_name_def length_zero_padded)
  with eq show "i = i'" by (metis zero_padded_inject)
qed

end
