(* ===== verification/ManagerInv.thy ===== *)
theory ManagerInv
  imports Selection PathNames
begin

text \<open>
  The invariant of the table manager: every open table is well formed and its file is whole and
  durable under its name, the manifest on disk lists exactly the open tables, sequence numbers
  separate the versions of each key, the ranges of level 1 are disjoint, and the live count is exact.
\<close>

section \<open>Manifests of a bounded number of tables\<close>

definition recordable :: "bytes \<Rightarrow> sstable_metadata list \<Rightarrow> bool" where
  "recordable dir ms \<longleftrightarrow> length ms \<le> 10000 \<and> distinct (map md_path ms) \<and>
     (\<forall>m\<in>set ms. valid_table m \<and> valid_key (md_smallest_key m) \<and> valid_key (md_largest_key m) \<and>
        md_smallest_key m \<le> md_largest_key m \<and>
        (\<exists>n. md_path m = path_join dir n \<and> table_name n \<and> length n \<le> kMaximumFilenameBytes))"

lemma serialize_tables_recordable:
  assumes "\<forall>m\<in>set ms. plain_name (md_path m) \<and> length (md_path m) \<le> kMaximumFilenameBytes \<and>
      valid_key (md_smallest_key m) \<and> valid_key (md_largest_key m) \<and> md_smallest_key m \<le> md_largest_key m"
    and "distinct (map md_path ms)" and "\<forall>m\<in>set ms. md_path m \<notin> set names"
  shows "\<exists>body. serialize_tables names ms = Inr body \<and> length body \<le> 6200 * length ms"
  using assms
proof (induction ms arbitrary: names)
  case (Cons m ms)
  have plain: "plain_name (md_path m)" using Cons.prems(1) by simp
  have "\<exists>body. serialize_tables (md_path m # names) ms = Inr body \<and> length body \<le> 6200 * length ms"
  proof (rule Cons.IH)
    have "md_path m \<notin> md_path ` set ms" using Cons.prems(2) by simp
    then show "\<forall>m'\<in>set ms. md_path m' \<notin> set (md_path m # names)" using Cons.prems(3) by (auto simp: rev_image_eqI)
  qed (use Cons.prems(1,2) in simp_all)
  then obtain body where body: "serialize_tables (md_path m # names) ms = Inr body" "length body \<le> 6200 * length ms" by blast
  have "md_path m \<noteq> []" using plain by (simp add: plain_name_def)
  moreover have "length (md_path m) \<le> 4096" "length (md_smallest_key m) \<le> 1024" "length (md_largest_key m) \<le> 1024"
    using Cons.prems(1) by (simp_all add: kMaximumFilenameBytes_def kMaxKeySize_def)
  moreover from this have "checked_uint32 (length (md_path m)) e = Inr (of_nat (length (md_path m)))"
    "checked_uint32 (length (md_smallest_key m)) e = Inr (of_nat (length (md_smallest_key m)))"
    "checked_uint32 (length (md_largest_key m)) e = Inr (of_nat (length (md_largest_key m)))" for e
    by (simp_all add: checked_uint32_Inr)
  ultimately show ?case
    using Cons.prems body plain_name_path(1-3) [OF plain] by (auto simp: not_less Let_def)
qed simp

lemma serialize_recordable:
  assumes "recordable dir ms" and "mm_current_generation mm \<noteq> - 1" and "nid \<noteq> 0"
  shows "\<exists>mb. serialize_manifest (stored_manifest (next_manifest mm ms nid)) = Inr mb \<and> length mb \<le> kMaximumMetadataFileBytes"
proof -
  let ?ms = "map (\<lambda>t. t\<lparr>md_path := path_filename (md_path t)\<rparr>) ms"
  have name: "\<exists>n. md_path m = path_join dir n \<and> path_filename (md_path m) = n \<and> plain_name n \<and> length n \<le> kMaximumFilenameBytes"
    if "m \<in> set ms" for m
  proof -
    from assms(1) that obtain n where "md_path m = path_join dir n" "plain_name n" "length n \<le> kMaximumFilenameBytes"
      unfolding recordable_def table_name_def by blast
    then show ?thesis using plain_name_path(4) by auto
  qed
  have "inj_on path_filename (md_path ` set ms)"
  proof (rule inj_onI)
    fix p q assume pq: "p \<in> md_path ` set ms" "q \<in> md_path ` set ms" and eq: "path_filename p = path_filename q"
    from pq name have "p = path_join dir (path_filename p)" "q = path_join dir (path_filename q)" by blast+
    with eq show "p = q" by simp
  qed
  moreover have "distinct (map md_path ms)" using assms(1) by (simp add: recordable_def)
  ultimately have "distinct (map path_filename (map md_path ms))" unfolding distinct_map [of path_filename] by simp
  then have dist: "distinct (map md_path ?ms)" by (simp add: comp_def)
  have "\<exists>body. serialize_tables [] ?ms = Inr body \<and> length body \<le> 6200 * length ?ms"
  proof (rule serialize_tables_recordable)
    show "\<forall>m\<in>set ?ms. plain_name (md_path m) \<and> length (md_path m) \<le> kMaximumFilenameBytes \<and>
      valid_key (md_smallest_key m) \<and> valid_key (md_largest_key m) \<and> md_smallest_key m \<le> md_largest_key m"
      using assms(1) name unfolding recordable_def by fastforce
  qed (use dist in simp_all)
  then obtain body where body: "serialize_tables [] ?ms = Inr body" "length body \<le> 6200 * length ms" by auto
  have n: "length ms \<le> 10000" using assms(1) by (simp add: recordable_def)
  then have "length body \<le> 62000000" using body(2) by simp
  moreover have "checked_uint32 (length ms) e = Inr (of_nat (length ms))" for e using n by (simp add: checked_uint32_Inr)
  ultimately show ?thesis
    using body n assms(3) word_inc_nonzero [OF assms(2)]
    by (simp add: serialize_manifest_def stored_manifest_def next_manifest_def kMaximumManifestTables_def
        append_checksum_def kMaximumMetadataFileBytes_def kManifestMagic_def)
qed

section \<open>Bloom filters of a bounded number of keys\<close>

definition sane_rate :: "real option \<Rightarrow> bool" where
  "sane_rate rate \<longleftrightarrow> (\<exists>r. rate = Some r \<and> exp (- 64) \<le> r \<and> r < 1)"

lemma checked_bit_count_bounded:
  assumes "0 < n" and "n < 2 ^ 32" and "exp (- 64) \<le> r" and "r < 1"
  shows "\<exists>c. checked_bit_count (of_nat n) r = Inr c \<and> 64 \<le> unat c \<and> unat c \<le> 2 ^ 40"
proof -
  let ?d = "kNaturalLogOfTwo * kNaturalLogOfTwo" and ?l = "- ln r"
  have r: "0 < r" using assms(3) exp_gt_zero [of "- 64 :: real"] by linarith
  have l: "0 < ?l" "?l \<le> 64" using assms(3,4) r ln_ge_iff [of r "- 64"] by auto
  have d: "2 / 5 \<le> ?d" by (simp add: kNaturalLogOfTwo_def)
  have n: "real (unat (of_nat n :: u64)) = real n" using assms(2) by (simp add: unat_of_nat_u64)
  define x where "x = real n * ?l / ?d"
  have "0 < ?d" using d by linarith
  then have "0 < x" unfolding x_def using assms(1) l by (simp only: zero_less_divide_iff zero_less_mult_iff of_nat_0_less_iff simp_thms)
  have "x \<le> real n * 64 / ?d" unfolding x_def using l d by (intro divide_right_mono mult_left_mono) simp_all
  also have "\<dots> \<le> real n * 64 / (2 / 5)" using d by (intro divide_left_mono) simp_all
  also have "\<dots> \<le> 2 ^ 32 * 160" using assms(2) by simp
  finally have "x \<le> 2 ^ 40" by simp
  define z where "z = \<lceil>x\<rceil>"
  have c: "0 < z" "z \<le> 2 ^ 40" using \<open>0 < x\<close> \<open>x \<le> 2 ^ 40\<close> by (simp_all add: z_def ceiling_le_iff)
  have eq: "\<lceil>- real (unat (of_nat n :: u64)) * ln r / ?d\<rceil> = z" unfolding n z_def x_def by simp
  define c where "c = max (of_int z) kBitsPerWord"
  have "unat (of_int z :: u64) = nat z"
  proof -
    have "of_int z = (of_nat (nat z) :: u64)" using c(1) by simp
    moreover have "nat z < 2 ^ 64" using c by simp
    ultimately show ?thesis by (simp only: unat_of_nat_u64)
  qed
  then have "64 \<le> unat c" "unat c \<le> 2 ^ 40"
    using c by (auto simp: c_def kBitsPerWord_def max_def word_le_nat_alt)
  moreover have "checked_bit_count (of_nat n) r = Inr c"
    using c unfolding checked_bit_count_def Let_def eq c_def by simp
  ultimately show ?thesis by blast
qed

lemma build_bloom_filter_ok:
  assumes "es \<noteq> []" and "length es < 2 ^ 32" and "sane_rate rate"
  shows "\<exists>f. build_bloom_filter rate es = Inr f \<and> (\<forall>k\<in>fst ` set es. may_contain f k)"
proof -
  from assms(3) obtain r where r: "rate = Some r" "exp (- 64) \<le> r" "r < 1" by (auto simp: sane_rate_def)
  have "0 < r" using r(2) exp_gt_zero [of "- 64 :: real"] by linarith
  obtain c where c: "checked_bit_count (of_nat (length es)) r = Inr c" "64 \<le> unat c" "unat c \<le> 2 ^ 40"
    using checked_bit_count_bounded [of "length es" r] assms(1,2) r by auto
  have "unat (of_nat (length es) :: u64) = length es" using assms(2) by (intro unat_of_nat_u64) simp
  then have "(of_nat (length es) :: u64) \<noteq> 0" using assms(1) by (metis length_0_conv unat_0)
  then obtain f where f: "bloom_filter_new (of_nat (length es)) rate = Inr f"
    and bits: "bf_bit_count f = (c + kBitsPerWord - 1) div kBitsPerWord * kBitsPerWord"
    using c(1) r \<open>0 < r\<close> by (auto simp: bloom_filter_new_def throw_if_def Let_def)
  have s: "unat (c + kBitsPerWord - 1) = unat c + 63"
  proof -
    have "c + kBitsPerWord - 1 = c + 63" by (simp add: kBitsPerWord_def)
    moreover have "unat (c + 63) = unat c + 63" using c(3) by (simp add: unat_word_ariths)
    ultimately show ?thesis by (simp only:)
  qed
  have q: "unat ((c + kBitsPerWord - 1) div kBitsPerWord) = (unat c + 63) div 64"
    unfolding unat_div s by (simp add: kBitsPerWord_def)
  have "(unat c + 63) div 64 * 64 < 2 ^ 64" using c(3) by (intro le_less_trans [OF div_times_less_eq_dividend]) simp
  then have "unat (bf_bit_count f) = (unat c + 63) div 64 * 64"
    unfolding bits using unat_mult_lem [of "(c + kBitsPerWord - 1) div kBitsPerWord" kBitsPerWord] q by (simp add: kBitsPerWord_def)
  moreover have "0 < (unat c + 63) div 64" using c(2) by (simp add: div_greater_zero_iff)
  ultimately have "bf_bit_count f \<noteq> 0" by auto
  then have "bloom_inv f" by (rule bloom_filter_newD(1) [OF f])
  then have "\<forall>k\<in>fst ` set es. may_contain (foldl bloom_add f (map fst es)) k"
    using bloom.no_false_negative by simp
  then show ?thesis using f by (simp add: build_bloom_filter_def)
qed

end
