(* ===== verification/ManagerSteps.thy ===== *)
theory ManagerSteps
  imports ManagerInv
begin

text \<open>
  The two steps every change of the table set consists of: writing a new table file and publishing a
  new list of tables through the manifest.
\<close>

section \<open>State that only passes through\<close>

lemma world_more_update:
  "world.more w' = world.more w \<Longrightarrow> w' = w\<lparr>w_fs := w_fs w', w_events := w_events w'\<rparr>"
  by (cases w; cases w') simp

definition fs_replaces :: "bytes \<Rightarrow> bytes \<Rightarrow> bytes \<Rightarrow> fsys \<Rightarrow> fsys \<Rightarrow> bool" where
  "fs_replaces path tmp bs fs fs' \<longleftrightarrow>
     (\<forall>q. q \<noteq> path \<and> q \<noteq> tmp \<longrightarrow> fs_files fs' q = fs_files fs q) \<and>
     (fs_files fs' path = fs_files fs path \<or> fs_files fs' path = Some (whole_file bs)) \<and>
     (\<forall>q. q \<noteq> tmp \<longrightarrow> fs_synced fs' q = fs_synced fs q \<or> fs_synced fs' q = map_option df_durable (fs_files fs' q))"

definition fs_holds :: "bytes \<Rightarrow> bytes \<Rightarrow> fsys \<Rightarrow> bool" where
  "fs_holds path bs fs \<longleftrightarrow> fs_files fs path = Some (whole_file bs) \<and> fs_synced fs path = Some bs"

lemma replaces_fs: "replaces path tmp bs w w' \<longleftrightarrow> fs_replaces path tmp bs (w_fs w) (w_fs w') \<and> world.more w' = world.more w"
  by (auto simp: replaces_def fs_replaces_def)

lemma replaced_fs: "replaced path bs w \<longleftrightarrow> fs_holds path bs (w_fs w)"
  by (simp add: replaced_def fs_holds_def)

lemma fs_replaces_keeps:
  assumes "fs_replaces path tmp bs fs fs'" and "fs_holds q c fs" and "q \<noteq> path" and "q \<noteq> tmp"
  shows "fs_holds q c fs'"
  using assms unfolding fs_replaces_def fs_holds_def by (metis option.simps(9) whole_file_simps(2))

lemma fs_replaces_refl: "fs_replaces path tmp bs fs fs"
  by (simp add: fs_replaces_def)

text \<open>Effects that only consume events and set counters.\<close>

definition frame :: "'a storage_scheme \<Rightarrow> 'a storage_scheme \<Rightarrow> bool" where
  "frame s s' \<longleftrightarrow> (\<exists>evs stats. s' = s\<lparr>w_events := evs, st_lookup_statistics := stats\<rparr>)"

lemma frame_simps [simp]:
  "frame s s" "frame s (s\<lparr>w_events := evs\<rparr>)" "frame s (s\<lparr>st_lookup_statistics := stats\<rparr>)"
  "frame s (s\<lparr>w_events := evs, st_lookup_statistics := stats\<rparr>)"
proof -
  show "frame s (s\<lparr>w_events := evs, st_lookup_statistics := stats\<rparr>)" by (auto simp: frame_def)
  show "frame s s" unfolding frame_def by (intro exI [of _ "w_events s"] exI [of _ "st_lookup_statistics s"]) simp
  show "frame s (s\<lparr>w_events := evs\<rparr>)"
    unfolding frame_def by (intro exI [of _ evs] exI [of _ "st_lookup_statistics s"]) simp
  show "frame s (s\<lparr>st_lookup_statistics := stats\<rparr>)"
    unfolding frame_def by (intro exI [of _ "w_events s"] exI [of _ stats]) simp
qed

lemma frame_trans:
  assumes "frame s s'" and "frame s' s''"
  shows "frame s s''"
proof -
  from assms obtain evs stats evs' stats' where "s' = s\<lparr>w_events := evs, st_lookup_statistics := stats\<rparr>"
    "s'' = s'\<lparr>w_events := evs', st_lookup_statistics := stats'\<rparr>" unfolding frame_def by blast
  then have "s'' = s\<lparr>w_events := evs', st_lookup_statistics := stats'\<rparr>" by simp
  then show ?thesis by simp
qed

definition quiet :: "('a storage_scheme, 'b) effect \<Rightarrow> bool" where
  "quiet m \<longleftrightarrow> (\<forall>s r s'. m s = (r, s') \<longrightarrow> frame s s')"

lemma quiet_bind:
  assumes "quiet m" and "\<And>x. quiet (f x)"
  shows "quiet (bind_effect m f)"
  unfolding quiet_def
proof (intro allI impI)
  fix s r s' assume run: "bind_effect m f s = (r, s')"
  obtain y s1 where m: "m s = (y, s1)" by fastforce
  with assms(1) have "frame s s1" unfolding quiet_def by blast
  moreover have "y = Inl e \<Longrightarrow> s' = s1" for e using m run by simp
  moreover have "y = Inr x \<Longrightarrow> f x s1 = (r, s')" for x using m run by simp
  moreover from this have "y = Inr x \<Longrightarrow> frame s1 s'" for x using assms(2) unfolding quiet_def by blast
  ultimately show "frame s s'" using frame_trans by (cases y) blast+
qed

lemma quiet_simps [simp]:
  "quiet (lift_result r)" "quiet (sys_call e)" "quiet (sst_read_exact data pos n)"
  by (auto simp: quiet_def lift_result_def sys_call_def sst_read_exact_def split: list.splits if_splits prod.splits)

lemma quiet_checked_file_size [simp]: "quiet (checked_file_size path)"
proof -
  have "quiet (\<lambda>w. case fs_files (w_fs w) path of
         None \<Rightarrow> (Inl (SystemError ''filesystem error: cannot get file size''), w)
       | Some f \<Rightarrow> (Inr (df_contents f), w))"
    by (auto simp: quiet_def split: option.splits)
  then show ?thesis unfolding checked_file_size_def by (intro quiet_bind) simp_all
qed

lemma quiet_sstable_reader_new: "quiet (sstable_reader_new path c bloom)"
  unfolding sstable_reader_new_def Let_def
  by (intro quiet_bind quiet_simps quiet_checked_file_size) (auto simp: quiet_def)

section \<open>Writing a table\<close>

definition config_ok :: "'a sstable_manager_scheme \<Rightarrow> bool" where
  "config_ok s \<longleftrightarrow> sane_rate (sm_bloom_false_positive_rate s) \<and> sm_directory s \<noteq> [] \<and>
     sm_target_data_block_bytes s \<noteq> 0 \<and> sm_target_data_block_bytes s \<le> 4294967295 \<and>
     2 \<le> sm_level0_compaction_trigger s \<and> 2 \<le> sm_level0_compaction_max_tables s"

definition new_table :: "sstable_reader \<Rightarrow> sstable_level \<Rightarrow> managed_table" where
  "new_table reader level = \<lparr>tb_reader = reader, tb_level = level\<rparr>"

lemma new_table_simps [simp]: "tb_reader (new_table r l) = r" "tb_level (new_table r l) = l"
  by (simp_all add: new_table_def)

text \<open>\<open>wrote\<close>: what writing a table may have done, whether it returned or not.\<close>

definition wrote :: "bytes \<Rightarrow> bytes \<Rightarrow> 'a sstable_manager_scheme \<Rightarrow> 'a sstable_manager_scheme \<Rightarrow> bool" where
  "wrote path bs s s' \<longleftrightarrow> (\<exists>fs evs stats i. s' = s\<lparr>w_fs := fs, w_events := evs, st_lookup_statistics := stats, sm_next_file_id := i\<rparr> \<and>
     fs_replaces path (temporary_path_for path) bs (w_fs s) fs \<and>
     (i = sm_next_file_id s \<or> sm_next_file_id s \<noteq> - 1 \<and> i = sm_next_file_id s + 1))"

definition holds_new_table :: "snapshot \<Rightarrow> bytes \<Rightarrow> bytes \<Rightarrow> u64 \<Rightarrow> managed_table \<Rightarrow> bool" where
  "holds_new_table es path bs g t \<longleftrightarrow> table_ok t \<and> table_entries t = es \<and> md_path (tb_metadata t) = path \<and>
     rd_data (tb_reader t) = bs \<and> md_generation (tb_metadata t) = g"

lemma reserve_file_id_simps:
  "sm_next_file_id s = - 1 \<Longrightarrow> reserve_file_id s = (Inl (OverflowError ''SSTable file identifier space is exhausted''), s)"
  "sm_next_file_id s \<noteq> - 1 \<Longrightarrow> reserve_file_id s = (Inr (sm_next_file_id s), s\<lparr>sm_next_file_id := sm_next_file_id s + 1\<rparr>)"
  by (simp_all add: reserve_file_id_def)

abbreviation output_options :: "'a sstable_manager_scheme \<Rightarrow> bytes \<Rightarrow> u64 \<Rightarrow> sstable_writer_options" where
  "output_options s path g \<equiv> \<lparr>wo_output_path = path, wo_target_data_block_bytes = sm_target_data_block_bytes s, wo_generation = g\<rparr>"

lemma write_and_open_eq:
  assumes "sm_next_file_id s \<noteq> - 1" and "s1 = s\<lparr>sm_next_file_id := sm_next_file_id s + 1\<rparr>"
    and "path = table_path (sm_directory s) level (sm_next_file_id s) g (max_sequence_in es)"
  shows "write_and_open es level g s =
     bind_effect (sstable_write es (output_options s path g)) (\<lambda>metadata.
     bind_effect (lift_result (build_bloom_filter (sm_bloom_false_positive_rate s) es)) (\<lambda>bloom.
     bind_effect (sstable_reader_new (md_path metadata) True (Some bloom)) (\<lambda>reader.
     lift_result (Inr (sm_next_file_id s, metadata\<lparr>md_level := level\<rparr>, reader))))) s1"
  using assms by (simp add: write_and_open_def reserve_file_id_simps Let_def)

lemma open_new_table:
  assumes tw: "table_written es (output_options s0 path g) md bs" and f: "fs_holds path bs (w_fs s)"
    and valid: "valid_snapshot es" and few: "length es < 2 ^ 32"
    and bloom: "\<forall>k\<in>fst ` set es. may_contain bloom k"
    and run: "sstable_reader_new path True (Some bloom) s = (Inr reader, s')"
  shows "holds_new_table es path bs g (new_table reader level)" and "rd_metadata reader = md"
proof -
  have small: "length bs < 2 ^ 63" by (rule table_written_small [OF tw valid few])
  have "fs_files (w_fs s) (wo_output_path (output_options s0 path g)) = Some (whole_file bs)" using f by (simp add: fs_holds_def)
  note op = open_written_table(1) [OF tw valid small this, of True "Some bloom" reader s']
  from op run have o: "opened_as reader path True (Some bloom) md bs (table_blocks es (output_options s0 path g))" by simp
  then show md: "rd_metadata reader = md" by (simp add: opened_as_def)
  have "rd_data reader = bs" using o by (simp add: opened_as_def)
  moreover have "table_ok (new_table reader level)" "table_entries (new_table reader level) = es"
    using table_okI [of es "output_options s0 path g" "new_table reader level" bs bloom] tw valid few o bloom md by simp_all
  moreover have "md_path md = path" "md_generation md = g" using tw by (auto simp: table_written_def)
  ultimately show "holds_new_table es path bs g (new_table reader level)" using md by (simp add: holds_new_table_def)
qed

lemma write_and_open_cases:
  assumes run: "write_and_open es level g s = (r, s')" and valid: "valid_snapshot es" and few: "length es < 2 ^ 32"
    and rate: "sane_rate (sm_bloom_false_positive_rate s)"
    and path: "path = table_path (sm_directory s) level (sm_next_file_id s) g (max_sequence_in es)"
  shows "\<exists>bs. wrote path bs s s' \<and> (\<forall>x. r = Inr x \<longrightarrow> (\<exists>md reader. x = (sm_next_file_id s, md, reader) \<and>
      sm_next_file_id s \<noteq> - 1 \<and> sm_next_file_id s' = sm_next_file_id s + 1 \<and> fs_holds path bs (w_fs s') \<and>
      holds_new_table es path bs g (new_table reader level)))"
proof (cases "sm_next_file_id s = - 1")
  case True
  then have "r = Inl (OverflowError ''SSTable file identifier space is exhausted'')" "s' = s"
    using run by (simp_all add: write_and_open_def reserve_file_id_simps)
  moreover have "wrote path [] s s"
    unfolding wrote_def by (intro exI [of _ "w_fs s"] exI [of _ "w_events s"] exI [of _ "st_lookup_statistics s"]
        exI [of _ "sm_next_file_id s"]) (simp add: fs_replaces_refl)
  ultimately show ?thesis by blast
next
  case id: False
  define s1 where "s1 = s\<lparr>sm_next_file_id := sm_next_file_id s + 1\<rparr>"
  note eq = write_and_open_eq [OF id s1_def path]
  obtain r2 s2 where w: "sstable_write es (output_options s path g) s1 = (r2, s2)" by fastforce
  from sstable_writeD [OF w] obtain bs where rep: "replaces path (temporary_path_for path) bs s1 s2"
    and fin: "\<And>md. r2 = Inr md \<Longrightarrow> table_written es (output_options s path g) md bs \<and> replaced path bs s2" by auto
  have s2: "s2 = s1\<lparr>w_fs := w_fs s2, w_events := w_events s2\<rparr>" using rep by (intro world_more_update) (simp add: replaces_def)
  have frep: "fs_replaces path (temporary_path_for path) bs (w_fs s) (w_fs s2)" using rep by (simp add: replaces_fs s1_def)
  have wr: "wrote path bs s t" if fr: "frame s2 t" for t
  proof -
    from fr obtain evs stats where "t = s2\<lparr>w_events := evs, st_lookup_statistics := stats\<rparr>" unfolding frame_def by blast
    then have "t = s\<lparr>w_fs := w_fs s2, w_events := evs, st_lookup_statistics := stats, sm_next_file_id := sm_next_file_id s + 1\<rparr>"
      by (subst (asm) s2) (simp add: s1_def)
    with frep id show ?thesis unfolding wrote_def by blast
  qed
  have id': "sm_next_file_id t = sm_next_file_id s + 1 \<and> w_fs t = w_fs s2" if "frame s2 t" for t
    using that by (subst (asm) s2) (auto simp: frame_def s1_def)
  show ?thesis
  proof (cases r2)
    case (Inl e)
    then have "r = Inl e" "s' = s2" using run w unfolding eq by simp_all
    then show ?thesis using wr [of s2] by auto
  next
    case (Inr md)
    note d = fin [OF Inr]
    have ne: "es \<noteq> []" "md_path md = path" using d by (auto simp: table_written_def)
    obtain bloom where b: "build_bloom_filter (sm_bloom_false_positive_rate s) es = Inr bloom" "\<forall>k\<in>fst ` set es. may_contain bloom k"
      using build_bloom_filter_ok [OF ne(1) few rate] by blast
    obtain r3 s3 where o: "sstable_reader_new path True (Some bloom) s2 = (r3, s3)" by fastforce
    have fr: "frame s2 s3" using o quiet_sstable_reader_new unfolding quiet_def by blast
    have res: "r = map_sum id (\<lambda>reader. (sm_next_file_id s, md\<lparr>md_level := level\<rparr>, reader)) r3" "s' = s3"
      using run w Inr b(1) ne(2) o unfolding eq by (cases r3; simp)+
    have "holds_new_table es path bs g (new_table reader level)" if "r3 = Inr reader" for reader
    proof (rule open_new_table(1) [OF _ _ valid few b(2)])
      show "table_written es (output_options s path g) md bs" "fs_holds path bs (w_fs s2)" using d by (simp_all add: replaced_fs)
      show "sstable_reader_new path True (Some bloom) s2 = (Inr reader, s3)" using o that by simp
    qed
    moreover have "fs_holds path bs (w_fs s3)" using d id' [OF fr] by (simp add: replaced_fs)
    ultimately have "\<exists>md reader. x = (sm_next_file_id s, md, reader) \<and>
      sm_next_file_id s \<noteq> - 1 \<and> sm_next_file_id s' = sm_next_file_id s + 1 \<and> fs_holds path bs (w_fs s') \<and>
      holds_new_table es path bs g (new_table reader level)" if "r = Inr x" for x
      using that id id' [OF fr] res by (cases r3) auto
    then show ?thesis using wr [OF fr] res(2) by blast
  qed
qed

lemma write_and_open_reliable:
  assumes "w_events s = []" and cfg: "config_ok s" and id: "sm_next_file_id s \<noteq> - 1"
    and valid: "valid_snapshot es" and ne: "es \<noteq> []" and few: "length es < 2 ^ 32"
  shows "\<exists>x s'. write_and_open es level g s = (Inr x, s') \<and> w_events s' = []"
proof -
  define path where "path = table_path (sm_directory s) level (sm_next_file_id s) g (max_sequence_in es)"
  define s1 where "s1 = s\<lparr>sm_next_file_id := sm_next_file_id s + 1\<rparr>"
  have "path \<noteq> []" unfolding path_def table_path_name using table_name_file [of level "sm_next_file_id s" g]
    by (auto simp: path_join_def table_name_def plain_name_def)
  then have "\<exists>md s2. sstable_write es (output_options s path g) s1 = (Inr md, s2) \<and> w_events s2 = []"
    using assms by (intro sstable_write_reliable) (simp_all add: s1_def config_ok_def)
  then obtain md s2 where w: "sstable_write es (output_options s path g) s1 = (Inr md, s2)" "w_events s2 = []" by blast
  from sstable_writeD [OF w(1)] obtain bs where tw: "table_written es (output_options s path g) md bs"
    and rp: "replaced path bs s2" by auto
  have small: "length bs < 2 ^ 63" by (rule table_written_small [OF tw valid few])
  obtain bloom where b: "build_bloom_filter (sm_bloom_false_positive_rate s) es = Inr bloom"
    using build_bloom_filter_ok [OF ne few] cfg by (auto simp: config_ok_def)
  have f: "fs_files (w_fs s2) (wo_output_path (output_options s path g)) = Some (whole_file bs)" using rp by (simp add: replaced_def)
  obtain reader s3 where o: "sstable_reader_new path True (Some bloom) s2 = (Inr reader, s3)" "w_events s3 = []"
    using open_written_table(2) [OF tw valid small f w(2), of True "Some bloom"] by auto
  have "md_path md = path" using tw by (auto simp: table_written_def)
  then show ?thesis using w b o unfolding write_and_open_eq [OF id s1_def path_def] by simp
qed

section \<open>The invariant\<close>

definition tables_inv :: "bytes \<Rightarrow> managed_table list \<Rightarrow> bool" where
  "tables_inv dir ts \<longleftrightarrow> distinct (map table_id ts) \<and> consistent (set ts) \<and> level1_disjoint ts \<and>
     (\<forall>t\<in>set ts. table_ok t \<and> (\<exists>n. md_path (tb_metadata t) = path_join dir n \<and> table_name n \<and> length n \<le> kMaximumFilenameBytes))"

text \<open>No table has a name that a later file identifier could produce.\<close>

definition fresh_ids :: "bytes \<Rightarrow> u64 \<Rightarrow> managed_table list \<Rightarrow> bool" where
  "fresh_ids dir next ts \<longleftrightarrow> (\<forall>t\<in>set ts. \<forall>l i g q. next \<le> i \<longrightarrow> md_path (tb_metadata t) \<noteq> table_path dir l i g q)"

definition files_hold :: "managed_table list \<Rightarrow> fsys \<Rightarrow> bool" where
  "files_hold ts fs \<longleftrightarrow> (\<forall>t\<in>set ts. fs_holds (md_path (tb_metadata t)) (rd_data (tb_reader t)) fs)"

definition manifest_of :: "manifest_manager \<Rightarrow> u64 \<Rightarrow> managed_table list \<Rightarrow> manifest_snapshot" where
  "manifest_of mm nid ts = \<lparr>mf_generation = mm_current_generation mm, mf_next_file_id = nid, mf_tables = metadata_for ts\<rparr>"

definition recorded :: "'a sstable_manager_scheme \<Rightarrow> managed_table list \<Rightarrow> bool" where
  "recorded s ts \<longleftrightarrow> (\<exists>nid. nid \<noteq> 0 \<and> nid \<le> sm_next_file_id s \<and> fresh_ids (sm_directory s) nid ts \<and>
     manifest_durable (sm_directory s) (manifest_of (sm_manifest s) nid ts) s)"

definition manager_inv :: "'a sstable_manager_scheme \<Rightarrow> bool" where
  "manager_inv s \<longleftrightarrow> config_ok s \<and> tables_inv (sm_directory s) (sm_readers s) \<and> sort_tables (sm_readers s) = sm_readers s \<and> files_hold (sm_readers s) (w_fs s) \<and>
     mm_directory (sm_manifest s) = sm_directory s \<and> recorded s (sm_readers s) \<and>
     (\<exists>src. cache_coherent src s \<and> knows src (set (sm_readers s))) \<and>
     sm_live_key_count s = of_nat (card (dom (table_view (sm_readers s)))) \<and>
     sm_max_sequence_number s = maximum_sequence (sm_readers s) \<and>
     next_generation_after (sm_readers s) = Inr (sm_next_generation s)"

lemma fresh_ids_mono: "fresh_ids dir next ts \<Longrightarrow> next \<le> next' \<Longrightarrow> fresh_ids dir next' ts"
  unfolding fresh_ids_def by (meson order_trans)

lemma maximum_sequence_bound:
  assumes "t \<in> set ts"
  shows "md_max_sequence_number (tb_metadata t) \<le> maximum_sequence ts"
proof -
  have "m \<le> foldl (\<lambda>m t. max m (md_max_sequence_number (tb_metadata t))) m ts \<and>
      (\<forall>t\<in>set ts. md_max_sequence_number (tb_metadata t) \<le> foldl (\<lambda>m t. max m (md_max_sequence_number (tb_metadata t))) m ts)" for m
  proof (induction ts arbitrary: m)
    case (Cons a ts)
    show ?case using Cons [of "max m (md_max_sequence_number (tb_metadata a))"] by auto
  qed simp
  then show ?thesis using assms by (simp add: maximum_sequence_def)
qed

lemma newer_than_maximum:
  assumes "\<forall>t\<in>set ts. table_ok t" and "\<forall>r\<in>set es. maximum_sequence ts < entry_sequence_number (snd r)"
  shows "newer_than es (set ts)"
  unfolding newer_than_def
proof (intro ballI)
  fix r t r' assume r: "r \<in> set es" and t: "t \<in> set ts" and r': "r' \<in> set (table_entries t)"
  have "entry_sequence_number (snd r') \<le> md_max_sequence_number (tb_metadata t)"
    using table_okD(13) assms(1) t r' by blast
  also have "\<dots> \<le> maximum_sequence ts" by (rule maximum_sequence_bound [OF t])
  finally show "entry_sequence_number (snd r') < entry_sequence_number (snd r)" using assms(2) r by fastforce
qed

text \<open>A source of blocks exists for any tables with different identifiers.\<close>

lemma knows_extend:
  assumes "knows src T" and "table_ok t" and "\<forall>u\<in>T. table_id u \<noteq> table_id t"
  shows "knows (extend_source (tb_reader t) (reader_blocks (tb_reader t)) src) (insert t T)"
proof -
  note ok = table_okD [OF assms(2)]
  have at: "list_all2 (block_at (rd_data (tb_reader t))) (rd_index (tb_reader t)) (reader_blocks (tb_reader t))"
    using ok(1) by (simp add: reader_holds_def)
  have "opened_as (tb_reader t) (rd_path (tb_reader t)) True (rd_bloom_filter (tb_reader t)) (tb_metadata t)
      (rd_data (tb_reader t)) (reader_blocks (tb_reader t))"
    using assms(2) at ok(3,14) unfolding table_ok_def by (auto simp: opened_as_def)
  then have "source_knows (extend_source (tb_reader t) (reader_blocks (tb_reader t)) src) (tb_reader t) (reader_blocks (tb_reader t))"
    by (rule source_knows_extend)
  moreover have "source_knows (extend_source (tb_reader t) (reader_blocks (tb_reader t)) src) (tb_reader u) (reader_blocks (tb_reader u))"
    if u: "u \<in> T" for u
  proof (rule source_knows_other)
    show "rd_cache_table_id (tb_reader u) \<noteq> rd_cache_table_id (tb_reader t)"
      using assms u ok(2) table_okD(2) [of u] by (auto simp: knows_def)
    show "source_knows src (tb_reader u) (reader_blocks (tb_reader u))" using assms(1) u by (simp add: knows_def)
  qed
  ultimately show ?thesis using assms(1,2) by (auto simp: knows_def)
qed

lemma knows_exists:
  assumes "\<forall>t\<in>set ts. table_ok t" and "distinct (map table_id ts)"
  shows "\<exists>src. knows src (set ts)"
  using assms
proof (induction ts)
  case (Cons t ts)
  then obtain src where src: "knows src (set ts)" by auto
  have "table_id t \<notin> table_id ` set ts" using Cons.prems(2) by simp
  then have "\<forall>u\<in>set ts. table_id u \<noteq> table_id t" by (auto simp: rev_image_eqI)
  from knows_extend [OF src _ this] Cons.prems(1) show ?case by auto
qed auto

lemma cleared_cache_coherent:
  assumes "cache_inv c" and "st_cache s = block_cache_reset_statistics (block_cache_clear c)"
  shows "cache_coherent src s"
  using assms by (simp add: cache_coherent_def block_cache_reset_statistics_def block_cache_clear_def cache_inv_def
      cache_lookup_def cache_find_def map_le_def dom_def)

end
