(* ===== verification/ManagerFlush.thy ===== *)
theory ManagerFlush
  imports ManagerSteps
begin

text \<open>
  Publishing a list of tables, and flushing a MemTable: the new table holds the MemTable's entries,
  they replace the older versions, and a crash at any system call leaves the old or the new set of
  tables on disk.
\<close>

section \<open>Publication\<close>

lemma metadata_for_simps [simp]:
  "metadata_for [] = []" "metadata_for (t # ts) = (tb_metadata t)\<lparr>md_level := tb_level t\<rparr> # metadata_for ts"
  "metadata_for (ts @ us) = metadata_for ts @ metadata_for us" "length (metadata_for ts) = length ts"
  by (simp_all add: metadata_for_def)

lemma set_metadata_for: "m \<in> set (metadata_for ts) \<longleftrightarrow> (\<exists>t\<in>set ts. m = (tb_metadata t)\<lparr>md_level := tb_level t\<rparr>)"
  by (auto simp: metadata_for_def)

lemma tables_inv_metadata:
  assumes "tables_inv dir ts" and "m \<in> set (metadata_for ts)"
  shows "valid_table m" and "valid_key (md_smallest_key m)" and "valid_key (md_largest_key m)" and "md_smallest_key m \<le> md_largest_key m"
    and "\<exists>n. md_path m = path_join dir n \<and> table_name n \<and> length n \<le> kMaximumFilenameBytes"
proof -
  from assms(2) obtain t where t: "t \<in> set ts" "m = (tb_metadata t)\<lparr>md_level := tb_level t\<rparr>" unfolding set_metadata_for by blast
  then have ok: "table_ok t" and n: "\<exists>n. md_path (tb_metadata t) = path_join dir n \<and> table_name n \<and> length n \<le> kMaximumFilenameBytes"
    using assms(1) by (auto simp: tables_inv_def)
  have "\<forall>r\<in>set (table_entries t). valid_key (fst r)" using table_okD(7) [OF ok] by (simp add: valid_snapshot_def valid_entry_def)
  moreover have "hd (table_entries t) \<in> set (table_entries t)" "last (table_entries t) \<in> set (table_entries t)"
    using table_okD(6) [OF ok] by simp_all
  ultimately show "valid_key (md_smallest_key m)" "valid_key (md_largest_key m)" using t table_okD(9,10) [OF ok] by simp_all
  show "valid_table m" using table_okD(4) [OF ok] t by (simp add: valid_table_def)
  show "md_smallest_key m \<le> md_largest_key m" using table_ok_range(1) [OF ok] t by simp
  show "\<exists>n. md_path m = path_join dir n \<and> table_name n \<and> length n \<le> kMaximumFilenameBytes" using n t by simp
qed

lemma recordable_tables:
  assumes "tables_inv dir ts" and "length ts \<le> 10000"
  shows "recordable dir (metadata_for ts)"
proof -
  have "distinct (map lexically_normal (map (\<lambda>t. md_path (tb_metadata t)) ts))" using assms(1) by (simp add: tables_inv_def comp_def)
  then have "distinct (map (\<lambda>t. md_path (tb_metadata t)) ts)" by (simp only: distinct_map)
  then have "distinct (map md_path (metadata_for ts))" by (simp add: metadata_for_def comp_def)
  then show ?thesis using tables_inv_metadata [OF assms(1)] assms(2) unfolding recordable_def by simp
qed

lemma committable_tables:
  assumes "tables_inv dir ts" and "files_hold ts (w_fs w)"
  shows "committable dir (metadata_for ts) w"
  unfolding committable_def
proof
  fix m assume m: "m \<in> set (metadata_for ts)"
  then obtain t where "t \<in> set ts" "md_path m = md_path (tb_metadata t)" unfolding set_metadata_for by auto
  then have "replaced (md_path m) (rd_data (tb_reader t)) w" using assms(2) by (simp add: files_hold_def replaced_fs)
  then show "valid_table m \<and> (\<exists>n bs. md_path m = path_join dir n \<and> table_name n \<and> replaced (md_path m) bs w)"
    using tables_inv_metadata(1,5) [OF assms(1) m] by blast
qed

lemma manifest_limit:
  assumes "recordable dir ms" and "serialize_manifest (stored_manifest (next_manifest mm ms nid)) = Inr mb"
  shows "length mb \<le> kMaximumMetadataFileBytes"
proof -
  have "mm_current_generation mm + 1 \<noteq> 0" "nid \<noteq> 0"
    using assms(2) by (auto simp: serialize_manifest_def stored_manifest_def next_manifest_def split: if_splits)
  then have "mm_current_generation mm \<noteq> - 1" "nid \<noteq> 0" by auto
  from serialize_recordable [OF assms(1) this] assms(2) show ?thesis by auto
qed

lemma tables_inv_paths: "tables_inv dir ts \<Longrightarrow> table_paths dir (metadata_for ts)"
  unfolding table_paths_def using tables_inv_metadata(5) by blast

lemma manifest_commit_frame:
  assumes run: "manifest_commit mm tables nid w = (r, w')"
  shows "world.more w' = world.more w"
    and "fs_holds (path_join (mm_directory mm) n) c (w_fs w) \<Longrightarrow> table_name n \<Longrightarrow> fs_holds (path_join (mm_directory mm) n) c (w_fs w')"
proof -
  let ?g = "mm_current_generation mm + 1" and ?dir = "mm_directory mm"
  have keep: "fs_holds (path_join ?dir n) c (w_fs w2)" if "replaces (path_join ?dir p) (tmp_name (path_join ?dir p)) bs w1 w2"
    "p = manifest_name ?g \<or> p = current_name" "fs_holds (path_join ?dir n) c (w_fs w1)" "table_name n"
    for w1 w2 :: "'a world_scheme" and p bs
  proof -
    have "path_join ?dir n \<noteq> path_join ?dir p" "path_join ?dir n \<noteq> tmp_name (path_join ?dir p)"
      using that(2,4) names_distinct(4-6) by (auto simp: path_join_append)
    then show ?thesis using fs_replaces_keeps that(1,3) unfolding replaces_fs by blast
  qed
  from run have "world.more w' = world.more w \<and>
    (fs_holds (path_join ?dir n) c (w_fs w) \<and> table_name n \<longrightarrow> fs_holds (path_join ?dir n) c (w_fs w'))"
  proof (cases rule: manifest_commit_steps)
    case (first_failed e mb)
    note a = atomic_writeD(1) [OF first_failed(3), unfolded manifest_path_def]
    show ?thesis using a keep [OF a] by (simp add: replaces_def)
  next
    case (second mb cb w1 u)
    note a = atomic_writeD(1) [OF second(3), unfolded manifest_path_def] and b = atomic_writeD(1) [OF second(4), unfolded current_path_def]
    show ?thesis using a b keep [OF a] keep [OF b] by (simp add: replaces_def)
  qed simp
  then show "world.more w' = world.more w"
    and "fs_holds (path_join ?dir n) c (w_fs w) \<Longrightarrow> table_name n \<Longrightarrow> fs_holds (path_join ?dir n) c (w_fs w')" by blast+
qed

definition published :: "managed_table list \<Rightarrow> u64 \<Rightarrow> 'a sstable_manager_scheme \<Rightarrow> 'a sstable_manager_scheme \<Rightarrow> bool" where
  "published ts n s s' \<longleftrightarrow> (\<exists>mm g. s' = s\<lparr>w_fs := w_fs s', w_events := w_events s', sm_manifest := mm, sm_readers := ts,
     sm_live_key_count := n, sm_max_sequence_number := maximum_sequence ts, sm_next_generation := g,
     sm_state_version := sm_state_version s + 1,
     st_cache := block_cache_reset_statistics (block_cache_clear (st_cache s))\<rparr> \<and>
     next_generation_after ts = Inr g \<and> mm_directory mm = mm_directory (sm_manifest s) \<and>
     mm_current_generation mm = mm_current_generation (sm_manifest s) + 1)"

lemma published_readers: "published ts n s s' \<Longrightarrow> sm_readers s' = ts \<and> sm_directory s' = sm_directory s \<and>
    sstable_manager.more s' = sstable_manager.more s"
  by (auto simp: published_def elim!: ssubst)

lemma world_more_readers: "world.more s' = world.more (s :: 'a sstable_manager_scheme) \<Longrightarrow>
    sm_readers s' = sm_readers s \<and> sstable_manager.more s' = sstable_manager.more s"
  by (cases s; cases s') simp

lemma newer_table_asym: "newer_table a b \<Longrightarrow> \<not> newer_table b a"
  by (auto simp: newer_table_def Let_def split: if_splits)

lemma sort_tables_idem [simp]: "sort_tables (sort_tables ts) = sort_tables ts"
  unfolding sort_tables_def by (rule std_sort_idem) (rule newer_table_asym)

lemma sort_tables_eq_iff: "sort_tables ts = ts \<longleftrightarrow> successively (\<lambda>a b. \<not> newer_table b a) ts"
  unfolding sort_tables_def by (rule std_sort_eq_iff) (rule newer_table_asym)

lemma sort_tables_inv: "tables_inv dir (sort_tables ts) \<longleftrightarrow> tables_inv dir ts"
  by (simp add: tables_inv_def sort_tables_def level1_disjoint_perm)

lemma publish_cases:
  assumes run: "publish_tables_locked ts n s = (r, s')"
    and inv: "tables_inv (sm_directory s) ts" and dir: "mm_directory (sm_manifest s) = sm_directory s"
    and files: "files_hold ts (w_fs s)" and few: "length ts \<le> 10000"
  shows publish_kept: "r = Inl e \<Longrightarrow> world.more s' = world.more s"
    and publish_done: "r = Inr u \<Longrightarrow> published (sort_tables ts) n s s'"
    and publish_recorded: "r = Inr u \<Longrightarrow> manifest_durable (sm_directory s) (manifest_of (sm_manifest s') (sm_next_file_id s) (sort_tables ts)) s'"
    and publish_files: "tables_inv (sm_directory s) us \<Longrightarrow> files_hold us (w_fs s) \<Longrightarrow> files_hold us (w_fs s')"
    and publish_crash: "tables_inv (sm_directory s) us \<Longrightarrow> manifest_durable (sm_directory s) (manifest_of (sm_manifest s) nid us) s \<Longrightarrow>
      fs_crash (w_fs s') disk \<Longrightarrow> manifest_on_disk (sm_directory s) (manifest_of (sm_manifest s) nid us) disk \<or>
        (\<exists>g. next_generation_after (sort_tables ts) = Inr g) \<and>
        manifest_on_disk (sm_directory s) (next_manifest (sm_manifest s) (metadata_for (sort_tables ts)) (sm_next_file_id s)) disk"
proof -
  let ?ts = "sort_tables ts" and ?dir = "sm_directory s" and ?mm = "sm_manifest s"
  have inv': "tables_inv ?dir ?ts" using inv by (simp add: sort_tables_inv)
  have files': "files_hold ?ts (w_fs s)" using files by (simp add: files_hold_def sort_tables_def)
  have few': "length ?ts \<le> 10000" using few by (simp add: sort_tables_def)
  have com: "committable (mm_directory ?mm) (metadata_for ?ts) s" using committable_tables [OF inv' files'] dir by simp
  have lim: "\<forall>mb. serialize_manifest (stored_manifest (next_manifest ?mm (metadata_for ?ts) (sm_next_file_id s))) = Inr mb \<longrightarrow>
      length mb \<le> kMaximumMetadataFileBytes"
    using manifest_limit [OF recordable_tables [OF inv' few']] by blast
  have ok: "validate_level1_ranges ?ts = Inr ()"
    using validate_level1_ranges_iff [of ?ts] inv' table_ok_range(1) by (simp add: tables_inv_def throw_if_def)
  show "r = Inl e \<Longrightarrow> world.more s' = world.more s"
    and "r = Inr u \<Longrightarrow> published ?ts n s s'"
    and "r = Inr u \<Longrightarrow> manifest_durable ?dir (manifest_of (sm_manifest s') (sm_next_file_id s) ?ts) s'"
    and "tables_inv ?dir us \<Longrightarrow> files_hold us (w_fs s) \<Longrightarrow> files_hold us (w_fs s')"
    and "tables_inv ?dir us \<Longrightarrow> manifest_durable ?dir (manifest_of ?mm nid us) s \<Longrightarrow>
      fs_crash (w_fs s') disk \<Longrightarrow> manifest_on_disk ?dir (manifest_of ?mm nid us) disk \<or>
        (\<exists>g. next_generation_after ?ts = Inr g) \<and> manifest_on_disk ?dir (next_manifest ?mm (metadata_for ?ts) (sm_next_file_id s)) disk"
  proof (atomize (full), cases "next_generation_after ?ts", goal_cases)
    case (1 e')
    then have "r = Inl e'" "s' = s" using run ok by (simp_all add: publish_tables_locked_def Let_def)
    then show ?case using manifest_durable_crash by auto
  next
    case (2 g)
    obtain r1 s1 where c: "manifest_commit ?mm (metadata_for ?ts) (sm_next_file_id s) s = (r1, s1)" by fastforce
    note fr = manifest_commit_frame [OF c, unfolded dir]
    have more: "s1 = s\<lparr>w_fs := w_fs s1, w_events := w_events s1\<rparr>" by (rule world_more_update [OF fr(1)])
    have same_fs: "w_fs s' = w_fs s1"
      using run ok 2 c by (cases r1) (auto simp: publish_tables_locked_def Let_def split: prod.splits)
    have crash: "manifest_on_disk ?dir (manifest_of ?mm nid us) disk \<or>
        (\<exists>g. next_generation_after ?ts = Inr g) \<and> manifest_on_disk ?dir (next_manifest ?mm (metadata_for ?ts) (sm_next_file_id s)) disk"
      if "tables_inv ?dir us" "manifest_durable ?dir (manifest_of ?mm nid us) s" "fs_crash (w_fs s') disk"
    proof -
      have "table_paths (mm_directory ?mm) (mf_tables (manifest_of ?mm nid us))" "mf_generation (manifest_of ?mm nid us) = mm_current_generation ?mm"
        "manifest_durable (mm_directory ?mm) (manifest_of ?mm nid us) s"
        using tables_inv_paths [OF that(1)] that(2) dir by (simp_all add: manifest_of_def)
      from manifest_commit_crash [OF c this(3,2,1) com lim] that(3) same_fs dir 2 show ?thesis by auto
    qed
    have keep: "files_hold us (w_fs s')" if us: "tables_inv ?dir us" "files_hold us (w_fs s)"
      unfolding files_hold_def
    proof
      fix t assume "t \<in> set us"
      then obtain n where "md_path (tb_metadata t) = path_join ?dir n" "table_name n" "fs_holds (path_join ?dir n) (rd_data (tb_reader t)) (w_fs s)"
        using us unfolding files_hold_def tables_inv_def by metis
      then show "fs_holds (md_path (tb_metadata t)) (rd_data (tb_reader t)) (w_fs s')" using fr(2) same_fs by simp
    qed
    show ?case
    proof (cases r1)
      case (Inl e')
      then have "r = Inl e'" "s' = s1" using run ok 2 c by (simp_all add: publish_tables_locked_def Let_def)
      then show ?thesis using crash keep fr(1) by simp
    next
      case (Inr x)
      obtain mm m where x: "x = (mm, m)" by fastforce
      note d = manifest_commit_durable [OF c [unfolded Inr] com lim]
      have mm: "mm_directory mm = mm_directory ?mm" "mm_current_generation mm = mm_current_generation ?mm + 1" using d(2) x by simp_all
      have s': "r = Inr ()" "s' = s1\<lparr>sm_manifest := mm, sm_readers := ?ts, sm_live_key_count := n,
           sm_max_sequence_number := maximum_sequence ?ts, sm_next_generation := g,
           sm_state_version := sm_state_version s1 + 1,
           st_cache := block_cache_reset_statistics (block_cache_clear (st_cache s1))\<rparr>"
        using run ok 2 c Inr x by (simp_all add: publish_tables_locked_def Let_def)
      have "published ?ts n s s'"
      proof -
        obtain fs evs where "s1 = s\<lparr>w_fs := fs, w_events := evs\<rparr>" using more by blast
        then show ?thesis unfolding published_def using mm 2 s'(2) by (intro exI [of _ mm] exI [of _ g]) simp
      qed
      moreover have "manifest_of (sm_manifest s') (sm_next_file_id s) ?ts = next_manifest ?mm (metadata_for ?ts) (sm_next_file_id s)"
        using s'(2) mm by (simp add: manifest_of_def next_manifest_def)
      moreover have "manifest_durable ?dir (next_manifest ?mm (metadata_for ?ts) (sm_next_file_id s)) s'"
        using d(1) dir same_fs by (simp add: manifest_durable_def replaced_def)
      ultimately show ?thesis using crash keep s'(1) by simp
    qed
  qed
qed

section \<open>The invariant between the steps\<close>

text \<open>What a crash leaves behind: a manifest on disk that names exactly these tables, and their files.\<close>

definition disk_holds :: "bytes \<Rightarrow> managed_table list \<Rightarrow> (bytes \<rightharpoonup> bytes) \<Rightarrow> bool" where
  "disk_holds dir ts disk \<longleftrightarrow> sort_tables ts = ts \<and> (\<exists>g. next_generation_after ts = Inr g) \<and> (\<exists>m. manifest_on_disk dir m disk \<and> mf_tables m = metadata_for ts \<and>
       mf_next_file_id m \<noteq> 0 \<and> fresh_ids dir (mf_next_file_id m) ts) \<and>
     (\<forall>t\<in>set ts. disk (md_path (tb_metadata t)) = Some (rd_data (tb_reader t)))"

lemma files_hold_crash: "files_hold ts fs \<Longrightarrow> fs_crash fs disk \<Longrightarrow> t \<in> set ts \<Longrightarrow> disk (md_path (tb_metadata t)) = Some (rd_data (tb_reader t))"
  using replaced_crash [of "md_path (tb_metadata t)" "rd_data (tb_reader t)" "\<lparr>w_fs = fs, w_events = []\<rparr>" disk]
  by (simp add: files_hold_def replaced_fs)

lemma manager_crash:
  assumes "manager_inv s" and "fs_crash (w_fs s) disk"
  shows "disk_holds (sm_directory s) (sm_readers s) disk"
  using assms manifest_durable_crash files_hold_crash
  unfolding disk_holds_def manager_inv_def recorded_def manifest_of_def by fastforce

lemma reads_fields:
  assumes "reads s (s' :: 'a sstable_manager_scheme)"
  shows "sm_readers s' = sm_readers s" "sm_manifest s' = sm_manifest s" "sm_directory s' = sm_directory s"
    "sm_next_file_id s' = sm_next_file_id s" "sm_live_key_count s' = sm_live_key_count s" "config_ok s' = config_ok s"
    "sm_max_sequence_number s' = sm_max_sequence_number s" "sm_next_generation s' = sm_next_generation s"
    "sm_state_version s' = sm_state_version s" "sm_bloom_false_positive_rate s' = sm_bloom_false_positive_rate s"
    "sm_compaction_statistics s' = sm_compaction_statistics s" "sstable_manager.more s' = sstable_manager.more s"
  using assms by (cases s; cases s'; simp add: reads_def config_ok_def)+

lemma manifest_durable_fs: "w_fs w' = w_fs w \<Longrightarrow> manifest_durable dir m w' = manifest_durable dir m w"
  by (simp add: manifest_durable_def replaced_fs)

lemma reads_inv:
  assumes "manager_inv s" and "reads s s'" and "cache_coherent src s'" and "knows src (set (sm_readers s))"
  shows "manager_inv s'"
proof -
  have "w_fs s' = w_fs s" using assms(2) by (simp add: reads_def)
  then show ?thesis using assms reads_fields [OF assms(2)] manifest_durable_fs [of s' s]
    unfolding manager_inv_def recorded_def by metis
qed

lemma level1_add0: "tb_level t = Level0 \<Longrightarrow> level1_disjoint (ts @ [t]) \<longleftrightarrow> level1_disjoint ts"
  by (simp add: level1_disjoint_def)

lemma fresh_path:
  assumes "tables_inv dir ts" and "fresh_ids dir i ts" and "i \<le> j" and "t \<in> set ts"
  shows "md_path (tb_metadata t) \<noteq> table_path dir l j g q" and "md_path (tb_metadata t) \<noteq> temporary_path_for (table_path dir l j g q)"
  using assms table_paths_avoid(3) [of dir "metadata_for ts" "(tb_metadata t)\<lparr>md_level := tb_level t\<rparr>" "table_file_name l j g q"]
    tables_inv_paths [OF assms(1)]
  by (auto simp: fresh_ids_def set_metadata_for table_path_name temporary_path_for_def)

lemma wrote_inv:
  assumes inv: "manager_inv s" and w: "wrote path bs s s'"
    and path: "path = table_path (sm_directory s) l (sm_next_file_id s) g q"
  shows "manager_inv s'"
proof -
  let ?dir = "sm_directory s" and ?ts = "sm_readers s"
  obtain fs evs stats i where s': "s' = s\<lparr>w_fs := fs, w_events := evs, st_lookup_statistics := stats, sm_next_file_id := i\<rparr>"
    and rep: "fs_replaces path (temporary_path_for path) bs (w_fs s) fs"
    and i: "i = sm_next_file_id s \<or> sm_next_file_id s \<noteq> - 1 \<and> i = sm_next_file_id s + 1"
    using w unfolding wrote_def by blast
  have le: "sm_next_file_id s \<le> i" using i word_less_inc [of "sm_next_file_id s"] by auto
  from inv obtain nid where nid: "nid \<noteq> 0" "nid \<le> sm_next_file_id s" "fresh_ids ?dir nid ?ts"
    "manifest_durable ?dir (manifest_of (sm_manifest s) nid ?ts) s" and ti: "tables_inv ?dir ?ts"
    unfolding manager_inv_def recorded_def by blast
  note fresh = fresh_path [OF ti nid(3,2), of _ l g q, folded path]
  have files: "files_hold ?ts fs"
    using inv fs_replaces_keeps [OF rep] fresh unfolding manager_inv_def files_hold_def by blast
  have n: "table_name (table_file_name l (sm_next_file_id s) g q)" by (rule table_name_file)
  have "manifest_durable ?dir (manifest_of (sm_manifest s) nid ?ts) (s\<lparr>w_fs := fs\<rparr>)"
  proof (rule manifest_durable_replaces [OF nid(4)])
    show "replaces path (temporary_path_for path) bs s (s\<lparr>w_fs := fs\<rparr>)" using rep by (simp add: replaces_fs)
    show "path_join ?dir current_name \<notin> {path, temporary_path_for path}"
      "path_join ?dir (manifest_name (mf_generation (manifest_of (sm_manifest s) nid ?ts))) \<notin> {path, temporary_path_for path}"
      using names_distinct(2,3) names_distinct(4,5) [OF n, symmetric] unfolding path table_path_name temporary_path_for_def
      by (simp_all add: path_join_append)
    show "\<forall>t\<in>set (mf_tables (manifest_of (sm_manifest s) nid ?ts)). md_path t \<notin> {path, temporary_path_for path}"
      using fresh(1,2) by (auto simp: manifest_of_def metadata_for_def)
  qed
  then have "manifest_durable ?dir (manifest_of (sm_manifest s) nid ?ts) s'" using manifest_durable_fs [of s' "s\<lparr>w_fs := fs\<rparr>"] s' by simp
  then have "recorded s' ?ts" using nid le s' unfolding recorded_def by (auto intro: order_trans)
  moreover have "cache_coherent src s' = cache_coherent src s" for src using s' by (simp add: cache_coherent_def)
  ultimately show ?thesis using inv files s' by (simp add: manager_inv_def config_ok_def)
qed

lemma wrote_fields:
  assumes "wrote path bs s s'"
  shows "sm_readers s' = sm_readers s" "sm_manifest s' = sm_manifest s" "sm_directory s' = sm_directory s"
    "sm_live_key_count s' = sm_live_key_count s" "sm_max_sequence_number s' = sm_max_sequence_number s"
    "sm_state_version s' = sm_state_version s" "sm_bloom_false_positive_rate s' = sm_bloom_false_positive_rate s"
    "st_cache s' = st_cache s" "cache_coherent src s' = cache_coherent src s" "sstable_manager.more s' = sstable_manager.more s"
  using assms by (auto simp: wrote_def cache_coherent_def)

lemma table_file_name_length: "length (table_file_name l i g q) \<le> kMaximumFilenameBytes"
  by (cases l) (simp_all add: table_file_name_def length_zero_padded str_def level_name_def kMaximumFilenameBytes_def)

lemma tables_inv_add:
  assumes "tables_inv dir ts" and "fresh_ids dir i ts" and ok: "table_ok t" and path: "md_path (tb_metadata t) = table_path dir l i g q"
    and "consistent (insert t (set ts))" and "level1_disjoint (ts @ [t])"
  shows "tables_inv dir (ts @ [t])"
proof -
  have "table_id t \<notin> table_id ` set ts"
  proof
    assume "table_id t \<in> table_id ` set ts"
    then obtain u where u: "u \<in> set ts" "table_id t = table_id u" by blast
    then obtain n where "md_path (tb_metadata u) = path_join dir n" "table_name n" using assms(1) unfolding tables_inv_def by blast
    with u path lexically_normal_tables [OF table_name_file, of n dir l i g q] have "md_path (tb_metadata u) = table_path dir l i g q"
      by (simp add: table_path_name)
    then show False using assms(2) u(1) by (auto simp: fresh_ids_def)
  qed
  then show ?thesis using assms table_name_file table_file_name_length unfolding tables_inv_def by (auto simp: table_path_name)
qed

lemma fresh_ids_add:
  assumes "fresh_ids dir i ts" and "md_path (tb_metadata t) = table_path dir l i g q" and "i \<noteq> - 1"
  shows "fresh_ids dir (i + 1) (ts @ [t])"
proof -
  have lt: "i < i + 1" using word_less_inc assms(3) by blast
  have "md_path (tb_metadata t) \<noteq> table_path dir l' j g' q'" if "i + 1 \<le> j" for l' j g' q'
    using that lt assms(2) table_file_name_id [of l i g q l' j g' q'] by (auto simp: table_path_name path_join_inject)
  then show ?thesis using fresh_ids_mono [OF assms(1), of "i + 1"] lt by (auto simp: fresh_ids_def)
qed

section \<open>Publishing and flushing keep the invariant\<close>

lemma table_view_cong:
  assumes "consistent (set us)" and "set ts = set us"
  shows "table_view ts = table_view us"
  by (rule ext) (simp add: table_view_def newest_cong [OF assms])

lemma set_sort_tables [simp]: "set (sort_tables ts) = set ts" "length (sort_tables ts) = length ts"
  by (simp_all add: sort_tables_def)

lemma manager_publish:
  assumes run: "publish_tables_locked ts n s = (r, s')" and inv: "manager_inv s"
    and ti: "tables_inv (sm_directory s) ts" and files: "files_hold ts (w_fs s)" and few: "length ts \<le> 10000"
    and n: "n = of_nat (card (dom (table_view ts)))" and fresh: "fresh_ids (sm_directory s) (sm_next_file_id s) ts"
  shows publish_failed: "r = Inl e \<Longrightarrow> world.more s' = world.more s"
    and publish_succeeded: "r = Inr u \<Longrightarrow> manager_inv s' \<and> published (sort_tables ts) n s s'"
    and publish_atomic: "fs_crash (w_fs s') disk \<Longrightarrow>
      disk_holds (sm_directory s) (sm_readers s) disk \<or> disk_holds (sm_directory s) (sort_tables ts) disk"
proof -
  let ?dir = "sm_directory s" and ?ts = "sort_tables ts"
  from inv have dir: "mm_directory (sm_manifest s) = ?dir" and old: "tables_inv ?dir (sm_readers s)" "files_hold (sm_readers s) (w_fs s)"
    and cfg: "config_ok s" by (auto simp: manager_inv_def)
  from inv obtain nid where nid: "nid \<noteq> 0" "nid \<le> sm_next_file_id s" "fresh_ids ?dir nid (sm_readers s)"
    "manifest_durable ?dir (manifest_of (sm_manifest s) nid (sm_readers s)) s" unfolding manager_inv_def recorded_def by blast
  have id: "sm_next_file_id s \<noteq> 0" using nid(1,2) by auto
  have fresh': "fresh_ids ?dir (sm_next_file_id s) ?ts" using fresh by (simp add: fresh_ids_def)
  have ti': "tables_inv ?dir ?ts" using ti by (simp add: sort_tables_inv)
  have files': "files_hold ?ts (w_fs s')" using publish_files [OF run ti dir files few ti'] files by (simp add: files_hold_def)
  show "r = Inl e \<Longrightarrow> world.more s' = world.more s" by (rule publish_kept [OF run ti dir files few])
  show "manager_inv s' \<and> published ?ts n s s'" if r: "r = Inr u"
  proof -
    note p = publish_done [OF run ti dir files few r]
    have view: "table_view ?ts = table_view ts" using ti by (intro table_view_cong) (simp_all add: tables_inv_def)
    obtain mm g where s': "s' = s\<lparr>w_fs := w_fs s', w_events := w_events s', sm_manifest := mm, sm_readers := ?ts,
         sm_live_key_count := n, sm_max_sequence_number := maximum_sequence ?ts, sm_next_generation := g,
         sm_state_version := sm_state_version s + 1, st_cache := block_cache_reset_statistics (block_cache_clear (st_cache s))\<rparr>"
      and g: "next_generation_after ?ts = Inr g" and mm: "mm_directory mm = ?dir" using p [unfolded published_def dir] by blast
    have f: "sm_readers s' = ?ts" "sm_manifest s' = mm" "sm_directory s' = ?dir" "sm_next_file_id s' = sm_next_file_id s"
      "sm_live_key_count s' = n" "config_ok s' = config_ok s" "sm_max_sequence_number s' = maximum_sequence ?ts" "sm_next_generation s' = g"
      "st_cache s' = block_cache_reset_statistics (block_cache_clear (st_cache s))"
      by (subst s', simp add: config_ok_def)+
    have "recorded s' ?ts" unfolding recorded_def f(2-4)
      using id fresh' publish_recorded [OF run ti dir files few r] f(2) by (intro exI [of _ "sm_next_file_id s"]) simp
    moreover obtain src where "knows src (set ?ts)" using knows_exists [of ?ts] ti' by (auto simp: tables_inv_def)
    moreover have "cache_coherent src s'" using inv cleared_cache_coherent [OF _ f(9)] by (auto simp: manager_inv_def cache_coherent_def)
    ultimately show ?thesis using p g mm ti' files' cfg n view unfolding manager_inv_def f view sort_tables_idem by blast
  qed
  show "disk_holds ?dir (sm_readers s) disk \<or> disk_holds ?dir ?ts disk" if crash: "fs_crash (w_fs s') disk"
  proof -
    have "\<forall>t\<in>set ?ts. disk (md_path (tb_metadata t)) = Some (rd_data (tb_reader t))" using files_hold_crash [OF files' crash] by blast
    moreover have "\<forall>t\<in>set (sm_readers s). disk (md_path (tb_metadata t)) = Some (rd_data (tb_reader t))"
      using files_hold_crash [OF publish_files [OF run ti dir files few old] crash] by blast
    moreover have "mf_tables (manifest_of (sm_manifest s) nid (sm_readers s)) = metadata_for (sm_readers s)"
      "mf_next_file_id (manifest_of (sm_manifest s) nid (sm_readers s)) = nid"
      "mf_tables (next_manifest (sm_manifest s) (metadata_for ?ts) (sm_next_file_id s)) = metadata_for ?ts"
      "mf_next_file_id (next_manifest (sm_manifest s) (metadata_for ?ts) (sm_next_file_id s)) = sm_next_file_id s"
      by (simp_all add: manifest_of_def next_manifest_def)
    moreover note publish_crash [OF run ti dir files few old(1) nid(4) crash]
    moreover have "sort_tables (sm_readers s) = sm_readers s" "next_generation_after (sm_readers s) = Inr (sm_next_generation s)"
      using inv by (simp_all add: manager_inv_def)
    ultimately show ?thesis using nid(1,3) id fresh' unfolding disk_holds_def sort_tables_idem by metis
  qed
qed

text \<open>A flush that returns, one that throws, and one cut off by a crash.\<close>

lemma flush_loop_Nil:
  "flush_loop [] es reader s =
     bind_effect (live_count_after_flush (sm_readers s) es (sm_live_key_count s)) (\<lambda>n.
     publish_tables_locked (sm_readers s @ [new_table reader Level0]) n) s"
  by (simp add: new_table_def)

definition flushed_table :: "snapshot \<Rightarrow> managed_table list \<Rightarrow> managed_table \<Rightarrow> bytes \<Rightarrow> bool" where
  "flushed_table es ts t dir \<longleftrightarrow> table_entries t = es \<and> tables_inv dir (ts @ [t]) \<and> newer_than es (set ts)"

lemma flush_publish:
  assumes inv: "manager_inv s" and run: "flush_loop [] es reader s = (r, s')" and t: "t = new_table reader Level0"
    and ok: "table_ok t" "table_entries t = es" and path: "md_path (tb_metadata t) = table_path (sm_directory s) l i g q"
    and i: "i \<noteq> - 1" "sm_next_file_id s = i + 1" "fresh_ids (sm_directory s) i (sm_readers s)"
    and hold: "fs_holds (md_path (tb_metadata t)) (rd_data (tb_reader t)) (w_fs s)"
    and newer: "\<forall>r\<in>set es. sm_max_sequence_number s < entry_sequence_number (snd r)" and room: "length (sm_readers s) < 10000"
  shows "flushed_table es (sm_readers s) t (sm_directory s)"
    and "sstable_manager.more s' = sstable_manager.more s"
    and "r = Inl e \<Longrightarrow> sm_readers s' = sm_readers s"
    and "r = Inr u \<Longrightarrow> manager_inv s' \<and> sm_readers s' = sort_tables (sm_readers s @ [t]) \<and> sm_directory s' = sm_directory s"
    and "fs_crash (w_fs s') disk \<Longrightarrow> disk_holds (sm_directory s) (sm_readers s) disk \<or>
      disk_holds (sm_directory s) (sort_tables (sm_readers s @ [t])) disk"
proof -
  let ?ts = "sm_readers s" and ?dir = "sm_directory s"
  from inv have ti: "tables_inv ?dir ?ts" and cons: "consistent (set ?ts)" and l1: "level1_disjoint ?ts" and oks: "\<forall>t\<in>set ?ts. table_ok t"
    and live: "sm_live_key_count s = of_nat (card (dom (table_view ?ts)))" and mx: "sm_max_sequence_number s = maximum_sequence ?ts"
    and files: "files_hold ?ts (w_fs s)"
    by (auto simp: manager_inv_def tables_inv_def)
  from inv obtain src where src: "cache_coherent src s" "knows src (set ?ts)" unfolding manager_inv_def by blast
  have new: "newer_than es (set ?ts)" using newer_than_maximum [OF oks] newer mx by simp
  have ti': "tables_inv ?dir (?ts @ [t])"
    using consistent_add [OF cons] new ok(2) by (intro tables_inv_add [OF ti i(3) ok(1) path]) (simp_all add: level1_add0 l1 t)
  then show "flushed_table es ?ts t ?dir" using ok(2) new by (simp add: flushed_table_def)
  have "\<forall>r\<in>set es. valid_key (fst r)" using table_okD(7) [OF ok(1)] ok(2) by (auto simp: valid_snapshot_def valid_entry_def)
  note y = live_count_after_flush_yields [OF src(2) this, of "sm_live_key_count s"]
  obtain r1 s1 where r1: "live_count_after_flush ?ts es (sm_live_key_count s) s = (r1, s1)" by fastforce
  note y1 = yieldsD(1-3) [OF y src(1) r1]
  have inv1: "manager_inv s1" by (rule reads_inv [OF inv y1(1,2) src(2)])
  note fl = reads_fields [OF y1(1)]
  have fs1: "w_fs s1 = w_fs s" using y1(1) by (simp add: reads_def)
  have n: "counted ?ts es (sm_live_key_count s) = of_nat (card (dom (table_view (?ts @ [t]))))"
    using live_count_add [OF ok(1) cons] new ok(2) live by simp
  have files': "files_hold (?ts @ [t]) (w_fs s1)" using files hold fs1 by (simp add: files_hold_def)
  have fresh: "fresh_ids ?dir (sm_next_file_id s) (?ts @ [t])" using fresh_ids_add [OF i(3) path i(1)] i(2) by simp
  have "sstable_manager.more s' = sstable_manager.more s \<and> (r = Inl e \<longrightarrow> sm_readers s' = ?ts) \<and> (r = Inr u \<longrightarrow> manager_inv s' \<and> sm_readers s' = sort_tables (?ts @ [t]) \<and> sm_directory s' = ?dir) \<and>
    (fs_crash (w_fs s') disk \<longrightarrow> disk_holds ?dir ?ts disk \<or> disk_holds ?dir (sort_tables (?ts @ [t])) disk)"
  proof (cases r1)
    case (Inl e')
    then have "r = Inl e'" "s' = s1" using run r1 unfolding flush_loop_Nil by (simp_all add: bind_effect_case)
    then show ?thesis using manager_crash [OF inv1, of disk] fl by simp
  next
    case (Inr n')
    then have n': "n' = counted ?ts es (sm_live_key_count s)" using y1(3) by blast
    then have run': "publish_tables_locked (?ts @ [t]) n' s1 = (r, s')"
      using run r1 Inr unfolding flush_loop_Nil by (simp add: bind_effect_case t)
    note p = manager_publish [OF run' inv1, unfolded fl, OF ti' files' _ n' [unfolded n] fresh]
    have k: "sm_readers s' = ?ts" if "r = Inl e" using p(1) [OF _ that] room fl(1) world_more_readers [of s' s1] by simp
    have "sstable_manager.more s' = sstable_manager.more s1"
      using p(1,2) room world_more_readers [of s' s1] published_readers by (cases r) fastforce+
    then have m: "sstable_manager.more s' = sstable_manager.more s" using fl(12) by simp
    have "manager_inv s' \<and> sm_readers s' = sort_tables (?ts @ [t]) \<and> sm_directory s' = ?dir" if "r = Inr u"
      using p(2) [OF _ that] room published_readers fl(3) by fastforce
    then show ?thesis using k p(3) room m by simp
  qed
  then show "sstable_manager.more s' = sstable_manager.more s" "r = Inl e \<Longrightarrow> sm_readers s' = ?ts" "r = Inr u \<Longrightarrow> manager_inv s' \<and> sm_readers s' = sort_tables (?ts @ [t]) \<and> sm_directory s' = ?dir"
    "fs_crash (w_fs s') disk \<Longrightarrow> disk_holds ?dir ?ts disk \<or> disk_holds ?dir (sort_tables (?ts @ [t])) disk" by blast+
qed

definition flushable :: "memtable \<Rightarrow> 'a sstable_manager_scheme \<Rightarrow> bool" where
  "flushable table s \<longleftrightarrow> valid_snapshot (mt_entries table) \<and> length (mt_entries table) < 2 ^ 32 \<and>
     (\<forall>r\<in>set (mt_entries table). sm_max_sequence_number s < entry_sequence_number (snd r)) \<and> length (sm_readers s) < 10000"

lemma flush_steps:
  assumes inv: "manager_inv s" and run: "sstable_flush [] table s = (r, s')" and fl: "flushable table s"
  shows "sstable_manager.more s' = sstable_manager.more s \<and> (\<forall>e. r = Inl e \<longrightarrow> sm_readers s' = sm_readers s) \<and>
    (\<forall>md. r = Inr md \<longrightarrow> manager_inv s' \<and> sm_directory s' = sm_directory s \<and> (\<exists>t. flushed_table (mt_entries table) (sm_readers s) t (sm_directory s) \<and>
       sm_readers s' = sort_tables (sm_readers s @ [t]))) \<and>
    (\<forall>disk. fs_crash (w_fs s') disk \<longrightarrow> disk_holds (sm_directory s) (sm_readers s) disk \<or>
       (\<exists>t. flushed_table (mt_entries table) (sm_readers s) t (sm_directory s) \<and>
          disk_holds (sm_directory s) (sort_tables (sm_readers s @ [t])) disk))"
proof -
  let ?es = "mt_entries table" and ?ts = "sm_readers s" and ?dir = "sm_directory s" and ?id = "sm_next_file_id s"
  define path where path: "path = table_path ?dir Level0 ?id (mt_generation table) (max_sequence_in ?es)"
  have kept: ?thesis if "r = Inl e" "manager_inv s'" "sm_readers s' = ?ts" "sm_directory s' = ?dir" "sstable_manager.more s' = sstable_manager.more s" for e
    using that manager_crash [of s'] by auto
  show ?thesis
  proof (cases "mt_immutable table \<and> ?es \<noteq> []")
    case False
    then have "\<exists>e. r = Inl e \<and> s' = s"
      using run by (auto simp: sstable_flush_def memtable_snapshot_def throw_if_def Let_def bind_effect_case split: if_splits)
    then show ?thesis using kept inv by auto
  next
    case True
    obtain r1 s1 where r1: "write_and_open ?es Level0 (mt_generation table) s = (r1, s1)" by fastforce
    have "valid_snapshot ?es" "length ?es < 2 ^ 32" "sane_rate (sm_bloom_false_positive_rate s)"
      using fl inv by (auto simp: flushable_def manager_inv_def config_ok_def)
    from write_and_open_cases [OF r1 this path] obtain bs where w: "wrote path bs s s1"
      and ok: "\<And>x. r1 = Inr x \<Longrightarrow> \<exists>md reader. x = (?id, md, reader) \<and> ?id \<noteq> - 1 \<and> sm_next_file_id s1 = ?id + 1 \<and>
        fs_holds path bs (w_fs s1) \<and> holds_new_table ?es path bs (mt_generation table) (new_table reader Level0)" by blast
    have inv1: "manager_inv s1" by (rule wrote_inv [OF inv w path])
    note wf = wrote_fields [OF w]
    show ?thesis
    proof (cases r1)
      case (Inl e)
      then have "r = Inl e" "s' = s1" using run r1 True by (auto simp: sstable_flush_def memtable_snapshot_def throw_if_def Let_def bind_effect_case)
      then show ?thesis using kept inv1 wf(1,3,10) by simp
    next
      case (Inr x)
      from ok [OF Inr] obtain md reader where x: "x = (?id, md, reader)" and id: "?id \<noteq> - 1" "sm_next_file_id s1 = ?id + 1"
        and f: "fs_holds path bs (w_fs s1)" and h: "holds_new_table ?es path bs (mt_generation table) (new_table reader Level0)" by blast
      define t where t: "t = new_table reader Level0"
      have t': "table_ok t" "table_entries t = ?es" "md_path (tb_metadata t) = table_path (sm_directory s1) Level0 ?id (mt_generation table) (max_sequence_in ?es)"
        "fs_holds (md_path (tb_metadata t)) (rd_data (tb_reader t)) (w_fs s1)"
        using h f path wf(3) by (simp_all add: holds_new_table_def t)
      obtain r2 s2 where r2: "flush_loop [] ?es reader s1 = (r2, s2)" by fastforce
      have run': "s' = s2" "\<And>e. r = Inl e \<longleftrightarrow> r2 = Inl e" "\<And>md'. r = Inr md' \<Longrightarrow> \<exists>u. r2 = Inr u"
        using run r1 r2 True Inr x
        by (auto simp: sstable_flush_def memtable_snapshot_def throw_if_def Let_def bind_effect_case simp del: flush_loop.simps split: sum.splits)
      have fresh: "fresh_ids (sm_directory s1) ?id (sm_readers s1)"
        using inv wf(1,3) fresh_ids_mono by (auto simp: manager_inv_def recorded_def)
      have new: "\<forall>r\<in>set ?es. sm_max_sequence_number s1 < entry_sequence_number (snd r)" "length (sm_readers s1) < 10000"
        using fl wf(1,5) by (simp_all add: flushable_def)
      note p = flush_publish [OF inv1 r2 t t'(1-3) id fresh t'(4) new, unfolded wf(1,3,10)]
      show ?thesis using p run' by metis
    qed
  qed
qed

end
