(* ===== verification/ManagerRestart.thy ===== *)
theory ManagerRestart
  imports ManagerFlush
begin

text \<open>
  Start-up from the manifest: on a directory whose disk holds a set of tables, the constructor of the
  manager returns, and the manager it makes satisfies the invariant and shows the same contents.
\<close>

section \<open>Opening a stored table again\<close>

definition same_table :: "managed_table \<Rightarrow> managed_table \<Rightarrow> bool" where
  "same_table t t' \<longleftrightarrow> table_ok t' \<and> tb_metadata t' = tb_metadata t \<and> rd_data (tb_reader t') = rd_data (tb_reader t) \<and>
     table_entries t' = table_entries t \<and> tb_level t' = tb_level t"

definition opens_as :: "managed_table \<Rightarrow> managed_table \<Rightarrow> (cache_key \<rightharpoonup> data_block) \<Rightarrow>
    (sstable_metadata \<Rightarrow> unit result) \<Rightarrow> 'a sstable_manager_scheme \<Rightarrow> bool" where
  "opens_as t t' src accept s \<longleftrightarrow>
     (\<exists>s'. open_table (md_path (tb_metadata t)) (tb_level t) accept s = (Inr t', s') \<and>
        reads s s' \<and> cache_coherent src s' \<and> w_events s' = [])"

lemma reads_reliable: "reads s s' \<Longrightarrow> w_events s = [] \<Longrightarrow> w_events s' = []"
  by (simp add: reads_def)

lemma open_image:
  fixes s :: "'a storage_scheme"
  assumes img: "written_image h body index ei bs ft" and f: "fs_files (w_fs s) path = Some (whole_file bs)" and "path \<noteq> []"
    and io: "w_events s = []" and coh: "cache_coherent src s"
  shows "\<exists>s'. sstable_reader_new path c bloom s = (Inr (image_reader path c bloom h bs index ft), s') \<and> reads s s' \<and>
    cache_coherent src s' \<and> w_events s' = []"
proof -
  obtain r s' where run: "sstable_reader_new path c bloom s = (Inr r, s')" and ev: "w_events s' = []"
    using sstable_reader_new_reliable [OF img f whole_file_simps(1) assms(3) io] by metis
  note i = sstable_reader_new_image [OF run img f whole_file_simps(1)]
  then show ?thesis using run ev coh by (auto simp: reads_def cache_coherent_def)
qed

lemma reopen_table:
  assumes ok: "table_ok t" and rate: "sane_rate rate"
  shows "\<exists>t'. same_table t t' \<and> (\<forall>src accept (s :: 'a sstable_manager_scheme).
    fs_files (w_fs s) (md_path (tb_metadata t)) = Some (whole_file (rd_data (tb_reader t))) \<and> cache_coherent src s \<and>
    source_knows src (tb_reader t') (reader_blocks (tb_reader t')) \<and> w_events s = [] \<and>
    sm_bloom_false_positive_rate s = rate \<and> accept (tb_metadata t) = Inr () \<longrightarrow> opens_as t t' src accept s)"
proof -
  let ?es = "table_entries t" and ?bs = "rd_data (tb_reader t)" and ?md = "tb_metadata t"
  from ok obtain options where tw: "table_written ?es options ?md ?bs" and valid: "valid_snapshot ?es" and few: "length ?es < 2 ^ 32"
    unfolding table_ok_def by blast
  let ?path = "wo_output_path options" and ?blocks = "table_blocks ?es options"
  have path: "md_path ?md = ?path" "?path \<noteq> []" "?es \<noteq> []" using tw by (auto simp: table_written_def)
  have small: "length ?bs < 2 ^ 63" by (rule table_okD(15) [OF ok])
  from table_written_image [OF tw valid small] obtain h body index ei ft where img: "written_image h body index ei ?bs ft"
    and op: "\<And>c bloom. opened_as (image_reader ?path c bloom h ?bs index ft) ?path c bloom ?md ?bs ?blocks" by blast
  obtain f where f: "build_bloom_filter rate ?es = Inr f" "\<forall>k\<in>fst ` set ?es. may_contain f k"
    using build_bloom_filter_ok [OF path(3) few rate] by blast
  define r where "r b = image_reader ?path True b h ?bs index ft" for b
  define t' where "t' = \<lparr>tb_reader = r (Some f), tb_level = tb_level t\<rparr>"
  have md: "rd_metadata (r b) = ?md" for b using op by (simp add: r_def opened_as_def)
  have "opened_as (tb_reader t') ?path True (Some f) (tb_metadata t') ?bs ?blocks" using op md by (simp add: t'_def r_def)
  moreover have "table_written ?es options (tb_metadata t') ?bs" using tw md by (simp add: t'_def)
  ultimately have t': "table_ok t'" "table_entries t' = ?es" using table_okI [of ?es options t' ?bs f] valid few f(2) by simp_all
  have blocks: "reader_blocks (tb_reader t') = ?blocks" using op [of True "Some f"] by (intro reader_blocks_eq) (simp add: t'_def r_def opened_as_def)
  have holds: "reader_holds (r None) ?blocks"
    unfolding r_def by (rule opened_as_holds [OF op tw valid small]) (use few in simp_all)
  have all: "all_records ?blocks = ?es" using t'(2) by (simp add: table_entries_def blocks)
  have "opens_as t t' src accept s"
    if a: "fs_files (w_fs s) (md_path ?md) = Some (whole_file ?bs)" "cache_coherent src s"
      "source_knows src (tb_reader t') (reader_blocks (tb_reader t'))" "w_events s = []"
      "sm_bloom_false_positive_rate s = rate" "accept ?md = Inr ()" for src accept and s :: "'a sstable_manager_scheme"
  proof -
    obtain s1 where s1: "sstable_reader_new ?path True None s = (Inr (r None), s1)" "reads s s1" "cache_coherent src s1" "w_events s1 = []"
      using open_image [OF img a(1) [unfolded path(1)] path(2) a(4,2)] unfolding r_def by blast
    have "source_knows src (r None) ?blocks" using a(3) unfolding blocks by (simp add: source_knows_def t'_def r_def image_reader_def)
    from yields_returns [OF sstable_read_all_yields [OF holds this] s1(3)] obtain s2 where
      s2: "sstable_read_all (r None) s1 = (Inr ?es, s2)" "reads s1 s2" "cache_coherent src s2" using s1(4) all by auto
    have ev2: "w_events s2 = []" by (rule reads_reliable [OF s2(2) s1(4)])
    have r02: "reads s s2" by (rule reads_trans [OF s1(2) s2(2)])
    have fs2: "fs_files (w_fs s2) ?path = Some (whole_file ?bs)" "sm_bloom_false_positive_rate s2 = rate"
      using a(1,5) path(1) r02 reads_fields(10) [OF r02] by (simp_all add: reads_def)
    obtain s3 where s3: "sstable_reader_new ?path True (Some f) s2 = (Inr (r (Some f)), s3)" "reads s2 s3" "cache_coherent src s3" "w_events s3 = []"
      using open_image [OF img fs2(1) path(2) ev2 s2(3)] unfolding r_def by blast
    have "open_table (md_path ?md) (tb_level t) accept s = (Inr t', s3)"
      using s1(1) s2(1) s3(1) f(1) fs2(2) a(6) md by (simp add: open_table_def path(1) bind_effect_case t'_def)
    then show ?thesis using reads_trans [OF r02 s3(2)] s3(3,4) unfolding opens_as_def by blast
  qed
  moreover have "same_table t t'" using t' md by (simp add: same_table_def t'_def r_def image_reader_def)
  ultimately show ?thesis by blast
qed

lemma load_tables_reopen:
  assumes "\<forall>t\<in>set ts. table_ok t" and rate: "sane_rate rate"
  shows "\<exists>ts'. list_all2 same_table ts ts' \<and> (\<forall>src (s :: 'a sstable_manager_scheme).
    (\<forall>t\<in>set ts. fs_files (w_fs s) (md_path (tb_metadata t)) = Some (whole_file (rd_data (tb_reader t)))) \<and> cache_coherent src s \<and>
    knows src (set ts') \<and> w_events s = [] \<and> sm_bloom_false_positive_rate s = rate \<longrightarrow>
    (\<exists>s'. load_tables (metadata_for ts) s = (Inr ts', s') \<and> reads s s' \<and> cache_coherent src s' \<and> w_events s' = []))"
  using assms(1)
proof (induction ts)
  case Nil
  show ?case by (rule exI [of _ "[]"]) simp
next
  case (Cons t ts)
  let ?m = "(tb_metadata t)\<lparr>md_level := tb_level t\<rparr>"
  let ?accept = "\<lambda>actual. throw_if (\<not> metadata_matches ?m actual)
    (RuntimeError (''manifest metadata mismatch for SSTable: '' @ text_of (md_path ?m)))"
  obtain ts' where ts': "list_all2 same_table ts ts'" and IH: "\<And>src (s :: 'a sstable_manager_scheme).
      \<forall>t\<in>set ts. fs_files (w_fs s) (md_path (tb_metadata t)) = Some (whole_file (rd_data (tb_reader t))) \<Longrightarrow> cache_coherent src s \<Longrightarrow>
      knows src (set ts') \<Longrightarrow> w_events s = [] \<Longrightarrow> sm_bloom_false_positive_rate s = rate \<Longrightarrow>
      \<exists>s'. load_tables (metadata_for ts) s = (Inr ts', s') \<and> reads s s' \<and> cache_coherent src s' \<and> w_events s' = []"
    using Cons.IH Cons.prems by auto
  obtain t' where t': "same_table t t'" and op: "\<And>src accept (s :: 'a sstable_manager_scheme).
      fs_files (w_fs s) (md_path (tb_metadata t)) = Some (whole_file (rd_data (tb_reader t))) \<Longrightarrow> cache_coherent src s \<Longrightarrow>
      source_knows src (tb_reader t') (reader_blocks (tb_reader t')) \<Longrightarrow> w_events s = [] \<Longrightarrow>
      sm_bloom_false_positive_rate s = rate \<Longrightarrow> accept (tb_metadata t) = Inr () \<Longrightarrow> opens_as t t' src accept s"
    using reopen_table [OF _ rate, of t] Cons.prems by auto
  have "\<exists>s'. load_tables (metadata_for (t # ts)) s = (Inr (t' # ts'), s') \<and> reads s s' \<and> cache_coherent src s' \<and> w_events s' = []"
    if a: "\<forall>t\<in>set (t # ts). fs_files (w_fs s) (md_path (tb_metadata t)) = Some (whole_file (rd_data (tb_reader t)))" "cache_coherent src s"
      "knows src (set (t' # ts'))" "w_events s = []" "sm_bloom_false_positive_rate s = rate" for src and s :: "'a sstable_manager_scheme"
  proof -
    have acc: "?accept (tb_metadata t) = Inr ()" by (simp add: metadata_matches_def throw_if_def)
    have k: "source_knows src (tb_reader t') (reader_blocks (tb_reader t'))" "knows src (set ts')" using a(3) by simp_all
    obtain s1 where s1: "open_table (md_path (tb_metadata t)) (tb_level t) ?accept s = (Inr t', s1)" "reads s s1"
      "cache_coherent src s1" "w_events s1 = []"
      using op [OF _ a(2) k(1) a(4,5), of ?accept] acc a(1) unfolding opens_as_def by auto
    have fs1: "\<forall>t\<in>set ts. fs_files (w_fs s1) (md_path (tb_metadata t)) = Some (whole_file (rd_data (tb_reader t)))"
      "sm_bloom_false_positive_rate s1 = rate"
      using a(1,5) s1(2) reads_fields(10) [OF s1(2)] by (simp_all add: reads_def)
    obtain s2 where s2: "load_tables (metadata_for ts) s1 = (Inr ts', s2)" "reads s1 s2" "cache_coherent src s2" "w_events s2 = []"
      using IH [OF fs1(1) s1(3) k(2) s1(4) fs1(2)] by blast
    have "load_tables (metadata_for (t # ts)) s = (Inr (t' # ts'), s2)" using s1(1) s2(1) by (simp add: bind_effect_case)
    then show ?thesis using reads_trans [OF s1(2) s2(2)] s2(3,4) by blast
  qed
  then show ?case using ts' t' by (intro exI [of _ "t' # ts'"]) simp
qed

lemma same_tables:
  assumes "list_all2 same_table ts ts'"
  shows "map tb_metadata ts' = map tb_metadata ts" and "map tb_level ts' = map tb_level ts"
    and "map table_entries ts' = map table_entries ts" and "metadata_for ts' = metadata_for ts"
    and "\<forall>t\<in>set ts'. table_ok t" and "map (\<lambda>t. rd_data (tb_reader t)) ts' = map (\<lambda>t. rd_data (tb_reader t)) ts"
  using assms by (induction ts ts' rule: list_all2_induct) (auto simp: same_table_def)

lemma same_tables_view:
  assumes "map table_entries ts' = map table_entries ts"
  shows "newest ts' k = newest ts k" and "versions (set ts') k = versions (set ts) k"
proof -
  have "newest us k = foldl (\<lambda>n es. newer_candidate (map_of es k) n) None (map table_entries us)" for us
    by (simp add: newest_def foldl_map)
  then show "newest ts' k = newest ts k" using assms by simp
  have "versions (set us) k = {e. \<exists>es\<in>set (map table_entries us). map_of es k = Some e}" for us by (auto simp: versions_def)
  then show "versions (set ts') k = versions (set ts) k" by (simp only: assms)
qed

lemma same_tables_inv:
  assumes "list_all2 same_table ts ts'" and "tables_inv dir ts"
  shows "tables_inv dir ts'"
proof -
  note s = same_tables [OF assms(1)]
  have "map table_id us = map (\<lambda>m. lexically_normal (md_path m)) (map tb_metadata us)" for us by (simp add: comp_def)
  then have "distinct (map table_id ts')" using assms(2) by (simp only: s tables_inv_def)
  moreover have "consistent (set ts')" using assms(2) same_tables_view(2) [OF s(3)] by (simp add: tables_inv_def consistent_def)
  moreover have "map tb_metadata (filter (\<lambda>t. tb_level t = Level1) ts') = map tb_metadata (filter (\<lambda>t. tb_level t = Level1) ts)"
    using assms(1) by (induction ts ts' rule: list_all2_induct) (auto simp: same_table_def)
  then have "level1_disjoint ts'" using assms(2) by (simp add: level1_disjoint_def tables_inv_def)
  moreover have "\<forall>m\<in>set (map tb_metadata ts). \<exists>n. md_path m = path_join dir n \<and> table_name n \<and> length n \<le> kMaximumFilenameBytes"
    using assms(2) by (auto simp: tables_inv_def)
  then have "\<forall>m\<in>set (map tb_metadata ts'). \<exists>n. md_path m = path_join dir n \<and> table_name n \<and> length n \<le> kMaximumFilenameBytes"
    by (simp only: s)
  ultimately show ?thesis using s(5) by (simp add: tables_inv_def)
qed

lemma same_tables_rest:
  assumes "list_all2 same_table ts ts'"
  shows "fresh_ids dir nid ts' = fresh_ids dir nid ts" and "files_hold ts' fs = files_hold ts fs"
    and "sort_tables ts' = ts' \<longleftrightarrow> sort_tables ts = ts" and "table_view ts' = table_view ts"
    and "next_generation_after ts' = next_generation_after ts" and "ts' = [] \<longleftrightarrow> ts = []"
proof -
  note s = same_tables [OF assms]
  have "fresh_ids dir nid us \<longleftrightarrow> (\<forall>m\<in>set (map tb_metadata us). \<forall>l i g q. nid \<le> i \<longrightarrow> md_path m \<noteq> table_path dir l i g q)" for us
    by (simp add: fresh_ids_def)
  then show "fresh_ids dir nid ts' = fresh_ids dir nid ts" by (simp only: s)
  show "files_hold ts' fs = files_hold ts fs"
    using assms unfolding files_hold_def by (induction ts ts' rule: list_all2_induct) (auto simp: same_table_def)
  define newer where "newer = (\<lambda>(l :: sstable_metadata) (r :: sstable_metadata). if md_max_sequence_number l \<noteq> md_max_sequence_number r
      then md_max_sequence_number l > md_max_sequence_number r
      else if md_generation l \<noteq> md_generation r then md_generation l > md_generation r
      else path_filename (md_path l) > path_filename (md_path r))"
  have "sort_tables us = us \<longleftrightarrow> successively (\<lambda>a b. \<not> newer b a) (map tb_metadata us)" for us
    by (simp add: sort_tables_eq_iff successively_map newer_table_def newer_def Let_def)
  then show "sort_tables ts' = ts' \<longleftrightarrow> sort_tables ts = ts" by (simp only: s)
  show "table_view ts' = table_view ts" by (rule ext) (simp add: table_view_def same_tables_view [OF s(3)])
  show "ts' = [] \<longleftrightarrow> ts = []" using list_all2_lengthD [OF assms] by (metis length_0_conv)
  moreover have "maximum_generation us = foldl (\<lambda>m (x :: sstable_metadata). max m (md_generation x)) 0 (map tb_metadata us)" for us
    by (simp add: maximum_generation_def foldl_map)
  then have "maximum_generation ts' = maximum_generation ts" by (simp only: s)
  ultimately show "next_generation_after ts' = next_generation_after ts" by (simp add: next_generation_after_def)
qed

section \<open>Clean-up of the directory\<close>

text \<open>Start-up removes temporary files and tables the manifest does not name; every other file stays.\<close>

lemma path_filename_last: "path_filename p \<noteq> [] \<Longrightarrow> last p = last (path_filename p)"
proof -
  assume "path_filename p \<noteq> []"
  then have "takeWhile (\<lambda>b. b \<noteq> slash) (rev p) \<noteq> []" by (simp add: path_filename_def)
  then show ?thesis by (cases "rev p") (auto simp: path_filename_def last_rev simp flip: hd_rev split: if_splits)
qed

lemma path_extension_last:
  assumes "path_extension p = 46 # ext" and "ext \<noteq> []"
  shows "last p = last ext"
proof -
  define n where "n = path_filename p"
  have n: "n \<noteq> []" "ext = rev (takeWhile (\<lambda>b. b \<noteq> 46) (rev n))"
    using assms by (auto simp: path_extension_def Let_def n_def split: if_splits)
  then have "takeWhile (\<lambda>b. b \<noteq> 46) (rev n) \<noteq> []" using assms(2) by simp
  then have "last ext = last n" unfolding n(2) by (cases "rev n") (auto simp: last_rev simp flip: hd_rev split: if_splits)
  then show ?thesis using path_filename_last [of p] n(1) by (simp add: n_def)
qed

lemma temporary_last: "is_temporary_storage_path p \<Longrightarrow> last p = 112"
  using path_extension_last [of p "str ''tmp''"] path_filename_last [of p]
  by (auto simp: is_temporary_storage_path_def str_def)

lemma sstable_path_last: "is_sstable_path p \<Longrightarrow> last p = 116"
  using path_extension_last [of p "str ''sst''"] by (auto simp: is_sstable_path_def str_def)

definition keeps_files :: "(bytes \<Rightarrow> bool) \<Rightarrow> 'a world_scheme \<Rightarrow> 'a world_scheme \<Rightarrow> bool" where
  "keeps_files P w w' \<longleftrightarrow> (\<forall>q c. P q \<and> fs_holds q c (w_fs w) \<longrightarrow> fs_holds q c (w_fs w')) \<and>
     world.more w' = world.more w \<and> w_events w' = []"

lemma keeps_files_trans: "keeps_files P w w' \<Longrightarrow> keeps_files P w' w'' \<Longrightarrow> keeps_files P w w''"
  by (simp add: keeps_files_def)

lemma keeps_files_remove: "w_events w = [] \<Longrightarrow> \<not> P p \<Longrightarrow> keeps_files P w (w\<lparr>w_fs := fs_remove p (w_fs w)\<rparr>)"
  by (auto simp: keeps_files_def fs_holds_def)

lemma keeps_files_refl: "w_events w = [] \<Longrightarrow> keeps_files P w w"
  by (simp add: keeps_files_def)

lemma files_hold_keeps:
  assumes "keeps_files P w w'" and "files_hold ts (w_fs w)" and "\<And>m. m \<in> set (metadata_for ts) \<Longrightarrow> P (md_path m)"
  shows "files_hold ts (w_fs w')"
  unfolding files_hold_def
proof
  fix t assume t: "t \<in> set ts"
  then have "P (md_path (tb_metadata t))" using assms(3) [of "(tb_metadata t)\<lparr>md_level := tb_level t\<rparr>"] by (auto simp: set_metadata_for)
  then show "fs_holds (md_path (tb_metadata t)) (rd_data (tb_reader t)) (w_fs w')"
    using assms(1,2) t by (simp add: keeps_files_def files_hold_def)
qed

lemma remove_temporaries_keeps:
  "w_events w = [] \<Longrightarrow> keeps_files (\<lambda>q. \<not> is_temporary_storage_path q) w (remove_temporaries ps w)"
proof (induction ps arbitrary: w)
  case (Cons p ps)
  show ?case
  proof (cases "is_temporary_storage_path p")
    case True
    let ?w = "w\<lparr>w_fs := fs_remove p (w_fs w)\<rparr>"
    have "keeps_files (\<lambda>q. \<not> is_temporary_storage_path q) w ?w" using Cons.prems True by (intro keeps_files_remove) simp_all
    moreover have "keeps_files (\<lambda>q. \<not> is_temporary_storage_path q) ?w (remove_temporaries ps ?w)" using Cons by simp
    ultimately show ?thesis using True Cons.prems keeps_files_trans by (fastforce simp: remove_ignored_def sys_call_def)
  next
    case False
    then show ?thesis using Cons by simp
  qed
qed (simp add: keeps_files_refl)

definition not_abandoned :: "bytes set \<Rightarrow> bytes \<Rightarrow> bool" where
  "not_abandoned active q \<longleftrightarrow> \<not> is_sstable_path q \<or> path_filename q \<in> active"

lemma remove_abandoned_keeps:
  "w_events w = [] \<Longrightarrow> \<exists>b w'. remove_abandoned active ps b0 w = (Inr b, w') \<and> keeps_files (not_abandoned active) w w'"
proof (induction ps arbitrary: w b0)
  case (Cons p ps)
  show ?case
  proof (cases "not_abandoned active p")
    case True
    then have "remove_abandoned active (p # ps) b0 w = remove_abandoned active ps b0 w" by (simp add: not_abandoned_def)
    then show ?thesis using Cons by simp
  next
    case False
    let ?w = "w\<lparr>w_fs := fs_remove p (w_fs w)\<rparr>"
    have "keeps_files (not_abandoned active) w ?w" using Cons.prems False by (rule keeps_files_remove)
    moreover have "remove_abandoned active (p # ps) b0 w = remove_abandoned active ps (b0 \<or> fs_files (w_fs w) p \<noteq> None) ?w"
      using False Cons.prems by (simp add: not_abandoned_def try_remove_def sys_call_def)
    moreover have "w_events ?w = []" using Cons.prems by simp
    ultimately show ?thesis using Cons.IH keeps_files_trans by metis
  qed
qed (simp add: keeps_files_refl)

lemma manager_sync_directory_keeps:
  assumes "w_events w = []"
  shows "\<exists>w'. manager_sync_directory dir w = (Inr (), w') \<and> keeps_files P w w'"
proof -
  have "fs_holds q c (w_fs w) \<Longrightarrow> fs_holds q c (fs_sync_directory dir (w_fs w))" for q c
    by (cases "in_directory dir q") (auto simp: fs_holds_def)
  then have "keeps_files P w (w\<lparr>w_fs := fs_sync_directory dir (w_fs w)\<rparr>)" using assms by (simp add: keeps_files_def)
  moreover have "manager_sync_directory dir w = (Inr (), w\<lparr>w_fs := fs_sync_directory dir (w_fs w)\<rparr>)"
    using assms by (simp add: manager_sync_directory_def world_sync_directory_def bind_effect_case sys_call_reliable world_retry_reliable update_fs_def)
  ultimately show ?thesis by blast
qed

section \<open>The constructor\<close>

definition options_ok :: "sstable_manager_options \<Rightarrow> bool" where
  "options_ok options \<longleftrightarrow> mo_directory options \<noteq> [] \<and> sane_rate (mo_bloom_false_positive_rate options) \<and>
     mo_block_cache_capacity_bytes options \<noteq> 0 \<and>
     mo_target_data_block_bytes options \<noteq> 0 \<and> mo_target_data_block_bytes options \<le> 4294967295 \<and>
     2 \<le> mo_level0_compaction_trigger options \<and> mo_level0_compaction_trigger options \<le> mo_level0_compaction_max_tables options"

definition empty_cache :: "u64 \<Rightarrow> block_cache" where
  "empty_cache capacity = \<lparr>bc_capacity_bytes = capacity, bc_lru = [], bc_current_bytes = 0, bc_hits = 0, bc_misses = 0, bc_evictions = 0\<rparr>"

definition start_manager :: "sstable_manager_options \<Rightarrow> 'a sstable_manager_scheme \<Rightarrow> 'a sstable_manager_scheme" where
  "start_manager options = initial_manager options (empty_cache (mo_block_cache_capacity_bytes options))
     \<lparr>mm_directory = mo_directory options, mm_current_generation = 0, mm_active_manifest_path = []\<rparr>"

lemma sstable_manager_new_eq:
  assumes "options_ok options" and "w_events s = []"
  shows "sstable_manager_new options s = load_existing (start_manager options s)"
proof -
  from assms(1) obtain r where r: "mo_bloom_false_positive_rate options = Some r" "exp (- 64) \<le> r" "r < 1"
    by (auto simp: options_ok_def sane_rate_def)
  moreover have "0 < r" using r(2) exp_gt_zero [of "- 64 :: real"] by linarith
  moreover have "\<not> mo_level0_compaction_max_tables options < 2" "\<not> mo_level0_compaction_trigger options < 2"
    "\<not> mo_level0_compaction_max_tables options < mo_level0_compaction_trigger options" "\<not> 4294967295 < mo_target_data_block_bytes options"
    using assms(1) by (auto simp: options_ok_def)
  ultimately show ?thesis using assms
    by (simp add: sstable_manager_new_def manifest_manager_new_def block_cache_new_def throw_if_def bind_effect_case
        sys_call_reliable options_ok_def start_manager_def empty_cache_def)
qed

lemma more_fields:
  assumes "world.more s' = world.more (s :: 'a sstable_manager_scheme)"
  shows "sm_readers s' = sm_readers s" "sm_manifest s' = sm_manifest s" "sm_directory s' = sm_directory s"
    "sm_next_file_id s' = sm_next_file_id s" "config_ok s' = config_ok s" "st_cache s' = st_cache s"
    "sm_bloom_false_positive_rate s' = sm_bloom_false_positive_rate s"
  using assms by (cases s; cases s'; simp add: config_ok_def)+

lemma start_manager_simps [simp]:
  "w_fs (start_manager options s) = w_fs s" "w_events (start_manager options s) = w_events s"
  "sm_directory (start_manager options s) = mo_directory options"
  "sm_bloom_false_positive_rate (start_manager options s) = mo_bloom_false_positive_rate options"
  "sm_manifest (start_manager options s) = \<lparr>mm_directory = mo_directory options, mm_current_generation = 0, mm_active_manifest_path = []\<rparr>"
  "st_cache (start_manager options s) = empty_cache (mo_block_cache_capacity_bytes options)"
  "options_ok options \<Longrightarrow> config_ok (start_manager options s)"
  by (auto simp: start_manager_def initial_manager_def options_ok_def config_ok_def intro: order_trans)

lemma restart_durable:
  assumes "manifest_on_disk dir m disk" and "w_fs w = fs_restart disk names"
  shows "manifest_durable dir m w"
proof -
  have "disk q = Some c \<Longrightarrow> replaced q c w" for q c using assms(2) by (simp add: replaced_def fs_restart_def whole_file_def)
  then show ?thesis using assms(1) unfolding manifest_on_disk_def manifest_durable_def by blast
qed

lemma durable_keeps:
  assumes "manifest_durable dir m w" and "table_paths dir (mf_tables m)" and "keeps_files P w w'"
    and "P (path_join dir current_name)" and "\<And>g. P (path_join dir (manifest_name g))" and "\<And>t. t \<in> set (mf_tables m) \<Longrightarrow> P (md_path t)"
  shows "manifest_durable dir m w'"
proof -
  have "P q \<Longrightarrow> replaced q c w \<Longrightarrow> replaced q c w'" for q c using assms(3) by (simp add: keeps_files_def replaced_fs)
  then show ?thesis using assms(1,4-6) unfolding manifest_durable_def by meson
qed

lemma empty_cache_coherent: "c \<noteq> 0 \<Longrightarrow> st_cache s = empty_cache c \<Longrightarrow> cache_coherent src s"
  by (simp add: cache_coherent_def empty_cache_def cache_inv_def cache_lookup_def cache_find_def map_le_def dom_def)

lemma last_path_join: "n \<noteq> [] \<Longrightarrow> last (path_join dir n) = last n"
  by (simp add: path_join_def)

lemma protected_names:
  shows "\<not> is_temporary_storage_path (path_join dir current_name)" "\<not> is_temporary_storage_path (path_join dir (manifest_name g))"
    "table_name n \<Longrightarrow> \<not> is_temporary_storage_path (path_join dir n)"
    "\<not> is_sstable_path (path_join dir current_name)" "\<not> is_sstable_path (path_join dir (manifest_name g))"
proof -
  have ne: "current_name \<noteq> []" "manifest_name g \<noteq> []" "table_name n \<Longrightarrow> n \<noteq> []" for n g
    by (auto simp: manifest_name_def manifest_prefix_def str_def table_name_def plain_name_def)
  show "\<not> is_temporary_storage_path (path_join dir current_name)" "\<not> is_sstable_path (path_join dir current_name)"
    using temporary_last sstable_path_last last_path_join [OF ne(1)] last_names(3) by fastforce+
  show "\<not> is_temporary_storage_path (path_join dir (manifest_name g))" "\<not> is_sstable_path (path_join dir (manifest_name g))"
    using temporary_last sstable_path_last last_path_join [OF ne(2)] last_names(1,2) by metis+
  show "table_name n \<Longrightarrow> \<not> is_temporary_storage_path (path_join dir n)"
    using temporary_last last_path_join [OF ne(3)] last_names(5) by fastforce
qed

lemma cleanup_abandoned_keeps:
  assumes "w_events w = []" and "active = (\<lambda>t. path_filename (md_path t)) ` set ms"
  shows "\<exists>w'. cleanup_abandoned_files dir ms w = (Inr (), w') \<and> keeps_files (not_abandoned active) w w'"
proof -
  obtain b w1 where 1: "remove_abandoned active (directory_files dir w) False w = (Inr b, w1)" "keeps_files (not_abandoned active) w w1"
    using remove_abandoned_keeps [OF assms(1)] by blast
  obtain w2 where 2: "manager_sync_directory dir w1 = (Inr (), w2)" "keeps_files (not_abandoned active) w1 w2"
    using manager_sync_directory_keeps [of w1 dir "not_abandoned active"] 1(2) unfolding keeps_files_def by blast
  show ?thesis using 1 2 keeps_files_trans [OF 1(2) 2(2)] assms(2)
    by (cases b) (auto simp: cleanup_abandoned_files_def bind_effect_case)
qed

lemma load_existing_restores:
  assumes disk: "manifest_durable dir m s" "mf_tables m = metadata_for ts" "mf_next_file_id m \<noteq> 0" "fresh_ids dir (mf_next_file_id m) ts"
    and files: "files_hold ts (w_fs s)" and ti: "tables_inv dir ts" and sorted: "sort_tables ts = ts" and gen: "next_generation_after ts = Inr g"
    and s: "sm_directory s = dir" "w_events s = []" "config_ok s" "mm_directory (sm_manifest s) = dir" and coh: "\<And>src. cache_coherent src s"
  shows "\<exists>s'. load_existing s = (Inr (), s') \<and> manager_inv s' \<and> list_all2 same_table ts (sm_readers s') \<and> w_events s' = [] \<and> sm_directory s' = dir"
proof -
  have rate: "sane_rate (sm_bloom_false_positive_rate s)" using s(3) by (simp add: config_ok_def)
  have paths: "table_paths dir (mf_tables m)" using tables_inv_paths [OF ti] disk(2) by simp
  obtain ts' where same: "list_all2 same_table ts ts'" and load: "\<And>src s1. \<forall>t\<in>set ts. fs_files (w_fs s1) (md_path (tb_metadata t)) =
        Some (whole_file (rd_data (tb_reader t))) \<Longrightarrow> cache_coherent src s1 \<Longrightarrow> knows src (set ts') \<Longrightarrow> w_events s1 = [] \<Longrightarrow>
      sm_bloom_false_positive_rate s1 = sm_bloom_false_positive_rate s \<Longrightarrow>
      \<exists>s2 :: 'a sstable_manager_scheme. load_tables (metadata_for ts) s1 = (Inr ts', s2) \<and> reads s1 s2 \<and> cache_coherent src s2 \<and> w_events s2 = []"
    using load_tables_reopen [OF _ rate, of ts] ti unfolding tables_inv_def by blast
  note st = same_tables [OF same] and sr = same_tables_rest [OF same]
  have ti': "tables_inv dir ts'" by (rule same_tables_inv [OF same ti])
  obtain src where src: "knows src (set ts')" using knows_exists ti' unfolding tables_inv_def by metis
  define s1 where "s1 = remove_temporaries (directory_files (sm_directory s) s) s"
  have k1: "keeps_files (\<lambda>q. \<not> is_temporary_storage_path q) s s1" unfolding s1_def by (rule remove_temporaries_keeps [OF s(2)])
  then have f1: "w_events s1 = []" "world.more s1 = world.more s" by (simp_all add: keeps_files_def)
  note m1 = more_fields [OF f1(2)]
  have nt: "\<not> is_temporary_storage_path (md_path t)" if "t \<in> set (mf_tables m)" for t
    using that paths protected_names(3) unfolding table_paths_def by metis
  have d1: "manifest_durable dir m s1" using durable_keeps [OF disk(1) paths k1] protected_names(1,2) nt by blast
  have h1: "files_hold ts (w_fs s1)" using files_hold_keeps [OF k1 files] nt disk(2) by simp
  define mm where "mm = (sm_manifest s)\<lparr>mm_current_generation := mf_generation m,
    mm_active_manifest_path := path_join dir (manifest_name (mf_generation m))\<rparr>"
  have l1: "manifest_load (sm_manifest s1) s1 = (Inr (mm, Some m), s1)"
    using manifest_load_on_disk [of "sm_manifest s1" m s1] manifest_durable_visible [OF d1] f1(1) m1(2) s(4) by (simp add: mm_def)
  define s2 where "s2 = s1\<lparr>sm_manifest := mm\<rparr>"
  have "cache_coherent src s2" using coh [of src] m1(6) by (simp add: s2_def cache_coherent_def)
  then obtain s3 where s3: "load_tables (metadata_for ts) s2 = (Inr ts', s3)" "reads s2 s3" "cache_coherent src s3" "w_events s3 = []"
    using load [of s2 src] h1 src f1(1) m1(7) unfolding files_hold_def fs_holds_def s2_def by auto
  note r3 = reads_fields [OF s3(2)]
  have fs3: "w_fs s3 = w_fs s1" using s3(2) by (simp add: reads_def s2_def)
  define s4 where "s4 = s3\<lparr>sm_readers := ts', sm_next_file_id := mf_next_file_id m\<rparr>"
  have sorted': "sort_tables ts' = ts'" using sr(3) sorted by blast
  have ok1: "validate_level1_ranges ts' = Inr ()"
    using validate_level1_ranges_iff [of ts'] ti' table_ok_range(1) by (simp add: tables_inv_def throw_if_def)
  have l2: "load_manifest_snapshot m s2 = (Inr (), s4)"
    using s3(1) ok1 sorted' by (simp add: load_manifest_snapshot_def disk(2) bind_effect_case Let_def s4_def)
  define active where "active = (\<lambda>t. path_filename (md_path t)) ` set (metadata_for ts')"
  have "w_events s4 = []" using s3(4) by (simp add: s4_def)
  then obtain s5 where s5: "cleanup_abandoned_files dir (metadata_for ts') s4 = (Inr (), s5)" "keeps_files (not_abandoned active) s4 s5"
    using cleanup_abandoned_keeps [OF _ active_def] by blast
  have f5: "w_events s5 = []" "world.more s5 = world.more s4" using s5(2) by (simp_all add: keeps_files_def)
  note m5 = more_fields [OF f5(2)]
  have act: "not_abandoned active (md_path t)" if "t \<in> set (mf_tables m)" for t
    using that st(4) by (simp add: not_abandoned_def active_def disk(2))
  have d4: "manifest_durable dir m s4" using d1 manifest_durable_fs [of s4 s1] fs3 by (simp add: s4_def)
  have d5: "manifest_durable dir m s5"
    using durable_keeps [OF d4 paths s5(2)] protected_names(4,5) act by (simp add: not_abandoned_def)
  have h5: "files_hold ts' (w_fs s5)"
    using files_hold_keeps [OF s5(2)] act fs3 h1 sr(2) disk(2) by (simp add: s4_def)
  have c5: "cache_coherent src s5" using s3(3) m5(6) by (simp add: cache_coherent_def s4_def)
  define n :: u64 where "n = of_nat (length (filter (\<lambda>r. \<not> entry_deleted (snd r)) (merged ts')))"
  obtain s6 where s6: "compute_live_key_count ts' s5 = (Inr n, s6)" "reads s5 s6" "cache_coherent src s6"
    using yields_returns [OF compute_live_key_count_yields [OF src] c5] f5(1) by (auto simp: n_def)
  note r6 = reads_fields [OF s6(2)]
  have n: "n = of_nat (card (dom (table_view ts')))" using live_count_merged [of ts'] st(5) by (simp add: n_def)
  define s7 where "s7 = s6\<lparr>sm_live_key_count := n, sm_max_sequence_number := maximum_sequence ts', sm_next_generation := g,
    st_cache := block_cache_reset_statistics (block_cache_clear (st_cache s6))\<rparr>"
  have dirs: "sm_directory s4 = dir" "sm_readers s4 = ts'" "sm_readers s5 = ts'" "sm_readers s6 = ts'" "sm_directory s5 = dir"
    using r3 m1 m5 r6 s(1) by (simp_all add: s4_def s2_def)
  have run: "load_existing s = (Inr (), s7)"
    using l1 l2 s5(1) s6(1) dirs gen sr(5)
    by (simp add: load_existing_def bind_effect_case Let_def s7_def recalculate_state_locked_def flip: s1_def s2_def)
  have mm': "manifest_of mm (mf_next_file_id m) ts' = m" by (simp add: manifest_of_def mm_def st(4) flip: disk(2))
  have f7: "sm_readers s7 = ts'" "sm_manifest s7 = mm" "sm_directory s7 = dir" "sm_next_file_id s7 = mf_next_file_id m"
    "sm_live_key_count s7 = n" "config_ok s7" "sm_max_sequence_number s7 = maximum_sequence ts'" "sm_next_generation s7 = g"
    "st_cache s7 = block_cache_reset_statistics (block_cache_clear (st_cache s6))" "w_fs s7 = w_fs s5"
    using r3 m1 m5 r6 s6(2) s(1,3) by (simp_all add: s7_def s4_def s2_def reads_def config_ok_def)
  have "recorded s7 ts'"
    using disk(3,4) sr(1) f7 manifest_durable_fs [OF f7(10)] d5 mm'
    unfolding recorded_def by (intro exI [of _ "mf_next_file_id m"]) simp
  moreover have "cache_coherent src s7"
    using s6(3) cleared_cache_coherent [OF _ f7(9)] by (simp add: cache_coherent_def)
  ultimately have "manager_inv s7" unfolding manager_inv_def f7 sorted' using f7(6) ti' h5 s(4) n gen sr(5) src by (auto simp: mm_def)
  moreover have "w_events s7 = []" using reads_reliable [OF s6(2) f5(1)] by (simp add: s7_def)
  ultimately show ?thesis using run same f7(1,3) by auto
qed

lemma manager_restart:
  fixes s :: "'a sstable_manager_scheme"
  assumes disk: "disk_holds (mo_directory options) ts disk" and ti: "tables_inv (mo_directory options) ts" and opts: "options_ok options"
    and s: "w_fs s = fs_restart disk names" "w_events s = []"
  shows "\<exists>s'. sstable_manager_new options s = (Inr (), s') \<and> manager_inv s' \<and> list_all2 same_table ts (sm_readers s') \<and>
    w_events s' = [] \<and> sm_directory s' = mo_directory options"
proof -
  let ?dir = "mo_directory options" and ?s = "start_manager options s"
  from disk obtain m g where m: "manifest_on_disk ?dir m disk" "mf_tables m = metadata_for ts" "mf_next_file_id m \<noteq> 0"
    "fresh_ids ?dir (mf_next_file_id m) ts" and st: "sort_tables ts = ts" and g: "next_generation_after ts = Inr g"
    and files: "\<forall>t\<in>set ts. disk (md_path (tb_metadata t)) = Some (rd_data (tb_reader t))" unfolding disk_holds_def by blast
  have "w_fs ?s = fs_restart disk names" using s(1) by simp
  note d = restart_durable [OF m(1) this]
  have "files_hold ts (w_fs ?s)" using files s(1) by (simp add: files_hold_def fs_holds_def fs_restart_def whole_file_def)
  moreover have "cache_coherent src ?s" for src
    using opts by (intro empty_cache_coherent [of "mo_block_cache_capacity_bytes options"]) (simp_all add: options_ok_def)
  ultimately show ?thesis
    unfolding sstable_manager_new_eq [OF opts s(2)]
    using load_existing_restores [OF d m(2-4) _ ti st g, simplified] opts s(2) by simp
qed

end
