(* ===== verification/ManagerCrash.thy ===== *)
theory ManagerCrash
  imports ManagerRestart
begin

text \<open>
  Flushing and restarting together: what a manager shows after a flush that returned, threw or was cut
  off by a crash; that a flush returns when no system call fails; and the first start on an empty
  directory.
\<close>

section \<open>Progress\<close>

lemma publish_reliable:
  assumes "w_events s = []" and ti: "tables_inv (sm_directory s) ts" and few: "length ts \<le> 10000"
    and "mm_current_generation (sm_manifest s) \<noteq> - 1" and "sm_next_file_id s \<noteq> 0" and g: "next_generation_after (sort_tables ts) = Inr g"
  shows "\<exists>s'. publish_tables_locked ts n s = (Inr (), s') \<and> w_events s' = []"
proof -
  let ?ts = "sort_tables ts"
  have ti': "tables_inv (sm_directory s) ?ts" "length ?ts \<le> 10000" using ti few by (simp_all add: sort_tables_inv)
  have ok: "validate_level1_ranges ?ts = Inr ()"
    using validate_level1_ranges_iff [of ?ts] ti'(1) table_ok_range(1) by (simp add: tables_inv_def throw_if_def)
  from serialize_recordable [OF recordable_tables [OF ti'] assms(4,5)] obtain mb where
    "serialize_manifest (stored_manifest (next_manifest (sm_manifest s) (metadata_for ?ts) (sm_next_file_id s))) = Inr mb" by blast
  from manifest_commit_reliable [OF assms(1,4) this] obtain x s1 where
    c: "manifest_commit (sm_manifest s) (metadata_for ?ts) (sm_next_file_id s) s = (Inr x, s1)" "w_events s1 = []" by blast
  then show ?thesis using ok g by (cases x) (simp add: publish_tables_locked_def Let_def bind_effect_case)
qed

lemma maximum_generation_append [simp]: "maximum_generation (ts @ [t]) = max (maximum_generation ts) (md_generation (tb_metadata t))"
  by (simp add: maximum_generation_def)

lemma maximum_generation_sort [simp]: "maximum_generation (sort_tables ts) = maximum_generation ts"
proof -
  have m: "foldl (\<lambda>m t. max m (md_generation (tb_metadata t))) (max a b) us = max a (foldl (\<lambda>m t. max m (md_generation (tb_metadata t))) b us)"
    for a b :: u64 and us by (induction us arbitrary: b) (simp_all add: max.assoc)
  have mg: "maximum_generation (t # us) = max (md_generation (tb_metadata t)) (maximum_generation us)" for t us
    using m [of "md_generation (tb_metadata t)" 0 us] by (simp add: maximum_generation_def max.commute)
  have "maximum_generation (insert_by newer_table t us) = max (md_generation (tb_metadata t)) (maximum_generation us)" for t us
    by (induction us) (auto simp: mg max.left_commute)
  then show ?thesis unfolding sort_tables_def by (induction ts) (simp_all add: std_sort_def mg)
qed

lemma next_generation_add:
  assumes "next_generation_after ts = Inr g" and "md_generation (tb_metadata t) \<noteq> - 1"
  shows "\<exists>g'. next_generation_after (sort_tables (ts @ [t])) = Inr g'"
proof -
  have "maximum_generation ts \<noteq> - 1" using assms(1) by (cases "ts = []") (auto simp: next_generation_after_def maximum_generation_def split: if_splits)
  then have "maximum_generation (sort_tables (ts @ [t])) \<noteq> - 1" using assms(2) by (simp add: max_def)
  then show ?thesis by (simp add: next_generation_after_def)
qed

lemma flush_reliable:
  assumes inv: "manager_inv s" and fl: "flushable table s" and ev: "w_events s = []"
    and table: "mt_immutable table" "mt_entries table \<noteq> []" "mt_generation table \<noteq> - 1"
    and ids: "sm_next_file_id s \<noteq> - 1" "mm_current_generation (sm_manifest s) \<noteq> - 1"
  shows "\<exists>md s'. sstable_flush [] table s = (Inr md, s') \<and> w_events s' = []"
proof -
  let ?es = "mt_entries table" and ?ts = "sm_readers s" and ?dir = "sm_directory s" and ?id = "sm_next_file_id s" and ?g = "mt_generation table"
  define path where path: "path = table_path ?dir Level0 ?id ?g (max_sequence_in ?es)"
  have v: "valid_snapshot ?es" "length ?es < 2 ^ 32" and cfg: "config_ok s" "sane_rate (sm_bloom_false_positive_rate s)"
    using fl inv by (auto simp: flushable_def manager_inv_def config_ok_def)
  obtain x s1 where r1: "write_and_open ?es Level0 ?g s = (Inr x, s1)" and ev1: "w_events s1 = []"
    using write_and_open_reliable [OF ev cfg(1) ids(1) v(1) table(2) v(2)] by blast
  from write_and_open_cases [OF r1 v cfg(2) path] obtain bs md reader where w: "wrote path bs s s1"
    and x: "x = (?id, md, reader)" "sm_next_file_id s1 = ?id + 1" "fs_holds path bs (w_fs s1)"
    and h: "holds_new_table ?es path bs ?g (new_table reader Level0)" by blast
  define t where t: "t = new_table reader Level0"
  have inv1: "manager_inv s1" by (rule wrote_inv [OF inv w path])
  note wf = wrote_fields [OF w]
  have t': "table_ok t" "table_entries t = ?es" "md_path (tb_metadata t) = table_path (sm_directory s1) Level0 ?id ?g (max_sequence_in ?es)"
    "fs_holds (md_path (tb_metadata t)) (rd_data (tb_reader t)) (w_fs s1)" "md_generation (tb_metadata t) = ?g"
    using h x(3) path wf(3) by (simp_all add: holds_new_table_def t)
  have fresh: "fresh_ids (sm_directory s1) ?id (sm_readers s1)"
    using inv wf(1,3) fresh_ids_mono by (auto simp: manager_inv_def recorded_def)
  have new: "\<forall>r\<in>set ?es. sm_max_sequence_number s1 < entry_sequence_number (snd r)" "length (sm_readers s1) < 10000"
    using fl wf(1,5) by (simp_all add: flushable_def)
  obtain r2 s2 where r2: "flush_loop [] ?es reader s1 = (r2, s2)" by fastforce
  have ti: "tables_inv (sm_directory s1) (sm_readers s1 @ [t])"
    using flush_publish(1) [OF inv1 r2 t t'(1-3) ids(1) x(2) fresh t'(4) new] by (simp add: flushed_table_def)
  from inv1 obtain src where src: "cache_coherent src s1" "knows src (set (sm_readers s1))" unfolding manager_inv_def by blast
  have "\<forall>r\<in>set ?es. valid_key (fst r)" using v(1) by (auto simp: valid_snapshot_def valid_entry_def)
  from yields_returns [OF live_count_after_flush_yields [OF src(2) this, of "sm_live_key_count s1"] src(1)] obtain n s3 where
    s3: "live_count_after_flush (sm_readers s1) ?es (sm_live_key_count s1) s1 = (Inr n, s3)" "reads s1 s3" using ev1 by auto
  note rf = reads_fields [OF s3(2)]
  have ev3: "w_events s3 = []" by (rule reads_reliable [OF s3(2) ev1])
  have "next_generation_after (sm_readers s1) = Inr (sm_next_generation s1)" using inv1 by (simp add: manager_inv_def)
  from next_generation_add [OF this, of t] table(3) t'(5) obtain g where g: "next_generation_after (sort_tables (sm_readers s1 @ [t])) = Inr g" by auto
  have "sm_next_file_id s3 \<noteq> 0" using rf(4) x(2) ids(1) by (simp add: word_inc_nonzero)
  then obtain s4 where "publish_tables_locked (sm_readers s1 @ [t]) n s3 = (Inr (), s4)" "w_events s4 = []"
    using publish_reliable [OF ev3 _ _ _ _ g, of n] ti rf new(2) wf(2) ids(2) by auto
  then have "flush_loop [] ?es reader s1 = (Inr (), s4)" "w_events s4 = []" using s3(1) unfolding flush_loop_Nil by (simp_all add: bind_effect_case t)
  then show ?thesis using r1 x(1) table(1,2)
    by (auto simp: sstable_flush_def memtable_snapshot_def throw_if_def Let_def bind_effect_case simp del: flush_loop.simps)
qed

section \<open>First start\<close>

lemma sort_tables_Nil [simp]: "sort_tables [] = []"
  by (simp add: sort_tables_def std_sort_def)

lemma recordable_Nil: "recordable dir []"
  using recordable_tables [of dir "[]"] by (simp add: tables_inv_def consistent_def versions_def level1_disjoint_def)

lemma first_commit:
  assumes "w_events w = []" and "mm_current_generation mm = 0"
  shows "\<exists>w'. manifest_commit mm [] 1 w = (Inr (mm\<lparr>mm_current_generation := 1, mm_active_manifest_path := manifest_path mm 1\<rparr>,
      stored_manifest (next_manifest mm [] 1)), w') \<and>
    w_events w' = [] \<and> manifest_durable (mm_directory mm) (next_manifest mm [] 1) w' \<and> world.more w' = world.more w"
proof -
  have g: "mm_current_generation mm \<noteq> - 1" "(1 :: u64) \<noteq> 0" using assms(2) by simp_all
  from serialize_recordable [OF recordable_Nil g] obtain mb where
    "serialize_manifest (stored_manifest (next_manifest mm [] 1)) = Inr mb" by blast
  from manifest_commit_reliable [OF assms(1) g(1) this] obtain x w' where c: "manifest_commit mm [] 1 w = (Inr x, w')" "w_events w' = []" by blast
  note d = manifest_commit_durable [OF c(1)]
  show ?thesis using c d(1,2) assms(2) manifest_commit_frame(1) [OF c(1)] manifest_limit [OF recordable_Nil]
    by (auto simp: committable_def)
qed

lemma manager_first_start:
  fixes s :: "'a sstable_manager_scheme"
  assumes opts: "options_ok options" and ev: "w_events s = []" and empty: "directory_files (mo_directory options) s = []"
    and current: "fs_files (w_fs s) (path_join (mo_directory options) current_name) = None"
  shows "\<exists>s'. sstable_manager_new options s = (Inr (), s') \<and> manager_inv s' \<and> sm_readers s' = [] \<and> w_events s' = [] \<and>
    sm_directory s' = mo_directory options \<and> sm_next_file_id s' = 1 \<and> mm_current_generation (sm_manifest s') = 1"
proof -
  let ?dir = "mo_directory options"
  define s1 where "s1 = start_manager options s"
  have s1: "sm_directory s1 = ?dir" "w_events s1 = []" "directory_files ?dir s1 = []" "sm_readers s1 = []"
    "fs_files (w_fs s1) (path_join ?dir current_name) = None" "config_ok s1" "mm_directory (sm_manifest s1) = ?dir"
    "mm_current_generation (sm_manifest s1) = 0"
    using assms by (simp_all add: s1_def directory_files_def) (simp add: start_manager_def initial_manager_def)
  have load: "manifest_load (sm_manifest s1) s1 = (Inr (sm_manifest s1, None), s1)"
    using s1 by (simp add: manifest_load_def exists_file_def current_path_def)
  define s2 where "s2 = s1\<lparr>sm_readers := [], sm_next_file_id := 1\<rparr>"
  define mm where "mm = (sm_manifest s1)\<lparr>mm_current_generation := 1, mm_active_manifest_path := manifest_path (sm_manifest s1) 1\<rparr>"
  let ?m = "next_manifest (sm_manifest s1) [] 1"
  obtain s3 where s3: "manifest_commit (sm_manifest s1) [] 1 s2 = (Inr (mm, stored_manifest ?m), s3)" "w_events s3 = []"
    "manifest_durable ?dir ?m s3" "world.more s3 = world.more s2"
    using first_commit [of s2 "sm_manifest s1"] s1 by (auto simp: s2_def mm_def)
  note m3 = more_fields [OF s3(4)]
  define s4 where "s4 = s3\<lparr>sm_manifest := mm\<rparr>"
  have mig: "migrate_legacy_tables s1 = (Inr (), s4)"
    using s1 s3(1) by (simp add: migrate_legacy_tables_def Let_def bind_effect_case std_sort_def s4_def s2_def)
  have "w_events s4 = []" using s3(2) by (simp add: s4_def)
  then obtain s5 where s5: "cleanup_abandoned_files ?dir [] s4 = (Inr (), s5)" "keeps_files (not_abandoned {}) s4 s5"
    using cleanup_abandoned_keeps [of s4 "{}" "[]"] by auto
  have f5: "w_events s5 = []" "world.more s5 = world.more s4" using s5(2) by (simp_all add: keeps_files_def)
  note m5 = more_fields [OF f5(2)]
  have "manifest_durable ?dir ?m s4" using s3(3) manifest_durable_fs [of s4 s3] by (simp add: s4_def)
  then have d5: "manifest_durable ?dir ?m s5"
    by (rule durable_keeps [OF _ _ s5(2)]) (simp_all add: next_manifest_def table_paths_def not_abandoned_def protected_names)
  define s6 where "s6 = s5\<lparr>sm_live_key_count := 0, sm_max_sequence_number := 0, sm_next_generation := 0,
    st_cache := block_cache_reset_statistics (block_cache_clear (st_cache s5))\<rparr>"
  have r: "sm_readers s4 = []" "sm_readers s5 = []" "sm_directory s4 = ?dir" using m3 m5 s1 by (simp_all add: s4_def s2_def)
  have tail: "compute_live_key_count [] s5 = (Inr 0, s5)" by (simp add: compute_live_key_count_def bind_effect_case)
  have run: "load_existing s1 = (Inr (), s6)"
    unfolding load_existing_def s1(1,3) remove_temporaries.simps Let_def
    by (simp add: load mig r s5(1) tail recalculate_state_locked_def next_generation_after_def maximum_sequence_def s6_def)
  have f6: "sm_readers s6 = []" "sm_manifest s6 = mm" "sm_directory s6 = ?dir" "sm_next_file_id s6 = 1" "sm_live_key_count s6 = 0" "config_ok s6"
    "sm_max_sequence_number s6 = 0" "sm_next_generation s6 = 0" "st_cache s6 = block_cache_reset_statistics (block_cache_clear (st_cache s5))"
    "w_fs s6 = w_fs s5"
    using m3 m5 s1 by (simp_all add: s6_def s4_def s2_def config_ok_def)
  have "manifest_of mm 1 [] = ?m" using s1(8) by (simp add: manifest_of_def next_manifest_def mm_def)
  then have "recorded s6 []" using d5 f6 manifest_durable_fs [OF f6(10)] unfolding recorded_def
    by (intro exI [of _ 1]) (simp add: fresh_ids_def)
  moreover have "st_cache s5 = empty_cache (mo_block_cache_capacity_bytes options)" using m3 m5 by (simp add: s4_def s2_def s1_def)
  then have "cache_inv (st_cache s5)"
    using empty_cache_coherent [of "mo_block_cache_capacity_bytes options" s5] opts by (simp add: options_ok_def cache_coherent_def)
  then have "cache_coherent Map.empty s6" using cleared_cache_coherent [OF _ f6(9)] by blast
  moreover have "dom (table_view []) = {}" by (auto simp: dom_def table_view_def newest_def)
  ultimately have "manager_inv s6"
    unfolding manager_inv_def f6
    using f6(6) s1(7) by (auto simp: mm_def files_hold_def tables_inv_def consistent_def versions_def level1_disjoint_def
        maximum_sequence_def next_generation_after_def)
  moreover have "sstable_manager_new options s = (Inr (), s6)" using run sstable_manager_new_eq [OF opts ev] by (simp add: s1_def)
  moreover have "w_events s6 = []" using f5(1) by (simp add: s6_def)
  ultimately show ?thesis using f6 by (auto simp: mm_def)
qed

section \<open>Crash safety of a flush\<close>

text \<open>\<open>restores options disk view\<close>: whatever the order of the names in the directory, starting on this
  disk returns, and the manager it makes is well formed and shows exactly \<open>view\<close>.\<close>

definition restores :: "sstable_manager_options \<Rightarrow> (bytes \<rightharpoonup> bytes) \<Rightarrow> (bytes \<rightharpoonup> bytes) \<Rightarrow> bool" where
  "restores options disk view \<longleftrightarrow> (\<forall>names (s :: sstable_manager). w_fs s = fs_restart disk names \<and> w_events s = [] \<longrightarrow>
     (\<exists>s'. sstable_manager_new options s = (Inr (), s') \<and> manager_inv s' \<and> table_view (sm_readers s') = view))"

lemma disk_holds_restores:
  assumes "disk_holds (mo_directory options) ts disk" and "tables_inv (mo_directory options) ts" and "options_ok options"
  shows "restores options disk (table_view ts)"
  unfolding restores_def using manager_restart [OF assms] same_tables_rest(4) by fastforce

definition view_after_flush :: "managed_table list \<Rightarrow> memtable \<Rightarrow> bytes \<rightharpoonup> bytes" where
  "view_after_flush ts table k = (case map_of (mt_entries table) k of None \<Rightarrow> table_view ts k | Some e \<Rightarrow> visible (Some e))"

lemma flushed_table_view:
  assumes "flushed_table (mt_entries table) ts t dir"
  shows "table_view (sort_tables (ts @ [t])) = view_after_flush ts table" and "tables_inv dir (sort_tables (ts @ [t]))"
proof -
  from assms have ti: "tables_inv dir (ts @ [t])" and e: "table_entries t = mt_entries table" and n: "newer_than (mt_entries table) (set ts)"
    by (simp_all add: flushed_table_def)
  then show "tables_inv dir (sort_tables (ts @ [t]))" by (simp add: sort_tables_inv)
  have c: "consistent (set (ts @ [t]))" using ti unfolding tables_inv_def by blast
  then have "consistent (set ts)" by (rule consistent_subset) auto
  from table_view_add [OF this, of t] n e have "table_view (ts @ [t]) = view_after_flush ts table"
    by (intro ext) (simp add: view_after_flush_def)
  then show "table_view (sort_tables (ts @ [t])) = view_after_flush ts table" using table_view_cong [OF c, of "sort_tables (ts @ [t])"] by simp
qed

definition sample_options :: sstable_manager_options where
  "sample_options = \<lparr>mo_directory = str ''d'', mo_target_data_block_bytes = 4096, mo_block_cache_capacity_bytes = 65536,
     mo_bloom_false_positive_rate = Some (1 / 100), mo_level0_compaction_trigger = 4, mo_level0_compaction_max_tables = 8\<rparr>"

definition sample_memtable :: memtable where
  "sample_memtable = \<lparr>mt_generation = 0, mt_entries = sample_entries, mt_approximate_memory_usage = 0, mt_immutable = True\<rparr>"

lemma sample_options_ok: "options_ok sample_options"
proof -
  have "33 \<le> exp (32 :: real)" using exp_ge_add_one_self [of 32] by simp
  then have "33 * 33 \<le> exp 32 * exp (32 :: real)" by (intro mult_mono) simp_all
  also have "\<dots> = exp 64" using exp_add [of 32 "32 :: real"] by simp
  finally have "exp (- 64) \<le> (1 / 100 :: real)" by (simp add: exp_minus field_simps)
  then have "sane_rate (Some (1 / 100))" unfolding sane_rate_def by (intro exI [of _ "1 / 100"]) simp
  then show ?thesis by (simp add: options_ok_def sample_options_def str_def)
qed

lemma sample_manager:
  obtains s :: sstable_manager where "manager_inv s" and "flushable sample_memtable s" and "w_events s = []"
    and "sm_readers s = []" and "sm_directory s = mo_directory sample_options" and "sm_next_file_id s \<noteq> - 1"
    and "mm_current_generation (sm_manifest s) \<noteq> - 1"
proof -
  let ?s = "sstable_manager.truncate \<lparr>w_fs = \<lparr>fs_files = Map.empty, fs_synced = Map.empty, fs_names = []\<rparr>, w_events = [],
    st_abi = \<lparr>sizeof_DataBlock = 24, sizeof_Record = 72\<rparr>, st_cache = empty_cache 0, st_lookup_statistics = (\<lambda>_. (0, 0)),
    sm_directory = [], sm_target_data_block_bytes = 0, sm_bloom_false_positive_rate = None, sm_level0_compaction_trigger = 0,
    sm_level0_compaction_max_tables = 0, sm_manifest = fresh_manager, sm_readers = [], sm_live_key_count = 0,
    sm_max_sequence_number = 0, sm_next_generation = 0, sm_next_file_id = 0,
    sm_compaction_statistics = \<lparr>cs_runs = 0, cs_input_tables = 0, cs_output_tables = 0, cs_input_entries = 0,
      cs_output_entries = 0, cs_tombstones_dropped = 0\<rparr>, sm_state_version = 0\<rparr> :: sstable_manager"
  obtain s where s: "manager_inv (s :: sstable_manager)" "sm_readers s = []" "w_events s = []" "sm_directory s = mo_directory sample_options"
    "sm_next_file_id s = 1" "mm_current_generation (sm_manifest s) = 1"
    using manager_first_start [OF sample_options_ok, of ?s] by (auto simp: directory_files_def sstable_manager.defs)
  have "sm_max_sequence_number s = 0" using s(1,2) by (simp add: manager_inv_def maximum_sequence_def)
  then have "flushable sample_memtable s"
    using sample_entries_valid s(2) by (simp add: flushable_def sample_memtable_def) (simp add: sample_entries_def)
  then show ?thesis using that s by simp
qed

text \<open>C10. A flush is atomic: when it returns, the manager is well formed and the MemTable's entries
  replace the older versions of their keys; when it throws, the open tables are the old ones; and if the
  process dies after any system call of the flush, the next start returns and shows either exactly the
  old contents or exactly the new ones, and the new ones for certain once the flush has returned.\<close>

theorem sstable_flush_atomic:
  assumes inv: "manager_inv s" and fl: "flushable table s" and run: "sstable_flush [] table s = (r, s')"
    and opts: "options_ok options" "mo_directory options = sm_directory s"
  shows "(\<forall>e. r = Inl e \<longrightarrow> sm_readers s' = sm_readers s) \<and>
    (\<forall>md. r = Inr md \<longrightarrow> manager_inv s' \<and> table_view (sm_readers s') = view_after_flush (sm_readers s) table) \<and>
    (\<forall>disk. fs_crash (w_fs s') disk \<longrightarrow>
       restores options disk (view_after_flush (sm_readers s) table) \<or>
       restores options disk (table_view (sm_readers s)) \<and> (\<exists>e. r = Inl e))"
proof -
  note st = flush_steps [OF inv run fl]
  have old: "restores options disk (table_view (sm_readers s))" if "disk_holds (sm_directory s) (sm_readers s) disk" for disk
    using disk_holds_restores [OF _ _ opts(1)] that inv opts(2) by (simp add: manager_inv_def)
  have new: "restores options disk (view_after_flush (sm_readers s) table)"
    if "flushed_table (mt_entries table) (sm_readers s) t (sm_directory s)" "disk_holds (sm_directory s) (sort_tables (sm_readers s @ [t])) disk" for t disk
    using disk_holds_restores [OF _ _ opts(1), of "sort_tables (sm_readers s @ [t])" disk] flushed_table_view [OF that(1)] that(2) opts(2) by simp
  have done_crash: "restores options disk (view_after_flush (sm_readers s) table)"
    if md: "r = Inr md" and crash: "fs_crash (w_fs s') disk" for md disk
  proof -
    from st md obtain t where i: "manager_inv s'" "sm_directory s' = sm_directory s" and t: "flushed_table (mt_entries table) (sm_readers s) t (sm_directory s)"
      "sm_readers s' = sort_tables (sm_readers s @ [t])" by blast
    show ?thesis using new [OF t(1)] manager_crash [OF i(1) crash] i(2) t(2) by simp
  qed
  show ?thesis using st old new done_crash flushed_table_view(1) by (cases r) metis+
qed

text \<open>C13. A flush makes progress: when no system call fails, a flush of a frozen, non-empty MemTable with
  newer sequence numbers returns, as long as the generation and file identifier counters are not exhausted.\<close>

theorem sstable_flush_returns:
  assumes "manager_inv s" and "flushable table s" and "w_events s = []"
    and "mt_immutable table" and "mt_entries table \<noteq> []" and "mt_generation table \<noteq> - 1"
    and "sm_next_file_id s \<noteq> - 1" and "mm_current_generation (sm_manifest s) \<noteq> - 1"
  shows "\<exists>md s'. sstable_flush [] table s = (Inr md, s') \<and> w_events s' = []"
  using assms by (rule flush_reliable)

theorem sstable_flush_returns_witness:
  "\<exists>(s :: sstable_manager) md s'. manager_inv s \<and> sstable_flush [] sample_memtable s = (Inr md, s') \<and> w_events s' = []"
proof -
  obtain s :: sstable_manager where s: "manager_inv s" "flushable sample_memtable s" "w_events s = []" "sm_next_file_id s \<noteq> - 1"
    "mm_current_generation (sm_manifest s) \<noteq> - 1" by (rule sample_manager) blast
  have "mt_immutable sample_memtable" "mt_entries sample_memtable \<noteq> []" "mt_generation sample_memtable \<noteq> - 1"
    using sample_entries_valid by (simp_all add: sample_memtable_def)
  from sstable_flush_returns [OF s(1-3) this s(4,5)] s(1) show ?thesis by blast
qed

theorem sstable_flush_atomic_witness:
  "\<exists>(s :: sstable_manager) md s'. manager_inv s \<and> sm_readers s = [] \<and> sstable_flush [] sample_memtable s = (Inr md, s') \<and>
     manager_inv s' \<and> table_view (sm_readers s') (str ''a'') = Some (str ''1'') \<and> table_view (sm_readers s') (str ''b'') = None"
proof -
  obtain s :: sstable_manager where s: "manager_inv s" "flushable sample_memtable s" "w_events s = []" "sm_next_file_id s \<noteq> - 1"
    "mm_current_generation (sm_manifest s) \<noteq> - 1" "sm_readers s = []" "mo_directory sample_options = sm_directory s"
    by (rule sample_manager) simp
  have "mt_immutable sample_memtable" "mt_entries sample_memtable \<noteq> []" "mt_generation sample_memtable \<noteq> - 1"
    using sample_entries_valid by (simp_all add: sample_memtable_def)
  from flush_reliable [OF s(1-3) this s(4,5)] obtain md s' where run: "sstable_flush [] sample_memtable s = (Inr md, s')" by blast
  from sstable_flush_atomic [OF s(1,2) run sample_options_ok s(7)] have "manager_inv s'"
    and "table_view (sm_readers s') = view_after_flush [] sample_memtable" using s(6) by auto
  moreover have "view_after_flush [] sample_memtable (str ''a'') = Some (str ''1'')" "view_after_flush [] sample_memtable (str ''b'') = None"
    by (simp_all add: view_after_flush_def sample_memtable_def sample_entries_def str_def)
  ultimately show ?thesis using s(1,6) run by metis
qed

end
