(* ===== verification/ManagerCompact.thy ===== *)
theory ManagerCompact
  imports ManagerCrash
begin

text \<open>
  Compaction: replacing the selected tables by one level-1 table (or by none) keeps what every key shows,
  keeps level 1 free of overlaps, and removes files only after the new manifest is durable.
\<close>

section \<open>The merged entries\<close>

lemma merged_entry:
  assumes ok: "\<forall>t\<in>set ts. table_ok t" and r: "r \<in> set (merged ts)"
  shows "\<exists>t\<in>set ts. r \<in> set (table_entries t)"
proof -
  have "map_of (merged ts) (fst r) = Some (snd r)"
    using merged_facts(1) [OF ok] r sorted_map_distinct by (metis map_of_is_SomeI prod.collapse)
  then have "snd r \<in> versions (set ts) (fst r)"
    using merged_facts(2) [OF ok] newest_cases [of ts "fst r"] by (auto simp: newest_of_def)
  then show ?thesis using versions_entry by fastforce
qed

lemma merged_valid:
  assumes ok: "\<forall>t\<in>set ts. table_ok t"
  shows "valid_snapshot (kept U (merged ts))" and "length (kept U (merged ts)) \<le> sum_list (map (\<lambda>t. length (table_entries t)) ts)"
proof -
  have "\<forall>r\<in>set (merged ts). valid_entry r" using merged_entry [OF ok] table_okD(7) ok unfolding valid_snapshot_def by blast
  then show "valid_snapshot (kept U (merged ts))"
    using sorted_map_filter [OF merged_facts(1) [OF ok]] by (simp add: valid_snapshot_def kept_def)
  have "distinct (map fst (merged ts))" using merged_facts(1) [OF ok] sorted_map_distinct by blast
  then have "length (merged ts) = card (fst ` set (merged ts))" using distinct_card [of "map fst (merged ts)"] by simp
  also have "\<dots> \<le> card (\<Union>t\<in>set ts. fst ` set (table_entries t))" 
  proof (intro card_mono subsetI)
    fix k assume "k \<in> fst ` set (merged ts)"
    then obtain r where "r \<in> set (merged ts)" "k = fst r" by blast
    then show "k \<in> (\<Union>t\<in>set ts. fst ` set (table_entries t))" using merged_entry [OF ok] by blast
  qed simp
  also have "\<dots> \<le> sum_list (map (\<lambda>t. length (table_entries t)) ts)"
  proof (induction ts)
    case (Cons t ts)
    have "card (\<Union>t\<in>set (t # ts). fst ` set (table_entries t)) \<le>
        card (fst ` set (table_entries t)) + card (\<Union>t\<in>set ts. fst ` set (table_entries t))" using card_Un_le by simp
    moreover have "card (fst ` set (table_entries t)) \<le> length (table_entries t)" using card_image_le card_length le_trans by blast
    ultimately show ?case using Cons by simp
  qed simp
  finally show "length (kept U (merged ts)) \<le> sum_list (map (\<lambda>t. length (table_entries t)) ts)"
    unfolding kept_def using length_filter_le le_trans by blast
qed

section \<open>The replacement tables\<close>

definition compacted_tables :: "'a sstable_manager_scheme \<Rightarrow> compaction_selection \<Rightarrow> managed_table option \<Rightarrow> bool" where
  "compacted_tables s sel out \<longleftrightarrow>
     (let es = kept (set (se_unselected sel)) (merged (se_selected sel)) in
      case out of None \<Rightarrow> es = []
      | Some t \<Rightarrow> table_ok t \<and> table_entries t = es \<and> tb_level t = Level1 \<and>
          (\<exists>i g q. md_path (tb_metadata t) = table_path (sm_directory s) Level1 i g q \<and> sm_next_file_id s = i + 1 \<and> i \<noteq> - 1 \<and>
             fresh_ids (sm_directory s) i (sm_readers s)) \<and>
          fs_holds (md_path (tb_metadata t)) (rd_data (tb_reader t)) (w_fs s))"

abbreviation option_list :: "'a option \<Rightarrow> 'a list" where
  "option_list x \<equiv> (case x of None \<Rightarrow> [] | Some t \<Rightarrow> [t])"

lemma selected_entry_range:
  assumes sel: "\<And>t. t \<in> set (se_selected sel) \<Longrightarrow> covers sel t \<and> table_ok t" and r: "r \<in> set (merged (se_selected sel))"
  shows "se_smallest_key sel \<le> fst r \<and> fst r \<le> se_largest_key sel"
proof -
  obtain t where t: "t \<in> set (se_selected sel)" "r \<in> set (table_entries t)" using merged_entry [OF _ r] sel by blast
  then have "md_smallest_key (tb_metadata t) \<le> fst r \<and> fst r \<le> md_largest_key (tb_metadata t)" using table_ok_range(2) sel by blast
  then show ?thesis using sel [OF t(1)] unfolding covers_def by (meson order_trans)
qed

lemma level1_disjoint_filter: "level1_disjoint ts \<Longrightarrow> level1_disjoint (filter P ts)"
  by (induction ts) (auto simp: level1_disjoint_def)

lemma manager_select:
  assumes "manager_inv s"
  shows "distinct (map table_id (sm_readers s))" and "sm_level0_compaction_max_tables s \<noteq> 0"
  using assms by (auto simp: manager_inv_def tables_inv_def config_ok_def)

lemma compaction_replaces:
  assumes inv: "manager_inv s" and sel: "sel = select_level0_compaction_locked force s" "se_selected sel \<noteq> []" and out: "compacted_tables s sel out"
  shows "tables_inv (sm_directory s) (se_unselected sel @ option_list out)"
    and "table_view (se_unselected sel @ option_list out) = table_view (sm_readers s)"
    and "fresh_ids (sm_directory s) (sm_next_file_id s) (se_unselected sel @ option_list out)"
    and "files_hold (se_unselected sel @ option_list out) (w_fs s)"
proof -
  let ?S = "se_selected sel" and ?R = "se_unselected sel" and ?dir = "sm_directory s" and ?ts = "sm_readers s"
  let ?es = "kept (set ?R) (merged ?S)"
  from inv have ti: "tables_inv ?dir ?ts" and files: "files_hold ?ts (w_fs s)" by (simp_all add: manager_inv_def)
  then have dist: "distinct (map table_id ?ts)" and cons: "consistent (set ?ts)" and l1: "level1_disjoint ?ts"
    and oks: "\<forall>t\<in>set ?ts. table_ok t" by (simp_all add: tables_inv_def)
  have "sm_level0_compaction_max_tables s \<noteq> 0" using inv by (auto simp: manager_inv_def config_ok_def)
  note sf = select_facts [OF sel dist this]
  have R: "set ?R \<subseteq> set ?ts" using sf(3) by auto
  have ids: "t = u" if "t \<in> set ?ts" "u \<in> set ?ts" "table_id t = table_id u" for t u
    using dist that unfolding distinct_map inj_on_def by blast
  have SR: "set ?ts = set ?S \<union> set ?R"
  proof
    show "set ?ts \<subseteq> set ?S \<union> set ?R" using sf(1) ids unfolding sf(3) by auto
    show "set ?S \<union> set ?R \<subseteq> set ?ts" using sf(1) R by blast
  qed
  have okS: "\<forall>t\<in>set ?S. table_ok t" and consSR: "consistent (set ?S \<union> set ?R)" using oks sf(1) cons SR by auto
  have out_v: "versions (set (option_list out)) k = set_option (map_of ?es k)" for k
    using out by (cases out) (auto simp: compacted_tables_def Let_def versions_def)
  note rep = replace_tables_view [OF okS consSR out_v _ SR, where ts' = "?R @ option_list out"]
  show view: "table_view (?R @ option_list out) = table_view ?ts" by (rule rep) auto
  have cons': "consistent (set (?R @ option_list out))" by (rule rep) auto
  have "distinct (map table_id ?R)" "level1_disjoint ?R" unfolding sf(3)
    using dist level1_disjoint_filter [OF l1] by (simp_all add: distinct_map_filter)
  then have tiR: "tables_inv ?dir ?R" using ti R consistent_subset [OF cons R] unfolding tables_inv_def by blast
  have fresh: "fresh_ids ?dir i ?R" if "fresh_ids ?dir i ?ts" for i using that R by (auto simp: fresh_ids_def)
  have "tables_inv ?dir (?R @ option_list out) \<and> fresh_ids ?dir (sm_next_file_id s) (?R @ option_list out)"
  proof (cases out)
    case None
    moreover have "fresh_ids ?dir (sm_next_file_id s) ?ts" using inv fresh_ids_mono by (auto simp: manager_inv_def recorded_def)
    ultimately show ?thesis using tiR fresh by simp
  next
    case (Some t)
    with out obtain i g q where t: "table_ok t" "table_entries t = ?es" "tb_level t = Level1"
      and p: "md_path (tb_metadata t) = table_path ?dir Level1 i g q" "sm_next_file_id s = i + 1" "i \<noteq> - 1" "fresh_ids ?dir i ?ts"
      unfolding compacted_tables_def Let_def by auto
    have "fst (hd ?es) = md_smallest_key (tb_metadata t)" "fst (last ?es) = md_largest_key (tb_metadata t)" "?es \<noteq> []"
      using table_okD(6,9,10) [OF t(1)] t(2) by simp_all
    moreover have "set ?es \<subseteq> set (merged ?S)" by (auto simp: kept_def)
    ultimately have r: "se_smallest_key sel \<le> md_smallest_key (tb_metadata t)" "md_largest_key (tb_metadata t) \<le> se_largest_key sel"
      using selected_entry_range [of sel] sf(4) okS by (metis hd_in_set subsetD, metis last_in_set subsetD)
    have "disjoint_ranges (tb_metadata u) (tb_metadata t)" if "u \<in> set ?R" "tb_level u = Level1" for u
      using sf(5) [OF that] r unfolding disjoint_ranges_def ranges_overlap_def by (meson order_trans)
    then have "level1_disjoint (?R @ [t])" using tiR t(3) by (simp add: tables_inv_def level1_disjoint_def sorted_wrt_append)
    then have "tables_inv ?dir (?R @ [t])" using cons' Some by (intro tables_inv_add [OF tiR fresh [OF p(4)] t(1) p(1)]) simp_all
    then show ?thesis using fresh_ids_add [OF fresh [OF p(4)] p(1,3)] p(2) Some by simp
  qed
  then show "tables_inv ?dir (?R @ option_list out)" "fresh_ids ?dir (sm_next_file_id s) (?R @ option_list out)" by blast+
  show "files_hold (?R @ option_list out) (w_fs s)" using files R out
    by (cases out) (auto simp: files_hold_def compacted_tables_def Let_def)
qed

section \<open>Removing obsolete files\<close>

lemma files_kept_inv:
  assumes inv: "manager_inv s" and more: "world.more s' = world.more s"
    and keep: "\<And>q c. P q \<Longrightarrow> fs_holds q c (w_fs s) \<Longrightarrow> fs_holds q c (w_fs s')"
    and names: "P (path_join (sm_directory s) current_name)" "\<And>g. P (path_join (sm_directory s) (manifest_name g))"
    and paths: "\<And>t. t \<in> set (sm_readers s) \<Longrightarrow> P (md_path (tb_metadata t))"
  shows "manager_inv s'"
proof -
  obtain fs evs where s': "s' = s\<lparr>w_fs := fs, w_events := evs\<rparr>" using world_more_update [OF more] by blast
  have durable: "manifest_durable dir m s'" if "manifest_durable dir m s" "dir = sm_directory s" "\<forall>t\<in>set (mf_tables m). P (md_path t)" for dir m
  proof -
    have "P q \<Longrightarrow> replaced q c s \<Longrightarrow> replaced q c s'" for q c using keep by (simp add: replaced_fs)
    then show ?thesis using that names unfolding manifest_durable_def by meson
  qed
  have "\<forall>t\<in>set (metadata_for (sm_readers s)). P (md_path t)" using paths by (auto simp: metadata_for_def)
  then have "recorded s' (sm_readers s)" using inv durable s' unfolding manager_inv_def recorded_def by (auto simp: manifest_of_def)
  moreover have "files_hold (sm_readers s) (w_fs s')" using inv keep paths by (simp add: manager_inv_def files_hold_def)
  ultimately show ?thesis using inv s' by (simp add: manager_inv_def config_ok_def cache_coherent_def)
qed

lemma remove_obsolete_keeps:
  assumes "remove_obsolete ps b w = (b', w')"
  shows "world.more w' = world.more w \<and> (\<forall>q c. q \<notin> set ps \<and> fs_holds q c (w_fs w) \<longrightarrow> fs_holds q c (w_fs w'))"
  using assms
proof (induction ps arbitrary: b w)
  case (Cons p ps)
  obtain x w1 where t: "try_remove p w = (x, w1)" by fastforce
  then have "world.more w1 = world.more w \<and> (\<forall>q c. q \<noteq> p \<and> fs_holds q c (w_fs w) \<longrightarrow> fs_holds q c (w_fs w1))"
    by (auto simp: try_remove_def sys_call_def fs_holds_def split: list.splits if_splits)
  moreover have "remove_obsolete ps (b \<or> x = Some True) w1 = (b', w')"
    using Cons.prems t by (auto simp: Let_def)
  ultimately show ?case using Cons.IH by auto
qed simp

lemma sync_directory_holds: "fs_holds q c fs \<Longrightarrow> fs_holds q c (fs_sync_directory dir fs)"
  by (cases "in_directory dir q") (auto simp: fs_holds_def)

lemma manager_sync_directory_any:
  assumes "manager_sync_directory dir w = (r, w')"
  shows "world.more w' = world.more w" and "fs_holds q c (w_fs w) \<Longrightarrow> fs_holds q c (w_fs w')"
proof -
  obtain r1 w1 where 1: "world_sync_directory (SystemError ''failed to open SSTable directory for fsync'')
    (SystemError ''failed to fsync SSTable directory'') dir w = (r1, w1)" by fastforce
  have w1: "world.more w1 = world.more w \<and> (fs_holds q c (w_fs w) \<longrightarrow> fs_holds q c (w_fs w1))"
    using world_sync_directoryD [OF 1] sync_directory_holds by (cases r1) (auto simp: fs_holds_def)
  have "world.more w' = world.more w1 \<and> w_fs w' = w_fs w1"
    using assms 1 sys_callD unfolding manager_sync_directory_def by (cases r1) auto
  then show "world.more w' = world.more w" and "fs_holds q c (w_fs w) \<Longrightarrow> fs_holds q c (w_fs w')" using w1 by auto
qed

section \<open>One compaction\<close>

lemma select_cong:
  assumes "sm_readers s' = sm_readers s" and "sm_level0_compaction_trigger s' = sm_level0_compaction_trigger s"
    and "sm_level0_compaction_max_tables s' = sm_level0_compaction_max_tables s"
  shows "select_level0_compaction_locked force s' = select_level0_compaction_locked force s"
  unfolding select_level0_compaction_locked_def assms ..

lemma select_reads:
  assumes "reads s (s' :: 'a sstable_manager_scheme)"
  shows "select_level0_compaction_locked force s' = select_level0_compaction_locked force s"
  using assms by (intro select_cong) (cases s; cases s'; simp add: reads_def)+

lemma select_wrote: "wrote path bs s s' \<Longrightarrow> select_level0_compaction_locked force s' = select_level0_compaction_locked force s"
  by (intro select_cong) (auto simp: wrote_def)

definition level0_count :: "managed_table list \<Rightarrow> nat" where
  "level0_count ts = length (filter (\<lambda>t. tb_level t = Level0) ts)"

lemma level0_count_sort [simp]: "level0_count (sort_tables ts) = level0_count ts"
proof -
  have "level0_count (insert_by cmp t ts) = level0_count (t # ts)" for cmp t ts by (induction ts) (auto simp: level0_count_def)
  then show ?thesis unfolding sort_tables_def by (induction ts) (simp_all add: std_sort_def level0_count_def)
qed

lemma filter_shorter: "x \<in> set xs \<Longrightarrow> P x \<Longrightarrow> \<not> Q x \<Longrightarrow> length (filter P (filter Q xs)) < length (filter P xs)"
proof (induction xs)
  case (Cons y xs)
  have "length (filter P (filter Q xs)) \<le> length (filter P xs)" by (induction xs) auto
  with Cons show ?case by (cases "y = x") auto
qed simp

text \<open>\<open>shows_same s s'\<close>: the tables of \<open>s'\<close> show what those of \<open>s\<close> show and hold no more tables and entries;
  \<open>leaves_same s disk\<close>: so does what a crash leaves.\<close>

definition all_entries :: "managed_table list \<Rightarrow> (bytes \<times> entry) set" where
  "all_entries ts = (\<Union>t\<in>set ts. set (table_entries t))"

definition total_entries :: "managed_table list \<Rightarrow> nat" where
  "total_entries ts = sum_list (map (\<lambda>t. length (table_entries t)) ts)"

definition shows_same :: "'a sstable_manager_scheme \<Rightarrow> 'a sstable_manager_scheme \<Rightarrow> bool" where
  "shows_same s s' \<longleftrightarrow> table_view (sm_readers s') = table_view (sm_readers s) \<and> sm_directory s' = sm_directory s \<and>
     sstable_manager.more s' = sstable_manager.more s \<and> length (sm_readers s') \<le> length (sm_readers s) \<and>
     all_entries (sm_readers s') \<subseteq> all_entries (sm_readers s) \<and> total_entries (sm_readers s') \<le> total_entries (sm_readers s)"

definition leaves_same :: "'a sstable_manager_scheme \<Rightarrow> fsys \<Rightarrow> bool" where
  "leaves_same s fs \<longleftrightarrow> (\<forall>disk. fs_crash fs disk \<longrightarrow> (\<exists>ts. disk_holds (sm_directory s) ts disk \<and>
     tables_inv (sm_directory s) ts \<and> table_view ts = table_view (sm_readers s) \<and> all_entries ts \<subseteq> all_entries (sm_readers s)))"

lemma shows_same_refl [simp]: "shows_same s s"
  by (simp add: shows_same_def)

lemma shows_same_trans: "shows_same s s' \<Longrightarrow> shows_same s' s'' \<Longrightarrow> shows_same s s''"
  by (auto simp: shows_same_def)

lemma leaves_same_trans: "shows_same s s' \<Longrightarrow> leaves_same s' fs \<Longrightarrow> leaves_same s fs"
  unfolding shows_same_def leaves_same_def by (metis subset_trans)

lemma total_entries_append [simp]: "total_entries (ts @ us) = total_entries ts + total_entries us"
  by (simp add: total_entries_def)

lemma sum_list_sort_tables:
  fixes f :: "managed_table \<Rightarrow> nat"
  shows "sum_list (map f (sort_tables ts)) = sum_list (map f ts)"
proof -
  have "sum_list (map f (insert_by cmp t us)) = f t + sum_list (map f us)" for cmp t us by (induction us) auto
  then show ?thesis unfolding sort_tables_def by (induction ts) (simp_all add: std_sort_def)
qed

lemma all_entries_sort [simp]: "all_entries (sort_tables ts) = all_entries ts" "total_entries (sort_tables ts) = total_entries ts"
  by (simp_all add: all_entries_def total_entries_def sum_list_sort_tables)

lemma sum_list_subset:
  fixes f :: "'a \<Rightarrow> nat"
  assumes "set xs \<subseteq> set ys" and "distinct xs" and "distinct ys"
  shows "sum_list (map f xs) \<le> sum_list (map f ys)"
  using assms by (simp add: sum_list_distinct_conv_sum_set sum_mono2)

lemma replacement_smaller:
  assumes inv: "manager_inv s" and sel: "sel = select_level0_compaction_locked force s" "se_selected sel \<noteq> []" and out: "compacted_tables s sel out"
  shows "length (se_unselected sel @ option_list out) \<le> length (sm_readers s)"
    and "all_entries (se_unselected sel @ option_list out) \<subseteq> all_entries (sm_readers s)"
    and "total_entries (se_unselected sel @ option_list out) \<le> total_entries (sm_readers s)"
proof -
  let ?S = "se_selected sel" and ?R = "se_unselected sel" and ?ts = "sm_readers s"
  note sf = select_facts [OF sel manager_select [OF inv]]
  have okS: "\<forall>t\<in>set ?S. table_ok t" using inv sf(1) by (auto simp: manager_inv_def tables_inv_def)
  obtain x where x: "x \<in> set ?S" "x \<in> set ?ts" using sel(2) sf(1) by (cases ?S) auto
  have "length ?R < length ?ts" unfolding sf(3) by (rule length_filter_less [OF x(2)]) (use x(1) in simp)
  then show "length (?R @ option_list out) \<le> length ?ts" by (cases out) simp_all
  have es: "set (table_entries t) \<subseteq> all_entries ?S \<and> length (table_entries t) \<le> total_entries ?S" if "out = Some t" for t
    using out that merged_entry [OF okS] merged_valid(2) [OF okS, of "set ?R"]
    by (auto simp: compacted_tables_def Let_def all_entries_def total_entries_def kept_def)
  have "all_entries ?S \<subseteq> all_entries ?ts" "all_entries ?R \<subseteq> all_entries ?ts" using sf(1,3) by (auto simp: all_entries_def)
  then show "all_entries (?R @ option_list out) \<subseteq> all_entries ?ts" using es by (cases out) (auto simp: all_entries_def)
  have d: "distinct ?S" "distinct ?ts" using sf(2) manager_select(1) [OF inv] by (simp_all add: distinct_map)
  then have "distinct (?R @ ?S)" "set (?R @ ?S) \<subseteq> set ?ts" using sf(1) by (auto simp: sf(3))
  from sum_list_subset [OF this(2,1) d(2), of "\<lambda>t. length (table_entries t)"]
  have "total_entries ?R + total_entries ?S \<le> total_entries ?ts" by (simp add: total_entries_def)
  then show "total_entries (?R @ option_list out) \<le> total_entries ?ts" using es by (cases out) (auto simp: total_entries_def)
qed

lemma leaves_same_inv: "manager_inv s' \<Longrightarrow> shows_same s s' \<Longrightarrow> leaves_same s (w_fs s')"
  unfolding leaves_same_def shows_same_def using manager_crash [of s'] by (metis manager_inv_def)

lemma compact_publish:
  assumes inv: "manager_inv s" and sel: "sel = select_level0_compaction_locked force s" "se_selected sel \<noteq> []"
    and out: "compacted_tables s sel out" and few: "length (sm_readers s) \<le> 10000"
    and run: "publish_compaction (se_selected sel) out result s = (r, s')"
  shows "(\<forall>e. r = Inl e \<longrightarrow> shows_same s s' \<and> leaves_same s (w_fs s')) \<and>
    (\<forall>obs. r = Inr obs \<longrightarrow> manager_inv s' \<and> shows_same s s' \<and> sm_readers s' = sort_tables (se_unselected sel @ option_list out) \<and>
       (\<forall>p\<in>set obs. \<exists>t\<in>set (sm_readers s). p = md_path (tb_metadata t) \<and> table_id t \<in> table_id ` set (se_selected sel)))"
proof -
  let ?S = "se_selected sel" and ?ts = "sm_readers s" and ?dir = "sm_directory s"
  let ?new = "se_unselected sel @ option_list out"
  from inv have dist: "distinct (map table_id ?ts)" and live: "sm_live_key_count s = of_nat (card (dom (table_view ?ts)))"
    and max: "sm_level0_compaction_max_tables s \<noteq> 0" by (auto simp: manager_inv_def tables_inv_def config_ok_def)
  note sf = select_facts [OF sel dist max] and rep = compaction_replaces [OF inv sel out]
  have view: "table_view (sort_tables ?new) = table_view ?ts"
    using rep(1,2) table_view_cong [of ?new "sort_tables ?new"] by (simp add: tables_inv_def)
  note smaller = replacement_smaller [OF inv sel out]
  have few': "length ?new \<le> 10000" using few smaller(1) by simp
  obtain r1 s1 where p: "publish_tables_locked ?new (sm_live_key_count s) s = (r1, s1)" by fastforce
  define obs where "obs = map (\<lambda>t. md_path (tb_metadata t)) (filter (\<lambda>t. table_id t \<in> table_id ` set ?S) ?ts)"
  have sub: "table_id ` set ?S \<subseteq> table_id ` set ?ts" using sf(1) by blast
  have run': "r = (case r1 of Inl e \<Rightarrow> Inl e | Inr _ \<Rightarrow> Inr obs)"
    "s' = (case r1 of Inl e \<Rightarrow> s1 | Inr _ \<Rightarrow> s1\<lparr>sm_compaction_statistics := count_compaction result (sm_compaction_statistics s1)\<rparr>)"
    using run p sub unfolding publish_compaction_def Let_def sf(3) [symmetric] obs_def
    by (auto simp: throw_if_def split: sum.splits)
  have n: "sm_live_key_count s = of_nat (card (dom (table_view ?new)))" using live rep(2) by simp
  note mp = manager_publish [OF p inv rep(1,4) few' n rep(3)]
  show ?thesis
  proof (cases r1)
    case (Inl e)
    then have s': "s' = s1" "r = Inl e" using run' by simp_all
    have "shows_same s s1" using more_fields [OF mp(1) [OF Inl]] world_more_readers [OF mp(1) [OF Inl]] by (simp add: shows_same_def)
    moreover have "leaves_same s (w_fs s1)"
      unfolding leaves_same_def using mp(3) inv rep(1) view smaller(2) all_entries_sort(1)
      by (metis manager_inv_def sort_tables_inv order_refl)
    ultimately show ?thesis using s' by simp
  next
    case (Inr u)
    then have s': "s' = s1\<lparr>sm_compaction_statistics := count_compaction result (sm_compaction_statistics s1)\<rparr>" "r = Inr obs"
      using run' by simp_all
    from mp(2) [OF Inr] have m: "manager_inv s1" and pub: "sm_readers s1 = sort_tables ?new \<and> sm_directory s1 = ?dir \<and> sstable_manager.more s1 = sstable_manager.more s"
      using published_readers by blast+
    have "manager_inv s'"
      using m by (simp add: s'(1) manager_inv_def config_ok_def recorded_def manifest_durable_def replaced_def cache_coherent_def)
    moreover have "shows_same s s'" using pub view smaller by (simp add: s'(1) shows_same_def)
    moreover have "sm_readers s' = sort_tables ?new" using pub s'(1) by simp
    ultimately show ?thesis using s'(2) by (auto simp: obs_def)
  qed
qed

definition compactable :: "'a sstable_manager_scheme \<Rightarrow> bool" where
  "compactable s \<longleftrightarrow> total_entries (sm_readers s) < 2 ^ 32 \<and> length (sm_readers s) \<le> 10000"

lemma write_compacted_cases:
  assumes inv: "manager_inv s" and sel: "sel = select_level0_compaction_locked force s"
    and es: "es = kept (set (se_unselected sel)) (merged (se_selected sel))" "valid_snapshot es" "length es < 2 ^ 32"
    and run: "write_compacted es g result s = (r, s')"
  shows "manager_inv s' \<and> shows_same s s' \<and> sm_readers s' = sm_readers s \<and> select_level0_compaction_locked force s' = sel \<and>
    (\<forall>x. r = Inr x \<longrightarrow> compacted_tables s' sel (fst x) \<and> cr_performed (snd x) = cr_performed result)"
proof (cases "es = []")
  case True
  then show ?thesis using run inv sel es by (auto simp: write_compacted_def compacted_tables_def Let_def)
next
  case False
  define path where path: "path = table_path (sm_directory s) Level1 (sm_next_file_id s) g (max_sequence_in es)"
  obtain r1 s1 where r1: "write_and_open es Level1 g s = (r1, s1)" by fastforce
  have "sane_rate (sm_bloom_false_positive_rate s)" using inv by (simp add: manager_inv_def config_ok_def)
  from write_and_open_cases [OF r1 es(2,3) this path] obtain bs where w: "wrote path bs s s1"
    and ok: "\<And>x. r1 = Inr x \<Longrightarrow> \<exists>md reader. x = (sm_next_file_id s, md, reader) \<and> sm_next_file_id s \<noteq> - 1 \<and>
        sm_next_file_id s1 = sm_next_file_id s + 1 \<and>
        fs_holds path bs (w_fs s1) \<and> holds_new_table es path bs g (new_table reader Level1)" by blast
  have s': "s' = s1" using run r1 False by (cases r1) (auto simp: write_compacted_def)
  note wf = wrote_fields [OF w]
  have "manager_inv s1" by (rule wrote_inv [OF inv w path])
  moreover have "compacted_tables s1 sel (fst x) \<and> cr_performed (snd x) = cr_performed result" if x: "r = Inr x" for x
  proof (cases r1)
    case (Inl e)
    then show ?thesis using x run r1 False by (simp add: write_compacted_def)
  next
    case (Inr y)
    from ok [OF Inr] obtain md reader where y: "y = (sm_next_file_id s, md, reader)" "sm_next_file_id s \<noteq> - 1"
      "sm_next_file_id s1 = sm_next_file_id s + 1" "fs_holds path bs (w_fs s1)"
      and h: "holds_new_table es path bs g (new_table reader Level1)" by blast
    have "fresh_ids (sm_directory s1) (sm_next_file_id s) (sm_readers s1)"
      using inv wf(1,3) fresh_ids_mono by (auto simp: manager_inv_def recorded_def)
    then have "compacted_tables s1 sel (Some (new_table reader Level1))"
      using h y wf(3) path es(1) unfolding compacted_tables_def Let_def by (auto simp: holds_new_table_def)
    moreover have "fst x = Some (new_table reader Level1)" "cr_performed (snd x) = cr_performed result"
      using x run r1 Inr y(1) False by (auto simp: write_compacted_def new_table_def)
    ultimately show ?thesis by simp
  qed
  ultimately show ?thesis using wf(1,3,10) s' select_wrote [OF w] sel by (simp add: shows_same_def)
qed

lemma obsolete_unreferenced:
  assumes inv: "manager_inv s" and sel: "sel = select_level0_compaction_locked force s" "se_selected sel \<noteq> []"
    and out: "compacted_tables s sel out"
    and p: "u \<in> set (sm_readers s)" "table_id u \<in> table_id ` set (se_selected sel)"
  shows "md_path (tb_metadata u) \<noteq> path_join (sm_directory s) current_name"
    and "md_path (tb_metadata u) \<noteq> path_join (sm_directory s) (manifest_name g)"
    and "t \<in> set (se_unselected sel @ option_list out) \<Longrightarrow> md_path (tb_metadata t) \<noteq> md_path (tb_metadata u)"
proof -
  from inv have ti: "tables_inv (sm_directory s) (sm_readers s)" and dist: "distinct (map table_id (sm_readers s))"
    and max: "sm_level0_compaction_max_tables s \<noteq> 0" by (auto simp: manager_inv_def tables_inv_def config_ok_def)
  note sf = select_facts [OF sel dist max]
  obtain n where n: "md_path (tb_metadata u) = path_join (sm_directory s) n" "table_name n" using ti p(1) unfolding tables_inv_def by blast
  then show "md_path (tb_metadata u) \<noteq> path_join (sm_directory s) current_name"
    "md_path (tb_metadata u) \<noteq> path_join (sm_directory s) (manifest_name g)" using names_distinct(4,5) by simp_all
  show "md_path (tb_metadata t) \<noteq> md_path (tb_metadata u)" if mem: "t \<in> set (se_unselected sel @ option_list out)"
  proof
    assume eq: "md_path (tb_metadata t) = md_path (tb_metadata u)"
    then have "t \<notin> set (se_unselected sel)" using p(2) unfolding sf(3) by auto
    then obtain o' where "out = Some o'" "t = o'" using mem by (cases out) auto
    with out obtain i g q where "md_path (tb_metadata t) = table_path (sm_directory s) Level1 i g q" "fresh_ids (sm_directory s) i (sm_readers s)"
      unfolding compacted_tables_def Let_def by auto
    then show False using p(1) eq by (auto simp: fresh_ids_def)
  qed
qed

definition compacted :: "'a sstable_manager_scheme \<Rightarrow> compaction_result result \<Rightarrow> 'a sstable_manager_scheme \<Rightarrow> bool" where
  "compacted s r s' \<longleftrightarrow> shows_same s s' \<and> leaves_same s (w_fs s') \<and> (\<forall>res. r = Inr res \<longrightarrow> manager_inv s' \<and>
     (if cr_performed res then level0_count (sm_readers s') < level0_count (sm_readers s) else s' = s))"

lemma compacted_kept: "manager_inv s' \<Longrightarrow> shows_same s s' \<Longrightarrow> compacted s (Inl e) s'"
  by (simp add: compacted_def leaves_same_inv)

lemma finish_compaction:
  assumes inv: "manager_inv s" and sel: "sel = select_level0_compaction_locked force s" "se_selected sel \<noteq> []"
    and out: "compacted_tables s sel out" and few: "length (sm_readers s) \<le> 10000" and perf: "cr_performed result"
    and run: "bind_effect (publish_compaction (se_selected sel) out result) (\<lambda>obsolete s.
        let (removed_any, s) = remove_obsolete obsolete False s in
        bind_effect (if removed_any then manager_sync_directory (sm_directory s) else lift_result (Inr ())) (\<lambda>_.
        lift_result (Inr result)) s) s = (r, s')"
  shows "compacted s r s' \<and> (\<forall>res. r = Inr res \<longrightarrow> cr_performed res)"
proof -
  let ?new = "se_unselected sel @ option_list out"
  obtain r1 s1 where p: "publish_compaction (se_selected sel) out result s = (r1, s1)" by fastforce
  note cp = compact_publish [OF inv sel out few p]
  show ?thesis
  proof (cases r1)
    case (Inl e)
    then have "r = Inl e" "s' = s1" using run p by simp_all
    then show ?thesis using cp Inl by (simp add: compacted_def)
  next
    case (Inr obs)
    then have m1: "manager_inv s1" "shows_same s s1" "sm_readers s1 = sort_tables ?new" and dir1: "sm_directory s1 = sm_directory s"
      and obs: "\<And>p. p \<in> set obs \<Longrightarrow> \<exists>t\<in>set (sm_readers s). p = md_path (tb_metadata t) \<and> table_id t \<in> table_id ` set (se_selected sel)"
      using cp by (auto simp: shows_same_def)
    obtain b s2 where rm: "remove_obsolete obs False s1 = (b, s2)" by fastforce
    obtain r3 s3 where sy: "(if b then manager_sync_directory (sm_directory s2) else lift_result (Inr ())) s2 = (r3, s3)" by fastforce
    have res: "s' = s3" "\<And>res. r = Inr res \<Longrightarrow> res = result" using run p Inr rm sy by (cases r3; auto)+
    have k3: "world.more s3 = world.more s2" "fs_holds q c (w_fs s2) \<Longrightarrow> fs_holds q c (w_fs s3)" for q c
      using sy manager_sync_directory_any by (auto split: if_splits)
    have more: "world.more s3 = world.more s1" using k3(1) remove_obsolete_keeps [OF rm] by simp
    note mf = more_fields [OF more]
    note un = obsolete_unreferenced [OF inv sel out]
    have inv3: "manager_inv s3"
    proof (rule files_kept_inv [OF m1(1) more, of "\<lambda>q. q \<notin> set obs"])
      show "fs_holds q c (w_fs s1) \<Longrightarrow> fs_holds q c (w_fs s3)" if "q \<notin> set obs" for q c
        using that remove_obsolete_keeps [OF rm] k3(2) by blast
      show "path_join (sm_directory s1) current_name \<notin> set obs" using obs un(1) dir1 by metis
      show "path_join (sm_directory s1) (manifest_name g) \<notin> set obs" for g using obs un(2) dir1 by metis
      show "md_path (tb_metadata t) \<notin> set obs" if "t \<in> set (sm_readers s1)" for t
        using obs un(3) that m1(3) by (metis set_sort_tables(1))
    qed
    have same3: "shows_same s s3" using m1(2) mf world_more_readers [OF more] by (simp add: shows_same_def)
    obtain x where x: "x \<in> set (se_selected sel)" "tb_level x = Level0" "x \<in> set (sm_readers s)"
      and un': "se_unselected sel = filter (\<lambda>t. table_id t \<notin> table_id ` set (se_selected sel)) (sm_readers s)"
      using select_facts(1,3,6) [OF sel manager_select [OF inv]] by blast
    have "level0_count (option_list out) = 0" using out by (cases out) (auto simp: level0_count_def compacted_tables_def Let_def)
    then have "level0_count ?new = level0_count (se_unselected sel)" by (simp add: level0_count_def)
    also have "\<dots> < level0_count (sm_readers s)" unfolding level0_count_def un'
      by (rule filter_shorter [OF x(3)]) (use x(1,2) in simp_all)
    finally have "level0_count (sm_readers s3) < level0_count (sm_readers s)" using m1(3) mf(1) by simp
    then show ?thesis using inv3 same3 leaves_same_inv [OF inv3 same3] res perf unfolding compacted_def by (cases r) auto
  qed
qed

lemma compact_steps:
  assumes inv: "manager_inv s" and ok: "compactable s" and run: "compact_level0 (\<lambda>s. s) force s = (r, s')"
  shows "compacted s r s'"
proof -
  define sel where "sel = select_level0_compaction_locked force s"
  let ?S = "se_selected sel" and ?R = "se_unselected sel"
  show ?thesis
  proof (cases "?S = []")
    case True
    then have "r = Inr no_compaction" "s' = s" using run by (simp_all add: compact_level0_def sel_def)
    then show ?thesis using inv leaves_same_inv [OF inv, of s] by (simp add: compacted_def no_compaction_def)
  next
    case ne: False
    note sf = select_facts [OF sel_def ne manager_select [OF inv]]
    from inv obtain src where src: "cache_coherent src s" "knows src (set (sm_readers s))" unfolding manager_inv_def by blast
    have oks: "\<forall>t\<in>set ?S. table_ok t" using inv sf(1) by (auto simp: manager_inv_def tables_inv_def)
    have kS: "knows src (set ?S)" and kR: "knows src (set ?R)" using knows_subset [OF src(2)] sf(1,3) by auto
    obtain r1 s1 where r1: "merge_tables ?S [] s = (r1, s1)" by fastforce
    note y1 = yieldsD(1-3) [OF merged_yields [OF kS] src(1) r1]
    have i1: "manager_inv s1" "shows_same s s1" using reads_inv [OF inv y1(1,2) src(2)] reads_fields [OF y1(1)] by (simp_all add: shows_same_def)
    show ?thesis
    proof (cases r1)
      case (Inl e)
      then have "r = Inl e" "s' = s1" using run r1 ne by (simp_all add: compact_level0_def Let_def flip: sel_def)
      then show ?thesis using compacted_kept i1 by blast
    next
      case (Inr m)
      then have m: "m = merged ?S" using y1(3) by blast
      have "\<forall>r\<in>set m. valid_key (fst r)"
        using merged_valid(1) [OF oks, of "{}"] merged_entry [OF oks] oks table_okD(7) unfolding m valid_snapshot_def valid_entry_def by metis
      note dy = drop_tombstones_yields [OF kR this]
      obtain r2 s2 where r2: "drop_tombstones ?R m s1 = (r2, s2)" by fastforce
      note y2 = yieldsD(1-3) [OF dy y1(2) r2]
      have rd: "reads s s2" by (rule reads_trans [OF y1(1) y2(1)])
      note rf = reads_fields [OF rd]
      have i2: "manager_inv s2" "shows_same s s2" using reads_inv [OF inv rd y2(2) src(2)] rf by (simp_all add: shows_same_def)
      have sel2: "sel = select_level0_compaction_locked force s2" using select_reads [OF rd] by (simp add: sel_def)
      show ?thesis
      proof (cases r2)
        case (Inl e)
        then have "r = Inl e" "s' = s2" using run r1 Inr r2 ne by (simp_all add: compact_level0_def Let_def flip: sel_def)
        then show ?thesis using compacted_kept i2 by blast
      next
        case r2': (Inr x)
        define es where "es = kept (set ?R) (merged ?S)"
        obtain d where x: "x = (es, d)" using y2(3) [OF r2'] m es_def by blast
        have "distinct ?S" "distinct (sm_readers s)" using sf(2) manager_select(1) [OF inv] by (simp_all add: distinct_map)
        from sum_list_subset [OF sf(1) this, of "\<lambda>t. length (table_entries t)"] ok merged_valid(2) [OF oks, of "set ?R"]
        have es: "valid_snapshot es" "length es < 2 ^ 32" using merged_valid(1) [OF oks] by (simp_all add: compactable_def total_entries_def es_def)
        define res where "res = no_compaction\<lparr>cr_performed := True, cr_input_tables := of_nat (length ?S),
              cr_input_entries := foldl (\<lambda>n t. n + md_entry_count (tb_metadata t)) 0 ?S,
              cr_tombstones_dropped := d, cr_output_entries := of_nat (length es)\<rparr>"
        obtain r3 s3 where r3: "write_compacted es (maximum_generation ?S) res s2 = (r3, s3)" by fastforce
        note w = write_compacted_cases [OF i2(1) sel2 es_def es r3]
        have i3: "manager_inv s3" "shows_same s s3" using w i2(2) by (simp_all add: shows_same_def)
        show ?thesis
        proof (cases r3)
          case (Inl e)
          then have "r = Inl e" "s' = s3"
            using run r1 Inr r2 r2' x r3 ne by (simp_all add: compact_level0_def Let_def flip: sel_def res_def)
          then show ?thesis using compacted_kept i3 by blast
        next
          case r3': (Inr y)
          obtain out res' where y: "y = (out, res')" by fastforce
          have o: "compacted_tables s3 sel out" "cr_performed res'" using w r3' y by (auto simp: res_def)
          have few: "length (sm_readers s3) \<le> 10000" "sm_readers s3 = sm_readers s" using w rf(1) ok by (simp_all add: compactable_def)
          have "sel = select_level0_compaction_locked force s3" using w by simp
          moreover have "bind_effect (publish_compaction ?S out res') (\<lambda>obsolete s.
              let (removed_any, s) = remove_obsolete obsolete False s in
              bind_effect (if removed_any then manager_sync_directory (sm_directory s) else lift_result (Inr ())) (\<lambda>_.
              lift_result (Inr res')) s) s3 = (r, s')"
            using run r1 Inr r2 r2' x r3 r3' y ne by (simp add: compact_level0_def Let_def flip: sel_def res_def)
          ultimately have "compacted s3 r s' \<and> (\<forall>res. r = Inr res \<longrightarrow> cr_performed res)" using finish_compaction [OF i3(1) _ ne o(1) few(1) o(2)] by blast
          then show ?thesis using i3(2) few(2) by (auto simp: compacted_def shows_same_def leaves_same_def)
        qed
      qed
    qed
  qed
qed

section \<open>Properties\<close>

text \<open>C11. Compaction never changes what the store shows.  Whatever the kernel does, every key has the same
  visible value before and after, also when the compaction throws half-way; when it returns, the manager is
  well formed and, if it did anything, level 0 has fewer tables, so that repeated compaction ends; and after
  a crash at any system call the next start shows exactly the contents before the compaction.\<close>

theorem compaction_preserves_contents:
  assumes "manager_inv s" and "compactable s" and "compact_level0 (\<lambda>s. s) force s = (r, s')"
    and "options_ok options" and "mo_directory options = sm_directory s"
  shows "table_view (sm_readers s') = table_view (sm_readers s) \<and>
    (\<forall>res. r = Inr res \<longrightarrow> manager_inv s' \<and>
       (if cr_performed res then level0_count (sm_readers s') < level0_count (sm_readers s) else s' = s)) \<and>
    (\<forall>disk. fs_crash (w_fs s') disk \<longrightarrow> restores options disk (table_view (sm_readers s)))"
proof -
  have c: "compacted s r s'" by (rule compact_steps [OF assms(1-3)])
  have "restores options disk (table_view (sm_readers s))" if "fs_crash (w_fs s') disk" for disk
  proof -
    from c that obtain ts where "disk_holds (sm_directory s) ts disk" "tables_inv (sm_directory s) ts"
      "table_view ts = table_view (sm_readers s)" unfolding compacted_def leaves_same_def by blast
    then show ?thesis using disk_holds_restores [of options ts disk] assms(4,5) by simp
  qed
  then show ?thesis using c by (simp add: compacted_def shows_same_def)
qed

text \<open>C12. A lookup in the tables returns the version with the greatest sequence number among all tables
  that hold the key, for every state of the block cache and every kernel behaviour that lets it return; a key
  outside the size limits is rejected without touching the state; and it does return when no read fails.\<close>

theorem sstable_manager_get_newest:
  assumes inv: "manager_inv s" and run: "sstable_manager_get key s = (r, s')"
  shows "(\<not> valid_key key \<longrightarrow> (\<exists>e. r = Inl e) \<and> s' = s) \<and>
    (valid_key key \<longrightarrow> manager_inv s' \<and> sm_readers s' = sm_readers s \<and>
       (\<forall>e. r = Inr e \<longrightarrow> (case e of
            None \<Rightarrow> \<forall>t\<in>set (sm_readers s). map_of (table_entries t) key = None
          | Some x \<Rightarrow> (\<exists>t\<in>set (sm_readers s). map_of (table_entries t) key = Some x) \<and>
              (\<forall>t\<in>set (sm_readers s). \<forall>y. map_of (table_entries t) key = Some y \<longrightarrow>
                 entry_sequence_number y \<le> entry_sequence_number x))) \<and>
       (benign_io (w_events s) \<longrightarrow> (\<exists>e. r = Inr e)))"
proof (cases "valid_key key")
  case False
  then obtain e where "validate_key key = Inl e" using validate_key_invalid by blast
  then have "r = Inl e" "s' = s" using run by (simp_all add: sstable_manager_get_def)
  then show ?thesis using False by blast
next
  case True
  from inv obtain src where src: "cache_coherent src s" "knows src (set (sm_readers s))" unfolding manager_inv_def by blast
  have "newest_entry_from_tables (sm_readers s) key s = (r, s')" using run True by (simp add: sstable_manager_get_def)
  note y = yieldsD [OF newest_entry_yields [OF src(2) True] src(1) this]
  have "manager_inv s'" "sm_readers s' = sm_readers s" using reads_inv [OF inv y(1,2) src(2)] reads_fields(1) [OF y(1)] by simp_all
  moreover have "e = newest (sm_readers s) key" if "r = Inr e" for e using y(3) [OF that] .
  moreover have "benign_io (w_events s) \<longrightarrow> (\<exists>e. r = Inr e)" using y(4) by blast
  moreover have "map_of (table_entries t) key = None" if "newest (sm_readers s) key = None" "t \<in> set (sm_readers s)" for t
  proof (cases "map_of (table_entries t) key")
    case (Some x)
    then have "x \<in> versions (set (sm_readers s)) key" using that(2) by (auto simp: versions_def)
    then show ?thesis using that(1) newest_None_iff by blast
  qed
  ultimately show ?thesis using True newest_cases [of "sm_readers s" key]
    by (auto simp: newest_of_def versions_def split: option.splits)
qed

lemma sample_flushed:
  obtains s :: sstable_manager where "manager_inv s" and "compactable s" and "sm_directory s = mo_directory sample_options"
    and "table_view (sm_readers s) (str ''a'') = Some (str ''1'')" and "w_events s = []"
    and "\<exists>t. sm_readers s = [t] \<and> table_entries t = sample_entries"
proof -
  obtain s :: sstable_manager where s: "manager_inv s" "flushable sample_memtable s" "w_events s = []" "sm_next_file_id s \<noteq> - 1"
    "mm_current_generation (sm_manifest s) \<noteq> - 1" "sm_readers s = []" "sm_directory s = mo_directory sample_options"
    by (rule sample_manager)
  have "mt_immutable sample_memtable" "mt_entries sample_memtable \<noteq> []" "mt_generation sample_memtable \<noteq> - 1"
    and es: "mt_entries sample_memtable = sample_entries"
    using sample_entries_valid by (simp_all add: sample_memtable_def)
  from flush_reliable [OF s(1-3) this(1-3) s(4,5)] obtain md s' where run: "sstable_flush [] sample_memtable s = (Inr md, s')"
    and ev: "w_events s' = []" by blast
  from flush_steps [OF s(1) run s(2)] obtain t where i: "manager_inv s'" "sm_directory s' = sm_directory s"
    and t: "flushed_table sample_entries [] t (sm_directory s)" "sm_readers s' = sort_tables [t]" using s(6) es by auto
  have r: "sm_readers s' = [t]" using t(2) by (simp add: sort_tables_def std_sort_def)
  have e: "table_entries t = sample_entries" using t(1) by (simp add: flushed_table_def)
  have n: "newest (sm_readers s') k = map_of sample_entries k" for k
    by (simp add: r e newest_def newer_candidate_def split: option.splits)
  have "compactable s'" using sample_entries_valid(2) by (simp add: compactable_def total_entries_def r e)
  moreover have "table_view (sm_readers s') (str ''a'') = Some (str ''1'')"
    by (simp add: table_view_def n) (simp add: sample_entries_def str_def)
  ultimately show ?thesis using that [OF i(1)] i(2) s(7) ev r e by simp
qed

theorem compaction_preserves_contents_witness:
  "\<exists>(s :: sstable_manager) r s'. manager_inv s \<and> compact_level0 (\<lambda>s. s) True s = (r, s') \<and>
     table_view (sm_readers s') (str ''a'') = Some (str ''1'')"
proof -
  obtain s :: sstable_manager where s: "manager_inv s" "compactable s" "mo_directory sample_options = sm_directory s"
    "table_view (sm_readers s) (str ''a'') = Some (str ''1'')" by (rule sample_flushed) simp
  obtain r s' where run: "compact_level0 (\<lambda>s. s) True s = (r, s')" by fastforce
  from compaction_preserves_contents [OF s(1,2) run sample_options_ok s(3)] s(1,4) run show ?thesis by auto
qed

theorem sstable_manager_get_newest_witness:
  "\<exists>(s :: sstable_manager) e s'. manager_inv s \<and> sstable_manager_get (str ''a'') s = (Inr e, s') \<and>
     e = Some \<lparr>entry_value = str ''1'', entry_sequence_number = 7, entry_deleted = False\<rparr>"
proof -
  obtain s :: sstable_manager where s: "manager_inv s" "w_events s = []" "\<exists>t. sm_readers s = [t] \<and> table_entries t = sample_entries"
    by (rule sample_flushed) blast
  then obtain t where t: "sm_readers s = [t]" "table_entries t = sample_entries" by blast
  obtain r s' where run: "sstable_manager_get (str ''a'') s = (r, s')" by fastforce
  have v: "valid_key (str ''a'')" by (simp add: str_def kMaxKeySize_def)
  note g = sstable_manager_get_newest [OF s(1) run]
  from g v s(2) obtain e where e: "r = Inr e" by auto
  have m: "map_of sample_entries (str ''a'') = Some \<lparr>entry_value = str ''1'', entry_sequence_number = 7, entry_deleted = False\<rparr>"
    by (simp add: sample_entries_def)
  have "e = map_of sample_entries (str ''a'')" using g v e t m by (cases e) auto
  then show ?thesis using s(1) run e m by blast
qed

end
