(* ===== verification/PersistentStore.thy ===== *)
theory PersistentStore
  imports Recovery ManagerCompact
begin

text \<open>
  \<open>PersistentKeyValueStore\<close> (\<open>src/persistent_key_value_store.cpp\<close>): the log, the MemTables and the
  tables together.  The store owns the table manager, so its state extends the manager's; the log file
  has a kernel script of its own.  Every writer holds \<open>write_mutex_\<close> and the manager is private to the
  store, so no other thread changes the manager between the critical sections of a flush or of a
  compaction.
\<close>

section \<open>State\<close>

record persistent_store_options =
  po_wal_path :: bytes
  po_sstable_directory :: bytes
  po_durability_mode :: durability_mode
  po_batch_flush_interval :: int
  po_memtable_max_bytes :: u64
  po_sstable_data_block_bytes :: u64
  po_block_cache_capacity_bytes :: u64
  po_bloom_false_positive_rate :: "real option"
  po_level0_compaction_trigger :: u64
  po_level0_compaction_max_tables :: u64
  po_enable_automatic_compaction :: bool
  po_truncate_invalid_wal_tail :: bool
  po_emit_recovery_diagnostics :: bool

record persistent_store = sstable_manager +
  ps_abi :: abi
  ps_memtables :: memtable_set
  ps_live_key_count :: u64
  ps_recovery_report :: recovery_report
  ps_wal_writer :: wal_writer
  ps_automatic_compaction_enabled :: bool

text \<open>What the kernel answers to the calls on the log file while the store is constructed, and the
  script the writer starts with.\<close>

record wal_kernel =
  wk_file :: "disk_file option"
  wk_scan_open :: open_outcome
  wk_scan_events :: "io_event list"
  wk_resize :: "unit result"
  wk_create_directories :: "unit result"
  wk_open :: open_outcome
  wk_events :: "io_event list"

definition resolve_sstable_directory :: "persistent_store_options \<Rightarrow> bytes" where
  "resolve_sstable_directory options =
     (if po_sstable_directory options \<noteq> [] then po_sstable_directory options
      else let parent = parent_path (po_wal_path options)
           in path_join (if parent = [] then dot else parent) (str ''sstables''))"

section \<open>Lookups\<close>

definition latest_entry :: "bytes \<Rightarrow> ('a persistent_store_scheme, entry option) effect" where
  "latest_entry key s =
     bind_effect (lift_result (memtable_set_latest_entry (ps_memtables s) key)) (\<lambda>memory_entry.
     case memory_entry of
       Some e \<Rightarrow> lift_result (Inr (Some e))
     | None \<Rightarrow> sstable_manager_get key) s"

definition exists_without_validation :: "bytes \<Rightarrow> ('a persistent_store_scheme, bool) effect" where
  "exists_without_validation key = bind_effect (latest_entry key) (\<lambda>e. lift_result (Inr (is_live e)))"

section \<open>Replaying the log\<close>

text \<open>\<open>RecoveryDestination\<close>: the store as \<open>RecoveryManager\<close> sees it during start-up.\<close>

definition destination_put :: "'a persistent_store_scheme \<Rightarrow> bytes \<Rightarrow> bytes \<Rightarrow> 'a persistent_store_scheme result" where
  "destination_put s key v =
     (case exists_without_validation key s of
        (Inl e, _) \<Rightarrow> Inl e
      | (Inr was_live, s) \<Rightarrow>
          bind_result (memtable_set_put (ps_abi s) (ps_memtables s) key v) (\<lambda>m.
          Inr (s\<lparr>ps_memtables := m,
                 ps_live_key_count := (if was_live then ps_live_key_count s else ps_live_key_count s + 1)\<rparr>)))"

definition destination_remove :: "'a persistent_store_scheme \<Rightarrow> bytes \<Rightarrow> (bool \<times> 'a persistent_store_scheme) result" where
  "destination_remove s key =
     (case exists_without_validation key s of
        (Inl e, _) \<Rightarrow> Inl e
      | (Inr False, s) \<Rightarrow> Inr (False, s)
      | (Inr True, s) \<Rightarrow>
          bind_result (memtable_set_add_tombstone (ps_abi s) (ps_memtables s) key) (\<lambda>m.
          Inr (True, s\<lparr>ps_memtables := m, ps_live_key_count := ps_live_key_count s - 1\<rparr>)))"

section \<open>Construction\<close>

definition manager_options :: "persistent_store_options \<Rightarrow> sstable_manager_options" where
  "manager_options options =
     \<lparr>mo_directory = resolve_sstable_directory options,
      mo_target_data_block_bytes = po_sstable_data_block_bytes options,
      mo_block_cache_capacity_bytes = po_block_cache_capacity_bytes options,
      mo_bloom_false_positive_rate = po_bloom_false_positive_rate options,
      mo_level0_compaction_trigger = po_level0_compaction_trigger options,
      mo_level0_compaction_max_tables = po_level0_compaction_max_tables options\<rparr>"

definition recover_store :: "persistent_store_options \<Rightarrow> wal_kernel \<Rightarrow> ('a persistent_store_scheme, disk_file option) effect" where
  "recover_store options k s =
     (case recover destination_put destination_remove (wk_scan_open k) (wk_scan_events k) (wk_resize k)
        (po_truncate_invalid_wal_tail options) (wk_file k) s of
        Inl e \<Rightarrow> (Inl e, s)
      | Inr (report, diagnostics, file', s') \<Rightarrow> (Inr file', s'\<lparr>ps_recovery_report := report\<rparr>))"

definition check_recovery :: "recovery_report \<Rightarrow> unit result" where
  "check_recovery report =
     (case recovery_issue report of
        None \<Rightarrow> Inr ()
      | Some (code, offset) \<Rightarrow>
          if code = IoError then Inl (RuntimeError ''failed to read the write-ahead log during recovery'')
          else throw_if (\<not> invalid_tail_truncated report)
            (RuntimeError ''write-ahead log contains an invalid tail and automatic repair is disabled''))"

definition persistent_store_new :: "persistent_store_options \<Rightarrow> wal_kernel \<Rightarrow> ('a persistent_store_scheme, unit) effect" where
  "persistent_store_new options k =
     bind_effect (sstable_manager_new (manager_options options)) (\<lambda>_.
     bind_effect (lift_result (throw_if (po_wal_path options = []) (InvalidArgument ''WAL path must not be empty''))) (\<lambda>_ s.
     bind_effect (lift_result (memtable_set_new (po_memtable_max_bytes options) (sm_max_sequence_number s) (sm_next_generation s))) (\<lambda>m s.
     bind_effect (recover_store options k) (\<lambda>file' s.
     bind_effect (lift_result (check_recovery (ps_recovery_report s))) (\<lambda>_.
     bind_effect (lift_result (wal_writer_new (po_wal_path options) (po_durability_mode options) (po_batch_flush_interval options)
       (wk_create_directories k) (wk_open k) (wk_events k) (case file' of None \<Rightarrow> empty_file | Some f \<Rightarrow> f))) (\<lambda>w s.
       (Inr (), s\<lparr>ps_wal_writer := w\<rparr>))) s)
       (s\<lparr>ps_memtables := m, ps_live_key_count := sm_live_key_count s,
          ps_automatic_compaction_enabled := po_enable_automatic_compaction options\<rparr>)) s))"

section \<open>Background work of the writers\<close>

definition on_wal :: "(wal_writer, 'b) effect \<Rightarrow> ('a persistent_store_scheme, 'b) effect" where
  "on_wal m s = (let (r, w) = m (ps_wal_writer s) in (r, s\<lparr>ps_wal_writer := w\<rparr>))"

fun flush_tables :: "memtable list \<Rightarrow> ('a persistent_store_scheme, unit) effect" where
  "flush_tables [] s = (Inr (), s)"
| "flush_tables (t # ts) s =
     bind_effect (sstable_flush [] t) (\<lambda>_ s.
     let (found, m) = discard_immutable (ps_memtables s) (mt_generation t) in
     if \<not> found then (Inl (LogicError ''flushed MemTable was not registered as immutable''), s)
     else flush_tables ts (s\<lparr>ps_memtables := m\<rparr>)) s"

definition flush_immutable_memtables_locked :: "('a persistent_store_scheme, unit) effect" where
  "flush_immutable_memtables_locked s = flush_tables (rev (ms_immutable_tables (ps_memtables s))) s"

definition reset_wal_if_fully_persisted_locked :: "('a persistent_store_scheme, unit) effect" where
  "reset_wal_if_fully_persisted_locked s =
     (if ms_active_entry_count (ps_memtables s) = 0 \<and> ms_immutable_table_count (ps_memtables s) = 0
      then on_wal wal_reset s else (Inr (), s))"

text \<open>The loop of \<open>compact_if_required_locked\<close>; \<open>None\<close> when the given number of turns is not enough.\<close>

fun compact_loop :: "nat \<Rightarrow> 'a sstable_manager_scheme \<Rightarrow> (unit result \<times> 'a sstable_manager_scheme) option" where
  "compact_loop 0 s = None"
| "compact_loop (Suc n) s =
     (if \<not> needs_compaction s then Some (Inr (), s)
      else case compact_if_needed (\<lambda>s. s) s of
        (Inl e, s') \<Rightarrow> Some (Inl e, s')
      | (Inr res, s') \<Rightarrow> if \<not> cr_performed res then Some (Inr (), s') else compact_loop n s')"

text \<open>Each turn that goes on has removed a level-0 table, so one turn more than there are such tables is
  enough (\<open>compact_loop_ends\<close>).\<close>

definition compact_if_required_locked :: "('a persistent_store_scheme, unit) effect" where
  "compact_if_required_locked s =
     (if \<not> ps_automatic_compaction_enabled s then (Inr (), s)
      else case compact_loop (Suc (level0_count (sm_readers s))) s of
        Some x \<Rightarrow> x
      | None \<Rightarrow> (Inl (LogicError ''compaction does not end''), s))"

section \<open>The operations\<close>

definition store_put :: "bytes \<Rightarrow> bytes \<Rightarrow> ('a persistent_store_scheme, unit) effect" where
  "store_put key v =
     bind_effect (lift_result (validate_key key)) (\<lambda>_.
     bind_effect (lift_result (validate_value v)) (\<lambda>_.
     bind_effect (exists_without_validation key) (\<lambda>was_live.
     bind_effect (on_wal (wal_append \<lparr>wr_operation = Put, wr_key = key, wr_value = v\<rparr>)) (\<lambda>_ s.
     bind_effect (lift_result (memtable_set_put (ps_abi s) (ps_memtables s) key v)) (\<lambda>m s.
     let s = s\<lparr>ps_memtables := m, ps_live_key_count := (if was_live then ps_live_key_count s else ps_live_key_count s + 1)\<rparr> in
     bind_effect flush_immutable_memtables_locked (\<lambda>_.
     bind_effect compact_if_required_locked (\<lambda>_.
     reset_wal_if_fully_persisted_locked)) s) s))))"

definition store_get :: "bytes \<Rightarrow> ('a persistent_store_scheme, bytes option) effect" where
  "store_get key =
     bind_effect (lift_result (validate_key key)) (\<lambda>_.
     bind_effect (latest_entry key) (\<lambda>e. lift_result (Inr (visible e))))"

definition store_remove :: "bytes \<Rightarrow> ('a persistent_store_scheme, bool) effect" where
  "store_remove key =
     bind_effect (lift_result (validate_key key)) (\<lambda>_.
     bind_effect (exists_without_validation key) (\<lambda>live.
     if \<not> live then lift_result (Inr False)
     else
       bind_effect (on_wal (wal_append \<lparr>wr_operation = Delete, wr_key = key, wr_value = []\<rparr>)) (\<lambda>_ s.
       bind_effect (lift_result (memtable_set_add_tombstone (ps_abi s) (ps_memtables s) key)) (\<lambda>m s.
       let s = s\<lparr>ps_memtables := m, ps_live_key_count := ps_live_key_count s - 1\<rparr> in
       bind_effect flush_immutable_memtables_locked (\<lambda>_.
       bind_effect compact_if_required_locked (\<lambda>_.
       bind_effect reset_wal_if_fully_persisted_locked (\<lambda>_.
       lift_result (Inr True)))) s) s)))"

definition store_exists :: "bytes \<Rightarrow> ('a persistent_store_scheme, bool) effect" where
  "store_exists key =
     bind_effect (lift_result (validate_key key)) (\<lambda>_. exists_without_validation key)"

definition store_flush :: "('a persistent_store_scheme, unit) effect" where
  "store_flush = on_wal wal_flush"

definition store_rotate :: "'a persistent_store_scheme \<Rightarrow> 'a persistent_store_scheme" where
  "store_rotate s = s\<lparr>ps_memtables := snd (rotate_active (ps_memtables s))\<rparr>"

definition store_checkpoint :: "('a persistent_store_scheme, unit) effect" where
  "store_checkpoint =
     bind_effect (on_wal wal_flush) (\<lambda>_ s.
     bind_effect flush_immutable_memtables_locked (\<lambda>_.
     bind_effect compact_if_required_locked (\<lambda>_.
     on_wal wal_reset)) (store_rotate s))"

definition store_compact :: "('a persistent_store_scheme, compaction_result) effect" where
  "store_compact =
     bind_effect (on_wal wal_flush) (\<lambda>_ s.
     bind_effect flush_immutable_memtables_locked (\<lambda>_.
     bind_effect (compact_level0 (\<lambda>s. s) True) (\<lambda>result.
     bind_effect reset_wal_if_fully_persisted_locked (\<lambda>_.
     lift_result (Inr result)))) (store_rotate s))"

definition store_size :: "'a persistent_store_scheme \<Rightarrow> u64" where
  "store_size s = ps_live_key_count s"

definition last_sequence_number :: "'a persistent_store_scheme \<Rightarrow> u64" where
  "last_sequence_number s = ms_last_sequence_number (ps_memtables s)"

definition immutable_memtable_count :: "'a persistent_store_scheme \<Rightarrow> nat" where
  "immutable_memtable_count s = ms_immutable_table_count (ps_memtables s)"

definition active_memtable_memory_usage :: "'a persistent_store_scheme \<Rightarrow> u64" where
  "active_memtable_memory_usage s = mt_approximate_memory_usage (ms_active (ps_memtables s))"

definition sstable_count :: "'a persistent_store_scheme \<Rightarrow> u64" where
  "sstable_count s = table_count s"

definition level0_sstable_count :: "'a persistent_store_scheme \<Rightarrow> u64" where
  "level0_sstable_count s = level_table_count Level0 s"

definition level1_sstable_count :: "'a persistent_store_scheme \<Rightarrow> u64" where
  "level1_sstable_count s = level_table_count Level1 s"

definition store_sstable_metadata :: "'a persistent_store_scheme \<Rightarrow> sstable_metadata list" where
  "store_sstable_metadata s = sstable_manager_metadata s"

definition store_clear_block_cache :: "'a persistent_store_scheme \<Rightarrow> 'a persistent_store_scheme" where
  "store_clear_block_cache s = clear_block_cache s"

definition store_reset_read_statistics :: "'a persistent_store_scheme \<Rightarrow> 'a persistent_store_scheme" where
  "store_reset_read_statistics s = reset_read_statistics s"

definition store_bloom_filter_statistics :: "'a persistent_store_scheme \<Rightarrow> bloom_aggregate_statistics" where
  "store_bloom_filter_statistics s = bloom_filter_statistics s"

definition store_compaction_statistics :: "'a persistent_store_scheme \<Rightarrow> compaction_statistics" where
  "store_compaction_statistics s = sm_compaction_statistics s"

definition store_current_path :: "'a persistent_store_scheme \<Rightarrow> bytes" where
  "store_current_path s = current_path (sm_manifest s)"

definition store_active_manifest_path :: "'a persistent_store_scheme \<Rightarrow> bytes" where
  "store_active_manifest_path s = mm_active_manifest_path (sm_manifest s)"

definition store_durability_mode :: "'a persistent_store_scheme \<Rightarrow> durability_mode" where
  "store_durability_mode s = ww_mode (ps_wal_writer s)"

end
