(* ===== verification/StoreInv.thy ===== *)
theory StoreInv
  imports PersistentStore
begin

text \<open>
  The invariant of the persistent store, and that lookups, the flush of a frozen MemTable and a
  compaction keep it.  \<open>logged rs s\<close> ties the log to the rest: replaying its records over what the tables
  show gives what the store shows.  It survives flushes because a flush only changes keys the log mentions.
\<close>

section \<open>Invariant\<close>

definition store_newest :: "'a persistent_store_scheme \<Rightarrow> bytes \<Rightarrow> entry option" where
  "store_newest s k = (case map_of (ms_entries (ps_memtables s)) k of Some e \<Rightarrow> Some e | None \<Rightarrow> newest (sm_readers s) k)"

definition store_view :: "'a persistent_store_scheme \<Rightarrow> bytes \<rightharpoonup> bytes" where
  "store_view s k = visible (store_newest s k)"

text \<open>Generations are handed out one after the other, so those of the tables of a set are consecutive.\<close>

definition consecutive_generations :: "memtable_set \<Rightarrow> bool" where
  "consecutive_generations m \<longleftrightarrow>
     map mt_generation (ms_tables m) = map (\<lambda>i. ms_next_generation m - 1 - of_nat i) [0..<length (ms_tables m)]"

definition store_inv :: "'a persistent_store_scheme \<Rightarrow> bool" where
  "store_inv s \<longleftrightarrow> manager_inv s \<and> memtable_set_inv (ps_abi s) (ps_memtables s) \<and>
     (\<forall>r\<in>set (ms_entries (ps_memtables s)). sm_max_sequence_number s < entry_sequence_number (snd r)) \<and>
     sm_max_sequence_number s \<le> ms_last_sequence_number (ps_memtables s) \<and> consecutive_generations (ps_memtables s) \<and>
     ps_live_key_count s = of_nat (card (dom (store_view s)))"

abbreviation replay :: "wal_record list \<Rightarrow> (bytes \<rightharpoonup> bytes) \<Rightarrow> bytes \<rightharpoonup> bytes" where
  "replay rs \<equiv> fold apply_op (map record_op rs)"

definition log_holds :: "wal_record list \<Rightarrow> wal_writer \<Rightarrow> bool" where
  "log_holds rs w \<longleftrightarrow> ww_mode w = SyncMode \<and> \<not> ww_dirty w \<and> ww_background_error w = None \<and>
     df_contents (ww_file w) = wal_log rs \<and> df_durable (ww_file w) = wal_log rs \<and> (\<forall>r\<in>set rs. valid_record r)"

definition logged :: "wal_record list \<Rightarrow> 'a persistent_store_scheme \<Rightarrow> bool" where
  "logged rs s \<longleftrightarrow> log_holds rs (ps_wal_writer s) \<and> fst ` set (ms_entries (ps_memtables s)) \<subseteq> wr_key ` set rs \<and>
     store_view s = replay rs (table_view (sm_readers s))"

section \<open>Replay\<close>

lemma replay_key:
  "k \<in> wr_key ` set rs \<Longrightarrow> replay rs m k = replay rs m' k"
  "k \<notin> wr_key ` set rs \<Longrightarrow> replay rs m k = m k"
proof (induction rs arbitrary: m m')
  case (Cons r rs)
  have touch: "apply_op (record_op r) m (wr_key r) = apply_op (record_op r) m' (wr_key r)" for m m' by (simp add: record_op_def)
  have other: "k \<noteq> wr_key r \<Longrightarrow> apply_op (record_op r) m k = m k" for m by (simp add: record_op_def)
  { case 1
    show ?case
    proof (cases "k \<in> wr_key ` set rs")
      case True
      then show ?thesis using Cons.IH(1) by simp
    next
      case False
      then show ?thesis using 1 Cons.IH(2) [OF False] touch by simp
    qed
  next
    case 2
    then show ?case using Cons.IH(2) other by simp }
qed simp_all

lemma replay_cong:
  assumes "\<And>k. k \<notin> wr_key ` set rs \<Longrightarrow> m k = m' k"
  shows "replay rs m = replay rs m'"
proof
  fix k
  show "replay rs m k = replay rs m' k" using replay_key assms by (cases "k \<in> wr_key ` set rs") auto
qed

lemma replay_snoc [simp]: "replay (rs @ [r]) m = apply_op (record_op r) (replay rs m)"
  by simp

section \<open>Frames\<close>

lemma more_store:
  assumes "sstable_manager.more s' = sstable_manager.more (s :: 'a persistent_store_scheme)"
  shows "ps_abi s' = ps_abi s" "ps_memtables s' = ps_memtables s" "ps_live_key_count s' = ps_live_key_count s"
    "ps_wal_writer s' = ps_wal_writer s" "ps_automatic_compaction_enabled s' = ps_automatic_compaction_enabled s"
    "persistent_store.more s' = persistent_store.more s"
  using assms by (cases s; cases s'; simp)+

lemma manager_inv_update [simp]:
  "manager_inv (s\<lparr>ps_memtables := m\<rparr>) = manager_inv (s :: 'a persistent_store_scheme)"
  "manager_inv (s\<lparr>ps_live_key_count := n\<rparr>) = manager_inv s"
  "manager_inv (s\<lparr>ps_wal_writer := w\<rparr>) = manager_inv s"
  "manager_inv (s\<lparr>ps_recovery_report := rep\<rparr>) = manager_inv s"
  "manager_inv (s\<lparr>ps_automatic_compaction_enabled := b\<rparr>) = manager_inv s"
  by (simp_all add: manager_inv_def config_ok_def recorded_def manifest_durable_def replaced_def cache_coherent_def)

lemma reads_view:
  assumes "reads s (s' :: 'a persistent_store_scheme)"
  shows "store_newest s' = store_newest s" and "store_view s' = store_view s"
proof -
  show "store_newest s' = store_newest s"
    using reads_fields(1,12) [OF assms] more_store(2) [of s' s] by (simp add: store_newest_def fun_eq_iff split: option.split)
  then show "store_view s' = store_view s" by (simp add: store_view_def fun_eq_iff)
qed

lemma reads_store:
  assumes "store_inv s" and "reads s (s' :: 'a persistent_store_scheme)" and "manager_inv s'"
  shows "store_inv s'" and "logged rs s \<Longrightarrow> logged rs s'"
proof -
  note f = reads_fields [OF assms(2)] and m = more_store [OF reads_fields(12) [OF assms(2)]] and v = reads_view [OF assms(2)]
  show "store_inv s'" using assms(1,3) unfolding store_inv_def f m v by blast
  show "logged rs s \<Longrightarrow> logged rs s'" unfolding logged_def f m v .
qed

lemma latest_entry_run:
  assumes inv: "manager_inv s" and key: "valid_key k" and run: "latest_entry k s = (r, s')"
  shows "reads s s'" and "manager_inv s'" and "r = Inr e \<Longrightarrow> e = store_newest s k"
    and "w_events s = [] \<Longrightarrow> r = Inr (store_newest s k)"
proof -
  from inv obtain src where src: "cache_coherent src s" "knows src (set (sm_readers s))" unfolding manager_inv_def by blast
  have m: "memtable_set_latest_entry (ps_memtables s) k = Inr (map_of (ms_entries (ps_memtables s)) k)"
    using key latest_entry_in_eq [OF key] by (simp add: memtable_set_latest_entry_def latest_entry_without_validation_def ms_entries_def)
  have "reads s s' \<and> manager_inv s' \<and> (\<forall>e. r = Inr e \<longrightarrow> e = store_newest s k) \<and> (w_events s = [] \<longrightarrow> r = Inr (store_newest s k))"
  proof (cases "map_of (ms_entries (ps_memtables s)) k")
    case None
    then have "newest_entry_from_tables (sm_readers s) k s = (r, s')"
      using run m key by (simp add: latest_entry_def sstable_manager_get_def)
    note y = yieldsD [OF newest_entry_yields [OF src(2) key] src(1) this]
    have eq: "store_newest s k = newest (sm_readers s) k" using None by (simp add: store_newest_def)
    have "\<forall>e. r = Inr e \<longrightarrow> e = store_newest s k" using y(3) unfolding eq by blast
    moreover have "w_events s = [] \<longrightarrow> r = Inr (store_newest s k)" using y(4) unfolding eq by simp
    ultimately show ?thesis using y(1) reads_inv [OF inv y(1,2) src(2)] by blast
  next
    case (Some e)
    then have "r = Inr (Some e)" "s' = s" "store_newest s k = Some e" using run m by (simp_all add: latest_entry_def store_newest_def)
    then show ?thesis using inv by simp
  qed
  then show "reads s s'" and "manager_inv s'" and "r = Inr e \<Longrightarrow> e = store_newest s k"
    and "w_events s = [] \<Longrightarrow> r = Inr (store_newest s k)" by blast+
qed

lemma exists_run:
  assumes inv: "manager_inv s" and key: "valid_key k" and run: "exists_without_validation k s = (r, s')"
  shows "reads s s'" and "manager_inv s'" and "r = Inr b \<Longrightarrow> b \<longleftrightarrow> store_view s k \<noteq> None"
    and "w_events s = [] \<Longrightarrow> r = Inr (store_view s k \<noteq> None)"
proof -
  obtain r1 s1 where l: "latest_entry k s = (r1, s1)" by fastforce
  note f = latest_entry_run [OF inv key l]
  have e: "s' = s1" "r = map_sum id is_live r1" using run l by (cases r1; simp add: exists_without_validation_def)+
  have v: "is_live (store_newest s k) \<longleftrightarrow> store_view s k \<noteq> None" by (simp add: is_live_visible store_view_def)
  show "reads s s'" "manager_inv s'" using f(1,2) e(1) by simp_all
  show "r = Inr b \<Longrightarrow> b \<longleftrightarrow> store_view s k \<noteq> None" using f(3) e(2) v by (cases r1) auto
  show "w_events s = [] \<Longrightarrow> r = Inr (store_view s k \<noteq> None)" using f(4) e(2) v by simp
qed

section \<open>Flushing the oldest frozen MemTable\<close>

lemma maximum_sequence_le_iff: "maximum_sequence ts \<le> B \<longleftrightarrow> (\<forall>t\<in>set ts. md_max_sequence_number (tb_metadata t) \<le> B)"
proof -
  have "foldl (\<lambda>m t. max m (md_max_sequence_number (tb_metadata t))) a ts \<le> B \<longleftrightarrow>
      a \<le> B \<and> (\<forall>t\<in>set ts. md_max_sequence_number (tb_metadata t) \<le> B)" for a
    by (induction ts arbitrary: a) auto
  then show ?thesis by (simp add: maximum_sequence_def)
qed

lemma maximum_sequence_entries:
  assumes "\<forall>t\<in>set ts. table_ok t"
  shows "maximum_sequence ts \<le> B \<longleftrightarrow> (\<forall>r\<in>all_entries ts. entry_sequence_number (snd r) \<le> B)"
proof
  assume "maximum_sequence ts \<le> B"
  then show "\<forall>r\<in>all_entries ts. entry_sequence_number (snd r) \<le> B"
    using table_okD(13) assms unfolding maximum_sequence_le_iff all_entries_def by (meson UN_E order_trans)
next
  assume *: "\<forall>r\<in>all_entries ts. entry_sequence_number (snd r) \<le> B"
  show "maximum_sequence ts \<le> B" unfolding maximum_sequence_le_iff
  proof
    fix t assume "t \<in> set ts"
    moreover from this assms have "md_max_sequence_number (tb_metadata t) \<in> (\<lambda>r. entry_sequence_number (snd r)) ` set (table_entries t)"
      by (auto dest: table_okD(12))
    then obtain r where "r \<in> set (table_entries t)" "md_max_sequence_number (tb_metadata t) = entry_sequence_number (snd r)" by (rule imageE)
    ultimately show "md_max_sequence_number (tb_metadata t) \<le> B" using * by (auto simp only: all_entries_def UN_iff)
  qed
qed

text \<open>\<open>recoverable dir rs V B disk\<close>: the disk holds tables over which replaying \<open>rs\<close> gives \<open>V\<close>, with no
  sequence number above \<open>B\<close>.\<close>

definition recoverable :: "bytes \<Rightarrow> wal_record list \<Rightarrow> (bytes \<rightharpoonup> bytes) \<Rightarrow> u64 \<Rightarrow> (bytes \<rightharpoonup> bytes) \<Rightarrow> bool" where
  "recoverable dir rs V B disk \<longleftrightarrow> (\<exists>ts. disk_holds dir ts disk \<and> tables_inv dir ts \<and> replay rs (table_view ts) = V \<and>
     (\<forall>r\<in>all_entries ts. entry_sequence_number (snd r) \<le> B))"

lemma store_entries_bound:
  assumes "store_inv s" and "r \<in> all_entries (sm_readers s)"
  shows "entry_sequence_number (snd r) \<le> ms_last_sequence_number (ps_memtables s)"
proof -
  have "\<forall>t\<in>set (sm_readers s). table_ok t" "maximum_sequence (sm_readers s) \<le> ms_last_sequence_number (ps_memtables s)"
    using assms(1) by (auto simp: store_inv_def manager_inv_def tables_inv_def)
  then show ?thesis using maximum_sequence_entries assms(2) by blast
qed

lemma store_crash:
  assumes "store_inv s" and "logged rs s" and "fs_crash (w_fs s) disk"
  shows "recoverable (sm_directory s) rs (store_view s) (ms_last_sequence_number (ps_memtables s)) disk"
  using assms manager_crash [of s disk] store_entries_bound [OF assms(1)]
  unfolding recoverable_def store_inv_def logged_def manager_inv_def by metis

lemma ms_entries_snoc: "ms_immutable_tables m = xs @ [t] \<Longrightarrow> ms_entries m = ms_entries (m\<lparr>ms_immutable_tables := xs\<rparr>) @ mt_entries t"
  by (simp add: ms_entries_def ms_tables_def)

lemma drop_oldest_inv:
  assumes "memtable_set_inv A m" and "ms_immutable_tables m = xs @ [t]"
  shows "memtable_set_inv A (m\<lparr>ms_immutable_tables := xs\<rparr>)"
    and "\<forall>r\<in>set (ms_entries (m\<lparr>ms_immutable_tables := xs\<rparr>)). \<forall>r'\<in>set (mt_entries t). entry_sequence_number (snd r') < entry_sequence_number (snd r)"
    and "valid_snapshot (mt_entries t)" and "mt_immutable t" and "mt_entries t \<noteq> []"
proof -
  have tabs: "ms_tables m = ms_tables (m\<lparr>ms_immutable_tables := xs\<rparr>) @ [t]" using assms(2) by (simp add: ms_tables_def)
  show "memtable_set_inv A (m\<lparr>ms_immutable_tables := xs\<rparr>)"
    using assms by (auto simp: memtable_set_inv_def tabs ms_entries_snoc [OF assms(2)] sorted_wrt_append)
  have "\<forall>u\<in>set (ms_tables (m\<lparr>ms_immutable_tables := xs\<rparr>)). newer_entries u t"
    using assms(1) by (simp add: memtable_set_inv_def tabs sorted_wrt_append)
  then show "\<forall>r\<in>set (ms_entries (m\<lparr>ms_immutable_tables := xs\<rparr>)). \<forall>r'\<in>set (mt_entries t). entry_sequence_number (snd r') < entry_sequence_number (snd r)"
    by (auto simp: ms_entries_def newer_entries_def)
  have "t \<in> set (ms_tables m)" "t \<in> set (ms_immutable_tables m)" using assms(2) by (simp_all add: ms_tables_def)
  then show "valid_snapshot (mt_entries t)" "mt_immutable t" "mt_entries t \<noteq> []"
    using assms(1) by (auto simp: memtable_set_inv_def memtable_inv_def valid_snapshot_def)
qed

lemma consecutive_drop:
  assumes "consecutive_generations m" and "ms_immutable_tables m = xs @ [t]"
  shows "consecutive_generations (m\<lparr>ms_immutable_tables := xs\<rparr>)"
  using assms by (simp add: consecutive_generations_def ms_tables_def)

lemma consecutive_distinct:
  assumes "consecutive_generations m" and "length (ms_tables m) < 2 ^ 64"
  shows "distinct (map mt_generation (ms_tables m))"
proof -
  have "inj_on (\<lambda>i. ms_next_generation m - 1 - of_nat i) {0..<length (ms_tables m)}"
  proof (rule inj_onI)
    fix i j assume i: "i \<in> {0..<length (ms_tables m)}" "j \<in> {0..<length (ms_tables m)}"
      and "ms_next_generation m - 1 - of_nat i = ms_next_generation m - 1 - of_nat j"
    then have "(of_nat i :: u64) = of_nat j" by simp
    then have "unat (of_nat i :: u64) = unat (of_nat j :: u64)" by simp
    moreover have "i < 2 ^ 64" "j < 2 ^ 64" using i assms(2) by auto
    ultimately show "i = j" by (simp add: unat_of_nat take_bit_nat_eq_self)
  qed
  then show ?thesis using assms(1) unfolding consecutive_generations_def by (simp add: distinct_map)
qed

lemma discard_oldest:
  assumes "distinct (map mt_generation (ms_tables m))" and "ms_immutable_tables m = xs @ [t]"
  shows "discard_immutable m (mt_generation t) = (True, m\<lparr>ms_immutable_tables := xs\<rparr>)"
proof -
  have "mt_generation t \<notin> mt_generation ` set xs" using assms by (simp add: ms_tables_def)
  then have "\<forall>u\<in>set xs. mt_generation u \<noteq> mt_generation t" by (metis imageI)
  then have "takeWhile (\<lambda>u. mt_generation u \<noteq> mt_generation t) (xs @ [t]) = xs"
    "dropWhile (\<lambda>u. mt_generation u \<noteq> mt_generation t) (xs @ [t]) = [t]" by (induction xs) auto
  then show ?thesis using assms(2) by (simp add: discard_immutable_def Let_def)
qed

lemma flush_oldest:
  fixes s :: "'a persistent_store_scheme"
  assumes inv: "store_inv s" and log: "logged rs s" and imm: "ms_immutable_tables (ps_memtables s) = xs @ [t]"
    and size: "length (mt_entries t) < 2 ^ 32" "length (sm_readers s) < 10000" and run: "sstable_flush [] t s = (r, s1)"
    and s2: "s2 = s1\<lparr>ps_memtables := (ps_memtables s)\<lparr>ms_immutable_tables := xs\<rparr>\<rparr>"
  shows "sstable_manager.more s1 = sstable_manager.more s"
    and "fs_crash (w_fs s1) disk \<Longrightarrow> recoverable (sm_directory s) rs (store_view s) (ms_last_sequence_number (ps_memtables s)) disk"
    and "r = Inr md \<Longrightarrow> store_inv s2 \<and> logged rs s2 \<and> store_view s2 = store_view s \<and> sm_directory s2 = sm_directory s \<and>
      length (sm_readers s2) = Suc (length (sm_readers s)) \<and> total_entries (sm_readers s2) = total_entries (sm_readers s) + length (mt_entries t)"
proof -
  let ?m = "ps_memtables s" and ?ts = "sm_readers s" and ?dir = "sm_directory s" and ?es = "mt_entries t"
  define m' where "m' = ?m\<lparr>ms_immutable_tables := xs\<rparr>"
  from inv have mi: "manager_inv s" and ms: "memtable_set_inv (ps_abi s) ?m"
    and above: "\<forall>r\<in>set (ms_entries ?m). sm_max_sequence_number s < entry_sequence_number (snd r)"
    and gen: "consecutive_generations ?m" by (simp_all add: store_inv_def)
  note dr = drop_oldest_inv [OF ms imm] and split = ms_entries_snoc [OF imm]
  have last: "\<forall>r\<in>set (ms_entries ?m). entry_sequence_number (snd r) \<le> ms_last_sequence_number ?m" using ms by (simp add: memtable_set_inv_def)
  have keys: "fst ` set ?es \<subseteq> wr_key ` set rs" "fst ` set (ms_entries m') \<subseteq> wr_key ` set rs"
    using log split by (auto simp: logged_def m'_def)
  have "flushable t s" using dr(3) size above split by (simp add: flushable_def)
  note st = flush_steps [OF mi run this]
  show more: "sstable_manager.more s1 = sstable_manager.more s" using st by blast
  have view_after: "replay rs (table_view (sort_tables (?ts @ [u]))) = store_view s"
    and bound: "\<forall>r\<in>all_entries (sort_tables (?ts @ [u])). entry_sequence_number (snd r) \<le> ms_last_sequence_number ?m"
    if u: "flushed_table ?es ?ts u ?dir" for u
  proof -
    have "view_after_flush ?ts t k = table_view ?ts k" if "k \<notin> wr_key ` set rs" for k
    proof -
      have "k \<notin> fst ` set ?es" using that keys(1) by blast
      then have "map_of ?es k = None" by (simp add: map_of_eq_None_iff)
      then show ?thesis by (simp add: view_after_flush_def)
    qed
    from replay_cong [OF this] show "replay rs (table_view (sort_tables (?ts @ [u]))) = store_view s"
      using flushed_table_view(1) [OF u] log by (simp add: logged_def)
    show "\<forall>r\<in>all_entries (sort_tables (?ts @ [u])). entry_sequence_number (snd r) \<le> ms_last_sequence_number ?m"
      using u store_entries_bound [OF inv] last split by (auto simp: all_entries_def flushed_table_def)
  qed
  show "recoverable ?dir rs (store_view s) (ms_last_sequence_number ?m) disk" if "fs_crash (w_fs s1) disk"
    using st that view_after bound flushed_table_view(2) mi log store_entries_bound [OF inv]
    unfolding recoverable_def manager_inv_def logged_def by metis
  show "store_inv s2 \<and> logged rs s2 \<and> store_view s2 = store_view s \<and> sm_directory s2 = ?dir \<and>
      length (sm_readers s2) = Suc (length ?ts) \<and> total_entries (sm_readers s2) = total_entries ?ts + length ?es" if r: "r = Inr md"
  proof -
    from st r obtain u where i1: "manager_inv s1" "sm_directory s1 = ?dir" and u: "flushed_table ?es ?ts u ?dir"
      and rd: "sm_readers s1 = sort_tables (?ts @ [u])" by blast
    note ms1 = more_store [OF more]
    have ue: "table_entries u = ?es" "newer_than ?es (set ?ts)" and ti: "tables_inv ?dir (?ts @ [u])" using u by (simp_all add: flushed_table_def)
    then have cons: "consistent (set ?ts)" "consistent (set (?ts @ [u]))" using consistent_subset [of "set (?ts @ [u])" "set ?ts"] by (auto simp: tables_inv_def)
    have new: "newest (sm_readers s1) k = (case map_of ?es k of None \<Rightarrow> newest ?ts k | Some e \<Rightarrow> Some e)" for k
      using newest_add [OF cons(1), of u k] ue newest_cong [OF cons(2), of "sm_readers s1"] rd by simp
    have sn: "store_newest s2 = store_newest s"
    proof
      fix k
      have "map_of (ms_entries ?m) k = (case map_of (ms_entries m') k of Some e \<Rightarrow> Some e | None \<Rightarrow> map_of ?es k)"
        by (simp add: split m'_def map_add_def)
      then show "store_newest s2 k = store_newest s k" using new [of k] s2 by (simp add: store_newest_def m'_def split: option.splits)
    qed
    then have sv: "store_view s2 = store_view s" by (simp add: store_view_def fun_eq_iff)
    have mi2: "manager_inv s2" using i1(1) by (simp add: s2)
    have mx: "sm_max_sequence_number s2 = maximum_sequence (sort_tables (?ts @ [u]))" using i1(1) rd s2 by (simp add: manager_inv_def)
    have oks: "\<forall>t\<in>set (sort_tables (?ts @ [u])). table_ok t" using ti by (simp add: tables_inv_def)
    have le: "sm_max_sequence_number s2 \<le> ms_last_sequence_number ?m" unfolding mx maximum_sequence_entries [OF oks] by (rule bound [OF u])
    have less: "sm_max_sequence_number s2 < entry_sequence_number (snd r)" if "r \<in> set (ms_entries m')" for r
    proof -
      have "\<forall>r'\<in>all_entries ?ts. entry_sequence_number (snd r') \<le> sm_max_sequence_number s"
        using mi maximum_sequence_entries [of ?ts] by (auto simp: manager_inv_def tables_inv_def)
      moreover have "sm_max_sequence_number s < entry_sequence_number (snd r)" using above that split by (auto simp: m'_def)
      moreover have "\<forall>r'\<in>set ?es. entry_sequence_number (snd r') < entry_sequence_number (snd r)" using dr(2) that by (simp add: m'_def)
      moreover have "0 < entry_sequence_number (snd r)" using \<open>sm_max_sequence_number s < entry_sequence_number (snd r)\<close> by (metis word_gt_0 word_not_simps(1))
      moreover have "sm_max_sequence_number s2 \<le> entry_sequence_number (snd r) - 1" if "0 < entry_sequence_number (snd r)"
          "\<forall>r'\<in>all_entries (?ts @ [u]). entry_sequence_number (snd r') < entry_sequence_number (snd r)"
        unfolding mx maximum_sequence_entries [OF oks] using that by (auto simp: word_less_nat_alt word_le_nat_alt unat_sub_if')
      ultimately show ?thesis using ue(1) by (fastforce simp: all_entries_def word_less_nat_alt word_le_nat_alt unat_sub_if')
    qed
    have "store_inv s2"
      using mi2 dr(1) le less consecutive_drop [OF gen imm] inv sv ms1 by (simp add: store_inv_def s2 m'_def)
    moreover have "logged rs s2"
      using log keys(2) sv view_after [OF u] rd ms1 by (simp add: logged_def s2 m'_def)
    moreover have "total_entries (sm_readers s2) = total_entries ?ts + length ?es" using rd s2 ue(1) by (simp add: total_entries_def sum_list_sort_tables)
    ultimately show ?thesis using sv i1(2) rd by (simp add: s2)
  qed
qed

end
