(* ===== verification/StoreSteps.thy ===== *)
theory StoreSteps
  imports StoreInv
begin

text \<open>
  Each step of a write keeps the store's invariant: the update of the active MemTable, the flush of the
  frozen ones, the compaction loop (which ends) and the reset of the log.  Whenever the process stops, the
  disk and the log together still give what the store showed (\<open>safe\<close>).
\<close>

section \<open>Updating the MemTables\<close>

lemma finite_store_view [simp]: "finite (dom (store_view s))"
proof (rule finite_subset)
  show "dom (store_view s) \<subseteq> dom (map_of (ms_entries (ps_memtables s))) \<union> fst ` all_entries (sm_readers s)"
  proof
    fix k assume "k \<in> dom (store_view s)"
    then obtain e where e: "store_newest s k = Some e" by (cases "store_newest s k") (auto simp: store_view_def)
    show "k \<in> dom (map_of (ms_entries (ps_memtables s))) \<union> fst ` all_entries (sm_readers s)"
    proof (cases "map_of (ms_entries (ps_memtables s)) k")
      case None
      then have "newest (sm_readers s) k = Some e" using e by (simp add: store_newest_def)
      then have "versions (set (sm_readers s)) k \<noteq> {}" using newest_None_iff [of "sm_readers s" k] by simp
      then obtain t e where "t \<in> set (sm_readers s)" "map_of (table_entries t) k = Some e" by (auto simp: versions_def)
      then show ?thesis using map_of_SomeD by (force simp: all_entries_def)
    qed auto
  qed
qed (simp add: finite_dom_map_of all_entries_def)

lemma rotate_generations: "consecutive_generations m \<Longrightarrow> consecutive_generations (ms_rotate m)"
  by (auto simp: consecutive_generations_def ms_rotate_def ms_tables_def memtable_new_def memtable_freeze_def
      upt_rec [of 0] map_Suc_upt [symmetric] simp del: upt_Suc)

definition store_load :: "'a persistent_store_scheme \<Rightarrow> nat" where
  "store_load s = total_entries (sm_readers s) + length (ms_entries (ps_memtables s))"

definition store_tables :: "'a persistent_store_scheme \<Rightarrow> nat" where
  "store_tables s = length (sm_readers s) + length (ms_immutable_tables (ps_memtables s))"

lemma length_insert_or_assign_le: "length (map_insert_or_assign k v m) \<le> Suc (length m)"
  by (induction m) auto

lemma store_written:
  assumes inv: "store_inv s" and sq: "next_sequence_number (ps_memtables s) = Inr sq"
    and ins: "memtable_insert_or_assign (ps_abi s) (ms_active (ps_memtables s)) key e = Inr t"
    and e: "entry_sequence_number e = sq" "valid_entry (key, e)"
    and s': "s' = s\<lparr>ps_memtables := ms_written (ps_memtables s) t n sq, ps_live_key_count := c\<rparr>"
    and c: "c = of_nat (card (dom ((store_view s)(key := visible (Some e)))))"
  shows "store_inv s'" and "store_view s' = (store_view s)(key := visible (Some e))"
    and "fst ` set (ms_entries (ps_memtables s')) \<subseteq> insert key (fst ` set (ms_entries (ps_memtables s)))"
    and "store_load s' \<le> Suc (store_load s)" and "store_tables s' \<le> Suc (store_tables s)"
    and "ms_last_sequence_number (ps_memtables s') = ms_last_sequence_number (ps_memtables s) + 1"
    and "ms_last_sequence_number (ps_memtables s) < ms_last_sequence_number (ps_memtables s')"
    and "memtable_set_capacity (ps_memtables s) = Suc (memtable_set_capacity (ps_memtables s'))"
proof -
  let ?m = "ps_memtables s" and ?m' = "ms_written (ps_memtables s) t n sq"
  from inv have mi: "manager_inv s" and ms: "memtable_set_inv (ps_abi s) ?m" and gen: "consecutive_generations ?m"
    and above: "\<forall>r\<in>set (ms_entries ?m). sm_max_sequence_number s < entry_sequence_number (snd r)"
    and le: "sm_max_sequence_number s \<le> ms_last_sequence_number ?m" by (simp_all add: store_inv_def)
  note w = ms_written_facts [OF ms sq ins e, of n] and nx = next_sequence_number_less [OF sq]
  note d = memtable_insert_or_assignD [OF ins]
  have last: "ms_last_sequence_number ?m' = sq" by (simp add: ms_written_def)
  show sv: "store_view s' = (store_view s)(key := visible (Some e))"
    by (simp add: s' store_view_def store_newest_def fun_eq_iff w(2) split: option.split)
  have ent: "ms_entries ?m' = mt_entries t @ concat (map mt_entries (ms_immutable_tables ?m))"
    by (simp add: ms_written_def) (simp add: ms_entries_def ms_tables_def)
  have sub: "set (mt_entries t) \<subseteq> insert (key, e) (set (mt_entries (ms_active ?m)))" using d(1) set_insert_or_assign_subset by metis
  then have sub': "set (ms_entries ?m') \<subseteq> insert (key, e) (set (ms_entries ?m))"
    by (auto simp: ent) (auto simp: ms_entries_def ms_tables_def)
  then show "fst ` set (ms_entries (ps_memtables s')) \<subseteq> insert key (fst ` set (ms_entries ?m))" by (auto simp: s')
  have seq: "sm_max_sequence_number s < entry_sequence_number (snd r)" if "r \<in> set (ms_entries ?m')" for r
  proof -
    from that sub' have "r = (key, e) \<or> r \<in> set (ms_entries ?m)" by blast
    then show ?thesis using above order_le_less_trans [OF le nx(1)] e(1) by (elim disjE) simp_all
  qed
  have mi': "manager_inv s'" using mi by (simp add: s')
  have gen': "consecutive_generations ?m'"
  proof -
    have "mt_generation t = mt_generation (ms_active ?m)" using d(2) .
    then have "consecutive_generations (?m\<lparr>ms_active := t, ms_live_key_count := n, ms_last_sequence_number := sq\<rparr>)"
      using gen by (simp add: consecutive_generations_def ms_tables_def)
    then show ?thesis by (simp add: ms_written_def rotate_if_required_def rotate_generations)
  qed
  show "store_inv s'"
    using mi' w(1) seq le nx(1) last gen' sv c by (simp add: store_inv_def s')
  have "length (mt_entries t) \<le> Suc (length (mt_entries (ms_active ?m)))" using d(1) length_insert_or_assign_le by metis
  then show "store_load s' \<le> Suc (store_load s)" by (simp add: store_load_def s' ent) (simp add: ms_entries_def ms_tables_def)
  show "store_tables s' \<le> Suc (store_tables s)"
    by (simp add: store_tables_def s' ms_written_def rotate_if_required_def ms_rotate_def)
  show "ms_last_sequence_number (ps_memtables s') = ms_last_sequence_number ?m + 1" "ms_last_sequence_number ?m < ms_last_sequence_number (ps_memtables s')"
    "memtable_set_capacity ?m = Suc (memtable_set_capacity (ps_memtables s'))"
    using last nx w(4) by (simp_all add: s')
qed

text \<open>\<open>entered key v s s'\<close>: \<open>s'\<close> is \<open>s\<close> with one more write in its MemTables.\<close>

definition entered :: "bytes \<Rightarrow> bytes option \<Rightarrow> 'a persistent_store_scheme \<Rightarrow> 'a persistent_store_scheme \<Rightarrow> bool" where
  "entered key v s s' \<longleftrightarrow> store_inv s' \<and> store_view s' = (store_view s)(key := v) \<and>
     fst ` set (ms_entries (ps_memtables s')) \<subseteq> insert key (fst ` set (ms_entries (ps_memtables s))) \<and>
     store_load s' \<le> Suc (store_load s) \<and> store_tables s' \<le> Suc (store_tables s) \<and>
     ms_last_sequence_number (ps_memtables s') = ms_last_sequence_number (ps_memtables s) + 1 \<and>
     ms_last_sequence_number (ps_memtables s) < ms_last_sequence_number (ps_memtables s') \<and>
     memtable_set_capacity (ps_memtables s) = Suc (memtable_set_capacity (ps_memtables s')) \<and>
     (\<exists>m n. s' = s\<lparr>ps_memtables := m, ps_live_key_count := n\<rparr>)"

lemma entered_put:
  assumes inv: "store_inv s" and put: "memtable_set_put (ps_abi s) (ps_memtables s) key v = Inr m"
    and s': "s' = s\<lparr>ps_memtables := m, ps_live_key_count := (if store_view s key \<noteq> None then ps_live_key_count s else ps_live_key_count s + 1)\<rparr>"
  shows "entered key (Some v) s s'"
proof -
  from put obtain sq t where sq: "next_sequence_number (ps_memtables s) = Inr sq" and ve: "valid_entry (key, put_entry v sq)"
    and ins: "memtable_insert_or_assign (ps_abi s) (ms_active (ps_memtables s)) key (put_entry v sq) = Inr t"
    and m: "\<exists>n. m = ms_written (ps_memtables s) t n sq" by (rule memtable_set_putE) blast
  from m obtain n where n: "m = ms_written (ps_memtables s) t n sq" by blast
  have c: "(if store_view s key \<noteq> None then ps_live_key_count s else ps_live_key_count s + 1) =
      of_nat (card (dom ((store_view s)(key := visible (Some (put_entry v sq))))))"
    using inv of_nat_card_dom_upd [OF finite_store_view, of s key "Some v", where 'a = "64 word"] by (simp add: store_inv_def)
  have "\<exists>m n. s' = s\<lparr>ps_memtables := m, ps_live_key_count := n\<rparr>" using s' by blast
  then show ?thesis using store_written [OF inv sq ins _ ve s' [unfolded n] c] unfolding entered_def by simp
qed

lemma entered_tombstone:
  assumes inv: "store_inv s" and put: "memtable_set_add_tombstone (ps_abi s) (ps_memtables s) key = Inr m"
    and live: "store_view s key \<noteq> None" and s': "s' = s\<lparr>ps_memtables := m, ps_live_key_count := ps_live_key_count s - 1\<rparr>"
  shows "entered key None s s'"
proof -
  from put obtain sq t where sq: "next_sequence_number (ps_memtables s) = Inr sq" and ve: "valid_entry (key, tombstone sq)"
    and ins: "memtable_insert_or_assign (ps_abi s) (ms_active (ps_memtables s)) key (tombstone sq) = Inr t"
    and m: "\<exists>n. m = ms_written (ps_memtables s) t n sq" by (rule memtable_set_add_tombstoneE) blast
  from m obtain n where n: "m = ms_written (ps_memtables s) t n sq" by blast
  have c: "ps_live_key_count s - 1 = of_nat (card (dom ((store_view s)(key := visible (Some (tombstone sq))))))"
    using inv live of_nat_card_dom_upd [OF finite_store_view, of s key None, where 'a = "64 word"] by (simp add: store_inv_def)
  show ?thesis using store_written [OF inv sq ins _ ve s' [unfolded n] c] s' unfolding entered_def by auto
qed

section \<open>Staying safe\<close>

text \<open>\<open>kept s s'\<close>: the same contents, nothing grown.  \<open>safe rs s s'\<close>: whatever a crash in \<open>s'\<close> leaves, the
  log is a readable one that is a prefix of \<open>rs\<close>, and replaying it over the tables gives what \<open>s\<close> showed.\<close>

definition kept_store :: "'a persistent_store_scheme \<Rightarrow> 'a persistent_store_scheme \<Rightarrow> bool" where
  "kept_store s s' \<longleftrightarrow> store_inv s' \<and> sm_directory s' = sm_directory s \<and> store_view s' = store_view s \<and>
     ms_last_sequence_number (ps_memtables s') = ms_last_sequence_number (ps_memtables s) \<and>
     store_load s' \<le> store_load s \<and> store_tables s' \<le> store_tables s"

definition log_image :: "wal_record list \<Rightarrow> bytes \<Rightarrow> bool" where
  "log_image rs img \<longleftrightarrow> (\<exists>tail. img = wal_log rs @ tail \<and> wal_decode tail = None) \<and> (\<forall>r\<in>set rs. valid_record r)"

definition safe :: "wal_record list \<Rightarrow> 'a persistent_store_scheme \<Rightarrow> 'b persistent_store_scheme \<Rightarrow> bool" where
  "safe rs s s' \<longleftrightarrow> (\<forall>disk img. fs_crash (w_fs s') disk \<longrightarrow> crash_image (ww_file (ps_wal_writer s')) img \<longrightarrow>
     (\<exists>rs'. prefix rs' rs \<and> log_image rs' img \<and>
        recoverable (sm_directory s) rs' (store_view s) (ms_last_sequence_number (ps_memtables s)) disk))"

definition settles :: "wal_record list \<Rightarrow> 'a persistent_store_scheme \<Rightarrow> 'b result \<Rightarrow> 'a persistent_store_scheme \<Rightarrow> bool" where
  "settles rs s r s' \<longleftrightarrow> safe rs s s' \<and> (\<forall>x. r = Inr x \<longrightarrow> kept_store s s' \<and> (\<exists>rs'. prefix rs' rs \<and> logged rs' s'))"

lemma kept_store_trans: "kept_store s s' \<Longrightarrow> kept_store s' s'' \<Longrightarrow> kept_store s s''"
  by (simp add: kept_store_def)

lemma safe_trans: "kept_store s s' \<Longrightarrow> prefix rs' rs \<Longrightarrow> safe rs' s' s'' \<Longrightarrow> safe rs s s''"
  unfolding safe_def kept_store_def by (metis prefix_order.trans)

lemma settles_trans:
  assumes "kept_store s s'" and "prefix rs' rs" and "settles rs' s' r s''"
  shows "settles rs s r s''"
  using assms safe_trans kept_store_trans unfolding settles_def by (metis prefix_order.trans)

lemma settles_bind:
  assumes "settles rs s r1 s1" and "bind_effect f g s0 = (r, s')" and "f s0 = (r1, s1)"
    and "\<And>x rs1. r1 = Inr x \<Longrightarrow> kept_store s s1 \<Longrightarrow> prefix rs1 rs \<Longrightarrow> logged rs1 s1 \<Longrightarrow> settles rs1 s1 r s'"
  shows "settles rs s r s'"
proof (cases r1)
  case (Inl e)
  then show ?thesis using assms(1-3) by (auto simp: settles_def)
next
  case (Inr x)
  with assms(1) obtain rs1 where "kept_store s s1" "prefix rs1 rs" "logged rs1 s1" by (auto simp: settles_def)
  then show ?thesis using settles_trans assms(4) [OF Inr] by blast
qed

lemma log_image_same:
  assumes "log_holds rs w" and "crash_image (ww_file w) img"
  shows "log_image rs img"
proof -
  have "img = wal_log rs" using assms by (auto simp: log_holds_def crash_image_def intro: prefix_order.antisym)
  then show ?thesis using assms(1) wal_codec.decode_empty by (simp add: log_holds_def log_image_def)
qed

lemma safe_log:
  assumes "logged rs s" and "ps_wal_writer s' = ps_wal_writer s"
    and "\<And>disk. fs_crash (w_fs s') disk \<Longrightarrow>
      recoverable (sm_directory s) rs (store_view s) (ms_last_sequence_number (ps_memtables s)) disk"
  shows "safe rs s s'"
  using assms log_image_same unfolding safe_def logged_def by (metis prefix_order.refl)

lemma safe_inv: "store_inv s \<Longrightarrow> logged rs s \<Longrightarrow> safe rs s s"
  using safe_log store_crash by blast

section \<open>Flushing every frozen MemTable\<close>

lemma flush_tables_settles:
  assumes "store_inv s" and "logged rs s" and "ms_immutable_tables (ps_memtables s) = rev us"
    and "store_load s < 2 ^ 32" and "store_tables s \<le> 10000" and "flush_tables us s = (r, s')"
  shows "settles rs s r s' \<and> (r = Inr () \<longrightarrow> ps_memtables s' = (ps_memtables s)\<lparr>ms_immutable_tables := []\<rparr> \<and> logged rs s')"
  using assms
proof (induction us arbitrary: s)
  case Nil
  then show ?case using safe_inv by (auto simp: settles_def kept_store_def)
next
  case (Cons t us)
  let ?m = "ps_memtables s"
  obtain r1 s1 where run: "sstable_flush [] t s = (r1, s1)" by fastforce
  have imm: "ms_immutable_tables ?m = rev us @ [t]" using Cons.prems(3) by simp
  have size: "length (mt_entries t) < 2 ^ 32" "length (sm_readers s) < 10000"
    using Cons.prems(4,5) imm ms_entries_snoc [OF imm] by (simp_all add: store_load_def store_tables_def)
  define s2 where "s2 = s1\<lparr>ps_memtables := ?m\<lparr>ms_immutable_tables := rev us\<rparr>\<rparr>"
  note fl = flush_oldest [OF Cons.prems(1,2) imm size run s2_def] and m1 = more_store [OF flush_oldest(1) [OF Cons.prems(1,2) imm size run s2_def]]
  show ?case
  proof (cases r1)
    case (Inl e)
    then have "r = Inl e" "s' = s1" using Cons.prems(6) run by simp_all
    then show ?thesis using safe_log [OF Cons.prems(2) m1(4) fl(2)] by (simp add: settles_def)
  next
    case (Inr md)
    note k = fl(3) [OF Inr]
    have "length (ms_tables ?m) < 2 ^ 64" using Cons.prems(5) by (simp add: ms_tables_def store_tables_def)
    then have dis: "discard_immutable ?m (mt_generation t) = (True, ?m\<lparr>ms_immutable_tables := rev us\<rparr>)"
      using Cons.prems(1) discard_oldest [OF consecutive_distinct imm] by (simp add: store_inv_def)
    have go: "flush_tables us s2 = (r, s')" using Cons.prems(6) run Inr dis m1(2) by (simp add: s2_def)
    have same: "store_load s2 = store_load s" "store_tables s2 = store_tables s"
      using k imm ms_entries_snoc [OF imm] by (simp_all add: store_load_def store_tables_def s2_def)
    have ks: "kept_store s s2" using k same by (simp add: kept_store_def s2_def)
    have "settles rs s2 r s' \<and> (r = Inr () \<longrightarrow> ps_memtables s' = (ps_memtables s2)\<lparr>ms_immutable_tables := []\<rparr> \<and> logged rs s')"
      using Cons.IH [of s2] k go same Cons.prems(4,5) by (simp add: s2_def)
    moreover have "(ps_memtables s2)\<lparr>ms_immutable_tables := []\<rparr> = ?m\<lparr>ms_immutable_tables := []\<rparr>" by (simp add: s2_def)
    ultimately show ?thesis using settles_trans [OF ks prefix_order.refl] by auto
  qed
qed

section \<open>The compaction loop\<close>

text \<open>It ends: every turn that goes on has one level-0 table less.\<close>

lemma compact_loop_ends:
  assumes "manager_inv s" and "compactable s" and "level0_count (sm_readers s) < n"
  shows "\<exists>r s'. compact_loop n s = Some (r, s') \<and> shows_same s s' \<and> leaves_same s (w_fs s') \<and> (r = Inr () \<longrightarrow> manager_inv s')"
  using assms
proof (induction n arbitrary: s)
  case (Suc n)
  show ?case
  proof (cases "needs_compaction s")
    case False
    then show ?thesis using Suc.prems(1) leaves_same_inv [OF _ shows_same_refl] by simp
  next
    case True
    obtain r1 s1 where run: "compact_level0 (\<lambda>s. s) False s = (r1, s1)" by fastforce
    then have c: "compact_if_needed (\<lambda>s. s) s = (r1, s1)" using True by (simp add: compact_if_needed_def)
    have st: "compacted s r1 s1" by (rule compact_steps [OF Suc.prems(1,2) run])
    then have ss: "shows_same s s1" "leaves_same s (w_fs s1)" by (simp_all add: compacted_def)
    show ?thesis
    proof (cases "\<exists>res. r1 = Inr res \<and> cr_performed res")
      case True
      then obtain res where res: "r1 = Inr res" "cr_performed res" by blast
      then have "manager_inv s1" "level0_count (sm_readers s1) < n" using st Suc.prems(3) by (auto simp: compacted_def)
      moreover have "compactable s1" using ss(1) Suc.prems(2) by (auto simp: compactable_def shows_same_def)
      ultimately obtain r s' where "compact_loop n s1 = Some (r, s')" "shows_same s1 s'" "leaves_same s1 (w_fs s')" "r = Inr () \<longrightarrow> manager_inv s'"
        using Suc.IH [of s1] by blast
      then show ?thesis using \<open>needs_compaction s\<close> c res shows_same_trans [OF ss(1)] leaves_same_trans [OF ss(1)] by simp
    next
      case False
      then show ?thesis using \<open>needs_compaction s\<close> c ss st by (cases r1) (auto simp: compacted_def)
    qed
  qed
qed simp

lemma shows_same_store:
  assumes inv: "store_inv s" and same: "shows_same s s'" and mi: "manager_inv s'"
  shows "kept_store s s'" and "logged rs s \<Longrightarrow> logged rs s'"
proof -
  from same have sh: "table_view (sm_readers s') = table_view (sm_readers s)" "sm_directory s' = sm_directory s"
      "sstable_manager.more s' = sstable_manager.more s" "length (sm_readers s') \<le> length (sm_readers s)"
      "all_entries (sm_readers s') \<subseteq> all_entries (sm_readers s)" "total_entries (sm_readers s') \<le> total_entries (sm_readers s)"
    by (simp_all add: shows_same_def)
  note m = more_store [OF sh(3)]
  have v: "store_view s' = store_view s"
  proof
    fix k
    show "store_view s' k = store_view s k"
      using fun_cong [OF sh(1), of k] m(2) by (simp add: store_view_def store_newest_def table_view_def split: option.split)
  qed
  have oks: "\<forall>t\<in>set (sm_readers s). table_ok t" "\<forall>t\<in>set (sm_readers s'). table_ok t"
    using inv mi by (auto simp: store_inv_def manager_inv_def tables_inv_def)
  have "maximum_sequence (sm_readers s') \<le> maximum_sequence (sm_readers s)"
    using maximum_sequence_entries [OF oks(1)] sh(5) unfolding maximum_sequence_entries [OF oks(2)] by blast
  then have mx: "sm_max_sequence_number s' \<le> sm_max_sequence_number s" using inv mi by (simp add: store_inv_def manager_inv_def)
  have "store_inv s'"
    using inv mi v m order_le_less_trans [OF mx] order_trans [OF mx] by (simp add: store_inv_def)
  then show "kept_store s s'" using v sh m by (simp add: kept_store_def store_load_def store_tables_def)
  show "logged rs s \<Longrightarrow> logged rs s'" using v sh(1) m by (simp add: logged_def)
qed

lemma leaves_same_safe:
  assumes inv: "store_inv s" and log: "logged rs s" and same: "leaves_same s (w_fs s')" and w: "ps_wal_writer s' = ps_wal_writer s"
  shows "safe rs s s'"
proof (rule safe_log [OF log w])
  fix disk assume "fs_crash (w_fs s') disk"
  then obtain ts where "disk_holds (sm_directory s) ts disk" "tables_inv (sm_directory s) ts" "table_view ts = table_view (sm_readers s)"
    "all_entries ts \<subseteq> all_entries (sm_readers s)" using same by (auto simp: leaves_same_def)
  then show "recoverable (sm_directory s) rs (store_view s) (ms_last_sequence_number (ps_memtables s)) disk"
    using log store_entries_bound [OF inv] unfolding recoverable_def logged_def by (metis subsetD)
qed

lemma compactable_store: "store_load s < 2 ^ 32 \<Longrightarrow> store_tables s \<le> 10000 \<Longrightarrow> compactable s"
  by (simp add: compactable_def store_load_def store_tables_def)

lemma compact_required_settles:
  assumes inv: "store_inv s" and log: "logged rs s" and size: "store_load s < 2 ^ 32" "store_tables s \<le> 10000"
    and run: "compact_if_required_locked s = (r, s')"
  shows "settles rs s r s' \<and> ps_memtables s' = ps_memtables s \<and> (r = Inr () \<longrightarrow> logged rs s')"
proof (cases "ps_automatic_compaction_enabled s")
  case False
  then show ?thesis using run inv log safe_inv by (auto simp: compact_if_required_locked_def settles_def kept_store_def)
next
  case True
  have mi: "manager_inv s" using inv by (simp add: store_inv_def)
  from compact_loop_ends [OF mi compactable_store [OF size], of "Suc (level0_count (sm_readers s))"]
  have sh: "shows_same s s'" and lv: "leaves_same s (w_fs s')" and mi': "r = Inr () \<longrightarrow> manager_inv s'"
    using run True by (auto simp: compact_if_required_locked_def)
  have more: "sstable_manager.more s' = sstable_manager.more s" using sh by (simp add: shows_same_def)
  show ?thesis
    using leaves_same_safe [OF inv log lv] shows_same_store [OF inv sh] mi' log more_store [OF more] unfolding settles_def by auto
qed

section \<open>Resetting the log\<close>

lemma wal_reset_cases:
  assumes "log_holds rs w" and "wal_reset w = (r, w')"
  shows "crash_image (ww_file w') img \<Longrightarrow> img = wal_log rs \<or> img = []" and "r = Inr () \<Longrightarrow> log_holds [] w'"
proof -
  from assms(1) have lh: "ww_mode w = SyncMode" "\<not> ww_dirty w" "ww_background_error w = None" "df_contents (ww_file w) = wal_log rs"
    "df_durable (ww_file w) = wal_log rs" by (simp_all add: log_holds_def)
  obtain r1 w1 where t: "wal_truncate_file w = (r1, w1)" by fastforce
  have t1: "(\<exists>e evs. r1 = Inl e \<and> w1 = w\<lparr>ww_events := evs\<rparr>) \<or> (\<exists>evs. r1 = Inr () \<and> w1 = w\<lparr>ww_file := file_truncate 0 (ww_file w), ww_events := evs\<rparr>)"
    using t by (auto simp: wal_truncate_file_def split: prod.splits sum.splits)
  have "(crash_image (ww_file w') img \<longrightarrow> img = wal_log rs \<or> img = []) \<and> (r = Inr () \<longrightarrow> log_holds [] w')"
  proof (cases r1)
    case (Inl e)
    then have "r = Inl e" "w' = w1" using assms(2) lh t by (simp_all add: wal_reset_def throw_if_background_flush_failed_locked_def flush_locked_def)
    then show ?thesis using t1 Inl lh by (auto simp: crash_image_def intro: prefix_order.antisym)
  next
    case (Inr x)
    then obtain evs where w1: "w1 = w\<lparr>ww_file := file_truncate 0 (ww_file w), ww_events := evs\<rparr>" using t1 by auto
    obtain r2 w2 where y: "wal_sync_file w1 = (r2, w2)" by fastforce
    then show ?thesis
    proof (cases rule: wal_sync_fileE)
      case (ok evs')
      then have "r = Inr ()" "w' = w2\<lparr>ww_bytes_appended := 0, ww_dirty := False\<rparr>" using assms(2) lh t y Inr
        by (simp_all add: wal_reset_def throw_if_background_flush_failed_locked_def flush_locked_def)
      then show ?thesis using ok w1 lh by (auto simp: crash_image_def log_holds_def)
    next
      case (failed e evs')
      then have "r = Inl e" "w' = w2" using assms(2) lh t y Inr
        by (simp_all add: wal_reset_def throw_if_background_flush_failed_locked_def flush_locked_def)
      then show ?thesis using failed w1 lh by (auto simp: crash_image_def)
    qed
  qed
  then show "crash_image (ww_file w') img \<Longrightarrow> img = wal_log rs \<or> img = []" and "r = Inr () \<Longrightarrow> log_holds [] w'" by blast+
qed

lemma reset_settles:
  assumes inv: "store_inv s" and log: "logged rs s" and empty: "ms_entries (ps_memtables s) = []" and run: "on_wal wal_reset s = (r, s')"
  shows "settles rs s r s' \<and> ps_memtables s' = ps_memtables s \<and> (r = Inr () \<longrightarrow> logged [] s')"
proof -
  obtain w where w: "wal_reset (ps_wal_writer s) = (r, w)" and s': "s' = s\<lparr>ps_wal_writer := w\<rparr>"
    using run by (auto simp: on_wal_def split: prod.splits)
  have lh: "log_holds rs (ps_wal_writer s)" using log by (simp add: logged_def)
  note c = wal_reset_cases [OF lh w]
  have view: "store_view s = table_view (sm_readers s)" using empty by (simp add: fun_eq_iff store_view_def store_newest_def table_view_def)
  have lnil: "log_image [] []" by (simp add: log_image_def wal_codec.decode_empty)
  have lrs: "log_image rs (wal_log rs)" using lh by (simp add: log_image_def log_holds_def wal_codec.decode_empty)
  have both: "recoverable (sm_directory s) rs (store_view s) (ms_last_sequence_number (ps_memtables s)) disk \<and>
      recoverable (sm_directory s) [] (store_view s) (ms_last_sequence_number (ps_memtables s)) disk" if crash: "fs_crash (w_fs s) disk" for disk
  proof -
    obtain ts where "disk_holds (sm_directory s) ts disk" "tables_inv (sm_directory s) ts" "table_view ts = table_view (sm_readers s)"
      "\<forall>r\<in>all_entries ts. entry_sequence_number (snd r) \<le> ms_last_sequence_number (ps_memtables s)"
    proof
      show "disk_holds (sm_directory s) (sm_readers s) disk" using manager_crash [OF _ crash] inv by (simp add: store_inv_def)
      show "tables_inv (sm_directory s) (sm_readers s)" using inv by (simp add: store_inv_def manager_inv_def)
    qed (use store_entries_bound [OF inv] in simp_all)
    then show ?thesis using view log unfolding recoverable_def logged_def by auto
  qed
  have "safe rs s s'"
    unfolding safe_def
  proof (intro allI impI)
    fix disk img assume f: "fs_crash (w_fs s') disk" and i: "crash_image (ww_file (ps_wal_writer s')) img"
    from i have "img = wal_log rs \<or> img = []" using c(1) by (simp add: s')
    moreover have "fs_crash (w_fs s) disk" using f by (simp add: s')
    note both [OF this]
    ultimately show "\<exists>rs'. prefix rs' rs \<and> log_image rs' img \<and>
        recoverable (sm_directory s) rs' (store_view s) (ms_last_sequence_number (ps_memtables s)) disk"
      using lnil lrs by (elim disjE) (blast intro: prefix_order.refl Nil_prefix)+
  qed
  moreover have "store_view s' = store_view s" by (simp add: s' fun_eq_iff store_view_def store_newest_def split: option.split)
  then have "kept_store s s'"
    using inv unfolding s' kept_store_def store_inv_def
    by (simp add: store_load_def store_tables_def)
  moreover have "logged [] s'" if "r = Inr ()"
    using c(2) [OF that] empty view \<open>store_view s' = store_view s\<close> by (simp add: s' logged_def)
  moreover have "ps_memtables s' = ps_memtables s" by (simp add: s')
  moreover have "\<exists>rs'. prefix rs' rs \<and> logged rs' s'" if "r = Inr x" for x
    using \<open>r = Inr () \<Longrightarrow> logged [] s'\<close> that by (intro exI [of _ "[]"]) simp
  ultimately show ?thesis unfolding settles_def by blast
qed

lemma reset_if_settles:
  assumes inv: "store_inv s" and log: "logged rs s" and run: "reset_wal_if_fully_persisted_locked s = (r, s')"
  shows "settles rs s r s'"
proof (cases "ms_active_entry_count (ps_memtables s) = 0 \<and> ms_immutable_table_count (ps_memtables s) = 0")
  case True
  then have "ms_entries (ps_memtables s) = []"
    by (simp add: ms_active_entry_count_def ms_immutable_table_count_def memtable_entry_count_def ms_entries_def ms_tables_def)
  from reset_settles [OF inv log this] show ?thesis using run True by (simp add: reset_wal_if_fully_persisted_locked_def)
next
  case False
  then have "r = Inr ()" "s' = s" using run by (auto simp: reset_wal_if_fully_persisted_locked_def)
  then show ?thesis using inv log safe_inv by (auto simp: settles_def kept_store_def)
qed

section \<open>What follows a write\<close>

lemma flush_immutable_settles:
  assumes "store_inv s" and "logged rs s" and "store_load s < 2 ^ 32" and "store_tables s \<le> 10000"
    and "flush_immutable_memtables_locked s = (r, s')"
  shows "settles rs s r s' \<and> (r = Inr () \<longrightarrow> ps_memtables s' = (ps_memtables s)\<lparr>ms_immutable_tables := []\<rparr> \<and> logged rs s')"
  using flush_tables_settles [OF assms(1,2) _ assms(3,4), of "rev (ms_immutable_tables (ps_memtables s))"] assms(5)
  by (simp add: flush_immutable_memtables_locked_def)

lemma after_write_settles:
  assumes inv: "store_inv s" and log: "logged rs s" and size: "store_load s < 2 ^ 32" "store_tables s \<le> 10000"
    and run: "bind_effect flush_immutable_memtables_locked (\<lambda>_. bind_effect compact_if_required_locked (\<lambda>_.
      bind_effect reset_wal_if_fully_persisted_locked (\<lambda>_. lift_result (Inr x)))) s = (r, s')"
  shows "settles rs s r s'"
proof -
  obtain r1 s1 where f: "flush_immutable_memtables_locked s = (r1, s1)" by fastforce
  have "settles rs s r1 s1" using flush_immutable_settles [OF inv log size f] by blast
  then show ?thesis
  proof (rule settles_bind [OF _ run f])
    fix u rs1 assume 1: "r1 = Inr u" "kept_store s s1" "logged rs1 s1"
    then have i1: "store_inv s1" "store_load s1 < 2 ^ 32" "store_tables s1 \<le> 10000" using size by (simp_all add: kept_store_def)
    obtain r2 s2 where c: "compact_if_required_locked s1 = (r2, s2)" by fastforce
    have run1: "bind_effect compact_if_required_locked (\<lambda>_. bind_effect reset_wal_if_fully_persisted_locked (\<lambda>_. lift_result (Inr x))) s1 = (r, s')"
      using run f 1(1) by simp
    have "settles rs1 s1 r2 s2" using compact_required_settles [OF i1(1) 1(3) i1(2,3) c] by blast
    then show "settles rs1 s1 r s'"
    proof (rule settles_bind [OF _ run1 c])
      fix u' rs2 assume 2: "r2 = Inr u'" "kept_store s1 s2" "logged rs2 s2"
      obtain r3 s3 where d: "reset_wal_if_fully_persisted_locked s2 = (r3, s3)" by fastforce
      have "settles rs2 s2 r3 s3" using reset_if_settles [OF _ 2(3) d] 2(2) by (simp add: kept_store_def)
      then show "settles rs2 s2 r s'" using run1 c 2(1) d by (cases r3) (auto simp: settles_def)
    qed
  qed
qed

section \<open>Appending to the log\<close>

lemma append_step:
  assumes "log_holds rs w" and "wal_append rec w = (x, w')"
  shows "x = Inr () \<Longrightarrow> log_holds (rs @ [rec]) w'"
    and "crash_image (ww_file w') img \<Longrightarrow> log_image rs img \<or> log_image (rs @ [rec]) img"
proof -
  from assms(1) have lh: "ww_mode w = SyncMode" "df_contents (ww_file w) = wal_log rs" "df_durable (ww_file w) = wal_log rs"
    "\<forall>r\<in>set rs. valid_record r" by (simp_all add: log_holds_def)
  show "log_holds (rs @ [rec]) w'" if "x = Inr ()"
    using assms(2)
  proof (cases rule: wal_append_cases)
    case (acked evs)
    then show ?thesis using lh assms(1) by (simp add: log_holds_def)
  qed (use that in simp_all)
  obtain n where run: "wal_append_all [rec] w = (n, w')" using assms(2) by (cases x) auto
  show "log_image rs img \<or> log_image (rs @ [rec]) img" if "crash_image (ww_file w') img"
  proof -
    from crash_image_log [OF lh run that] obtain j tail where "j \<le> length [rec]" "\<forall>r\<in>set (rs @ take j [rec]). valid_record r"
      "img = wal_log (rs @ take j [rec]) @ tail" "wal_decode tail = None" by metis
    then have "log_image (rs @ take j [rec]) img" unfolding log_image_def by blast
    moreover have "j = 0 \<or> j = 1" using \<open>j \<le> length [rec]\<close> by auto
    ultimately show ?thesis by auto
  qed
qed

section \<open>The write operations\<close>

primrec op_record :: "kv_op \<Rightarrow> wal_record" where
  "op_record (OpPut k v) = \<lparr>wr_operation = Put, wr_key = k, wr_value = v\<rparr>"
| "op_record (OpRemove k) = \<lparr>wr_operation = Delete, wr_key = k, wr_value = []\<rparr>"

lemma record_op_record [simp]: "record_op (op_record p) = p" "wr_key (op_record (OpPut k v)) = k" "wr_key (op_record (OpRemove k)) = k"
  by (cases p) (simp_all add: record_op_def)

primrec store_apply :: "kv_op \<Rightarrow> ('a persistent_store_scheme, unit) effect" where
  "store_apply (OpPut k v) = store_put k v"
| "store_apply (OpRemove k) = bind_effect (store_remove k) (\<lambda>_. lift_result (Inr ()))"

text \<open>\<open>stored rs p s r s'\<close>: a call that returned has done \<open>p\<close>; at any point of the call a crash leaves the
  contents before or after \<open>p\<close>.\<close>

definition survives :: "wal_record list \<Rightarrow> (bytes \<rightharpoonup> bytes) set \<Rightarrow> 'a persistent_store_scheme \<Rightarrow> 'b persistent_store_scheme \<Rightarrow> bool" where
  "survives rs Vs s s' \<longleftrightarrow> (\<forall>disk img. fs_crash (w_fs s') disk \<longrightarrow> crash_image (ww_file (ps_wal_writer s')) img \<longrightarrow>
     (\<exists>rs' V B. prefix rs' rs \<and> log_image rs' img \<and> V \<in> Vs \<and> unat B \<le> Suc (unat (ms_last_sequence_number (ps_memtables s))) \<and>
        recoverable (sm_directory s) rs' V B disk))"

definition stored :: "wal_record list \<Rightarrow> kv_op \<Rightarrow> 'a persistent_store_scheme \<Rightarrow> 'b result \<Rightarrow> 'a persistent_store_scheme \<Rightarrow> bool" where
  "stored rs p s r s' \<longleftrightarrow> survives (rs @ [op_record p]) {store_view s, apply_op p (store_view s)} s s' \<and>
     (\<forall>x. r = Inr x \<longrightarrow> store_inv s' \<and> sm_directory s' = sm_directory s \<and> store_view s' = apply_op p (store_view s) \<and>
        unat (ms_last_sequence_number (ps_memtables s')) \<le> Suc (unat (ms_last_sequence_number (ps_memtables s))) \<and>
        store_load s' \<le> Suc (store_load s) \<and> store_tables s' \<le> Suc (store_tables s) \<and>
        (\<exists>rs'. prefix rs' (rs @ [op_record p]) \<and> logged rs' s'))"

lemma safe_survives:
  assumes "safe rs s s'" and "V = store_view s" and "V \<in> Vs" and "prefix rs rs'" and "sm_directory s = sm_directory s0"
    and "unat (ms_last_sequence_number (ps_memtables s)) \<le> Suc (unat (ms_last_sequence_number (ps_memtables s0)))"
  shows "survives rs' Vs s0 s'"
  using assms unfolding safe_def survives_def by (metis prefix_order.trans)

lemma stored_unchanged:
  assumes "store_inv s1" and "logged rs s1" and "store_view s1 = store_view s" and "sm_directory s1 = sm_directory s"
    and "ps_memtables s1 = ps_memtables s" and "store_load s1 = store_load s" and "store_tables s1 = store_tables s"
    and "\<And>x. r = Inr x \<Longrightarrow> apply_op p (store_view s) = store_view s"
  shows "stored rs p s r s1"
proof -
  have "survives (rs @ [op_record p]) {store_view s, apply_op p (store_view s)} s s1"
    by (rule safe_survives [OF safe_inv [OF assms(1,2)] refl]) (use assms in simp_all)
  then show ?thesis using assms unfolding stored_def by (auto intro: prefix_order.trans [of rs rs])
qed

lemma unat_succ: "(a :: u64) < b \<Longrightarrow> b = a + 1 \<Longrightarrow> unat b = Suc (unat a)"
  by (simp add: word_less_nat_alt unat_plus_if_size word_size split: if_splits)

text \<open>The common tail of \<open>put\<close> and \<open>remove\<close>: append the record, update the MemTables, tidy up.\<close>

lemma write_stored:
  assumes inv: "store_inv s" and log: "logged rs s" and size: "Suc (store_load s) < 2 ^ 32" "Suc (store_tables s) \<le> 10000"
    and upd: "\<And>s1 m. update (s1 :: 'a persistent_store_scheme) = Inr m \<Longrightarrow> store_inv s1 \<Longrightarrow> store_view s1 = store_view s \<Longrightarrow>
      entered (wr_key (op_record p)) (apply_op p (store_view s) (wr_key (op_record p))) s1 (finish m s1)"
    and app: "apply_op p (store_view s) = (store_view s)(wr_key (op_record p) := apply_op p (store_view s) (wr_key (op_record p)))"
    and run: "bind_effect (on_wal (wal_append (op_record p))) (\<lambda>_ s. bind_effect (lift_result (update s)) (\<lambda>m s.
      bind_effect flush_immutable_memtables_locked (\<lambda>_. bind_effect compact_if_required_locked (\<lambda>_.
      bind_effect reset_wal_if_fully_persisted_locked (\<lambda>_. lift_result (Inr res)))) (finish m s)) s) s = (r, s')"
  shows "stored rs p s r s'"
proof -
  let ?rs = "rs @ [op_record p]" and ?V = "apply_op p (store_view s)" and ?B = "ms_last_sequence_number (ps_memtables s)"
  obtain x w where w: "wal_append (op_record p) (ps_wal_writer s) = (x, w)" by fastforce
  define s1 where "s1 = s\<lparr>ps_wal_writer := w\<rparr>"
  have oa: "on_wal (wal_append (op_record p)) s = (x, s1)" by (simp add: on_wal_def w s1_def)
  have lh: "log_holds rs (ps_wal_writer s)" using log by (simp add: logged_def)
  note ap = append_step [OF lh w]
  have v1: "store_view s1 = store_view s" by (simp add: s1_def fun_eq_iff store_view_def store_newest_def split: option.split)
  have i1: "store_inv s1" using inv v1 by (simp add: s1_def store_inv_def)
  have rec: "recoverable (sm_directory s) rs (store_view s) ?B disk \<and> recoverable (sm_directory s) ?rs ?V ?B disk"
    if "fs_crash (w_fs s) disk" for disk
    using store_crash [OF inv log that] by (auto simp: recoverable_def)
  have surv1: "survives ?rs {store_view s, ?V} s s1"
    unfolding survives_def
  proof (intro allI impI)
    fix disk img assume "fs_crash (w_fs s1) disk" "crash_image (ww_file (ps_wal_writer s1)) img"
    then have "log_image rs img \<or> log_image ?rs img" and rc: "recoverable (sm_directory s) rs (store_view s) ?B disk"
      "recoverable (sm_directory s) ?rs ?V ?B disk" using ap(2) rec by (simp_all add: s1_def)
    then show "\<exists>rs' V B. prefix rs' ?rs \<and> log_image rs' img \<and> V \<in> {store_view s, ?V} \<and> unat B \<le> Suc (unat ?B) \<and>
        recoverable (sm_directory s) rs' V B disk"
      by (elim disjE) (rule exI [of _ rs], rule exI [of _ "store_view s"], rule exI [of _ ?B], simp,
        rule exI [of _ ?rs], rule exI [of _ ?V], rule exI [of _ ?B], simp)
  qed
  show ?thesis
  proof (cases x)
    case (Inl e)
    then have "r = Inl e" "s' = s1" using run oa by simp_all
    then show ?thesis using surv1 by (simp add: stored_def)
  next
    case (Inr u)
    show ?thesis
    proof (cases "update s1")
      case (Inl e)
      then have "r = Inl e" "s' = s1" using run oa Inr by simp_all
      then show ?thesis using surv1 by (simp add: stored_def)
    next
      case m: (Inr m)
      define s2 where "s2 = finish m s1"
      have ent: "entered (wr_key (op_record p)) (?V (wr_key (op_record p))) s1 s2" unfolding s2_def by (rule upd [OF m i1 v1])
      then obtain m2 n2 where s2: "s2 = s1\<lparr>ps_memtables := m2, ps_live_key_count := n2\<rparr>" by (auto simp: entered_def)
      have view2: "store_view s2 = ?V" using ent v1 app by (simp add: entered_def)
      have i2: "store_inv s2" "store_load s2 \<le> Suc (store_load s)" "store_tables s2 \<le> Suc (store_tables s)"
        "unat (ms_last_sequence_number (ps_memtables s2)) \<le> Suc (unat ?B)"
        using ent unat_succ [of ?B "ms_last_sequence_number (ps_memtables s2)"]
        by (auto simp: entered_def s1_def store_load_def store_tables_def)
      have dir2: "sm_directory s2 = sm_directory s" by (simp add: s2 s1_def)
      have log2: "logged ?rs s2"
      proof -
        have "log_holds ?rs (ps_wal_writer s2)" using ap(1) Inr by (simp add: s2 s1_def)
        moreover have "fst ` set (ms_entries (ps_memtables s2)) \<subseteq> wr_key ` set ?rs"
        proof -
          have "fst ` set (ms_entries (ps_memtables s2)) \<subseteq> insert (wr_key (op_record p)) (fst ` set (ms_entries (ps_memtables s)))"
            using ent by (simp add: entered_def s1_def)
          moreover have "fst ` set (ms_entries (ps_memtables s)) \<subseteq> wr_key ` set rs" using log by (simp add: logged_def)
          ultimately show ?thesis by auto
        qed
        moreover have "store_view s2 = replay ?rs (table_view (sm_readers s2))" using view2 log by (simp add: logged_def s2 s1_def)
        ultimately show ?thesis by (simp add: logged_def)
      qed
      have "settles ?rs s2 r s'"
        by (rule after_write_settles [OF i2(1) log2, of res]) (use run oa Inr m size i2 in \<open>simp_all add: s2_def\<close>)
      then have saf: "safe ?rs s2 s'" and fin: "\<And>x. r = Inr x \<Longrightarrow> kept_store s2 s' \<and> (\<exists>rs'. prefix rs' ?rs \<and> logged rs' s')"
        by (auto simp: settles_def)
      have "survives ?rs {store_view s, ?V} s s'" by (rule safe_survives [OF saf view2 [symmetric]]) (use dir2 i2(4) in simp_all)
      then show ?thesis using fin view2 dir2 i2 by (auto simp: stored_def kept_store_def)
    qed
  qed
qed

end
