(* ===== verification/StoreCrash.thy ===== *)
theory StoreCrash
  imports StoreSteps
begin

text \<open>
  The persistent store as its clients see it: each write acts on the contents as on a map, a crash at any
  point loses no acknowledged write, and reopening the store after the crash restores the contents.
\<close>

section \<open>Single writes\<close>

definition has_room :: "'a persistent_store_scheme \<Rightarrow> nat \<Rightarrow> bool" where
  "has_room s n \<longleftrightarrow> store_load s + n < 2 ^ 32 \<and> store_tables s + n \<le> 10000"

lemma store_reads:
  assumes "store_inv s" and "logged rs s" and "reads s s1" and "manager_inv s1"
  shows "store_inv s1" "logged rs s1" "store_view s1 = store_view s" "sm_directory s1 = sm_directory s"
    "ps_memtables s1 = ps_memtables s" "store_load s1 = store_load s" "store_tables s1 = store_tables s"
    "ps_live_key_count s1 = ps_live_key_count s" "ps_abi s1 = ps_abi s"
proof -
  note f = reads_fields [OF assms(3)] and m = more_store [OF reads_fields(12) [OF assms(3)]]
  show "store_inv s1" "logged rs s1" using reads_store [OF assms(1,3,4)] assms(2) by blast+
  show "store_view s1 = store_view s" by (rule reads_view(2) [OF assms(3)])
  show "sm_directory s1 = sm_directory s" "ps_memtables s1 = ps_memtables s" "store_load s1 = store_load s" "store_tables s1 = store_tables s"
    "ps_live_key_count s1 = ps_live_key_count s" "ps_abi s1 = ps_abi s"
    using f m by (simp_all add: store_load_def store_tables_def)
qed

lemma stored_cong:
  assumes "stored rs p s1 r s'" and "store_view s1 = store_view s" and "sm_directory s1 = sm_directory s"
    and "ps_memtables s1 = ps_memtables s" and "store_load s1 = store_load s" and "store_tables s1 = store_tables s"
  shows "stored rs p s r s'"
  using assms by (simp add: stored_def survives_def)

lemma bind_unit: "bind_effect f (\<lambda>_. lift_result (Inr ())) = f"
proof
  fix s
  show "bind_effect f (\<lambda>_. lift_result (Inr ())) s = f s" by (cases "f s"; cases "fst (f s)") auto
qed

lemma store_put_stored:
  assumes inv: "store_inv s" and log: "logged rs s" and room: "has_room s 1" and run: "store_put k v s = (r, s')"
  shows "stored rs (OpPut k v) s r s'"
proof (cases "valid_key k \<and> valid_value v")
  case False
  then consider e where "validate_key k = Inl e" | e where "validate_key k = Inr ()" "validate_value v = Inl e"
    using validate_key_invalid [of k] validate_value_invalid [of v] validate_key_valid [of k] by blast
  then have "\<exists>e. store_put k v s = (Inl e, s)" by cases (simp_all add: store_put_def)
  then have "(\<exists>e. r = Inl e) \<and> s' = s" using run by auto
  then show ?thesis using inv log by (intro stored_unchanged) auto
next
  case True
  obtain r1 s1 where ex: "exists_without_validation k s = (r1, s1)" by fastforce
  from inv have mi: "manager_inv s" by (simp add: store_inv_def)
  note e = exists_run [OF mi _ ex] and sr = store_reads [OF inv log exists_run(1,2) [OF mi _ ex]]
  show ?thesis
  proof (cases r1)
    case (Inl err)
    then have "r = Inl err" "s' = s1" using run True ex by (simp_all add: store_put_def)
    then show ?thesis using sr True by (intro stored_unchanged) auto
  next
    case (Inr live)
    then have live: "live \<longleftrightarrow> store_view s k \<noteq> None" using e(3) True by blast
    have st: "stored rs (OpPut k v) s1 r s'"
    proof (rule write_stored [where update = "\<lambda>s. memtable_set_put (ps_abi s) (ps_memtables s) k v" and
        finish = "\<lambda>m s. s\<lparr>ps_memtables := m, ps_live_key_count := (if live then ps_live_key_count s else ps_live_key_count s + 1)\<rparr>"])
      show "entered (wr_key (op_record (OpPut k v))) (apply_op (OpPut k v) (store_view s1) (wr_key (op_record (OpPut k v)))) s2
          (s2\<lparr>ps_memtables := m, ps_live_key_count := (if live then ps_live_key_count s2 else ps_live_key_count s2 + 1)\<rparr>)"
        if "memtable_set_put (ps_abi s2) (ps_memtables s2) k v = Inr m" "store_inv s2" "store_view s2 = store_view s1" for s2 m
        using entered_put [OF that(2,1) refl] that(3) live sr(3) True by simp
    qed (use sr True room run ex Inr in \<open>simp_all add: has_room_def store_put_def Let_def bind_unit\<close>)
    then show ?thesis using sr True by (intro stored_cong [OF st]) simp_all
  qed
qed

lemma store_remove_stored:
  assumes inv: "store_inv s" and log: "logged rs s" and room: "has_room s 1"
    and run: "store_remove k s = (r, s')"
  shows "stored rs (OpRemove k) s r s'"
proof (cases "valid_key k")
  case False
  then obtain e where "validate_key k = Inl e" using validate_key_invalid by blast
  then have "r = Inl e" "s' = s" using run by (simp_all add: store_remove_def)
  then show ?thesis using inv log by (intro stored_unchanged) auto
next
  case True
  obtain r1 s1 where ex: "exists_without_validation k s = (r1, s1)" by fastforce
  from inv have mi: "manager_inv s" by (simp add: store_inv_def)
  note e = exists_run [OF mi True ex] and sr = store_reads [OF inv log exists_run(1,2) [OF mi True ex]]
  show ?thesis
  proof (cases "r1 = Inr True")
    case False
    then have "s' = s1" and none: "\<And>x. r = Inr x \<Longrightarrow> store_view s k = None"
      using run True ex e(3) by (cases r1; auto simp: store_remove_def)+
    then show ?thesis using sr by (intro stored_unchanged) (auto simp: fun_upd_idem)
  next
    case live: True
    then have view: "store_view s k \<noteq> None" using e(3) by blast
    have st: "stored rs (OpRemove k) s1 r s'"
    proof (rule write_stored [where update = "\<lambda>s. memtable_set_add_tombstone (ps_abi s) (ps_memtables s) k" and
        finish = "\<lambda>m s. s\<lparr>ps_memtables := m, ps_live_key_count := ps_live_key_count s - 1\<rparr>"])
      show "entered (wr_key (op_record (OpRemove k))) (apply_op (OpRemove k) (store_view s1) (wr_key (op_record (OpRemove k)))) s2
          (s2\<lparr>ps_memtables := m, ps_live_key_count := ps_live_key_count s2 - 1\<rparr>)"
        if "memtable_set_add_tombstone (ps_abi s2) (ps_memtables s2) k = Inr m" "store_inv s2" "store_view s2 = store_view s1" for s2 m
        using entered_tombstone [OF that(2,1) _ refl] that(3) view sr(3) by simp
    qed (use sr True room run ex live in \<open>simp_all add: has_room_def store_remove_def Let_def\<close>)
    then show ?thesis using sr by (intro stored_cong [OF st]) simp_all
  qed
qed

lemma store_remove_found:
  assumes "store_inv s" and "store_remove k s = (Inr b, s')"
  shows "b \<longleftrightarrow> store_view s k \<noteq> None"
proof -
  obtain r1 s1 where ex: "exists_without_validation k s = (r1, s1)" by fastforce
  have key: "valid_key k" using assms(2) by (auto simp: store_remove_def result_simps)
  have mi: "manager_inv s" using assms(1) by (simp add: store_inv_def)
  from assms(2) ex key obtain live where r1: "r1 = Inr live" by (cases r1) (auto simp: store_remove_def)
  have "b = live" using assms(2) ex key r1 by (cases live) (auto simp: store_remove_def result_simps Let_def)
  then show ?thesis using exists_run(3) [OF mi key ex r1] by simp
qed

lemma store_apply_stored:
  assumes "store_inv s" and "logged rs s" and "has_room s 1" and "store_apply p s = (r, s')"
  shows "stored rs p s r s'"
proof (cases p)
  case (OpPut k v)
  then show ?thesis using assms store_put_stored by simp
next
  case (OpRemove k)
  obtain r1 s1 where run: "store_remove k s = (r1, s1)" by fastforce
  then have "s' = s1" "(\<exists>x. r = Inr x) \<Longrightarrow> \<exists>x. r1 = Inr x" using assms(4) OpRemove by (cases r1; auto)+
  then show ?thesis using store_remove_stored [OF assms(1-3) run] unfolding stored_def OpRemove by blast
qed

section \<open>Sequences of writes\<close>

text \<open>A client that writes until the first exception: the number of acknowledged writes and the state.\<close>

fun store_run :: "kv_op list \<Rightarrow> 'a persistent_store_scheme \<Rightarrow> nat \<times> 'a persistent_store_scheme" where
  "store_run [] s = (0, s)"
| "store_run (p # ps) s =
     (case store_apply p s of
        (Inl e, s') \<Rightarrow> (0, s')
      | (Inr _, s') \<Rightarrow> let (n, s'') = store_run ps s' in (Suc n, s''))"

lemma prefix_log: "prefix rs rs' \<Longrightarrow> length (wal_log rs) \<le> length (wal_log rs')"
  by (auto simp: prefix_def)

lemma store_run_survives:
  assumes "store_inv s" and "logged rs s" and "has_room s (length ps)" and "store_run ps s = (n, s')"
    and "fs_crash (w_fs s') disk" and "crash_image (ww_file (ps_wal_writer s')) img"
  shows "\<exists>j rs' B. n \<le> j \<and> j \<le> Suc n \<and> j \<le> length ps \<and> length (wal_log rs') \<le> length (wal_log (rs @ map op_record ps)) \<and> log_image rs' img \<and>
    unat B \<le> unat (ms_last_sequence_number (ps_memtables s)) + length ps \<and>
    recoverable (sm_directory s) rs' (fold apply_op (take j ps) (store_view s)) B disk"
  using assms(1-4)
proof (induction ps arbitrary: s rs n)
  case Nil
  have "n = 0" "s' = s" using Nil(4) by simp_all
  with safe_inv [OF Nil(1,2)] assms(5,6) obtain rs' where "prefix rs' rs" "log_image rs' img"
    "recoverable (sm_directory s) rs' (store_view s) (ms_last_sequence_number (ps_memtables s)) disk" unfolding safe_def by blast
  then show ?case using \<open>n = 0\<close> prefix_log [of rs' rs] by (intro exI [of _ 0] exI [of _ rs'] exI [of _ "ms_last_sequence_number (ps_memtables s)"]) simp
next
  case (Cons p ps)
  obtain r s1 where ap: "store_apply p s = (r, s1)" by fastforce
  have st: "stored rs p s r s1" by (rule store_apply_stored [OF Cons.prems(1,2) _ ap]) (use Cons.prems(3) in \<open>simp add: has_room_def\<close>)
  have pre: "length (wal_log rs') \<le> length (wal_log rs) + length (wal_encode (op_record p))" if "prefix rs' (rs @ [op_record p])" for rs'
    using prefix_log [OF that] by simp
  show ?case
  proof (cases r)
    case (Inl e)
    then have eq: "n = 0" "s' = s1" using Cons.prems(4) ap by simp_all
    from st assms(5,6) eq(2) obtain rs' V B where "prefix rs' (rs @ [op_record p])" "log_image rs' img"
      "V = store_view s \<or> V = apply_op p (store_view s)" "unat B \<le> Suc (unat (ms_last_sequence_number (ps_memtables s)))"
      "recoverable (sm_directory s) rs' V B disk" unfolding stored_def survives_def by blast
    note v = this
    from v(3) have "\<exists>j\<le>1. V = fold apply_op (take j (p # ps)) (store_view s)" by (elim disjE) (rule exI [of _ 0], simp, rule exI [of _ 1], simp)
    then obtain j where "j \<le> 1" "V = fold apply_op (take j (p # ps)) (store_view s)" by blast
    then show ?thesis using v pre [OF v(1)] eq(1) by (intro exI [of _ j] exI [of _ rs'] exI [of _ B]) auto
  next
    case (Inr u)
    obtain m where m: "store_run ps s1 = (m, s')" "n = Suc m" using Cons.prems(4) ap Inr by (auto split: prod.splits)
    from st Inr obtain rs1 where s1: "store_inv s1" "sm_directory s1 = sm_directory s" "store_view s1 = apply_op p (store_view s)"
      "unat (ms_last_sequence_number (ps_memtables s1)) \<le> Suc (unat (ms_last_sequence_number (ps_memtables s)))"
      "store_load s1 \<le> Suc (store_load s)" "store_tables s1 \<le> Suc (store_tables s)" and rs1: "prefix rs1 (rs @ [op_record p])" "logged rs1 s1"
      unfolding stored_def by auto
    have "has_room s1 (length ps)" using s1(5,6) Cons.prems(3) by (simp add: has_room_def)
    from Cons.IH [OF s1(1) rs1(2) this m(1)] obtain j rs' B where "m \<le> j" "j \<le> Suc m" "j \<le> length ps"
      "length (wal_log rs') \<le> length (wal_log (rs1 @ map op_record ps))" "log_image rs' img" "unat B \<le> unat (ms_last_sequence_number (ps_memtables s1)) + length ps"
      "recoverable (sm_directory s) rs' (fold apply_op (take j ps) (apply_op p (store_view s))) B disk"
      unfolding s1(2,3) by blast
    then show ?thesis using m(2) s1(4) pre [OF rs1(1)]
      by (intro exI [of _ "Suc j"] exI [of _ rs'] exI [of _ B]) auto
  qed
qed

end
