(* ===== verification/StoreRestart.thy ===== *)
theory StoreRestart
  imports StoreCrash
begin

text \<open>
  Reopening the store: the constructor loads the tables the manifest lists, replays the log over them and
  ends with the contents the crash left.  During the replay the store itself is the destination of the
  recovery, and it keeps the laws of a key-value store.
\<close>

section \<open>The store as the destination of the replay\<close>

lemma destination_putE:
  assumes inv: "store_inv s" and run: "destination_put s k v = Inr s'"
  obtains s1 where "reads s s1" and "store_inv s1" and "entered k (Some v) s1 s'"
proof -
  obtain r s1 where ex: "exists_without_validation k s = (r, s1)" by fastforce
  from run ex obtain live where r: "r = Inr live" by (cases r) (auto simp: destination_put_def)
  from run ex r obtain m where m: "memtable_set_put (ps_abi s1) (ps_memtables s1) k v = Inr m"
    and s': "s' = s1\<lparr>ps_memtables := m, ps_live_key_count := (if live then ps_live_key_count s1 else ps_live_key_count s1 + 1)\<rparr>"
    by (auto simp: destination_put_def result_simps)
  have key: "valid_key k" using memtable_set_putE [OF m] by (metis fst_conv valid_entry_def)
  have mi: "manager_inv s" using inv by (simp add: store_inv_def)
  note e = exists_run [OF mi key ex]
  have i1: "store_inv s1" using reads_store(1) [OF inv e(1,2)] .
  have "live \<longleftrightarrow> store_view s1 k \<noteq> None" using e(3) [OF r] reads_view(2) [OF e(1)] by simp
  then have "entered k (Some v) s1 s'" using entered_put [OF i1 m, of s'] s' by simp
  with that e(1) i1 show thesis by blast
qed

lemma destination_removeE:
  assumes inv: "store_inv s" and run: "destination_remove s k = Inr (b, s')"
  obtains (absent) "\<not> b" and "store_view s k = None" and "reads s s'" and "store_inv s'"
  | (present) s1 where "b" and "store_view s k \<noteq> None" and "reads s s1" and "store_inv s1" and "entered k None s1 s'"
proof -
  obtain r s1 where ex: "exists_without_validation k s = (r, s1)" by fastforce
  have key: "valid_key k"
  proof (rule ccontr)
    assume "\<not> valid_key k"
    then obtain e where "validate_key k = Inl e" using validate_key_invalid by blast
    then have "exists_without_validation k s = (Inl e, s)"
      by (simp add: exists_without_validation_def latest_entry_def memtable_set_latest_entry_def)
    then show False using run by (simp add: destination_remove_def)
  qed
  have mi: "manager_inv s" using inv by (simp add: store_inv_def)
  note e = exists_run [OF mi key ex]
  have i1: "store_inv s1" using reads_store(1) [OF inv e(1,2)] .
  consider "r = Inr False" | "r = Inr True" using run ex by (cases r) (auto simp: destination_remove_def)
  then show thesis
  proof cases
    case 1
    then have "\<not> b" "s' = s1" using run ex by (simp_all add: destination_remove_def)
    then show thesis using absent e(1) e(3) [OF 1] i1 by auto
  next
    case 2
    then obtain m where m: "memtable_set_add_tombstone (ps_abi s1) (ps_memtables s1) k = Inr m"
      and s': "s' = s1\<lparr>ps_memtables := m, ps_live_key_count := ps_live_key_count s1 - 1\<rparr>" and "b"
      using run ex by (auto simp: destination_remove_def result_simps)
    have live: "store_view s1 k \<noteq> None" "store_view s k \<noteq> None" using e(3) [OF 2] reads_view(2) [OF e(1)] by simp_all
    then have "entered k None s1 s'" using entered_tombstone [OF i1 m _ s'] by simp
    with present \<open>b\<close> live(2) e(1) i1 show thesis by blast
  qed
qed

lemma entered_fields:
  assumes "entered k v s s'"
  shows "w_events s' = w_events s" "w_fs s' = w_fs s" "sm_readers s' = sm_readers s" "sm_directory s' = sm_directory s"
    "ps_automatic_compaction_enabled s' = ps_automatic_compaction_enabled s"
  using assms by (auto simp: entered_def)

lemma reads_capacity:
  "reads s s1 \<Longrightarrow> memtable_set_capacity (ps_memtables s1) = memtable_set_capacity (ps_memtables (s :: 'a persistent_store_scheme))"
  by (simp add: more_store(2) [OF reads_fields(12)])

interpretation destination: key_value_store destination_put destination_remove
  "\<lambda>s :: 'a persistent_store_scheme. store_inv s \<and> w_events s = []" store_view "\<lambda>s. memtable_set_capacity (ps_memtables s)"
proof (unfold_locales, goal_cases)
  case (1 s k v s')
  then obtain s1 where s1: "reads s s1" "entered k (Some v) s1 s'" using destination_putE by blast
  then show ?case using 1(1) entered_fields(1) [OF s1(2)] reads_reliable [OF s1(1)] by (simp add: entered_def)
next
  case (2 s k v s')
  then obtain s1 where s1: "reads s s1" "entered k (Some v) s1 s'" using destination_putE by blast
  then show ?case using reads_view(2) [OF s1(1)] by (simp add: entered_def)
next
  case (3 s k v s')
  then obtain s1 where s1: "reads s s1" "entered k (Some v) s1 s'" using destination_putE by blast
  then show ?case using reads_capacity [OF s1(1)] by (simp add: entered_def)
next
  case (4 s k v)
  obtain r s1 where ex: "exists_without_validation k s = (r, s1)" by fastforce
  have mi: "manager_inv s" using 4(1) by (simp add: store_inv_def)
  note e = exists_run [OF mi 4(2) ex]
  have "store_inv s1" using reads_store(1) e(1,2) 4(1) by blast
  then obtain m where "memtable_set_put (ps_abi s1) (ps_memtables s1) k v = Inr m"
    using memtable_set_put_accepts [of "ps_abi s1" "ps_memtables s1" k v] reads_capacity [OF e(1)] 4 by (auto simp: store_inv_def)
  then show ?case using ex e(4) 4(1) by (auto simp: destination_put_def)
next
  case (5 k v s)
  show ?case
  proof (cases "destination_put s k v")
    case (Inr s')
    then obtain s1 :: "'a persistent_store_scheme" and m where "memtable_set_put (ps_abi s1) (ps_memtables s1) k v = Inr m"
      by (auto simp: destination_put_def result_simps split: prod.splits sum.splits)
    then show ?thesis using 5 memtable_set_put_rejects by (metis sum.distinct(1))
  qed blast
next
  case (6 s k b s')
  from 6(1) have "store_inv s" by blast
  from this 6(2) show ?case
  proof (cases rule: destination_removeE)
    case absent
    then show ?thesis using 6(1) reads_reliable by blast
  next
    case (present s1)
    then show ?thesis using 6(1) reads_reliable [OF present(3)] entered_fields(1) [OF present(5)] by (simp add: entered_def)
  qed
next
  case (7 s k b s')
  from 7(1) have "store_inv s" by blast
  from this 7(2) show ?case
  proof (cases rule: destination_removeE)
    case absent
    then show ?thesis using reads_view(2) [OF absent(3)] by (simp add: fun_upd_idem)
  next
    case (present s1)
    then show ?thesis using reads_view(2) [OF present(3)] by (simp add: entered_def)
  qed
next
  case (8 s k b s')
  then show ?case using destination_removeE by metis
next
  case (9 s k b s')
  from 9(1) have "store_inv s" by blast
  from this 9(2) show ?case
  proof (cases rule: destination_removeE)
    case absent
    then show ?thesis using reads_capacity [OF absent(3)] by simp
  next
    case (present s1)
    then show ?thesis using reads_capacity [OF present(3)] by (simp add: entered_def)
  qed
next
  case (10 s k)
  obtain r s1 where ex: "exists_without_validation k s = (r, s1)" by fastforce
  have mi: "manager_inv s" using 10(1) by (simp add: store_inv_def)
  note e = exists_run [OF mi 10(2) ex]
  have "store_inv s1" using reads_store(1) e(1,2) 10(1) by blast
  then obtain m where "memtable_set_add_tombstone (ps_abi s1) (ps_memtables s1) k = Inr m"
    using memtable_set_add_tombstone_accepts [of "ps_abi s1" "ps_memtables s1" k] reads_capacity [OF e(1)] 10 by (auto simp: store_inv_def)
  then show ?case using ex e(4) 10(1) by (cases "store_view s k = None") (auto simp: destination_remove_def)
next
  case (11 k s)
  then obtain e where "validate_key k = Inl e" using validate_key_invalid by blast
  then show ?case by (simp add: destination_remove_def exists_without_validation_def latest_entry_def memtable_set_latest_entry_def)
qed

text \<open>The replay leaves the tables alone and puts only keys of the log into the MemTables.\<close>

definition op_key :: "kv_op \<Rightarrow> bytes" where
  "op_key p = (case p of OpPut k v \<Rightarrow> k | OpRemove k \<Rightarrow> k)"

definition replayed :: "bytes set \<Rightarrow> 'a persistent_store_scheme \<Rightarrow> 'a persistent_store_scheme \<Rightarrow> bool" where
  "replayed K s s' \<longleftrightarrow> w_fs s' = w_fs s \<and> sm_readers s' = sm_readers s \<and> sm_directory s' = sm_directory s \<and>
     fst ` set (ms_entries (ps_memtables s')) \<subseteq> K \<union> fst ` set (ms_entries (ps_memtables s))"

lemma replayed_reads: "reads s s' \<Longrightarrow> replayed K s s'"
  using reads_fields [of s s'] more_store(2) [of s' s] by (auto simp: replayed_def reads_def)

lemma replayed_trans:
  assumes "replayed K s s1" and "replayed K' s1 s2"
  shows "replayed (K \<union> K') s s2"
proof -
  have "fst ` set (ms_entries (ps_memtables s2)) \<subseteq> (K \<union> K') \<union> fst ` set (ms_entries (ps_memtables s))"
    using assms unfolding replayed_def by blast
  then show ?thesis using assms by (simp add: replayed_def)
qed

lemma replayed_entered:
  assumes "reads s s1" and "entered k v s1 s'"
  shows "replayed {k} s s'"
proof -
  have "replayed {k} s1 s'" using entered_fields [OF assms(2)] assms(2) by (simp add: replayed_def entered_def)
  from replayed_trans [OF replayed_reads [OF assms(1), of "{k}"] this] show ?thesis by simp
qed

lemma destination_replayed:
  assumes "store_inv s" and "run_ops destination_put destination_remove s ps = Inr s'"
  shows "replayed (op_key ` set ps) s s'"
  using assms
proof (induction ps arbitrary: s)
  case Nil
  then show ?case by (simp add: replayed_def)
next
  case (Cons p ps)
  have step: "\<exists>s1. store_inv s1 \<and> replayed {op_key p} s s1 \<and> run_ops destination_put destination_remove s1 ps = Inr s'"
  proof (cases p)
    case (OpPut k v)
    with Cons.prems(2) obtain s1 where p1: "destination_put s k v = Inr s1" "run_ops destination_put destination_remove s1 ps = Inr s'"
      by (auto simp: result_simps)
    from destination_putE [OF Cons.prems(1) p1(1)] show ?thesis
      using replayed_entered p1(2) OpPut by (metis entered_def kv_op.simps(5) op_key_def)
  next
    case (OpRemove k)
    with Cons.prems(2) obtain b s1 where p1: "destination_remove s k = Inr (b, s1)" "run_ops destination_put destination_remove s1 ps = Inr s'"
      by (auto simp: result_simps)
    from Cons.prems(1) p1(1) show ?thesis
    proof (cases rule: destination_removeE)
      case absent
      then show ?thesis using replayed_reads p1(2) by blast
    next
      case (present s2)
      then show ?thesis using replayed_entered [OF present(3,5)] p1(2) OpRemove by (auto simp: entered_def op_key_def)
    qed
  qed
  then obtain s1 where s1: "store_inv s1" "replayed {op_key p} s s1" "run_ops destination_put destination_remove s1 ps = Inr s'" by blast
  show ?case using replayed_trans [OF s1(2) Cons.IH [OF s1(1,3)]] by simp
qed

section \<open>The constructor after a crash\<close>

definition store_options_ok :: "persistent_store_options \<Rightarrow> bool" where
  "store_options_ok options \<longleftrightarrow> options_ok (manager_options options) \<and> po_wal_path options \<noteq> [] \<and> po_memtable_max_bytes options \<noteq> 0 \<and>
     0 < po_batch_flush_interval options \<and> po_truncate_invalid_wal_tail options"

definition kernel_ok :: "wal_kernel \<Rightarrow> disk_file \<Rightarrow> bool" where
  "kernel_ok k f \<longleftrightarrow> wk_file k = Some f \<and> wk_scan_open k = Opened \<and> benign_io (wk_scan_events k) \<and> wk_resize k = Inr () \<and>
     wk_create_directories k = Inr () \<and> wk_open k = Opened"

lemma recover_checked:
  assumes "recover put remove opened evs resize True (Some f) s = Inr (report, diagnostics, f', s')"
    and "f' = Some f \<Longrightarrow> completed_cleanly report"
  shows "check_recovery report = Inr ()"
proof -
  obtain scan s1 rep where scan: "wal_scan opened (apply_record put remove) evs (df_contents f) (s, empty_report) = Inr (scan, s1, rep)"
    using assms(1) by (cases "wal_scan opened (apply_record put remove) evs (df_contents f) (s, empty_report)") (auto simp: recover_def)
  show ?thesis
  proof (cases "scan_issue scan")
    case None
    then show ?thesis using assms(1) scan by (auto simp: recover_def Let_def check_recovery_def)
  next
    case (Some issue)
    show ?thesis
    proof (cases "fst issue = IoError")
      case True
      then have "f' = Some f" "recovery_issue report = Some issue" using assms(1) scan Some by (auto simp: recover_def Let_def split: prod.splits)
      then show ?thesis using assms(2) by (simp add: completed_cleanly_def)
    next
      case False
      then show ?thesis using assms(1) scan Some
        by (cases resize) (auto simp: recover_def Let_def check_recovery_def throw_if_def split: prod.splits)
    qed
  qed
qed

lemma capacity_after: "memtable_set_new max_bytes s0 g = Inr m \<Longrightarrow> s0 \<le> B \<Longrightarrow> n + unat B < 2 ^ 64 \<Longrightarrow> n \<le> memtable_set_capacity m"
proof -
  assume "memtable_set_new max_bytes s0 g = Inr m" "s0 \<le> B" "n + unat B < 2 ^ 64"
  moreover have "unat (- 1 - s0) = 2 ^ 64 - 1 - unat s0" by (simp add: unat_sub unsigned_minus_1_eq_mask mask_eq_exp_minus_1)
  ultimately show ?thesis using memtable_set_newD(4) [of max_bytes s0 g m] by (simp add: word_le_nat_alt)
qed

lemma fresh_store:
  assumes inv: "manager_inv s" and new: "memtable_set_new max_bytes (sm_max_sequence_number s) g = Inr m"
    and s2: "s2 = s\<lparr>ps_memtables := m, ps_live_key_count := sm_live_key_count s, ps_automatic_compaction_enabled := auto\<rparr>"
  shows "store_inv s2" and "store_view s2 = table_view (sm_readers s)" and "ms_entries (ps_memtables s2) = []"
proof -
  have m: "ms_last_sequence_number m = sm_max_sequence_number s" "ms_entries m = []" "consecutive_generations m"
    using new by (auto simp: memtable_set_new_def ms_entries_def ms_tables_def memtable_new_def consecutive_generations_def split: if_splits)
  show v: "store_view s2 = table_view (sm_readers s)" by (simp add: s2 m(2) store_view_def store_newest_def table_view_def fun_eq_iff)
  have live: "sm_live_key_count s = of_nat (card (dom (table_view (sm_readers s))))" using inv by (simp add: manager_inv_def)
  show "store_inv s2" using inv m memtable_set_newD(1) [OF new] v live unfolding store_inv_def by (simp add: s2)
  show "ms_entries (ps_memtables s2) = []" using m(2) by (simp add: s2)
qed

lemma all_entries_same: "map table_entries ts' = map table_entries ts \<Longrightarrow> all_entries ts' = all_entries ts"
proof -
  assume "map table_entries ts' = map table_entries ts"
  then have "set ` set (map table_entries ts') = set ` set (map table_entries ts)" by simp
  then show ?thesis by (simp add: all_entries_def image_image)
qed

lemma wal_writer_new_ok:
  assumes "path \<noteq> []" and "0 < i"
  shows "\<exists>w. wal_writer_new path mode i (Inr ()) Opened evs f = Inr w \<and> ww_file w = f \<and> ww_mode w = mode \<and> \<not> ww_dirty w \<and> ww_background_error w = None"
  using assms by (simp add: wal_writer_new_def open_wal_file_def)

lemma store_restart:
  fixes s :: "'a persistent_store_scheme"
  assumes disk: "recoverable (resolve_sstable_directory options) rs V B disk" and log: "log_image rs (df_contents f)"
    and opts: "store_options_ok options" and kern: "kernel_ok k f" and s: "w_fs s = fs_restart disk names" "w_events s = []"
    and room: "length (wal_log rs) + unat B < 2 ^ 64"
  shows "\<exists>s'. persistent_store_new options k s = (Inr (), s') \<and> store_inv s' \<and> store_view s' = V \<and> w_events s' = [] \<and>
    sm_directory s' = resolve_sstable_directory options \<and>
    (df_contents f = wal_log rs \<and> df_durable f = wal_log rs \<and> po_durability_mode options = SyncMode \<longrightarrow> logged rs s')"
proof -
  from disk obtain ts where ts: "disk_holds (mo_directory (manager_options options)) ts disk" "tables_inv (mo_directory (manager_options options)) ts"
    and V: "replay rs (table_view ts) = V" and B: "\<forall>r\<in>all_entries ts. entry_sequence_number (snd r) \<le> B"
    by (auto simp: recoverable_def manager_options_def)
  from manager_restart [OF ts _ s] opts obtain s1 :: "'a persistent_store_scheme" where
    new: "sstable_manager_new (manager_options options) s = (Inr (), s1)" and i1: "manager_inv s1" and same: "list_all2 same_table ts (sm_readers s1)"
    and e1: "w_events s1 = []" "sm_directory s1 = resolve_sstable_directory options" by (auto simp: store_options_ok_def manager_options_def)
  have tv: "table_view (sm_readers s1) = table_view ts" by (rule same_tables_rest(4) [OF same])
  have le: "sm_max_sequence_number s1 \<le> B"
    using i1 B maximum_sequence_entries [OF same_tables(5) [OF same]] all_entries_same [OF same_tables(3) [OF same]] by (simp add: manager_inv_def)
  obtain m where m: "memtable_set_new (po_memtable_max_bytes options) (sm_max_sequence_number s1) (sm_next_generation s1) = Inr m"
    using opts by (simp add: store_options_ok_def memtable_set_new_def)
  define s2 where "s2 = s1\<lparr>ps_memtables := m, ps_live_key_count := sm_live_key_count s1,
    ps_automatic_compaction_enabled := po_enable_automatic_compaction options\<rparr>"
  note fr = fresh_store [OF i1 m s2_def]
  have valid: "\<forall>r\<in>set rs. valid_record r" using log by (simp add: log_image_def)
  obtain tail where tail: "df_contents f = wal_log rs @ tail" "wal_decode tail = None" using log by (auto simp: log_image_def)
  have "length rs \<le> memtable_set_capacity (ps_memtables s2)"
    using capacity_after [OF m le, of "length rs"] length_wal_log [of rs] room by (simp add: s2_def)
  then obtain s3 where run: "run_ops destination_put destination_remove s2 (map record_op rs) = Inr s3"
    and i3: "store_inv s3" "w_events s3 = []" and v3: "store_view s3 = replay rs (store_view s2)"
    using destination.run_ops_view [of s2 "map record_op rs"] fr(1) e1(1) valid valid_op_record by (auto simp: s2_def)
  have small: "length (wal_log rs) < 2 ^ 64" using room by simp
  from recover_log [OF tail(1) valid tail(2) _ small run, of "wk_scan_events k"] kern
  obtain report diagnostics f' where rc: "recover destination_put destination_remove Opened (wk_scan_events k) (Inr ()) True (Some f) s2 =
      Inr (report, diagnostics, Some f', s3)" and f': "df_contents f' = wal_log rs" and clean: "completed_cleanly report \<longleftrightarrow> tail = []"
    by (auto simp: kernel_ok_def)
  have chk: "check_recovery report = Inr ()" by (rule recover_checked [OF rc]) (use f' tail(1) clean in auto)
  obtain w where w: "wal_writer_new (po_wal_path options) (po_durability_mode options) (po_batch_flush_interval options)
      (Inr ()) Opened (wk_events k) f' = Inr w" "ww_file w = f'" "ww_mode w = po_durability_mode options" "\<not> ww_dirty w" "ww_background_error w = None"
    using wal_writer_new_ok opts unfolding store_options_ok_def by metis
  define s4 where "s4 = s3\<lparr>ps_recovery_report := report, ps_wal_writer := w\<rparr>"
  have "recover_store options k s2 = (Inr (Some f'), s3\<lparr>ps_recovery_report := report\<rparr>)"
    using kern opts rc by (simp add: recover_store_def kernel_ok_def store_options_ok_def)
  then have res: "persistent_store_new options k s = (Inr (), s4)"
    using new m opts kern chk w(1) by (simp add: persistent_store_new_def store_options_ok_def kernel_ok_def s4_def s2_def throw_if_def)
  have v4: "store_view s4 = store_view s3" by (simp add: s4_def fun_eq_iff store_view_def store_newest_def split: option.split)
  have i4: "store_inv s4" using i3(1) v4 by (simp add: s4_def store_inv_def)
  have rp: "replayed (op_key ` set (map record_op rs)) s2 s3" by (rule destination_replayed [OF fr(1) run])
  have view: "store_view s4 = V" using v4 v3 fr(2) tv V by simp
  have lg: "logged rs s4" if "df_contents f = wal_log rs" "df_durable f = wal_log rs" "po_durability_mode options = SyncMode"
  proof -
    have "tail = []" using that(1) tail(1) by simp
    then have "f' = f" using recover_clean [OF rc] clean by simp
    then have "log_holds rs (ps_wal_writer s4)" using w that valid by (simp add: log_holds_def s4_def)
    moreover have "op_key (record_op r) = wr_key r" for r by (simp add: op_key_def record_op_def)
    then have "fst ` set (ms_entries (ps_memtables s4)) \<subseteq> wr_key ` set rs"
      using rp fr(3) by (auto simp: replayed_def s4_def)
    moreover have "store_view s4 = replay rs (table_view (sm_readers s4))" using view V tv rp by (simp add: replayed_def s4_def s2_def)
    ultimately show ?thesis by (simp add: logged_def)
  qed
  have "sm_directory s4 = resolve_sstable_directory options" using rp e1(2) by (simp add: replayed_def s4_def s2_def)
  then show ?thesis using res i4 view lg i3(2) by (auto simp: s4_def)
qed

end
