(* ===== verification/RaftTypes.thy ===== *)
theory RaftTypes
  imports Decoder Validation
begin

text \<open>
  The data of the replication protocol (\<open>include/nebulakv/raft/types.hpp\<close>) and its byte encoding
  (\<open>src/raft/serialization.hpp\<close>).  Terms and indices are 64-bit words; node ids are byte strings.
\<close>

section \<open>Data\<close>

type_synonym node_id = bytes

record peer =
  peer_id :: node_id
  peer_address :: bytes

datatype role = Follower | Candidate | Leader

datatype command_type = CmdNoop | CmdPut | CmdDelete

record command =
  cmd_type :: command_type
  cmd_key :: bytes
  cmd_value :: bytes

record log_entry =
  le_index :: u64
  le_term :: u64
  le_command :: command

record request_vote_request =
  rv_term :: u64
  rv_candidate_id :: node_id
  rv_last_log_index :: u64
  rv_last_log_term :: u64

record request_vote_response =
  rvr_term :: u64
  rvr_vote_granted :: bool

record append_entries_request =
  ae_term :: u64
  ae_leader_id :: node_id
  ae_previous_log_index :: u64
  ae_previous_log_term :: u64
  ae_entries :: "log_entry list"
  ae_leader_commit :: u64

record append_entries_response =
  aer_term :: u64
  aer_success :: bool
  aer_match_index :: u64
  aer_conflict_index :: u64

record install_snapshot_request =
  is_term :: u64
  is_leader_id :: node_id
  is_last_included_index :: u64
  is_last_included_term :: u64
  is_payload :: bytes

record install_snapshot_response =
  isr_term :: u64
  isr_success :: bool
  isr_installed_index :: u64

datatype submit_status = Committed | NotLeader | Timeout | Unavailable | InvalidCommand

record submit_result =
  sr_status :: submit_status
  sr_log_index :: u64
  sr_term :: u64
  sr_leader_id :: node_id
  sr_message :: string

record raft_snapshot =
  sn_last_included_index :: u64
  sn_last_included_term :: u64
  sn_payload :: bytes

record hard_state =
  hs_current_term :: u64
  hs_voted_for :: node_id
  hs_commit_index :: u64
  hs_last_applied :: u64

record persistent_state =
  pst_hard_state :: hard_state
  pst_log :: "log_entry list"
  pst_snapshot :: "raft_snapshot option"

record raft_metrics =
  rm_elections_started :: u64
  rm_leadership_changes :: u64
  rm_append_entries_sent :: u64
  rm_append_entries_received :: u64
  rm_vote_requests_sent :: u64
  rm_vote_requests_received :: u64
  rm_snapshots_created :: u64
  rm_snapshots_installed :: u64
  rm_replication_failures :: u64
  rm_committed_commands :: u64

record node_status =
  ns_node_id :: node_id
  ns_role :: role
  ns_term :: u64
  ns_leader_id :: node_id
  ns_commit_index :: u64
  ns_last_applied :: u64
  ns_last_log_index :: u64
  ns_last_log_term :: u64
  ns_snapshot_index :: u64
  ns_peer_count :: nat
  ns_metrics :: raft_metrics

record raft_node_options =
  no_node_id :: node_id
  no_peers :: "peer list"
  no_election_timeout_min :: int
  no_election_timeout_max :: int
  no_heartbeat_interval :: int
  no_rpc_timeout :: int
  no_max_append_entries :: u64
  no_snapshot_threshold_entries :: u64

primrec role_to_string :: "role \<Rightarrow> string" where
  "role_to_string Follower = ''follower''"
| "role_to_string Candidate = ''candidate''"
| "role_to_string Leader = ''leader''"

definition initial_metrics :: raft_metrics where
  "initial_metrics = \<lparr>rm_elections_started = 0, rm_leadership_changes = 0, rm_append_entries_sent = 0, rm_append_entries_received = 0,
     rm_vote_requests_sent = 0, rm_vote_requests_received = 0, rm_snapshots_created = 0, rm_snapshots_installed = 0,
     rm_replication_failures = 0, rm_committed_commands = 0\<rparr>"

definition initial_hard_state :: hard_state where
  "initial_hard_state = \<lparr>hs_current_term = 0, hs_voted_for = [], hs_commit_index = 0, hs_last_applied = 0\<rparr>"

section \<open>Encoding\<close>

text \<open>The encoders append to a string; here each returns what it appends.\<close>

definition append_bytes :: "bytes \<Rightarrow> bytes result" where
  "append_bytes v =
     bind_result (throw_if (length v > unat (- 1 :: u32)) (LengthError ''encoded string is too large'')) (\<lambda>_.
     Inr (le_bytes 4 (of_nat (length v) :: u32) @ v))"

primrec command_byte :: "command_type \<Rightarrow> byte" where
  "command_byte CmdNoop = 0"
| "command_byte CmdPut = 1"
| "command_byte CmdDelete = 2"

definition encode_command :: "command \<Rightarrow> bytes result" where
  "encode_command c =
     bind_result (append_bytes (cmd_key c)) (\<lambda>k.
     bind_result (append_bytes (cmd_value c)) (\<lambda>v.
     Inr (le_bytes 1 (command_byte (cmd_type c)) @ k @ v)))"

definition encode_entry :: "log_entry \<Rightarrow> bytes result" where
  "encode_entry e =
     bind_result (encode_command (le_command e)) (\<lambda>c.
     Inr (le_bytes 8 (le_index e) @ le_bytes 8 (le_term e) @ c))"

section \<open>Decoding\<close>

abbreviation truncated_data :: error where
  "truncated_data \<equiv> RuntimeError ''truncated encoded data''"

definition read_bytes :: "(bytes, bytes) effect" where
  "read_bytes = bind_effect (dec_uint32 truncated_data) (\<lambda>size. dec_bytes truncated_data (unat size))"

definition command_of_byte :: "byte \<Rightarrow> command_type" where
  "command_of_byte b = (if b = 0 then CmdNoop else if b = 1 then CmdPut else CmdDelete)"

definition decode_command :: "(bytes, command) effect" where
  "decode_command =
     bind_effect (dec_uint8 truncated_data) (\<lambda>type.
     bind_effect (dec_check (type > 2) (RuntimeError ''invalid Raft command type'')) (\<lambda>_.
     bind_effect read_bytes (\<lambda>key.
     bind_effect read_bytes (\<lambda>v.
     lift_result (Inr \<lparr>cmd_type = command_of_byte type, cmd_key = key, cmd_value = v\<rparr>)))))"

definition decode_entry :: "(bytes, log_entry) effect" where
  "decode_entry =
     bind_effect (dec_uint64 truncated_data) (\<lambda>index.
     bind_effect (dec_uint64 truncated_data) (\<lambda>term.
     bind_effect decode_command (\<lambda>c.
     lift_result (Inr \<lparr>le_index = index, le_term = term, le_command = c\<rparr>))))"

definition dec_finish :: "string \<Rightarrow> (bytes, unit) effect" where
  "dec_finish msg rest = (if rest = [] then (Inr (), rest) else (Inl (RuntimeError msg), rest))"

section \<open>Round trips\<close>

lemma unat_max_u32: "unat (- 1 :: u32) = 2 ^ 32 - 1"
  by (simp add: unsigned_minus_1_eq_mask mask_eq_exp_minus_1)

lemma append_bytes_Inr_iff: "append_bytes v = Inr bs \<longleftrightarrow> length v < 2 ^ 32 \<and> bs = le_bytes 4 (of_nat (length v) :: u32) @ v"
  by (auto simp: append_bytes_def unat_max_u32 split: if_splits)

lemma decodes_read_bytes [decode_intros]: "append_bytes v = Inr bs \<Longrightarrow> decodes read_bytes bs v"
  unfolding read_bytes_def append_bytes_Inr_iff
  by (auto intro!: decodes_bind decode_intros simp: unat_of_nat take_bit_nat_eq_self)

lemma command_byte_facts [simp]: "command_of_byte (command_byte t) = t" "\<not> command_byte t > 2"
  by (cases t; simp add: command_of_byte_def)+

lemma decodes_bind_Nil: "decodes m [] x \<Longrightarrow> decodes (f x) enc y \<Longrightarrow> decodes (bind_effect m f) enc y"
  using decodes_bind [of m "[]" x f enc y] by simp

lemma decodes_last: "decodes m enc x \<Longrightarrow> decodes (bind_effect m (\<lambda>x. lift_result (Inr (f x)))) enc (f x)"
  using decodes_bind [of m enc x "\<lambda>x. lift_result (Inr (f x))" "[]" "f x", OF _ decodes_return] by simp

lemma decodes_command [decode_intros]:
  assumes "encode_command c = Inr bs"
  shows "decodes decode_command bs c"
proof -
  from assms obtain k v where k: "append_bytes (cmd_key c) = Inr k" and v: "append_bytes (cmd_value c) = Inr v"
    and bs: "bs = le_bytes 1 (command_byte (cmd_type c)) @ k @ v" by (auto simp: encode_command_def result_simps)
  have "decodes decode_command bs \<lparr>cmd_type = command_of_byte (command_byte (cmd_type c)), cmd_key = cmd_key c, cmd_value = cmd_value c\<rparr>"
    unfolding decode_command_def bs
    by (rule decodes_bind [OF decodes_uint(1)], rule decodes_bind_Nil [OF decodes_check], simp,
        rule decodes_bind [OF decodes_read_bytes [OF k]], rule decodes_last [OF decodes_read_bytes [OF v]])
  then show ?thesis by (cases c) simp
qed

lemma decodes_entry [decode_intros]:
  assumes "encode_entry e = Inr bs"
  shows "decodes decode_entry bs e"
proof -
  from assms obtain c where c: "encode_command (le_command e) = Inr c"
    and bs: "bs = le_bytes 8 (le_index e) @ le_bytes 8 (le_term e) @ c" by (auto simp: encode_entry_def result_simps)
  have "decodes decode_entry bs \<lparr>le_index = le_index e, le_term = le_term e, le_command = le_command e\<rparr>"
    unfolding decode_entry_def bs
    by (rule decodes_bind [OF decodes_uint(4)], rule decodes_bind [OF decodes_uint(4)], rule decodes_last [OF decodes_command [OF c]])
  then show ?thesis by (cases e) simp
qed

end
