(* ===== verification/RaftStorage.thy ===== *)
theory RaftStorage
  imports RaftTypes ManifestStore
begin

text \<open>
  \<open>RaftStorage\<close> (\<open>src/raft/storage.cpp\<close>): term and vote, log and snapshot, each in a file of its own that
  is replaced as a whole.  What a node has saved is what it loads after a crash.  Creating the directories
  is a system call that may fail; the exception \<open>reserve\<close> throws for an absurd entry count stands for the
  truncation error that decoding reports here.
\<close>

section \<open>Files\<close>

definition kHardMagic :: bytes where
  "kHardMagic = str ''NBHR''"

definition kLogMagic :: bytes where
  "kLogMagic = str ''NBRL''"

definition kSnapshotMagic :: bytes where
  "kSnapshotMagic = str ''NBRS''"

definition kRaftVersion :: u32 where
  "kRaftVersion = 1"

text \<open>This \<open>write_all\<close> goes on when a write transfers nothing.\<close>

fun raft_write_all :: "error \<Rightarrow> io_event list \<Rightarrow> bytes \<Rightarrow> unit result \<times> bytes \<times> io_event list" where
  "raft_write_all failed [] bs = (Inr (), bs, [])"
| "raft_write_all failed (ev # evs) bs =
     (if bs = [] then (Inr (), [], ev # evs)
      else case ev of
        Interrupted \<Rightarrow> raft_write_all failed evs bs
      | Failed \<Rightarrow> (Inl failed, [], evs)
      | Zero \<Rightarrow> raft_write_all failed evs bs
      | Short k \<Rightarrow>
          let count = min (Suc k) (length bs);
              (r, written, evs') = raft_write_all failed evs (drop count bs)
          in (r, take count bs @ written, evs'))"

definition raft_write :: "bytes \<Rightarrow> bytes \<Rightarrow> ('a world_scheme, unit) effect" where
  "raft_write path bs w =
     (let (r, written, evs) = raft_write_all (SystemError ''failed to write Raft file'') (w_events w) bs
      in (r, w\<lparr>w_fs := world_update path (file_append written) (w_fs w), w_events := evs\<rparr>))"

definition raft_sync_directory :: "bytes \<Rightarrow> ('a world_scheme, unit) effect" where
  "raft_sync_directory dir =
     bind_effect (sys_call (SystemError ''failed to open Raft directory'')) (\<lambda>_.
     bind_effect (sys_call (SystemError ''failed to synchronize Raft directory'')) (\<lambda>_.
     bind_effect (update_fs (fs_sync_directory dir)) (\<lambda>_.
     sys_call (SystemError ''failed to close Raft directory''))))"

definition raft_rename :: "bytes \<Rightarrow> bytes \<Rightarrow> ('a world_scheme, unit) effect" where
  "raft_rename tmp path w =
     (case world_rename (SystemError ''failed to publish Raft file'') tmp path w of
        (Inl e, w') \<Rightarrow> bind_effect (sys_call (SystemError ''filesystem error: cannot remove'')) (\<lambda>_.
          bind_effect (update_fs (fs_remove tmp)) (\<lambda>_. lift_result (Inl e))) w'
      | (Inr _, w') \<Rightarrow> (Inr (), w'))"

definition raft_atomic_write :: "bytes \<Rightarrow> bytes \<Rightarrow> ('a world_scheme, unit) effect" where
  "raft_atomic_write path bs =
     (let tmp = path @ str ''.tmp'' in
      bind_effect (sys_call (SystemError ''filesystem error: cannot create directories'')) (\<lambda>_.
      bind_effect (world_create (SystemError ''failed to create temporary Raft file'') tmp) (\<lambda>_.
      bind_effect (removing_on_error tmp
        (bind_effect (raft_write tmp bs) (\<lambda>_.
         bind_effect (sys_call (SystemError ''failed to synchronize Raft file'')) (\<lambda>_.
         bind_effect (update_fs (world_update tmp file_sync)) (\<lambda>_.
         sys_call (SystemError ''failed to close Raft file'')))))) (\<lambda>_.
      bind_effect (raft_rename tmp path) (\<lambda>_.
      raft_sync_directory (parent_path path))))))"

definition raft_read_file :: "bytes \<Rightarrow> ('a world_scheme, bytes) effect" where
  "raft_read_file path =
     bind_effect (sys_call (SystemError ''filesystem error: cannot get file size'')) (\<lambda>_ w.
       case fs_files (w_fs w) path of
         None \<Rightarrow> (Inl (SystemError ''filesystem error: cannot get file size''), w)
       | Some f \<Rightarrow>
           bind_effect (sys_call (RuntimeError (''failed to open Raft file: '' @ text_of path))) (\<lambda>_.
           bind_effect (if df_contents f = [] then lift_result (Inr ())
             else sys_call (RuntimeError (''failed to read complete Raft file: '' @ text_of path))) (\<lambda>_.
           lift_result (Inr (df_contents f)))) w)"

section \<open>Envelope\<close>

definition wrap_payload :: "bytes \<Rightarrow> bytes \<Rightarrow> bytes" where
  "wrap_payload magic payload = magic @ le_bytes 4 kRaftVersion @ payload @ le_bytes 4 (crc32 payload)"

definition check_envelope :: "bytes \<Rightarrow> bytes \<Rightarrow> bytes \<Rightarrow> bytes result" where
  "check_envelope path expected_magic encoded =
     bind_result (throw_if (length encoded < 12) (RuntimeError (''truncated Raft file: '' @ text_of path))) (\<lambda>_.
     bind_result (throw_if (take 4 encoded \<noteq> expected_magic) (RuntimeError (''invalid Raft file magic: '' @ text_of path))) (\<lambda>_.
     bind_result (throw_if ((le_value 4 (take 4 (drop 4 encoded)) :: u32) \<noteq> kRaftVersion)
       (RuntimeError (''unsupported Raft file version: '' @ text_of path))) (\<lambda>_.
     let payload = take (length encoded - 12) (drop 8 encoded) in
     bind_result (throw_if ((le_value 4 (drop (length encoded - 4) encoded) :: u32) \<noteq> crc32 payload)
       (RuntimeError (''Raft file checksum mismatch: '' @ text_of path))) (\<lambda>_.
     Inr payload))))"

definition unwrap_payload :: "bytes \<Rightarrow> bytes \<Rightarrow> ('a world_scheme, bytes) effect" where
  "unwrap_payload path expected_magic =
     bind_effect (raft_read_file path) (\<lambda>encoded. lift_result (check_envelope path expected_magic encoded))"

section \<open>Payloads\<close>

definition decode_hard_state :: "bytes \<Rightarrow> hard_state result" where
  "decode_hard_state payload = fst
     (bind_effect (dec_uint64 truncated_data) (\<lambda>current_term.
      bind_effect read_bytes (\<lambda>voted_for.
      bind_effect (dec_uint64 truncated_data) (\<lambda>commit_index.
      bind_effect (dec_uint64 truncated_data) (\<lambda>last_applied.
      bind_effect (dec_finish ''unexpected bytes in Raft hard state'') (\<lambda>_.
      lift_result (Inr \<lparr>hs_current_term = current_term, hs_voted_for = voted_for, hs_commit_index = commit_index,
        hs_last_applied = last_applied\<rparr>)))))) payload)"

fun decode_entries :: "nat \<Rightarrow> (bytes, log_entry list) effect" where
  "decode_entries 0 = lift_result (Inr [])"
| "decode_entries (Suc n) =
     bind_effect decode_entry (\<lambda>e.
     bind_effect (decode_entries n) (\<lambda>es. lift_result (Inr (e # es))))"

definition contiguous :: "log_entry list \<Rightarrow> bool" where
  "contiguous es \<longleftrightarrow> successively (\<lambda>e e'. le_index e' = le_index e + 1) es"

definition decode_log :: "bytes \<Rightarrow> log_entry list result" where
  "decode_log payload = fst
     (bind_effect (dec_uint64 truncated_data) (\<lambda>count.
      bind_effect (decode_entries (unat count)) (\<lambda>entries.
      bind_effect (dec_finish ''unexpected bytes in Raft log'') (\<lambda>_.
      bind_effect (dec_check (\<not> contiguous entries) (RuntimeError ''Raft log indices are not contiguous'')) (\<lambda>_.
      lift_result (Inr entries))))) payload)"

definition decode_snapshot :: "bytes \<Rightarrow> raft_snapshot result" where
  "decode_snapshot payload = fst
     (bind_effect (dec_uint64 truncated_data) (\<lambda>index.
      bind_effect (dec_uint64 truncated_data) (\<lambda>term.
      bind_effect read_bytes (\<lambda>data.
      bind_effect (dec_finish ''unexpected bytes in Raft snapshot'') (\<lambda>_.
      lift_result (Inr \<lparr>sn_last_included_index = index, sn_last_included_term = term, sn_payload = data\<rparr>))))) payload)"

definition encode_hard_state :: "hard_state \<Rightarrow> bytes result" where
  "encode_hard_state h =
     bind_result (append_bytes (hs_voted_for h)) (\<lambda>v.
     Inr (le_bytes 8 (hs_current_term h) @ v @ le_bytes 8 (hs_commit_index h) @ le_bytes 8 (hs_last_applied h)))"

fun encode_entries :: "log_entry list \<Rightarrow> bytes result" where
  "encode_entries [] = Inr []"
| "encode_entries (e # es) =
     bind_result (encode_entry e) (\<lambda>b. bind_result (encode_entries es) (\<lambda>bs. Inr (b @ bs)))"

definition encode_log :: "log_entry list \<Rightarrow> bytes result" where
  "encode_log es = bind_result (encode_entries es) (\<lambda>bs. Inr (le_bytes 8 (of_nat (length es) :: u64) @ bs))"

definition encode_snapshot :: "raft_snapshot \<Rightarrow> bytes result" where
  "encode_snapshot sn =
     bind_result (append_bytes (sn_payload sn)) (\<lambda>p.
     Inr (le_bytes 8 (sn_last_included_index sn) @ le_bytes 8 (sn_last_included_term sn) @ p))"

section \<open>The storage\<close>

record raft_storage =
  rs_directory :: bytes
  rs_hard_state_path :: bytes
  rs_log_path :: bytes
  rs_snapshot_path :: bytes

definition storage_paths :: "bytes \<Rightarrow> raft_storage" where
  "storage_paths directory = \<lparr>rs_directory = directory, rs_hard_state_path = path_join directory (str ''hard-state.bin''),
     rs_log_path = path_join directory (str ''raft-log.bin''), rs_snapshot_path = path_join directory (str ''snapshot.bin'')\<rparr>"

definition raft_storage_new :: "bytes \<Rightarrow> ('a world_scheme, raft_storage) effect" where
  "raft_storage_new directory =
     bind_effect (lift_result (throw_if (directory = []) (InvalidArgument ''Raft storage directory must not be empty''))) (\<lambda>_.
     bind_effect (sys_call (SystemError ''filesystem error: cannot create directories'')) (\<lambda>_.
     lift_result (Inr (storage_paths directory))))"

definition load_file :: "bytes \<Rightarrow> bytes \<Rightarrow> (bytes \<Rightarrow> 'b result) \<Rightarrow> 'b \<Rightarrow> ('a world_scheme, 'b) effect" where
  "load_file path magic decode absent w =
     (if \<not> exists_file path w then (Inr absent, w)
      else bind_effect (unwrap_payload path magic) (\<lambda>payload. lift_result (decode payload)) w)"

definition raft_load :: "raft_storage \<Rightarrow> ('a world_scheme, persistent_state) effect" where
  "raft_load st =
     bind_effect (load_file (rs_hard_state_path st) kHardMagic decode_hard_state initial_hard_state) (\<lambda>h.
     bind_effect (load_file (rs_log_path st) kLogMagic decode_log []) (\<lambda>l.
     bind_effect (load_file (rs_snapshot_path st) kSnapshotMagic (\<lambda>p. map_sum id Some (decode_snapshot p)) None) (\<lambda>sn.
     lift_result (Inr \<lparr>pst_hard_state = h, pst_log = l, pst_snapshot = sn\<rparr>))))"

definition save_hard_state :: "raft_storage \<Rightarrow> hard_state \<Rightarrow> ('a world_scheme, unit) effect" where
  "save_hard_state st h =
     bind_effect (lift_result (encode_hard_state h)) (\<lambda>payload.
     raft_atomic_write (rs_hard_state_path st) (wrap_payload kHardMagic payload))"

definition replace_log :: "raft_storage \<Rightarrow> log_entry list \<Rightarrow> ('a world_scheme, unit) effect" where
  "replace_log st es =
     bind_effect (lift_result (encode_log es)) (\<lambda>payload.
     raft_atomic_write (rs_log_path st) (wrap_payload kLogMagic payload))"

definition save_snapshot :: "raft_storage \<Rightarrow> raft_snapshot \<Rightarrow> ('a world_scheme, unit) effect" where
  "save_snapshot st sn =
     bind_effect (lift_result (throw_if (sn_last_included_index sn = 0) (InvalidArgument ''snapshot index must be greater than zero''))) (\<lambda>_.
     bind_effect (lift_result (encode_snapshot sn)) (\<lambda>payload.
     raft_atomic_write (rs_snapshot_path st) (wrap_payload kSnapshotMagic payload)))"

end
