(* ===== verification/RaftNode.thy ===== *)
theory RaftNode
  imports RaftStorage
begin

text \<open>
  \<open>RaftNode\<close> (\<open>src/raft/node.cpp\<close>).  The node's fields are a record over the file system its storage
  uses.  Every section that runs under \<open>mutex_\<close> is one function; a call of the transport, during which the
  mutex is free and handlers may run on the node, is an effect on the node supplied by the caller.  The state
  machine is the interface of \<open>include/nebulakv/raft/state_machine.hpp\<close>: a record of functions over a state
  of its own.  Deadlines are not part of the state: whether one has passed is an argument.
\<close>

section \<open>The node and its collaborators\<close>

record 'm state_machine =
  mach_recover :: "raft_snapshot option \<Rightarrow> log_entry list \<Rightarrow> ('m, unit) effect"
  mach_apply :: "log_entry \<Rightarrow> ('m, unit) effect"
  mach_create_snapshot :: "'m \<Rightarrow> bytes result"
  mach_install_snapshot :: "bytes \<Rightarrow> ('m, unit) effect"
  mach_flush :: "('m, unit) effect"

record 'n raft_transport =
  tr_request_vote :: "peer \<Rightarrow> request_vote_request \<Rightarrow> ('n, request_vote_response option) effect"
  tr_append_entries :: "peer \<Rightarrow> append_entries_request \<Rightarrow> ('n, append_entries_response option) effect"
  tr_install_snapshot :: "peer \<Rightarrow> install_snapshot_request \<Rightarrow> ('n, install_snapshot_response option) effect"

record 'm raft_node = world +
  rn_options :: raft_node_options
  rn_storage :: raft_storage
  rn_machine :: 'm
  rn_role :: role
  rn_hard_state :: hard_state
  rn_log :: "log_entry list"
  rn_snapshot :: "raft_snapshot option"
  rn_leader_id :: node_id
  rn_next_index :: "(node_id \<times> u64) list"
  rn_match_index :: "(node_id \<times> u64) list"
  rn_metrics :: raft_metrics

definition modify :: "('s \<Rightarrow> 's) \<Rightarrow> ('s, unit) effect" where
  "modify f s = (Inr (), f s)"

definition on_machine :: "('m, 'b) effect \<Rightarrow> ('m raft_node, 'b) effect" where
  "on_machine f n = (let (r, m) = f (rn_machine n) in (r, n\<lparr>rn_machine := m\<rparr>))"

definition count_metric :: "(raft_metrics \<Rightarrow> raft_metrics) \<Rightarrow> 'm raft_node \<Rightarrow> 'm raft_node" where
  "count_metric f n = n\<lparr>rn_metrics := f (rn_metrics n)\<rparr>"

abbreviation rn_current_term :: "'m raft_node \<Rightarrow> u64" where
  "rn_current_term n \<equiv> hs_current_term (rn_hard_state n)"

abbreviation rn_commit_index :: "'m raft_node \<Rightarrow> u64" where
  "rn_commit_index n \<equiv> hs_commit_index (rn_hard_state n)"

abbreviation rn_last_applied :: "'m raft_node \<Rightarrow> u64" where
  "rn_last_applied n \<equiv> hs_last_applied (rn_hard_state n)"

abbreviation set_hard :: "(hard_state \<Rightarrow> hard_state) \<Rightarrow> 'm raft_node \<Rightarrow> 'm raft_node" where
  "set_hard f n \<equiv> n\<lparr>rn_hard_state := f (rn_hard_state n)\<rparr>"

section \<open>The log\<close>

definition snapshot_index :: "'m raft_node \<Rightarrow> u64" where
  "snapshot_index n = (case rn_snapshot n of None \<Rightarrow> 0 | Some sn \<Rightarrow> sn_last_included_index sn)"

definition first_log_index :: "'m raft_node \<Rightarrow> u64" where
  "first_log_index n = (case rn_snapshot n of None \<Rightarrow> 1 | Some sn \<Rightarrow> sn_last_included_index sn + 1)"

definition last_log_index_locked :: "'m raft_node \<Rightarrow> u64" where
  "last_log_index_locked n =
     (if rn_log n \<noteq> [] then le_index (last (rn_log n))
      else case rn_snapshot n of None \<Rightarrow> 0 | Some sn \<Rightarrow> sn_last_included_index sn)"

definition last_log_term_locked :: "'m raft_node \<Rightarrow> u64" where
  "last_log_term_locked n =
     (if rn_log n \<noteq> [] then le_term (last (rn_log n))
      else case rn_snapshot n of None \<Rightarrow> 0 | Some sn \<Rightarrow> sn_last_included_term sn)"

definition log_term_at :: "'m raft_node \<Rightarrow> u64 \<Rightarrow> u64 option" where
  "log_term_at n index =
     (let first_index = first_log_index n in
      if index < first_index \<or> index > last_log_index_locked n then None
      else let offset = unat (index - first_index) in
      if offset \<ge> length (rn_log n) then None else Some (le_term (rn_log n ! offset)))"

definition term_at_locked :: "'m raft_node \<Rightarrow> u64 \<Rightarrow> u64 option" where
  "term_at_locked n index =
     (if index = 0 then Some 0
      else case rn_snapshot n of
        Some sn \<Rightarrow> if index = sn_last_included_index sn then Some (sn_last_included_term sn) else log_term_at n index
      | None \<Rightarrow> log_term_at n index)"

text \<open>An offset beyond the log would be an invalid iterator range; \<open>drop\<close> and \<open>take\<close> are defined there too.\<close>

definition entries_from_locked :: "'m raft_node \<Rightarrow> u64 \<Rightarrow> log_entry list" where
  "entries_from_locked n index =
     (if index > last_log_index_locked n then []
      else if index < first_log_index n then []
      else let offset = unat (index - first_log_index n);
               count = min (unat (no_max_append_entries (rn_options n))) (length (rn_log n) - offset)
           in take count (drop offset (rn_log n)))"

definition truncate_log_from_locked :: "u64 \<Rightarrow> 'm raft_node \<Rightarrow> 'm raft_node" where
  "truncate_log_from_locked index n =
     (if index \<le> first_log_index n then n\<lparr>rn_log := []\<rparr>
      else if index > last_log_index_locked n then n
      else n\<lparr>rn_log := take (unat (index - first_log_index n)) (rn_log n)\<rparr>)"

fun append_entries_locked :: "log_entry list \<Rightarrow> ('m raft_node, unit) effect" where
  "append_entries_locked [] n = (Inr (), n)"
| "append_entries_locked (e # es) n =
     (if le_index e \<noteq> last_log_index_locked n + 1 \<or> le_term e = 0 then (Inl (RuntimeError ''invalid Raft log append''), n)
      else append_entries_locked es (n\<lparr>rn_log := rn_log n @ [e]\<rparr>))"

definition append_local_entry_locked :: "command \<Rightarrow> ('m raft_node, log_entry) effect" where
  "append_local_entry_locked c n =
     (if rn_role n \<noteq> Leader \<or> rn_current_term n = 0
      then (Inl (LogicError ''only a leader may append a local Raft entry''), n)
      else let entry = \<lparr>le_index = last_log_index_locked n + 1, le_term = rn_current_term n, le_command = c\<rparr>
           in (Inr entry, n\<lparr>rn_log := rn_log n @ [entry]\<rparr>))"

text \<open>The entries after an index, as \<open>std::upper_bound\<close> on the sorted indices finds them.\<close>

definition entries_after :: "u64 \<Rightarrow> log_entry list \<Rightarrow> log_entry list" where
  "entries_after index = dropWhile (\<lambda>e. \<not> index < le_index e)"

section \<open>Roles\<close>

definition persist_hard_state_locked :: "('m raft_node, unit) effect" where
  "persist_hard_state_locked n = save_hard_state (rn_storage n) (rn_hard_state n) n"

definition persist_log_locked :: "('m raft_node, unit) effect" where
  "persist_log_locked n = replace_log (rn_storage n) (rn_log n) n"

definition become_follower_locked :: "u64 \<Rightarrow> node_id \<Rightarrow> ('m raft_node, unit) effect" where
  "become_follower_locked term leader n =
     (if term < rn_current_term n then (Inr (), n)
      else
        let n = (if term > rn_current_term n then set_hard (\<lambda>h. h\<lparr>hs_current_term := term, hs_voted_for := []\<rparr>) n else n)
        in persist_hard_state_locked
             (n\<lparr>rn_role := Follower, rn_leader_id := leader, rn_next_index := [], rn_match_index := []\<rparr>))"

definition become_leader_locked :: "'m raft_node \<Rightarrow> 'm raft_node" where
  "become_leader_locked n =
     (let next_index = last_log_index_locked n + 1;
          ids = rev (map peer_id (no_peers (rn_options n)))
      in count_metric (rm_leadership_changes_update (\<lambda>x. x + 1))
           (n\<lparr>rn_role := Leader, rn_leader_id := no_node_id (rn_options n),
              rn_next_index := foldr (\<lambda>i m. map_insert_or_assign i next_index m) ids [],
              rn_match_index := foldr (\<lambda>i m. map_insert_or_assign i 0 m) ids []\<rparr>))"

definition quorum_size :: "'m raft_node \<Rightarrow> nat" where
  "quorum_size n = (length (no_peers (rn_options n)) + 1) div 2 + 1"

definition find_peer :: "node_id \<Rightarrow> 'm raft_node \<Rightarrow> peer option" where
  "find_peer i n = find (\<lambda>p. peer_id p = i) (no_peers (rn_options n))"

section \<open>Commit and snapshots\<close>

definition maybe_create_snapshot_locked :: "'m state_machine \<Rightarrow> ('m raft_node, unit) effect" where
  "maybe_create_snapshot_locked mach n =
     (if no_snapshot_threshold_entries (rn_options n) = 0 \<or> rn_last_applied n = 0 then (Inr (), n)
      else if rn_last_applied n - snapshot_index n < no_snapshot_threshold_entries (rn_options n) then (Inr (), n)
      else case term_at_locked n (rn_last_applied n) of
        None \<Rightarrow> (Inl (RuntimeError ''cannot determine term for Raft snapshot''), n)
      | Some term \<Rightarrow>
          bind_effect (lift_result (mach_create_snapshot mach (rn_machine n))) (\<lambda>payload.
          let created = \<lparr>sn_last_included_index = rn_last_applied n, sn_last_included_term = term, sn_payload = payload\<rparr> in
          bind_effect (save_snapshot (rn_storage n) created) (\<lambda>_.
          bind_effect (modify (\<lambda>n. n\<lparr>rn_snapshot := Some created, rn_log := entries_after (sn_last_included_index created) (rn_log n)\<rparr>)) (\<lambda>_.
          bind_effect persist_log_locked (\<lambda>_.
          modify (count_metric (rm_snapshots_created_update (\<lambda>x. x + 1))))))) n)"

text \<open>One round of the loop of \<open>apply_committed_locked\<close>.\<close>

definition apply_next :: "'m state_machine \<Rightarrow> ('m raft_node, unit) effect" where
  "apply_next mach n =
     (let index = rn_last_applied n + 1 in
      if rn_snapshot n \<noteq> None \<and> index \<le> snapshot_index n
      then (Inr (), set_hard (\<lambda>h. h\<lparr>hs_last_applied := snapshot_index n\<rparr>) n)
      else if index < first_log_index n then (Inl (RuntimeError ''committed Raft entry is no longer available''), n)
      else let offset = unat (index - first_log_index n) in
      if offset \<ge> length (rn_log n) then (Inl (RuntimeError ''committed Raft entry is missing''), n)
      else
        bind_effect (on_machine (mach_apply mach (rn_log n ! offset))) (\<lambda>_.
        bind_effect (modify (set_hard (\<lambda>h. h\<lparr>hs_last_applied := index\<rparr>))) (\<lambda>_.
        modify (if cmd_type (le_command (rn_log n ! offset)) \<noteq> CmdNoop
          then count_metric (rm_committed_commands_update (\<lambda>x. x + 1)) else (\<lambda>n. n)))) n)"

lemma unat_successor: "a < (b :: u64) \<Longrightarrow> unat (a + 1) = Suc (unat a)"
proof -
  assume "a < b"
  moreover have "unat b < 2 ^ LENGTH(64)" by (rule unsigned_less)
  ultimately show ?thesis by (simp add: word_less_nat_alt unat_word_ariths)
qed

lemma apply_next_progress:
  assumes "rn_last_applied n < rn_commit_index n" and "apply_next mach n = (Inr (), n')"
  shows "rn_commit_index n' = rn_commit_index n" and "rn_last_applied n < rn_last_applied n'"
proof -
  have up: "rn_last_applied n < rn_last_applied n + 1" using unat_successor [OF assms(1)] by (simp add: word_less_nat_alt)
  show "rn_commit_index n' = rn_commit_index n" and "rn_last_applied n < rn_last_applied n'"
    using assms(2) up by (auto simp: apply_next_def Let_def modify_def on_machine_def count_metric_def result_simps
        split: if_splits prod.splits)
qed

function apply_loop :: "'m state_machine \<Rightarrow> ('m raft_node, unit) effect" where
  "apply_loop mach n =
     (if rn_last_applied n < rn_commit_index n
      then case apply_next mach n of (Inl e, n') \<Rightarrow> (Inl e, n') | (Inr _, n') \<Rightarrow> apply_loop mach n'
      else (Inr (), n))"
  by pat_completeness auto
termination
proof (relation "measure (\<lambda>(mach, n). unat (rn_commit_index n) - unat (rn_last_applied n))")
  fix mach :: "'m state_machine" and n r n' u
  assume lt: "rn_last_applied n < rn_commit_index n" and "(r, n') = apply_next mach n" and "r = Inr u"
  then have "apply_next mach n = (Inr (), n')" by simp
  from apply_next_progress [OF lt this] lt
  show "((mach, n'), mach, n) \<in> measure (\<lambda>(mach, n). unat (rn_commit_index n) - unat (rn_last_applied n))"
    by (simp add: word_less_nat_alt)
qed simp

declare apply_loop.simps [simp del]

definition apply_committed_locked :: "'m state_machine \<Rightarrow> ('m raft_node, unit) effect" where
  "apply_committed_locked mach = bind_effect (apply_loop mach) (\<lambda>_. maybe_create_snapshot_locked mach)"

definition replicated_indices :: "'m raft_node \<Rightarrow> u64 list" where
  "replicated_indices n = last_log_index_locked n #
     map (\<lambda>p. case map_of (rn_match_index n) (peer_id p) of None \<Rightarrow> 0 | Some i \<Rightarrow> i) (no_peers (rn_options n))"

definition commit_candidate :: "'m raft_node \<Rightarrow> u64" where
  "commit_candidate n = (let replicated = sort (replicated_indices n) in replicated ! (length replicated - quorum_size n))"

definition advance_commit_locked :: "'m raft_node \<Rightarrow> bool \<times> 'm raft_node" where
  "advance_commit_locked n =
     (let candidate = commit_candidate n in
      if candidate \<le> rn_commit_index n then (False, n)
      else if term_at_locked n candidate \<noteq> Some (rn_current_term n) then (False, n)
      else (True, set_hard (\<lambda>h. h\<lparr>hs_commit_index := candidate\<rparr>) n))"

section \<open>Requests from other nodes\<close>

text \<open>The vote itself, once the term of the request has been adopted.\<close>

definition decide_vote :: "request_vote_request \<Rightarrow> ('m raft_node, request_vote_response) effect" where
  "decide_vote request n =
     (let candidate_is_current = (rv_last_log_term request > last_log_term_locked n \<or>
            rv_last_log_term request = last_log_term_locked n \<and> rv_last_log_index request \<ge> last_log_index_locked n);
          can_vote = (hs_voted_for (rn_hard_state n) = [] \<or> hs_voted_for (rn_hard_state n) = rv_candidate_id request);
          grant = (can_vote \<and> candidate_is_current)
      in bind_effect (if grant
           then bind_effect (modify (set_hard (\<lambda>h. h\<lparr>hs_voted_for := rv_candidate_id request\<rparr>))) (\<lambda>_. persist_hard_state_locked)
           else modify (\<lambda>n. n)) (\<lambda>_ n.
           (Inr \<lparr>rvr_term = rn_current_term n, rvr_vote_granted = grant\<rparr>, n)) n)"

definition handle_request_vote :: "request_vote_request \<Rightarrow> ('m raft_node, request_vote_response) effect" where
  "handle_request_vote request =
     bind_effect (modify (count_metric (rm_vote_requests_received_update (\<lambda>x. x + 1)))) (\<lambda>_ n.
       if rv_term request < rn_current_term n then (Inr \<lparr>rvr_term = rn_current_term n, rvr_vote_granted = False\<rparr>, n)
       else bind_effect (if rv_term request > rn_current_term n then become_follower_locked (rv_term request) [] else modify (\<lambda>n. n)) (\<lambda>_.
            decide_vote request) n)"

function conflict_loop :: "'m raft_node \<Rightarrow> u64 \<Rightarrow> u64 \<Rightarrow> u64" where
  "conflict_loop n previous_term conflict_index =
     (if conflict_index > snapshot_index n + 1
      then if term_at_locked n (conflict_index - 1) \<noteq> Some previous_term then conflict_index
           else conflict_loop n previous_term (conflict_index - 1)
      else conflict_index)"
  by pat_completeness auto
termination
proof (relation "measure (\<lambda>(n, t, c). unat c)")
  fix n :: "'m raft_node" and t c :: u64
  assume "snapshot_index n + 1 < c"
  then have "c \<noteq> 0" by auto
  then show "((n, t, c - 1), n, t, c) \<in> measure (\<lambda>(n, t, c). unat c)"
    by (simp add: unat_minus_one unat_gt_0)
qed simp

declare conflict_loop.simps [simp del]

text \<open>The loop over the entries; \<open>None\<close> is the early return on an entry out of place, otherwise whether the
  log changed.\<close>

fun append_loop :: "u64 \<Rightarrow> nat \<Rightarrow> log_entry list \<Rightarrow> bool \<Rightarrow> ('m raft_node, bool option) effect" where
  "append_loop previous position [] log_changed n = (Inr (Some log_changed), n)"
| "append_loop previous position (incoming # rest) log_changed n =
     (if le_index incoming \<noteq> previous + of_nat position + 1 then (Inr None, n)
      else if le_index incoming \<le> snapshot_index n then append_loop previous (Suc position) rest log_changed n
      else
        let existing_term = term_at_locked n (le_index incoming);
            conflict = (existing_term \<noteq> None \<and> existing_term \<noteq> Some (le_term incoming));
            n = (if conflict then truncate_log_from_locked (le_index incoming) n else n)
        in if term_at_locked n (le_index incoming) = None
           then bind_effect (append_entries_locked (incoming # rest)) (\<lambda>_. lift_result (Inr (Some True))) n
           else append_loop previous (Suc position) rest (log_changed \<or> conflict) n)"

abbreviation append_rejected :: "u64 \<Rightarrow> u64 \<Rightarrow> 'm raft_node \<Rightarrow> append_entries_response" where
  "append_rejected match conflict n \<equiv>
     \<lparr>aer_term = rn_current_term n, aer_success = False, aer_match_index = match, aer_conflict_index = conflict\<rparr>"

text \<open>What follows the loop over the entries: persist, advance the commit index, reply.\<close>

definition finish_append :: "'m state_machine \<Rightarrow> append_entries_request \<Rightarrow> bool \<Rightarrow> ('m raft_node, append_entries_response) effect" where
  "finish_append mach request log_changed =
     bind_effect (if log_changed then persist_log_locked else modify (\<lambda>n. n)) (\<lambda>_.
     bind_effect (\<lambda>n.
       if ae_leader_commit request > rn_commit_index n
       then bind_effect (modify (set_hard (\<lambda>h. h\<lparr>hs_commit_index := min (ae_leader_commit request) (last_log_index_locked n)\<rparr>))) (\<lambda>_.
            bind_effect (apply_committed_locked mach) (\<lambda>_. persist_hard_state_locked)) n
       else (Inr (), n)) (\<lambda>_ n.
       let match_index = (if ae_entries request = [] then ae_previous_log_index request else le_index (last (ae_entries request)))
       in (Inr \<lparr>aer_term = rn_current_term n, aer_success = True,
             aer_match_index = min match_index (last_log_index_locked n), aer_conflict_index = 0\<rparr>, n)))"

text \<open>The consistency check and what follows it, once the node follows the sender.\<close>

definition append_checked :: "'m state_machine \<Rightarrow> append_entries_request \<Rightarrow> ('m raft_node, append_entries_response) effect" where
  "append_checked mach request n =
     (if ae_previous_log_index request < snapshot_index n
      then (Inr (append_rejected (snapshot_index n) (snapshot_index n + 1) n), n)
      else case term_at_locked n (ae_previous_log_index request) of
        None \<Rightarrow> (Inr (append_rejected (last_log_index_locked n) (last_log_index_locked n + 1) n), n)
      | Some previous_term \<Rightarrow>
          if previous_term \<noteq> ae_previous_log_term request
          then (Inr (append_rejected 0 (conflict_loop n previous_term (ae_previous_log_index request)) n), n)
          else bind_effect (append_loop (ae_previous_log_index request) 0 (ae_entries request) False) (\<lambda>changed n.
            case changed of
              None \<Rightarrow> (Inr (append_rejected (last_log_index_locked n) (last_log_index_locked n + 1) n), n)
            | Some log_changed \<Rightarrow> finish_append mach request log_changed n) n)"

definition handle_append_entries :: "'m state_machine \<Rightarrow> append_entries_request \<Rightarrow> ('m raft_node, append_entries_response) effect" where
  "handle_append_entries mach request =
     bind_effect (modify (count_metric (rm_append_entries_received_update (\<lambda>x. x + 1)))) (\<lambda>_ n.
       if ae_term request < rn_current_term n
       then (Inr (append_rejected (last_log_index_locked n) (last_log_index_locked n + 1) n), n)
       else
         bind_effect (if ae_term request > rn_current_term n \<or> rn_role n \<noteq> Follower
           then become_follower_locked (ae_term request) (ae_leader_id request) else modify (\<lambda>n. n)) (\<lambda>_.
         bind_effect (modify (\<lambda>n. n\<lparr>rn_leader_id := ae_leader_id request\<rparr>)) (\<lambda>_.
         append_checked mach request)) n)"

text \<open>Taking over the snapshot of a request that is ahead of the own one.\<close>

definition install_newer :: "'m state_machine \<Rightarrow> install_snapshot_request \<Rightarrow> ('m raft_node, install_snapshot_response) effect" where
  "install_newer mach request n =
     (let keep = (term_at_locked n (is_last_included_index request) = Some (is_last_included_term request));
          installed = \<lparr>sn_last_included_index = is_last_included_index request,
            sn_last_included_term = is_last_included_term request, sn_payload = is_payload request\<rparr>
      in bind_effect (modify (\<lambda>n. n\<lparr>rn_log := (if keep then entries_after (is_last_included_index request) (rn_log n) else [])\<rparr>)) (\<lambda>_.
         bind_effect (save_snapshot (rn_storage n) installed) (\<lambda>_.
         bind_effect (modify (\<lambda>n. n\<lparr>rn_snapshot := Some installed\<rparr>)) (\<lambda>_.
         bind_effect persist_log_locked (\<lambda>_.
         bind_effect (on_machine (mach_install_snapshot mach (sn_payload installed))) (\<lambda>_.
         bind_effect (modify (set_hard (\<lambda>h. h\<lparr>hs_commit_index := max (hs_commit_index h) (sn_last_included_index installed),
             hs_last_applied := max (hs_last_applied h) (sn_last_included_index installed)\<rparr>))) (\<lambda>_.
         bind_effect persist_hard_state_locked (\<lambda>_.
         bind_effect (modify (count_metric (rm_snapshots_installed_update (\<lambda>x. x + 1)))) (\<lambda>_ n.
         (Inr \<lparr>isr_term = rn_current_term n, isr_success = True, isr_installed_index = sn_last_included_index installed\<rparr>, n))))))))) n)"

definition handle_install_snapshot :: "'m state_machine \<Rightarrow> install_snapshot_request \<Rightarrow> ('m raft_node, install_snapshot_response) effect" where
  "handle_install_snapshot mach request n =
     (if is_term request < rn_current_term n
      then (Inr \<lparr>isr_term = rn_current_term n, isr_success = False, isr_installed_index = snapshot_index n\<rparr>, n)
      else
        bind_effect (if is_term request > rn_current_term n \<or> rn_role n \<noteq> Follower
          then become_follower_locked (is_term request) (is_leader_id request) else modify (\<lambda>n. n)) (\<lambda>_.
        bind_effect (modify (\<lambda>n. n\<lparr>rn_leader_id := is_leader_id request\<rparr>)) (\<lambda>_ n.
          if rn_snapshot n \<noteq> None \<and> is_last_included_index request \<le> snapshot_index n
          then (Inr \<lparr>isr_term = rn_current_term n, isr_success = True, isr_installed_index = snapshot_index n\<rparr>, n)
          else install_newer mach request n)) n)"

section \<open>Construction\<close>

definition validate_options :: "raft_node_options \<Rightarrow> unit result" where
  "validate_options options =
     bind_result (throw_if (no_node_id options = []) (InvalidArgument ''Raft node id must not be empty'')) (\<lambda>_.
     bind_result (throw_if (no_election_timeout_min options \<le> 0 \<or> no_election_timeout_max options < no_election_timeout_min options)
       (InvalidArgument ''invalid Raft election timeout range'')) (\<lambda>_.
     bind_result (throw_if (no_heartbeat_interval options \<le> 0 \<or> no_heartbeat_interval options \<ge> no_election_timeout_min options)
       (InvalidArgument ''heartbeat interval must be positive and below election timeout'')) (\<lambda>_.
     bind_result (throw_if (no_rpc_timeout options \<le> 0) (InvalidArgument ''Raft RPC timeout must be positive'')) (\<lambda>_.
     bind_result (throw_if (no_max_append_entries options = 0) (InvalidArgument ''maximum AppendEntries batch must be positive'')) (\<lambda>_.
     bind_result (foldr (\<lambda>p r.
         bind_result (throw_if (peer_id p = [] \<or> peer_address p = []) (InvalidArgument ''Raft peer id and address must not be empty'')) (\<lambda>_.
         bind_result (throw_if (peer_id p = no_node_id options) (InvalidArgument ''Raft peer list must not contain the local node'')) (\<lambda>_. r)))
         (no_peers options) (Inr ())) (\<lambda>_.
     throw_if (\<not> successively (\<noteq>) (sort (map peer_id (no_peers options)))) (InvalidArgument ''Raft peer ids must be unique'')))))))"

definition valid_client_command :: "command \<Rightarrow> bool result" where
  "valid_client_command c =
     (if cmd_type c = CmdNoop then Inr False
      else bind_result (validate_key (cmd_key c)) (\<lambda>_.
           bind_result (if cmd_type c = CmdPut then validate_value (cmd_value c)
             else throw_if (cmd_value c \<noteq> []) (InvalidArgument ''delete command must not contain a value'')) (\<lambda>_.
           Inr True)))"

text \<open>The members before the body of the constructor runs.\<close>

definition blank_node :: "raft_node_options \<Rightarrow> raft_storage \<Rightarrow> 'm \<Rightarrow> 'a world_scheme \<Rightarrow> 'm raft_node" where
  "blank_node options st m w = \<lparr>w_fs = w_fs w, w_events = w_events w, rn_options = options, rn_storage = st, rn_machine = m,
     rn_role = Follower, rn_hard_state = initial_hard_state, rn_log = [], rn_snapshot = None, rn_leader_id = [],
     rn_next_index = [], rn_match_index = [], rn_metrics = initial_metrics\<rparr>"

text \<open>The checks and the recovery the constructor makes once the persisted state is in its members.\<close>

definition recover_node :: "'m state_machine \<Rightarrow> ('m raft_node, unit) effect" where
  "recover_node mach n =
     bind_effect (lift_result (throw_if (rn_log n \<noteq> [] \<and> le_index (hd (rn_log n)) \<noteq> snapshot_index n + 1)
       (RuntimeError ''persisted Raft log does not follow its snapshot''))) (\<lambda>_.
     bind_effect (lift_result (throw_if (\<not> contiguous (rn_log n)) (RuntimeError ''persisted Raft log indices are not contiguous''))) (\<lambda>_.
     bind_effect (modify (set_hard (\<lambda>h. if hs_commit_index h < snapshot_index n then h\<lparr>hs_commit_index := snapshot_index n\<rparr> else h))) (\<lambda>_ n.
     bind_effect (lift_result (throw_if (rn_commit_index n > last_log_index_locked n)
       (RuntimeError ''persisted Raft commit index exceeds the log''))) (\<lambda>_.
     bind_effect (on_machine (mach_recover mach (rn_snapshot n) (filter (\<lambda>e. le_index e \<le> rn_commit_index n) (rn_log n)))) (\<lambda>_.
     bind_effect (modify (set_hard (\<lambda>h. h\<lparr>hs_last_applied := hs_commit_index h\<rparr>))) (\<lambda>_.
     persist_hard_state_locked))) n))) n"

definition raft_node_new :: "'m state_machine \<Rightarrow> raft_node_options \<Rightarrow> raft_storage \<Rightarrow> 'm \<Rightarrow> 'a world_scheme \<Rightarrow> unit result \<times> 'm raft_node" where
  "raft_node_new mach options st m w =
     bind_effect (lift_result (validate_options options)) (\<lambda>_.
     bind_effect (raft_load st) (\<lambda>persisted.
     bind_effect (modify (\<lambda>n. n\<lparr>rn_hard_state := pst_hard_state persisted, rn_log := pst_log persisted, rn_snapshot := pst_snapshot persisted\<rparr>)) (\<lambda>_.
     recover_node mach))) (blank_node options st m w)"

section \<open>Elections\<close>

definition election_start :: "('m raft_node, request_vote_request option) effect" where
  "election_start n =
     (if rn_role n = Leader then (Inr None, n)
      else bind_effect (modify (\<lambda>n. count_metric (rm_elections_started_update (\<lambda>x. x + 1))
             (set_hard (\<lambda>h. h\<lparr>hs_current_term := hs_current_term h + 1, hs_voted_for := no_node_id (rn_options n)\<rparr>)
               (n\<lparr>rn_role := Candidate, rn_leader_id := []\<rparr>)))) (\<lambda>_.
           bind_effect persist_hard_state_locked (\<lambda>_ n.
           (Inr (Some \<lparr>rv_term = rn_current_term n, rv_candidate_id = no_node_id (rn_options n),
              rv_last_log_index = last_log_index_locked n, rv_last_log_term = last_log_term_locked n\<rparr>), n))) n)"

text \<open>A response to a vote request: \<open>None\<close> when the campaign ends here, otherwise whether the vote counts.\<close>

definition election_response :: "u64 \<Rightarrow> request_vote_response \<Rightarrow> ('m raft_node, bool option) effect" where
  "election_response election_term response n =
     (if rvr_term response > rn_current_term n
      then bind_effect (become_follower_locked (rvr_term response) []) (\<lambda>_. lift_result (Inr None)) n
      else if rn_role n \<noteq> Candidate \<or> rn_current_term n \<noteq> election_term then (Inr None, n)
      else (Inr (Some (rvr_vote_granted response)), n))"

definition noop_command :: command where
  "noop_command = \<lparr>cmd_type = CmdNoop, cmd_key = [], cmd_value = []\<rparr>"

definition election_finish :: "'m state_machine \<Rightarrow> u64 \<Rightarrow> nat \<Rightarrow> ('m raft_node, bool) effect" where
  "election_finish mach election_term votes n =
     (if rn_role n = Candidate \<and> rn_current_term n = election_term \<and> votes \<ge> quorum_size n
      then bind_effect (modify become_leader_locked) (\<lambda>_.
           bind_effect (append_local_entry_locked noop_command) (\<lambda>_.
           bind_effect persist_log_locked (\<lambda>_.
           bind_effect (\<lambda>n. if quorum_size n = 1
             then bind_effect (modify (set_hard (\<lambda>h. h\<lparr>hs_commit_index := last_log_index_locked n\<rparr>))) (\<lambda>_.
                  bind_effect (apply_committed_locked mach) (\<lambda>_. persist_hard_state_locked)) n
             else (Inr (), n)) (\<lambda>_. lift_result (Inr True))))) n
      else (Inr False, n))"

section \<open>Replication\<close>

text \<open>What one attempt sends: nothing when the next index had to be moved first.\<close>

datatype replication_request =
    LeadershipLost
  | NextMoved
  | SendSnapshot install_snapshot_request
  | SendEntries append_entries_request

definition prepare_entries :: "peer \<Rightarrow> bool \<Rightarrow> u64 \<Rightarrow> 'm raft_node \<Rightarrow> replication_request \<times> 'm raft_node" where
  "prepare_entries peer heartbeat_only next_index n =
     (let previous = (if next_index = 0 then 0 else next_index - 1) in
      case term_at_locked n previous of
        None \<Rightarrow>
          let moved = (case rn_snapshot n of Some sn \<Rightarrow> sn_last_included_index sn | None \<Rightarrow> max 1 (next_index - 1))
          in (NextMoved, n\<lparr>rn_next_index := map_insert_or_assign (peer_id peer) moved (rn_next_index n)\<rparr>)
      | Some previous_term \<Rightarrow>
          (SendEntries \<lparr>ae_term = rn_current_term n, ae_leader_id = no_node_id (rn_options n),
             ae_previous_log_index = previous, ae_previous_log_term = previous_term,
             ae_entries = (if heartbeat_only then [] else entries_from_locked n next_index),
             ae_leader_commit = rn_commit_index n\<rparr>,
           count_metric (rm_append_entries_sent_update (\<lambda>x. x + 1)) n))"

definition prepare_replication :: "peer \<Rightarrow> bool \<Rightarrow> 'm raft_node \<Rightarrow> replication_request \<times> 'm raft_node" where
  "prepare_replication peer heartbeat_only n =
     (if rn_role n \<noteq> Leader then (LeadershipLost, n)
      else
        let n = (if map_of (rn_next_index n) (peer_id peer) = None
                 then n\<lparr>rn_next_index := map_insert_or_assign (peer_id peer) (last_log_index_locked n + 1) (rn_next_index n)\<rparr> else n);
            next_index = the (map_of (rn_next_index n) (peer_id peer))
        in case rn_snapshot n of
             Some sn \<Rightarrow>
               if next_index \<le> sn_last_included_index sn
               then (SendSnapshot \<lparr>is_term = rn_current_term n, is_leader_id = no_node_id (rn_options n),
                       is_last_included_index = sn_last_included_index sn, is_last_included_term = sn_last_included_term sn,
                       is_payload = sn_payload sn\<rparr>, n)
               else prepare_entries peer heartbeat_only next_index n
           | None \<Rightarrow> prepare_entries peer heartbeat_only next_index n)"

text \<open>The responses: \<open>Some\<close> is the result of \<open>replicate_peer\<close>, \<open>None\<close> goes on with the next attempt.\<close>

definition count_failure :: "'m raft_node \<Rightarrow> 'm raft_node" where
  "count_failure = count_metric (rm_replication_failures_update (\<lambda>x. x + 1))"

definition set_progress :: "peer \<Rightarrow> u64 \<Rightarrow> 'm raft_node \<Rightarrow> 'm raft_node" where
  "set_progress peer index n = n\<lparr>rn_match_index := map_insert_or_assign (peer_id peer) index (rn_match_index n),
     rn_next_index := map_insert_or_assign (peer_id peer) (index + 1) (rn_next_index n)\<rparr>"

definition snapshot_response :: "peer \<Rightarrow> u64 \<Rightarrow> install_snapshot_response option \<Rightarrow> ('m raft_node, bool option) effect" where
  "snapshot_response peer request_term response n =
     (case response of
        None \<Rightarrow> (Inr (Some False), count_failure n)
      | Some r \<Rightarrow>
          if isr_term r > rn_current_term n
          then bind_effect (become_follower_locked (isr_term r) []) (\<lambda>_. lift_result (Inr (Some False))) n
          else if rn_role n \<noteq> Leader \<or> rn_current_term n \<noteq> request_term then (Inr (Some False), n)
          else if isr_success r then (Inr (Some True), set_progress peer (isr_installed_index r) n)
          else (Inr (Some False), count_failure n))"

definition append_response :: "peer \<Rightarrow> u64 \<Rightarrow> append_entries_response option \<Rightarrow> ('m raft_node, bool option) effect" where
  "append_response peer request_term response n =
     (case response of
        None \<Rightarrow> (Inr (Some False), count_failure n)
      | Some r \<Rightarrow>
          if aer_term r > rn_current_term n
          then bind_effect (become_follower_locked (aer_term r) []) (\<lambda>_. lift_result (Inr (Some False))) n
          else if rn_role n \<noteq> Leader \<or> rn_current_term n \<noteq> request_term then (Inr (Some False), n)
          else if aer_success r then (Inr (Some True), set_progress peer (aer_match_index r) n)
          else
            let n = count_failure n;
                current_next = (case map_of (rn_next_index n) (peer_id peer) of None \<Rightarrow> 0 | Some i \<Rightarrow> i);
                fallback = (if aer_conflict_index r = 0 then max 1 (current_next - 1) else aer_conflict_index r)
            in (Inr None, n\<lparr>rn_next_index := map_insert_or_assign (peer_id peer) (min current_next fallback) (rn_next_index n)\<rparr>))"

fun replicate_attempts :: "'m raft_node raft_transport \<Rightarrow> peer \<Rightarrow> bool \<Rightarrow> nat \<Rightarrow> ('m raft_node, bool) effect" where
  "replicate_attempts tr peer heartbeat_only 0 n = (Inr False, n)"
| "replicate_attempts tr peer heartbeat_only (Suc attempts) n =
     (case prepare_replication peer heartbeat_only n of
        (LeadershipLost, n) \<Rightarrow> (Inr False, n)
      | (NextMoved, n) \<Rightarrow> replicate_attempts tr peer heartbeat_only attempts n
      | (SendSnapshot request, n) \<Rightarrow>
          bind_effect (tr_install_snapshot tr peer request) (\<lambda>response.
          bind_effect (snapshot_response peer (is_term request) response) (\<lambda>outcome.
          case outcome of Some b \<Rightarrow> lift_result (Inr b) | None \<Rightarrow> replicate_attempts tr peer heartbeat_only attempts)) n
      | (SendEntries request, n) \<Rightarrow>
          bind_effect (tr_append_entries tr peer request) (\<lambda>response.
          bind_effect (append_response peer (ae_term request) response) (\<lambda>outcome.
          case outcome of Some b \<Rightarrow> lift_result (Inr b) | None \<Rightarrow> replicate_attempts tr peer heartbeat_only attempts)) n)"

definition replicate_peer :: "'m raft_node raft_transport \<Rightarrow> peer \<Rightarrow> bool \<Rightarrow> ('m raft_node, bool) effect" where
  "replicate_peer tr peer heartbeat_only = replicate_attempts tr peer heartbeat_only 256"

fun replicate_peers :: "'m raft_node raft_transport \<Rightarrow> peer list \<Rightarrow> bool \<Rightarrow> ('m raft_node, nat) effect" where
  "replicate_peers tr [] heartbeat_only = lift_result (Inr 0)"
| "replicate_peers tr (p # ps) heartbeat_only =
     bind_effect (replicate_peer tr p heartbeat_only) (\<lambda>ok.
     bind_effect (replicate_peers tr ps heartbeat_only) (\<lambda>successes.
     lift_result (Inr (if ok then Suc successes else successes))))"

definition advance_and_apply :: "'m state_machine \<Rightarrow> u64 \<Rightarrow> ('m raft_node, bool \<times> bool) effect" where
  "advance_and_apply mach request_term n =
     (if rn_role n = Leader \<and> rn_current_term n = request_term
      then case advance_commit_locked n of
        (False, n) \<Rightarrow> (Inr (True, False), n)
      | (True, n) \<Rightarrow> bind_effect (apply_committed_locked mach) (\<lambda>_.
          bind_effect persist_hard_state_locked (\<lambda>_. lift_result (Inr (True, True)))) n
      else (Inr (False, False), n))"

definition replicate_all :: "'m state_machine \<Rightarrow> 'm raft_node raft_transport \<Rightarrow> bool \<Rightarrow> ('m raft_node, bool) effect" where
  "replicate_all mach tr heartbeat_only n =
     (if rn_role n \<noteq> Leader then (Inr False, n)
      else
        let request_term = rn_current_term n; peers = no_peers (rn_options n) in
        bind_effect (replicate_peers tr peers heartbeat_only) (\<lambda>successes.
        bind_effect (advance_and_apply mach request_term) (\<lambda>(current_leader, commit_advanced).
        bind_effect (if commit_advanced then replicate_peers tr peers True else lift_result (Inr 0)) (\<lambda>_ n.
        (Inr (current_leader \<and> 1 + successes \<ge> quorum_size n), n)))) n)"

fun collect_votes :: "'m raft_node raft_transport \<Rightarrow> request_vote_request \<Rightarrow> peer list \<Rightarrow> nat \<Rightarrow> ('m raft_node, nat option) effect" where
  "collect_votes tr request [] votes = lift_result (Inr (Some votes))"
| "collect_votes tr request (p # ps) votes =
     bind_effect (modify (count_metric (rm_vote_requests_sent_update (\<lambda>x. x + 1)))) (\<lambda>_.
     bind_effect (tr_request_vote tr p request) (\<lambda>response.
     case response of
       None \<Rightarrow> collect_votes tr request ps votes
     | Some r \<Rightarrow> bind_effect (election_response (rv_term request) r) (\<lambda>outcome.
         case outcome of
           None \<Rightarrow> lift_result (Inr None)
         | Some granted \<Rightarrow> collect_votes tr request ps (if granted then votes + 1 else votes))))"

definition begin_election :: "'m state_machine \<Rightarrow> 'm raft_node raft_transport \<Rightarrow> ('m raft_node, unit) effect" where
  "begin_election mach tr =
     bind_effect election_start (\<lambda>started n.
       case started of
         None \<Rightarrow> (Inr (), n)
       | Some request \<Rightarrow>
           bind_effect (collect_votes tr request (no_peers (rn_options n)) 1) (\<lambda>votes.
           case votes of
             None \<Rightarrow> lift_result (Inr ())
           | Some votes \<Rightarrow>
               bind_effect (election_finish mach (rv_term request) votes) (\<lambda>won n.
               if won \<and> quorum_size n > 1 then bind_effect (replicate_all mach tr False) (\<lambda>_. lift_result (Inr ())) n
               else (Inr (), n))) n)"

section \<open>Clients\<close>

definition what :: "error \<Rightarrow> string" where
  "what e = (case e of InvalidArgument s \<Rightarrow> s | LengthError s \<Rightarrow> s | LogicError s \<Rightarrow> s | OverflowError s \<Rightarrow> s
     | RuntimeError s \<Rightarrow> s | SystemError s \<Rightarrow> s | SSTableCorruptionError _ s \<Rightarrow> s)"

definition submit_local :: "'m state_machine \<Rightarrow> command \<Rightarrow> ('m raft_node, submit_result + log_entry) effect" where
  "submit_local mach c n =
     (if rn_role n \<noteq> Leader
      then (Inr (Inl \<lparr>sr_status = NotLeader, sr_log_index = 0, sr_term = rn_current_term n, sr_leader_id = rn_leader_id n,
              sr_message = ''request must be sent to the current leader''\<rparr>), n)
      else
        bind_effect (append_local_entry_locked c) (\<lambda>entry.
        bind_effect persist_log_locked (\<lambda>_ n.
          if quorum_size n = 1
          then bind_effect (modify (set_hard (\<lambda>h. h\<lparr>hs_commit_index := le_index entry\<rparr>))) (\<lambda>_.
               bind_effect (apply_committed_locked mach) (\<lambda>_.
               bind_effect persist_hard_state_locked (\<lambda>_ n.
               (Inr (Inl \<lparr>sr_status = Committed, sr_log_index = le_index entry, sr_term = le_term entry,
                  sr_leader_id = no_node_id (rn_options n), sr_message = []\<rparr>), n)))) n
          else (Inr (Inr entry), n))) n)"

definition submit_check :: "log_entry \<Rightarrow> 'm raft_node \<Rightarrow> submit_result option" where
  "submit_check entry n =
     (if rn_commit_index n \<ge> le_index entry
      then Some \<lparr>sr_status = Committed, sr_log_index = le_index entry, sr_term = le_term entry,
             sr_leader_id = no_node_id (rn_options n), sr_message = []\<rparr>
      else if rn_role n \<noteq> Leader \<or> rn_current_term n \<noteq> le_term entry
      then Some \<lparr>sr_status = NotLeader, sr_log_index = le_index entry, sr_term = rn_current_term n,
             sr_leader_id = rn_leader_id n, sr_message = ''leadership changed before the command committed''\<rparr>
      else None)"

text \<open>\<open>rounds\<close> is how often the loop finds the deadline not yet reached.\<close>

fun submit_loop :: "'m state_machine \<Rightarrow> 'm raft_node raft_transport \<Rightarrow> log_entry \<Rightarrow> nat \<Rightarrow> ('m raft_node, submit_result) effect" where
  "submit_loop mach tr entry 0 n =
     (Inr \<lparr>sr_status = Timeout, sr_log_index = le_index entry, sr_term = rn_current_term n, sr_leader_id = rn_leader_id n,
        sr_message = ''command did not reach a quorum before its deadline''\<rparr>, n)"
| "submit_loop mach tr entry (Suc rounds) n =
     bind_effect (replicate_all mach tr False) (\<lambda>_ n.
       case submit_check entry n of Some r \<Rightarrow> (Inr r, n) | None \<Rightarrow> submit_loop mach tr entry rounds n) n"

definition submit :: "'m state_machine \<Rightarrow> 'm raft_node raft_transport \<Rightarrow> command \<Rightarrow> nat \<Rightarrow> ('m raft_node, submit_result) effect" where
  "submit mach tr c rounds n =
     (case valid_client_command c of
        Inl e \<Rightarrow> (Inr \<lparr>sr_status = InvalidCommand, sr_log_index = 0, sr_term = 0, sr_leader_id = [], sr_message = what e\<rparr>, n)
      | Inr _ \<Rightarrow> bind_effect (submit_local mach c) (\<lambda>outcome.
          case outcome of Inl r \<Rightarrow> lift_result (Inr r) | Inr entry \<Rightarrow> submit_loop mach tr entry rounds) n)"

fun confirm_leadership :: "'m state_machine \<Rightarrow> 'm raft_node raft_transport \<Rightarrow> nat \<Rightarrow> ('m raft_node, bool) effect" where
  "confirm_leadership mach tr 0 n = (Inr False, n)"
| "confirm_leadership mach tr (Suc rounds) n =
     bind_effect (replicate_all mach tr False) (\<lambda>contacted_quorum n.
       if rn_role n \<noteq> Leader then (Inr False, n)
       else if contacted_quorum \<and> term_at_locked n (rn_commit_index n) = Some (rn_current_term n) then (Inr True, n)
       else confirm_leadership mach tr rounds n) n"

definition status :: "'m raft_node \<Rightarrow> node_status" where
  "status n = \<lparr>ns_node_id = no_node_id (rn_options n), ns_role = rn_role n, ns_term = rn_current_term n,
     ns_leader_id = rn_leader_id n, ns_commit_index = rn_commit_index n, ns_last_applied = rn_last_applied n,
     ns_last_log_index = last_log_index_locked n, ns_last_log_term = last_log_term_locked n,
     ns_snapshot_index = snapshot_index n, ns_peer_count = length (no_peers (rn_options n)), ns_metrics = rn_metrics n\<rparr>"

definition is_leader :: "'m raft_node \<Rightarrow> bool" where
  "is_leader n \<longleftrightarrow> rn_role n = Leader"

definition leader_address :: "'m raft_node \<Rightarrow> bytes option" where
  "leader_address n =
     (if rn_leader_id n = [] \<or> rn_leader_id n = no_node_id (rn_options n) then None
      else map_option peer_address (find_peer (rn_leader_id n) n))"

text \<open>An exception leaves the threshold at one.\<close>

definition trigger_snapshot :: "'m state_machine \<Rightarrow> ('m raft_node, unit) effect" where
  "trigger_snapshot mach n =
     (if rn_last_applied n = 0 then (Inr (), n)
      else
        let set_threshold = (\<lambda>k n. n\<lparr>rn_options := rn_options n\<lparr>no_snapshot_threshold_entries := k\<rparr>\<rparr>) in
        bind_effect (modify (set_threshold 1)) (\<lambda>_.
        bind_effect (maybe_create_snapshot_locked mach) (\<lambda>_.
        modify (set_threshold (no_snapshot_threshold_entries (rn_options n))))) n)"

text \<open>One turn of the ticker, given which deadlines have passed.\<close>

definition ticker_turn :: "'m state_machine \<Rightarrow> 'm raft_node raft_transport \<Rightarrow> bool \<Rightarrow> bool \<Rightarrow> ('m raft_node, unit) effect" where
  "ticker_turn mach tr election_passed heartbeat_passed n =
     (let election_due = (rn_role n \<noteq> Leader \<and> election_passed); heartbeat_due = (rn_role n = Leader \<and> heartbeat_passed) in
      if election_due then begin_election mach tr n
      else if heartbeat_due then bind_effect (replicate_all mach tr True) (\<lambda>_. lift_result (Inr ())) n
      else (Inr (), n))"

end
