(* ===== verification/RaftDurable.thy ===== *)
theory RaftDurable
  imports RaftStorage
begin

text \<open>
  What \<open>RaftStorage\<close> saves it loads again, and a crash during a save leaves the old or the new value of
  the part being saved and nothing else changed.
\<close>

section \<open>Round trips\<close>

lemma check_envelope_wrap [simp]: "length magic = 4 \<Longrightarrow> check_envelope path magic (wrap_payload magic payload) = Inr payload"
  by (simp add: check_envelope_def wrap_payload_def Let_def le_value_le_bytes)

lemma decodes_fst: "decodes m enc x \<Longrightarrow> f x [] = (r, rest) \<Longrightarrow> fst (bind_effect m f enc) = r"
  by (simp add: decodesD)

lemma decode_encode_hard_state:
  assumes "encode_hard_state h = Inr bs"
  shows "decode_hard_state bs = Inr h"
proof -
  from assms obtain v where v: "append_bytes (hs_voted_for h) = Inr v"
    and bs: "bs = le_bytes 8 (hs_current_term h) @ v @ le_bytes 8 (hs_commit_index h) @ le_bytes 8 (hs_last_applied h)"
    by (auto simp: encode_hard_state_def result_simps)
  show ?thesis unfolding decode_hard_state_def bs
    by (simp add: decodes_append [OF decodes_uint(4)] decodes_append [OF decodes_read_bytes [OF v]] decodesD [OF decodes_uint(4)]
        dec_finish_def)
qed

lemma decode_encode_snapshot:
  assumes "encode_snapshot sn = Inr bs"
  shows "decode_snapshot bs = Inr sn"
proof -
  from assms obtain p where p: "append_bytes (sn_payload sn) = Inr p"
    and bs: "bs = le_bytes 8 (sn_last_included_index sn) @ le_bytes 8 (sn_last_included_term sn) @ p"
    by (auto simp: encode_snapshot_def result_simps)
  show ?thesis unfolding decode_snapshot_def bs
    by (simp add: decodes_append [OF decodes_uint(4)] decodesD [OF decodes_read_bytes [OF p]] dec_finish_def)
qed

lemma decodes_entries: "encode_entries es = Inr bs \<Longrightarrow> decodes (decode_entries (length es)) bs es"
proof (induction es arbitrary: bs)
  case Nil
  then show ?case by (auto simp: decodes_def)
next
  case (Cons e es)
  then obtain b bs' where "encode_entry e = Inr b" "encode_entries es = Inr bs'" "bs = b @ bs'" by (auto simp: result_simps)
  then show ?case using Cons.IH by (simp add: decodes_bind [OF decodes_entry] decodes_last)
qed

lemma decode_encode_log:
  assumes "encode_log es = Inr bs" and "contiguous es" and "length es < 2 ^ 64"
  shows "decode_log bs = Inr es"
proof -
  from assms(1) obtain b where b: "encode_entries es = Inr b" and bs: "bs = le_bytes 8 (of_nat (length es) :: u64) @ b"
    by (auto simp: encode_log_def result_simps)
  have n: "unat (of_nat (length es) :: u64) = length es" using assms(3) by (simp add: unat_of_nat take_bit_nat_eq_self)
  show ?thesis unfolding decode_log_def bs
    using assms(2) by (simp add: decodes_append [OF decodes_uint(4)] n decodesD [OF decodes_entries [OF b]] dec_finish_def dec_check_def throw_if_def)
qed

section \<open>Replacing a file\<close>

lemma raft_write_all_prefix:
  "raft_write_all failed evs bs = (r, written, evs') \<Longrightarrow> prefix written bs \<and> (r = Inr () \<longrightarrow> written = bs)"
proof (induction evs arbitrary: bs r written evs')
  case (Cons ev evs)
  show ?case
  proof (cases "bs = [] \<or> (\<forall>k. ev \<noteq> Short k)")
    case True
    then show ?thesis using Cons by (cases ev) (auto split: if_splits)
  next
    case False
    then obtain k where k: "bs \<noteq> []" "ev = Short k" by blast
    define c where "c = min (Suc k) (length bs)"
    obtain r1 w1 e1 where rec: "raft_write_all failed evs (drop c bs) = (r1, w1, e1)" by (metis prod_cases3)
    have "r = r1" "written = take c bs @ w1" using Cons.prems k rec by (simp_all add: c_def [symmetric] Let_def)
    then show ?thesis using Cons.IH [OF rec] by (metis append_take_drop_id same_prefix_prefix)
  qed
qed auto

lemma raft_writeD:
  assumes "raft_write p bs w = (r, w')"
  shows "only_file p w w'"
    and "r = Inr u \<Longrightarrow> fs_files (w_fs w) p = Some f \<Longrightarrow> fs_files (w_fs w') p = Some (file_append bs f)"
proof -
  obtain r1 written evs where wr: "raft_write_all (SystemError ''failed to write Raft file'') (w_events w) bs = (r1, written, evs)"
    by (metis prod_cases3)
  from wr assms have r: "r = r1" and w': "w' = w\<lparr>w_fs := world_update p (file_append written) (w_fs w), w_events := evs\<rparr>"
    by (simp_all add: raft_write_def)
  from w' show "only_file p w w'" by simp
  assume "r = Inr u" and "fs_files (w_fs w) p = Some f"
  with raft_write_all_prefix [OF wr] r w' show "fs_files (w_fs w') p = Some (file_append bs f)"
    by (simp add: world_update_def)
qed

lemma raft_sync_directoryD:
  assumes "raft_sync_directory dir w = (r, w')"
  shows "fs_files (w_fs w') = fs_files (w_fs w)" and "world.more w' = world.more w"
    and "w_fs w' = w_fs w \<or> w_fs w' = fs_sync_directory dir (w_fs w)" and "r = Inr u \<Longrightarrow> w_fs w' = fs_sync_directory dir (w_fs w)"
proof -
  obtain r1 w1 where c: "sys_call (SystemError ''failed to open Raft directory'') w = (r1, w1)" by fastforce
  obtain r2 w2 where d: "sys_call (SystemError ''failed to synchronize Raft directory'') w1 = (r2, w2)" by fastforce
  define w3 where "w3 = w2\<lparr>w_fs := fs_sync_directory dir (w_fs w2)\<rparr>"
  obtain r4 w4 where f: "sys_call (SystemError ''failed to close Raft directory'') w3 = (r4, w4)" by fastforce
  note facts = sys_callD [OF c] sys_callD [OF d] sys_callD [OF f]
  consider x where "r = Inl x" "w' = w1" | x where "r = Inl x" "w' = w2" | "r = r4" "w' = w4"
    using assms c d f by (cases r1; cases r2) (auto simp: raft_sync_directory_def update_fs_def w3_def)
  note cases = this
  show "fs_files (w_fs w') = fs_files (w_fs w)" by (cases rule: cases) (simp_all add: facts w3_def)
  show "world.more w' = world.more w" by (cases rule: cases) (simp_all add: facts w3_def)
  show "w_fs w' = w_fs w \<or> w_fs w' = fs_sync_directory dir (w_fs w)" by (cases rule: cases) (simp_all add: facts w3_def)
  show "r = Inr u \<Longrightarrow> w_fs w' = fs_sync_directory dir (w_fs w)" by (cases rule: cases) (simp_all add: facts w3_def)
qed

lemma update_fs_run [simp]: "update_fs g w = (Inr (), w\<lparr>w_fs := g (w_fs w)\<rparr>)"
  by (simp add: update_fs_def)

lemma raft_fill_temporary:
  assumes run: "bind_effect (raft_write tmp bs) (\<lambda>_. bind_effect (sys_call e1) (\<lambda>_.
      bind_effect (update_fs (world_update tmp file_sync)) (\<lambda>_. sys_call e2))) w = (r, w')"
    and f: "fs_files (w_fs w) tmp = Some empty_file"
  shows "only_file tmp w w'" and "r = Inr u \<Longrightarrow> fs_files (w_fs w') tmp = Some (whole_file bs)"
proof -
  obtain r1 w1 where s1: "raft_write tmp bs w = (r1, w1)" by fastforce
  obtain r2 w2 where s2: "sys_call e1 w1 = (r2, w2)" by fastforce
  define w3 where "w3 = w2\<lparr>w_fs := world_update tmp file_sync (w_fs w2)\<rparr>"
  obtain r4 w4 where s4: "sys_call e2 w3 = (r4, w4)" by fastforce
  note d1 = raft_writeD [OF s1] and d2 = sys_callD [OF s2] and d4 = sys_callD [OF s4]
  have o2: "only_file tmp w w2" using d1(1) d2 by (simp add: only_file_def)
  have o3: "only_file tmp w2 w3" by (auto simp: w3_def only_file_def world_update_def split: option.split)
  have o4: "only_file tmp w w4" using only_file_trans [OF o2 o3] d4 by (simp add: only_file_def)
  consider x where "r = Inl x" "w' = w1" | x where "r = Inl x" "w' = w2" | "r1 = Inr ()" "r = r4" "w' = w4"
    using run s1 s2 s4 by (cases r1; cases r2) (auto simp: w3_def)
  note cases = this
  show "only_file tmp w w'" by (cases rule: cases) (use d1(1) o2 o4 in simp_all)
  show "fs_files (w_fs w') tmp = Some (whole_file bs)" if "r = Inr u"
  proof (cases rule: cases)
    case 3
    then have "fs_files (w_fs w2) tmp = Some (file_append bs empty_file)" using d1(2) f d2 by simp
    then show ?thesis using 3 d4 by (simp add: w3_def world_update_def file_sync_whole)
  qed (use that in simp_all)
qed

lemma raft_renameD:
  assumes run: "raft_rename tmp path w = (r, w')" and f: "fs_files (w_fs w) tmp = Some f" and ne: "tmp \<noteq> path"
  shows "r = Inl x \<Longrightarrow> only_file tmp w w'"
    and "r = Inr u \<Longrightarrow> fs_files (w_fs w') = (fs_files (w_fs w))(tmp := None, path \<mapsto> f) \<and>
      fs_synced (w_fs w') = fs_synced (w_fs w) \<and> world.more w' = world.more w"
proof -
  obtain r1 w1 where s1: "world_rename (SystemError ''failed to publish Raft file'') tmp path w = (r1, w1)" by fastforce
  note d = world_renameD [OF s1 f ne]
  show "fs_files (w_fs w') = (fs_files (w_fs w))(tmp := None, path \<mapsto> f) \<and>
      fs_synced (w_fs w') = fs_synced (w_fs w) \<and> world.more w' = world.more w" if "r = Inr u"
  proof (cases r1)
    case (Inl e)
    then show ?thesis using run s1 that by (auto simp: raft_rename_def result_simps)
  next
    case (Inr v)
    then show ?thesis using run s1 d by (simp add: raft_rename_def)
  qed
  show "only_file tmp w w'" if "r = Inl x"
  proof (cases r1)
    case (Inl e)
    obtain r2 w2 where s2: "sys_call (SystemError ''filesystem error: cannot remove'') w1 = (r2, w2)" by fastforce
    have "only_file tmp w w2" using d(1,2,4) Inl sys_callD [OF s2] by (simp add: only_file_def)
    then show ?thesis using run s1 s2 Inl by (cases r2) (auto simp: raft_rename_def only_file_def)
  next
    case (Inr v)
    then show ?thesis using run s1 that by (simp add: raft_rename_def)
  qed
qed

lemma raft_atomic_writeD:
  assumes run: "raft_atomic_write path bs w = (r, w')" and parent: "parent_path path \<noteq> []"
  shows "replaces path (tmp_name path) bs w w'" and "r = Inr u \<Longrightarrow> replaced path bs w'"
proof -
  let ?tmp = "tmp_name path"
  let ?m = "bind_effect (raft_write ?tmp bs) (\<lambda>_. bind_effect (sys_call (SystemError ''failed to synchronize Raft file'')) (\<lambda>_.
      bind_effect (update_fs (world_update ?tmp file_sync)) (\<lambda>_. sys_call (SystemError ''failed to close Raft file''))))"
  have ne: "?tmp \<noteq> path" by (simp add: str_def)
  obtain r0 w0 where s0: "sys_call (SystemError ''filesystem error: cannot create directories'') w = (r0, w0)" by fastforce
  obtain r1 w1 where s1: "world_create (SystemError ''failed to create temporary Raft file'') ?tmp w0 = (r1, w1)" by fastforce
  obtain r2 w2 where s2: "removing_on_error ?tmp ?m w1 = (r2, w2)" by fastforce
  obtain r3 w3 where s3: "raft_rename ?tmp path w2 = (r3, w3)" by fastforce
  obtain r4 w4 where s4: "raft_sync_directory (parent_path path) w3 = (r4, w4)" by fastforce
  have o0: "only_file ?tmp w w0" using sys_callD [OF s0] by (simp add: only_file_def)
  have o1: "only_file ?tmp w w1" using only_file_trans [OF o0 world_createD(1) [OF s1]] .
  consider (a) x where "r = Inl x" "w' = w0" | (b) x where "r = Inl x" "w' = w1" | (c) x where "r1 = Inr ()" "r2 = Inl x" "r = Inl x" "w' = w2"
    | (d) x where "r1 = Inr ()" "r2 = Inr ()" "r3 = Inl x" "r = Inl x" "w' = w3" | (e) "r1 = Inr ()" "r2 = Inr ()" "r3 = Inr ()" "r = r4" "w' = w4"
    using run s0 s1 s2 s3 s4 by (cases r0; cases r1; cases r2; cases r3) (auto simp: raft_atomic_write_def Let_def simp del: update_fs_run)
  note cases = this
  have block: "only_file ?tmp w w2 \<and> (r2 = Inr () \<longrightarrow> fs_files (w_fs w2) ?tmp = Some (whole_file bs))" if "r1 = Inr ()"
  proof -
    have f1: "fs_files (w_fs w1) ?tmp = Some empty_file" using world_createD(2) [OF s1] that by simp
    from s2 obtain w5 where m: "?m w1 = (r2, w5)" and o5: "only_file ?tmp w5 w2" and eq: "\<forall>x. r2 = Inr x \<longrightarrow> w2 = w5"
      by (rule removing_on_errorD)
    from raft_fill_temporary [OF m f1] show ?thesis using only_file_trans [OF o1] only_file_trans [OF _ o5] eq by blast
  qed
  have "replaces path ?tmp bs w w' \<and> (r = Inr u \<longrightarrow> replaced path bs w')"
  proof (cases rule: cases)
    case a
    then show ?thesis using o0 ne by (simp add: replaces_only_file)
  next
    case b
    then show ?thesis using o1 ne by (simp add: replaces_only_file)
  next
    case c
    then show ?thesis using block ne by (simp add: replaces_only_file)
  next
    case d
    then have "only_file ?tmp w w3" using block raft_renameD(1) [OF s3 _ ne] only_file_trans by blast
    then show ?thesis using d ne by (simp add: replaces_only_file)
  next
    case e
    then have o2: "only_file ?tmp w w2" and f2: "fs_files (w_fs w2) ?tmp = Some (whole_file bs)" using block by blast+
    note d3 = raft_renameD(2) [OF s3 f2 ne e(3)] and d4 = raft_sync_directoryD [OF s4]
    have files: "fs_files (w_fs w') = (fs_files (w_fs w2))(?tmp := None, path \<mapsto> whole_file bs)" using e d3 d4(1) by simp
    have more: "world.more w' = world.more w" using e d3 d4(2) o2 by (simp add: only_file_def)
    have sync: "fs_synced (w_fs w') q = fs_synced (w_fs w) q \<or> fs_synced (w_fs w') q = map_option df_durable (fs_files (w_fs w') q)" for q
      using d4(3) d3 o2 e(5) by (cases "in_directory (parent_path path) q") (auto simp: only_file_def)
    have "replaced path bs w'" if "r = Inr u"
    proof -
      have "w_fs w' = fs_sync_directory (parent_path path) (w_fs w3)" using d4(4) that e by simp
      then have "fs_synced (w_fs w') path = map_option df_durable (fs_files (w_fs w') path)"
        using in_directory_parent [of path] parent by simp
      then show ?thesis using files by (simp add: replaced_def)
    qed
    moreover have "replaces path ?tmp bs w w'" using files more sync o2 by (simp add: replaces_def only_file_def)
    ultimately show ?thesis by blast
  qed
  then show "replaces path ?tmp bs w w'" and "r = Inr u \<Longrightarrow> replaced path bs w'" by blast+
qed

end
