(* ===== verification/RaftParts.thy ===== *)
theory RaftParts
  imports RaftDurable
begin

text \<open>
  The storage of a node as three cells, each replaced atomically.  A part of the storage is described by
  the set of values a restart may find there: one value after a save that returned, the old and the new
  one after a save that failed.
\<close>

section \<open>One file\<close>

definition part_in :: "bytes \<Rightarrow> bytes option set \<Rightarrow> 'a world_scheme \<Rightarrow> bool" where
  "part_in path C w \<longleftrightarrow>
     (case fs_files (w_fs w) path of None \<Rightarrow> None \<in> C | Some f \<Rightarrow> f = whole_file (df_contents f) \<and> Some (df_contents f) \<in> C) \<and>
     fs_synced (w_fs w) path \<in> C"

lemma part_in_crash:
  assumes "part_in path C w" and "fs_crash (w_fs w) disk"
  shows "disk path \<in> C"
proof (cases "fs_files (w_fs w) path")
  case None
  then show ?thesis using assms by (auto simp: part_in_def fs_crash_def dest!: spec [of _ path])
next
  case (Some f)
  then have f: "f = whole_file (df_contents f)" "Some (df_contents f) \<in> C" and s: "fs_synced (w_fs w) path \<in> C"
    using assms(1) by (simp_all add: part_in_def)
  have "disk path = fs_synced (w_fs w) path \<or> (\<exists>img. crash_image f img \<and> disk path = Some img)"
    using spec [OF assms(2) [unfolded fs_crash_def], of path] Some by auto
  moreover have "df_durable f = df_contents f" using f(1) by (metis whole_file_simps)
  ultimately show ?thesis using f s crash_image_synced by metis
qed

lemma part_in_replaces:
  assumes "replaces path tmp bs w w'" and "tmp \<noteq> path" and "part_in path C w"
  shows "part_in path (insert (Some bs) C) w'"
proof -
  have "fs_files (w_fs w') path = fs_files (w_fs w) path \<or> fs_files (w_fs w') path = Some (whole_file bs)"
    and "fs_synced (w_fs w') path = fs_synced (w_fs w) path \<or> fs_synced (w_fs w') path = map_option df_durable (fs_files (w_fs w') path)"
    using assms(1,2) by (auto simp: replaces_def)
  then show ?thesis using assms(3) unfolding part_in_def
    by (auto split: option.splits) (metis whole_file_simps)+
qed

lemma part_in_frame:
  assumes "replaces path tmp bs w w'" and "q \<noteq> path" and "q \<noteq> tmp" and "part_in q C w"
  shows "part_in q C w'"
proof -
  have "fs_files (w_fs w') q = fs_files (w_fs w) q"
    and "fs_synced (w_fs w') q = fs_synced (w_fs w) q \<or> fs_synced (w_fs w') q = map_option df_durable (fs_files (w_fs w') q)"
    using assms(1-3) by (auto simp: replaces_def)
  then show ?thesis using assms(4) unfolding part_in_def
    by (auto split: option.splits) (metis whole_file_simps)+
qed

lemma part_in_replaced: "replaced path bs w \<Longrightarrow> part_in path {Some bs} w"
  by (simp add: part_in_def replaced_def)

lemma part_in_mono: "part_in path C w \<Longrightarrow> C \<subseteq> D \<Longrightarrow> part_in path D w"
  by (auto simp: part_in_def split: option.splits)

section \<open>The three parts\<close>

definition hard_image :: "hard_state \<Rightarrow> bytes option set" where
  "hard_image h = {img. (img = None \<and> h = initial_hard_state) \<or> (\<exists>bs. encode_hard_state h = Inr bs \<and> img = Some (wrap_payload kHardMagic bs))}"

definition log_image :: "log_entry list \<Rightarrow> bytes option set" where
  "log_image l = {img. (img = None \<and> l = []) \<or> (\<exists>bs. encode_log l = Inr bs \<and> img = Some (wrap_payload kLogMagic bs))}"

definition snapshot_image :: "raft_snapshot option \<Rightarrow> bytes option set" where
  "snapshot_image s = {img. (img = None \<and> s = None) \<or>
     (\<exists>sn bs. s = Some sn \<and> encode_snapshot sn = Inr bs \<and> img = Some (wrap_payload kSnapshotMagic bs))}"

definition raft_holds :: "raft_storage \<Rightarrow> hard_state set \<Rightarrow> log_entry list set \<Rightarrow> raft_snapshot option set \<Rightarrow> 'a world_scheme \<Rightarrow> bool" where
  "raft_holds st H L S w \<longleftrightarrow>
     part_in (rs_hard_state_path st) (\<Union>h\<in>H. hard_image h) w \<and>
     part_in (rs_log_path st) (\<Union>l\<in>L. log_image l) w \<and>
     part_in (rs_snapshot_path st) (\<Union>s\<in>S. snapshot_image s) w"

lemma raft_holds_mono:
  assumes "raft_holds st H L S w" and "H \<subseteq> H'" and "L \<subseteq> L'" and "S \<subseteq> S'"
  shows "raft_holds st H' L' S' w"
proof -
  have "(\<Union>h\<in>H. hard_image h) \<subseteq> (\<Union>h\<in>H'. hard_image h)" "(\<Union>l\<in>L. log_image l) \<subseteq> (\<Union>l\<in>L'. log_image l)"
    "(\<Union>s\<in>S. snapshot_image s) \<subseteq> (\<Union>s\<in>S'. snapshot_image s)" using assms(2-4) by blast+
  then show ?thesis using assms(1) unfolding raft_holds_def by (meson part_in_mono)
qed

lemma raft_holds_world: "w_fs w' = w_fs w \<Longrightarrow> raft_holds st H L S w' \<longleftrightarrow> raft_holds st H L S w"
  by (simp add: raft_holds_def part_in_def)

definition storage_ok :: "raft_storage \<Rightarrow> bool" where
  "storage_ok st \<longleftrightarrow> (\<exists>dir. dir \<noteq> [] \<and> st = storage_paths dir)"

lemma storage_paths_simps [simp]:
  "rs_hard_state_path (storage_paths dir) = path_join dir (str ''hard-state.bin'')"
  "rs_log_path (storage_paths dir) = path_join dir (str ''raft-log.bin'')"
  "rs_snapshot_path (storage_paths dir) = path_join dir (str ''snapshot.bin'')"
  by (simp_all add: storage_paths_def)

definition storage_names :: "bytes set" where
  "storage_names = {str ''hard-state.bin'', str ''raft-log.bin'', str ''snapshot.bin''}"

lemma storage_names_facts:
  "str ''hard-state.bin'' \<noteq> str ''raft-log.bin''" "str ''hard-state.bin'' \<noteq> str ''snapshot.bin''" "str ''raft-log.bin'' \<noteq> str ''snapshot.bin''"
  "str ''hard-state.bin'' \<in> storage_names" "str ''raft-log.bin'' \<in> storage_names" "str ''snapshot.bin'' \<in> storage_names"
  by (simp_all add: storage_names_def str_def)

lemma storage_names_tmp: "n \<in> storage_names \<Longrightarrow> m \<in> storage_names \<Longrightarrow> m \<noteq> tmp_name n"
  unfolding storage_names_def by (auto simp: str_def)

lemma parent_path_join_nonempty: "slash \<notin> set n \<Longrightarrow> n \<noteq> [] \<Longrightarrow> dir \<noteq> [] \<Longrightarrow> parent_path (path_join dir n) \<noteq> []"
proof -
  assume n: "slash \<notin> set n" "n \<noteq> []" and dir: "dir \<noteq> []"
  have "path_join dir n \<noteq> []" "hd (path_join dir n) = hd dir" using dir by (simp_all add: path_join_def)
  moreover have "hd dir \<in> set dir" using dir by simp
  ultimately show ?thesis using dir by (auto simp: parent_path_def dropWhile_rev_join [OF n(1)])
qed

lemma storage_parent: "n \<in> storage_names \<Longrightarrow> dir \<noteq> [] \<Longrightarrow> parent_path (path_join dir n) \<noteq> []"
  by (rule parent_path_join_nonempty) (auto simp: storage_names_def str_def)

text \<open>A write changes its own part only: to the new value when it returns, to the old or the new one otherwise.\<close>

lemma raft_atomic_write_part:
  assumes run: "raft_atomic_write (path_join dir n) bs w = (r, w')" and n: "n \<in> storage_names" and dir: "dir \<noteq> []"
    and img: "Some bs \<in> img x"
  shows "part_in (path_join dir n) (\<Union>x\<in>X. img x) w \<Longrightarrow> part_in (path_join dir n) (\<Union>x\<in>insert x X. img x) w'"
    and "r = Inr u \<Longrightarrow> part_in (path_join dir n) (\<Union>x\<in>{x}. img x) w'"
    and "world.more w' = world.more w"
proof -
  note d = raft_atomic_writeD [OF run storage_parent [OF n dir]]
  have ne: "tmp_name (path_join dir n) \<noteq> path_join dir n" by (simp add: str_def)
  show "part_in (path_join dir n) (\<Union>x\<in>X. img x) w \<Longrightarrow> part_in (path_join dir n) (\<Union>x\<in>insert x X. img x) w'"
    using part_in_replaces [OF d(1) ne] img by (auto intro: part_in_mono)
  show "r = Inr u \<Longrightarrow> part_in (path_join dir n) (\<Union>x\<in>{x}. img x) w'"
    using part_in_replaced [OF d(2)] img by (auto intro: part_in_mono)
  show "world.more w' = world.more w" using d(1) by (simp add: replaces_def)
qed

lemma raft_atomic_write_other:
  assumes run: "raft_atomic_write (path_join dir n) bs w = (r, w')" and n: "n \<in> storage_names" and dir: "dir \<noteq> []"
    and m: "m \<in> storage_names" "m \<noteq> n" and holds: "part_in (path_join dir m) D w"
  shows "part_in (path_join dir m) D w'"
  using part_in_frame [OF raft_atomic_writeD(1) [OF run storage_parent [OF n dir]] _ _ holds] m storage_names_tmp [OF n m(1)]
  by (simp add: path_join_append)

lemma save_hard_stateD:
  assumes run: "save_hard_state st h w = (r, w')" and st: "storage_ok st" and holds: "raft_holds st H L S w"
  shows "raft_holds st (insert h H) L S w'" and "r = Inr u \<Longrightarrow> raft_holds st {h} L S w'" and "world.more w' = world.more w"
proof -
  from st obtain dir where dir: "dir \<noteq> []" and st_dir: "st = storage_paths dir" by (auto simp: storage_ok_def)
  note names = storage_names_facts
  have "raft_holds st (insert h H) L S w' \<and> (r = Inr u \<longrightarrow> raft_holds st {h} L S w') \<and> world.more w' = world.more w"
  proof (cases "encode_hard_state h")
    case (Inl e)
    then have "w' = w" "r \<noteq> Inr u" using run by (auto simp: save_hard_state_def lift_result_def)
    then show ?thesis using holds by (auto intro: raft_holds_mono)
  next
    case (Inr bs)
    then have wr: "raft_atomic_write (path_join dir (str ''hard-state.bin'')) (wrap_payload kHardMagic bs) w = (r, w')"
      using run by (simp add: save_hard_state_def st_dir lift_result_def)
    have img: "Some (wrap_payload kHardMagic bs) \<in> hard_image h" using Inr by (simp add: hard_image_def)
    show ?thesis
      using raft_atomic_write_part [where img = hard_image and x = h, OF wr names(4) dir] raft_atomic_write_other [OF wr names(4) dir names(5)]
        raft_atomic_write_other [OF wr names(4) dir names(6)] img holds names(1-3) by (simp add: raft_holds_def st_dir)
  qed
  then show "raft_holds st (insert h H) L S w'" and "r = Inr u \<Longrightarrow> raft_holds st {h} L S w'" and "world.more w' = world.more w" by blast+
qed

lemma replace_logD:
  assumes run: "replace_log st l w = (r, w')" and st: "storage_ok st" and holds: "raft_holds st H L S w"
  shows "raft_holds st H (insert l L) S w'" and "r = Inr u \<Longrightarrow> raft_holds st H {l} S w'" and "world.more w' = world.more w"
proof -
  from st obtain dir where dir: "dir \<noteq> []" and st_dir: "st = storage_paths dir" by (auto simp: storage_ok_def)
  note names = storage_names_facts
  have "raft_holds st H (insert l L) S w' \<and> (r = Inr u \<longrightarrow> raft_holds st H {l} S w') \<and> world.more w' = world.more w"
  proof (cases "encode_log l")
    case (Inl e)
    then have "w' = w" "r \<noteq> Inr u" using run by (auto simp: replace_log_def lift_result_def)
    then show ?thesis using holds by (auto intro: raft_holds_mono)
  next
    case (Inr bs)
    then have wr: "raft_atomic_write (path_join dir (str ''raft-log.bin'')) (wrap_payload kLogMagic bs) w = (r, w')"
      using run by (simp add: replace_log_def st_dir lift_result_def)
    have img: "Some (wrap_payload kLogMagic bs) \<in> log_image l" using Inr by (simp add: log_image_def)
    show ?thesis
      using raft_atomic_write_part [where img = log_image and x = l, OF wr names(5) dir] raft_atomic_write_other [OF wr names(5) dir names(4)]
        raft_atomic_write_other [OF wr names(5) dir names(6)] img holds names(1-3) by (simp add: raft_holds_def st_dir)
  qed
  then show "raft_holds st H (insert l L) S w'" and "r = Inr u \<Longrightarrow> raft_holds st H {l} S w'" and "world.more w' = world.more w" by blast+
qed

lemma save_snapshotD:
  assumes run: "save_snapshot st sn w = (r, w')" and st: "storage_ok st" and holds: "raft_holds st H L S w"
  shows "raft_holds st H L (insert (Some sn) S) w'" and "r = Inr u \<Longrightarrow> raft_holds st H L {Some sn} w'" and "world.more w' = world.more w"
proof -
  from st obtain dir where dir: "dir \<noteq> []" and st_dir: "st = storage_paths dir" by (auto simp: storage_ok_def)
  note names = storage_names_facts
  have "raft_holds st H L (insert (Some sn) S) w' \<and> (r = Inr u \<longrightarrow> raft_holds st H L {Some sn} w') \<and> world.more w' = world.more w"
  proof (cases "sn_last_included_index sn = 0 \<or> (\<exists>e. encode_snapshot sn = Inl e)")
    case True
    then have "w' = w" "r \<noteq> Inr u" using run by (auto simp: save_snapshot_def lift_result_def throw_if_def split: if_splits)
    then show ?thesis using holds by (auto intro: raft_holds_mono)
  next
    case False
    then obtain bs where bs: "encode_snapshot sn = Inr bs" by (meson obj_sumE)
    with False have wr: "raft_atomic_write (path_join dir (str ''snapshot.bin'')) (wrap_payload kSnapshotMagic bs) w = (r, w')"
      using run by (simp add: save_snapshot_def st_dir lift_result_def throw_if_def)
    have img: "Some (wrap_payload kSnapshotMagic bs) \<in> snapshot_image (Some sn)" using bs by (simp add: snapshot_image_def)
    show ?thesis
      using raft_atomic_write_part [where img = snapshot_image and x = "Some sn", OF wr names(6) dir] raft_atomic_write_other [OF wr names(6) dir names(4)]
        raft_atomic_write_other [OF wr names(6) dir names(5)] img holds names(1-3) by (simp add: raft_holds_def st_dir)
  qed
  then show "raft_holds st H L (insert (Some sn) S) w'" and "r = Inr u \<Longrightarrow> raft_holds st H L {Some sn} w'" and "world.more w' = world.more w" by blast+
qed

section \<open>Loading\<close>

lemma load_file_reliable:
  assumes "w_events w = []" and "length magic = 4"
  shows "fs_files (w_fs w) path = None \<Longrightarrow> load_file path magic decode absent w = (Inr absent, w)"
    and "fs_files (w_fs w) path = Some f \<Longrightarrow> df_contents f = wrap_payload magic payload \<Longrightarrow>
      load_file path magic decode absent w = (decode payload, w)"
  using assms by (simp_all add: load_file_def exists_file_def unwrap_payload_def raft_read_file_def sys_call_reliable lift_result_def)

lemma magic_lengths [simp]: "length kHardMagic = 4" "length kLogMagic = 4" "length kSnapshotMagic = 4"
  by (simp_all add: kHardMagic_def kLogMagic_def kSnapshotMagic_def)

definition storable_log :: "log_entry list \<Rightarrow> bool" where
  "storable_log l \<longleftrightarrow> contiguous l \<and> length l < 2 ^ 64"

definition on_disk :: "(bytes \<rightharpoonup> bytes) \<Rightarrow> 'a world_scheme \<Rightarrow> bool" where
  "on_disk disk w \<longleftrightarrow> w_events w = [] \<and> (\<forall>p. map_option df_contents (fs_files (w_fs w) p) = disk p)"

lemma on_disk_restart: "w_fs w = fs_restart disk names \<Longrightarrow> w_events w = [] \<Longrightarrow> on_disk disk w"
  by (simp add: on_disk_def fs_restart_def option.map_comp comp_def option.map_ident)

lemma load_part:
  assumes w: "on_disk disk w" and magic: "length magic = 4"
    and img: "disk path \<in> {img. (img = None \<and> x = absent) \<or> (\<exists>bs. enc x = Inr bs \<and> img = Some (wrap_payload magic bs))}"
    and dec: "\<And>bs. enc x = Inr bs \<Longrightarrow> decode bs = Inr x"
  shows "load_file path magic decode absent w = (Inr x, w)"
proof (cases "disk path")
  case None
  then have "fs_files (w_fs w) path = None" using w by (auto simp: on_disk_def dest: spec [of _ path])
  then show ?thesis using load_file_reliable(1) w magic None img by (auto simp: on_disk_def)
next
  case (Some c)
  then have "map_option df_contents (fs_files (w_fs w) path) = Some c" using w by (simp add: on_disk_def)
  then obtain f where f: "fs_files (w_fs w) path = Some f" "df_contents f = c" by auto
  from img Some obtain bs where bs: "enc x = Inr bs" "c = wrap_payload magic bs" by auto
  then show ?thesis using load_file_reliable(2) [where payload = bs and decode = decode and absent = absent, OF _ magic f(1)] w f(2) dec by (simp add: on_disk_def)
qed

lemma raft_load_on_disk:
  assumes w: "on_disk disk w" and h: "disk (rs_hard_state_path st) \<in> hard_image h" and l: "disk (rs_log_path st) \<in> log_image l"
    and s: "disk (rs_snapshot_path st) \<in> snapshot_image s" and ok: "storable_log l"
  shows "raft_load st w = (Inr \<lparr>pst_hard_state = h, pst_log = l, pst_snapshot = s\<rparr>, w)"
proof -
  have "load_file (rs_hard_state_path st) kHardMagic decode_hard_state initial_hard_state w = (Inr h, w)"
    using load_part [where enc = encode_hard_state and x = h, OF w] h decode_encode_hard_state by (simp add: hard_image_def)
  moreover have "load_file (rs_log_path st) kLogMagic decode_log [] w = (Inr l, w)"
    using load_part [where enc = encode_log and x = l, OF w] l decode_encode_log ok by (simp add: log_image_def storable_log_def)
  moreover have "load_file (rs_snapshot_path st) kSnapshotMagic (\<lambda>p. map_sum id Some (decode_snapshot p)) None w = (Inr s, w)"
  proof (rule load_part [where enc = "\<lambda>s. case s of None \<Rightarrow> Inl undefined | Some sn \<Rightarrow> encode_snapshot sn", OF w])
    show "disk (rs_snapshot_path st) \<in> {img. (img = None \<and> s = None) \<or>
        (\<exists>bs. (case s of None \<Rightarrow> Inl undefined | Some sn \<Rightarrow> encode_snapshot sn) = Inr bs \<and> img = Some (wrap_payload kSnapshotMagic bs))}"
      using s by (cases s) (auto simp: snapshot_image_def)
  next
    fix bs
    assume "(case s of None \<Rightarrow> Inl undefined | Some sn \<Rightarrow> encode_snapshot sn) = Inr bs"
    then show "map_sum id Some (decode_snapshot bs) = Inr s" using decode_encode_snapshot by (cases s) auto
  qed simp
  ultimately show ?thesis by (simp add: raft_load_def lift_result_def)
qed

lemma raft_holds_crash:
  assumes "raft_holds st H L S w" and "fs_crash (w_fs w) disk"
  obtains h l s where "h \<in> H" "l \<in> L" "s \<in> S" "disk (rs_hard_state_path st) \<in> hard_image h"
    "disk (rs_log_path st) \<in> log_image l" "disk (rs_snapshot_path st) \<in> snapshot_image s"
proof -
  have "disk (rs_hard_state_path st) \<in> (\<Union>h\<in>H. hard_image h)" "disk (rs_log_path st) \<in> (\<Union>l\<in>L. log_image l)"
    "disk (rs_snapshot_path st) \<in> (\<Union>s\<in>S. snapshot_image s)"
    using assms(1) part_in_crash [OF _ assms(2)] by (simp_all only: raft_holds_def)
  then show thesis using that by blast
qed

text \<open>After a restart the storage holds what it loads: reading changes nothing.\<close>

lemma raft_holds_restart:
  assumes "disk (rs_hard_state_path st) \<in> hard_image h" "disk (rs_log_path st) \<in> log_image l" "disk (rs_snapshot_path st) \<in> snapshot_image s"
    and "w_fs w = fs_restart disk names"
  shows "raft_holds st {h} {l} {s} w"
proof -
  have "part_in p {disk p} w" for p
    using assms(4) by (cases "disk p") (simp_all add: part_in_def fs_restart_def whole_file_def)
  then show ?thesis using assms(1-3) unfolding raft_holds_def by (auto intro: part_in_mono)
qed

section \<open>Sequences of saves\<close>

datatype raft_save = SaveHardState hard_state | ReplaceLog "log_entry list" | SaveSnapshot raft_snapshot

primrec do_save :: "raft_storage \<Rightarrow> raft_save \<Rightarrow> ('a world_scheme, unit) effect" where
  "do_save st (SaveHardState h) = save_hard_state st h"
| "do_save st (ReplaceLog l) = replace_log st l"
| "do_save st (SaveSnapshot sn) = save_snapshot st sn"

primrec do_saves :: "raft_storage \<Rightarrow> raft_save list \<Rightarrow> ('a world_scheme, unit) effect" where
  "do_saves st [] = lift_result (Inr ())"
| "do_saves st (s # ss) = bind_effect (do_save st s) (\<lambda>_. do_saves st ss)"

primrec saved :: "raft_save \<Rightarrow> persistent_state \<Rightarrow> persistent_state" where
  "saved (SaveHardState h) ps = ps\<lparr>pst_hard_state := h\<rparr>"
| "saved (ReplaceLog l) ps = ps\<lparr>pst_log := l\<rparr>"
| "saved (SaveSnapshot sn) ps = ps\<lparr>pst_snapshot := Some sn\<rparr>"

definition storable_saves :: "raft_save list \<Rightarrow> bool" where
  "storable_saves ss \<longleftrightarrow> list_all (case_raft_save (\<lambda>h. True) storable_log (\<lambda>sn. True)) ss"

definition initial_persistent_state :: persistent_state where
  "initial_persistent_state = \<lparr>pst_hard_state = initial_hard_state, pst_log = [], pst_snapshot = None\<rparr>"

abbreviation raft_durable :: "raft_storage \<Rightarrow> persistent_state \<Rightarrow> 'a world_scheme \<Rightarrow> bool" where
  "raft_durable st ps w \<equiv> raft_holds st {pst_hard_state ps} {pst_log ps} {pst_snapshot ps} w"

lemma do_save_holds:
  assumes "do_save st s w = (r, w')" and "storage_ok st" and "raft_durable st ps w"
  shows "raft_holds st {pst_hard_state ps, pst_hard_state (saved s ps)} {pst_log ps, pst_log (saved s ps)}
      {pst_snapshot ps, pst_snapshot (saved s ps)} w'"
    and "r = Inr u \<Longrightarrow> raft_durable st (saved s ps) w'"
  using assms by (cases s; simp add: insert_commute save_hard_stateD replace_logD save_snapshotD)+

lemma do_saves_durable:
  "do_saves st ss w = (Inr (), w') \<Longrightarrow> storage_ok st \<Longrightarrow> raft_durable st ps w \<Longrightarrow> raft_durable st (fold saved ss ps) w'"
proof (induction ss arbitrary: w ps)
  case Nil
  then show ?case by (simp add: lift_result_def)
next
  case (Cons s ss)
  obtain r1 w1 where s1: "do_save st s w = (r1, w1)" by fastforce
  with Cons.prems(1) have "r1 = Inr ()" "do_saves st ss w1 = (Inr (), w')" by (cases r1; simp)+
  then show ?case using Cons.IH Cons.prems(2,3) do_save_holds(2) [OF s1] by simp
qed

lemma saved_storable: "storable_log (pst_log ps) \<Longrightarrow> storable_saves ss \<Longrightarrow> storable_log (pst_log (fold saved ss ps))"
  by (induction ss arbitrary: ps) (auto simp: storable_saves_def split: raft_save.splits)

lemma storage_new_empty:
  assumes "raft_storage_new dir w0 = (Inr st, w)" and "fs_files (w_fs w0) = Map.empty" and "fs_synced (w_fs w0) = Map.empty"
  shows "storage_ok st" and "raft_durable st initial_persistent_state w"
proof -
  from assms(1) have dir: "dir \<noteq> []" by (auto simp: raft_storage_new_def lift_result_def throw_if_def)
  obtain r1 w1 where s1: "sys_call (SystemError ''filesystem error: cannot create directories'') w0 = (r1, w1)" by fastforce
  then have st: "st = storage_paths dir" "w = w1"
    using assms(1) dir by (cases r1; simp add: raft_storage_new_def lift_result_def throw_if_def)+
  then show "storage_ok st" using dir by (auto simp: storage_ok_def)
  show "raft_durable st initial_persistent_state w"
    using sys_callD [OF s1] assms(2,3) st
    by (simp add: raft_holds_def part_in_def initial_persistent_state_def hard_image_def log_image_def snapshot_image_def)
qed

lemma raft_atomic_write_reliable:
  assumes "w_events w = []"
  shows "\<exists>w'. raft_atomic_write path bs w = (Inr (), w') \<and> w_events w' = []"
proof -
  let ?tmp = "tmp_name path"
  have "fs_files (w_fs w2) ?tmp \<noteq> None \<Longrightarrow> w_events w2 = [] \<Longrightarrow>
      \<exists>w'. bind_effect (raft_rename ?tmp path) (\<lambda>_. raft_sync_directory (parent_path path)) w2 = (Inr (), w') \<and> w_events w' = []"
    for w2 :: "'a world_scheme"
    by (simp add: raft_rename_def world_rename_def sys_call_reliable raft_sync_directory_def)
  then show ?thesis using assms
    by (simp add: raft_atomic_write_def Let_def sys_call_reliable world_create_reliable removing_on_error_def raft_write_def world_update_def)
qed

lemma save_hard_state_reliable:
  "w_events w = [] \<Longrightarrow> encode_hard_state h = Inr bs \<Longrightarrow> \<exists>w'. save_hard_state st h w = (Inr (), w') \<and> w_events w' = []"
  using raft_atomic_write_reliable by (simp add: save_hard_state_def lift_result_def)

lemma replace_log_reliable:
  "w_events w = [] \<Longrightarrow> encode_log l = Inr bs \<Longrightarrow> \<exists>w'. replace_log st l w = (Inr (), w') \<and> w_events w' = []"
  using raft_atomic_write_reliable by (simp add: replace_log_def lift_result_def)

lemma save_snapshot_reliable:
  "w_events w = [] \<Longrightarrow> encode_snapshot sn = Inr bs \<Longrightarrow> sn_last_included_index sn \<noteq> 0 \<Longrightarrow>
   \<exists>w'. save_snapshot st sn w = (Inr (), w') \<and> w_events w' = []"
  using raft_atomic_write_reliable by (simp add: save_snapshot_def lift_result_def throw_if_def)

text \<open>C5. A node's storage is three atomic durable cells.  On an empty disk, after any sequence of saves that
  returned and one more save that returns or fails at any system call, a crash at that point leaves a disk
  from which \<open>load\<close> returns exactly what the completed saves left, or that with the last save applied; the
  latter when the last save returned.\<close>

theorem raft_storage_survives_crash:
  assumes new: "raft_storage_new dir w0 = (Inr st, w)" "fs_files (w_fs w0) = Map.empty" "fs_synced (w_fs w0) = Map.empty"
    and completed: "do_saves st ss w = (Inr (), w1)" and last: "do_save st s w1 = (r, w2)"
    and logs: "storable_saves (ss @ [s])" and crash: "fs_crash (w_fs w2) disk"
    and restart: "restarted = \<lparr>w_fs = fs_restart disk names, w_events = []\<rparr>"
  shows "\<exists>ps. raft_load st restarted = (Inr ps, restarted) \<and>
    (ps = fold saved ss initial_persistent_state \<or> ps = fold saved (ss @ [s]) initial_persistent_state) \<and>
    (r = Inr () \<longrightarrow> ps = fold saved (ss @ [s]) initial_persistent_state)"
proof -
  let ?ps = "fold saved ss initial_persistent_state" and ?ps' = "fold saved (ss @ [s]) initial_persistent_state"
  note st = storage_new_empty [OF new]
  have dur: "raft_durable st ?ps w1" using do_saves_durable [OF completed st] .
  have ok: "storable_log (pst_log ?ps)" "storable_log (pst_log ?ps')"
    using saved_storable [of initial_persistent_state] logs
    by (simp_all add: initial_persistent_state_def storable_saves_def storable_log_def contiguous_def del: fold_append)
  have load: "raft_load st restarted = (Inr ps, restarted)"
    if "disk (rs_hard_state_path st) \<in> hard_image (pst_hard_state ps)" "disk (rs_log_path st) \<in> log_image (pst_log ps)"
      "disk (rs_snapshot_path st) \<in> snapshot_image (pst_snapshot ps)" "storable_log (pst_log ps)" for ps
    using raft_load_on_disk [OF on_disk_restart [of restarted] that] restart by (cases ps) simp
  show ?thesis
  proof (cases "r = Inr ()")
    case True
    then have "raft_durable st ?ps' w2" using do_save_holds(2) [OF last st(1) dur] by simp
    then show ?thesis using raft_holds_crash [OF _ crash] load [OF _ _ _ ok(2)] by (metis singletonD)
  next
    case False
    obtain h l sn where
      "h \<in> {pst_hard_state ?ps, pst_hard_state ?ps'}" "l \<in> {pst_log ?ps, pst_log ?ps'}" "sn \<in> {pst_snapshot ?ps, pst_snapshot ?ps'}"
      and img: "disk (rs_hard_state_path st) \<in> hard_image h" "disk (rs_log_path st) \<in> log_image l" "disk (rs_snapshot_path st) \<in> snapshot_image sn"
      using raft_holds_crash [OF do_save_holds(1) [OF last st(1) dur] crash] unfolding fold_append by auto
    then have "\<lparr>pst_hard_state = h, pst_log = l, pst_snapshot = sn\<rparr> \<in> {?ps, ?ps'}"
      by (cases s) auto
    moreover from this have "storable_log l" using ok by (metis insertE persistent_state.simps(2) singletonD)
    then have "raft_load st restarted = (Inr \<lparr>pst_hard_state = h, pst_log = l, pst_snapshot = sn\<rparr>, restarted)"
      using load [of "\<lparr>pst_hard_state = h, pst_log = l, pst_snapshot = sn\<rparr>"] img by simp
    ultimately show ?thesis using False by (metis insertE singletonD)
  qed
qed

definition first_entry :: log_entry where
  "first_entry = \<lparr>le_index = 1, le_term = 1, le_command = \<lparr>cmd_type = CmdPut, cmd_key = str ''k'', cmd_value = str ''v''\<rparr>\<rparr>"

definition voted_state :: hard_state where
  "voted_state = \<lparr>hs_current_term = 1, hs_voted_for = str ''a'', hs_commit_index = 0, hs_last_applied = 0\<rparr>"

lemma encode_examples:
  "\<exists>bs. encode_log [first_entry] = Inr bs" "\<exists>bs. encode_hard_state voted_state = Inr bs"
  by (simp_all add: encode_log_def encode_entry_def encode_command_def encode_hard_state_def append_bytes_def unat_max_u32 throw_if_def
      first_entry_def voted_state_def)

theorem raft_storage_survives_crash_witness:
  "\<exists>w1 w2. do_saves (storage_paths (str ''d'')) [ReplaceLog [first_entry]] empty_world = (Inr (), w1) \<and>
     do_save (storage_paths (str ''d'')) (SaveHardState voted_state) w1 = (Inr (), w2) \<and>
     fst (raft_load (storage_paths (str ''d'')) \<lparr>w_fs = fs_restart (fs_synced (w_fs w2)) [], w_events = []\<rparr>) =
       Inr \<lparr>pst_hard_state = voted_state, pst_log = [first_entry], pst_snapshot = None\<rparr>"
proof -
  let ?st = "storage_paths (str ''d'')"
  have new: "raft_storage_new (str ''d'') empty_world = (Inr ?st, empty_world)"
    by (simp add: raft_storage_new_def lift_result_def throw_if_def empty_world_def sys_call_def str_def)
  have "w_events empty_world = []" by (simp add: empty_world_def)
  then obtain w1 where w1: "replace_log ?st [first_entry] empty_world = (Inr (), w1)" "w_events w1 = []"
    using encode_examples(1) replace_log_reliable [of empty_world "[first_entry]"] by blast
  then obtain w2 where w2: "save_hard_state ?st voted_state w1 = (Inr (), w2)"
    using encode_examples(2) save_hard_state_reliable by blast
  have runs: "do_saves ?st [ReplaceLog [first_entry]] empty_world = (Inr (), w1)" "do_save ?st (SaveHardState voted_state) w1 = (Inr (), w2)"
    using w1 w2 by (simp_all add: lift_result_def)
  have "storable_saves ([ReplaceLog [first_entry]] @ [SaveHardState voted_state])"
    by (simp add: storable_saves_def storable_log_def contiguous_def)
  moreover have "fs_crash (w_fs w2) (fs_synced (w_fs w2))" by (simp add: fs_crash_def)
  ultimately obtain ps where "raft_load ?st \<lparr>w_fs = fs_restart (fs_synced (w_fs w2)) [], w_events = []\<rparr> =
      (Inr ps, \<lparr>w_fs = fs_restart (fs_synced (w_fs w2)) [], w_events = []\<rparr>)"
    "ps = fold saved [ReplaceLog [first_entry], SaveHardState voted_state] initial_persistent_state"
    using raft_storage_survives_crash [OF new _ _ runs, of "fs_synced (w_fs w2)"] by (auto simp: empty_world_def)
  then show ?thesis using runs by (intro exI [of _ w1] exI [of _ w2]) (simp add: initial_persistent_state_def)
qed

end
