(* ===== verification/RaftVotes.thy ===== *)
theory RaftVotes
  imports RaftNode RaftParts
begin

text \<open>
  Votes and terms of one node.  In every section of the code the term only grows and a vote cast in a term
  stays, in memory and on disk: whatever a restart may find lies between what was there before the section
  and what the node holds after it.
\<close>

section \<open>Relations kept by effects\<close>

definition rel_at :: "('s \<Rightarrow> 's \<Rightarrow> bool) \<Rightarrow> ('s, 'a) effect \<Rightarrow> 's \<Rightarrow> bool" where
  "rel_at R m s \<longleftrightarrow> R s (snd (m s))"

lemma rel_at_bind:
  assumes "transp R" and "rel_at R m s" and "\<And>x s'. m s = (Inr x, s') \<Longrightarrow> rel_at R (f x) s'"
  shows "rel_at R (bind_effect m f) s"
proof (cases "m s")
  case (Pair r s')
  then show ?thesis using assms by (cases r) (auto simp: rel_at_def dest: transpD)
qed

lemma rel_at_simps [simp]:
  "rel_at R (lift_result r) s \<longleftrightarrow> R s s"
  "rel_at R (modify f) s \<longleftrightarrow> R s (f s)"
  by (simp_all add: rel_at_def lift_result_def modify_def)

lemma rel_atD: "rel_at R m s \<Longrightarrow> m s = (r, s') \<Longrightarrow> R s s'"
  by (simp add: rel_at_def)

section \<open>Terms and votes\<close>

definition vote_le :: "hard_state \<Rightarrow> hard_state \<Rightarrow> bool" where
  "vote_le h h' \<longleftrightarrow> hs_current_term h < hs_current_term h' \<or>
     hs_current_term h = hs_current_term h' \<and> (hs_voted_for h \<noteq> [] \<longrightarrow> hs_voted_for h' = hs_voted_for h)"

lemma vote_le_refl [simp]: "vote_le h h"
  by (simp add: vote_le_def)

lemma vote_le_trans: "vote_le h h' \<Longrightarrow> vote_le h' h'' \<Longrightarrow> vote_le h h''"
  by (auto simp: vote_le_def)

definition hard_holds :: "raft_storage \<Rightarrow> hard_state set \<Rightarrow> 'a world_scheme \<Rightarrow> bool" where
  "hard_holds st H w \<longleftrightarrow> part_in (rs_hard_state_path st) (\<Union>h\<in>H. hard_image h) w"

lemma hard_holds_world: "w_fs w' = w_fs w \<Longrightarrow> hard_holds st H w' \<longleftrightarrow> hard_holds st H w"
  by (simp add: hard_holds_def part_in_def)

lemma hard_holds_save:
  assumes run: "save_hard_state st h w = (r, w')" and st: "storage_ok st"
  shows "hard_holds st H w \<Longrightarrow> hard_holds st (insert h H) w'" and "r = Inr u \<Longrightarrow> hard_holds st {h} w'" and "world.more w' = world.more w"
proof -
  from st obtain dir where dir: "dir \<noteq> []" and st_dir: "st = storage_paths dir" by (auto simp: storage_ok_def)
  have "(hard_holds st H w \<longrightarrow> hard_holds st (insert h H) w') \<and> (r = Inr u \<longrightarrow> hard_holds st {h} w') \<and> world.more w' = world.more w"
  proof (cases "encode_hard_state h")
    case (Inl e)
    then have "w' = w" "r \<noteq> Inr u" using run by (auto simp: save_hard_state_def)
    then show ?thesis by (auto simp: hard_holds_def intro: part_in_mono)
  next
    case (Inr bs)
    then have wr: "raft_atomic_write (path_join dir (str ''hard-state.bin'')) (wrap_payload kHardMagic bs) w = (r, w')"
      using run by (simp add: save_hard_state_def st_dir)
    have img: "Some (wrap_payload kHardMagic bs) \<in> hard_image h" using Inr by (simp add: hard_image_def)
    show ?thesis
      using raft_atomic_write_part [where img = hard_image and x = h, OF wr storage_names_facts(4) dir] img
      by (simp add: hard_holds_def st_dir)
  qed
  then show "hard_holds st H w \<Longrightarrow> hard_holds st (insert h H) w'" and "r = Inr u \<Longrightarrow> hard_holds st {h} w'" and "world.more w' = world.more w"
    by blast+
qed

lemma hard_holds_log:
  assumes run: "replace_log st l w = (r, w')" and st: "storage_ok st"
  shows "hard_holds st H w \<Longrightarrow> hard_holds st H w'" and "world.more w' = world.more w"
proof -
  from st obtain dir where dir: "dir \<noteq> []" and st_dir: "st = storage_paths dir" by (auto simp: storage_ok_def)
  have "(hard_holds st H w \<longrightarrow> hard_holds st H w') \<and> world.more w' = world.more w"
  proof (cases "encode_log l")
    case (Inl e)
    then show ?thesis using run by (simp add: replace_log_def)
  next
    case (Inr bs)
    then have wr: "raft_atomic_write (path_join dir (str ''raft-log.bin'')) (wrap_payload kLogMagic bs) w = (r, w')"
      using run by (simp add: replace_log_def st_dir)
    show ?thesis using raft_atomic_write_other [OF wr storage_names_facts(5) dir storage_names_facts(4,1)]
        raft_atomic_writeD(1) [OF wr storage_parent [OF storage_names_facts(5) dir]] by (simp add: hard_holds_def st_dir replaces_def)
  qed
  then show "hard_holds st H w \<Longrightarrow> hard_holds st H w'" and "world.more w' = world.more w" by blast+
qed

lemma hard_holds_snapshot:
  assumes run: "save_snapshot st sn w = (r, w')" and st: "storage_ok st"
  shows "hard_holds st H w \<Longrightarrow> hard_holds st H w'" and "world.more w' = world.more w"
proof -
  from st obtain dir where dir: "dir \<noteq> []" and st_dir: "st = storage_paths dir" by (auto simp: storage_ok_def)
  have "(hard_holds st H w \<longrightarrow> hard_holds st H w') \<and> world.more w' = world.more w"
  proof (cases "sn_last_included_index sn = 0 \<or> (\<exists>e. encode_snapshot sn = Inl e)")
    case True
    then show ?thesis using run by (auto simp: save_snapshot_def throw_if_def split: if_splits)
  next
    case False
    then obtain bs where bs: "encode_snapshot sn = Inr bs" by (meson obj_sumE)
    with False have wr: "raft_atomic_write (path_join dir (str ''snapshot.bin'')) (wrap_payload kSnapshotMagic bs) w = (r, w')"
      using run by (simp add: save_snapshot_def st_dir throw_if_def)
    show ?thesis using raft_atomic_write_other [OF wr storage_names_facts(6) dir storage_names_facts(4,2)]
        raft_atomic_writeD(1) [OF wr storage_parent [OF storage_names_facts(6) dir]] by (simp add: hard_holds_def st_dir replaces_def)
  qed
  then show "hard_holds st H w \<Longrightarrow> hard_holds st H w'" and "world.more w' = world.more w" by blast+
qed

section \<open>What a section may do\<close>

definition node_rel :: "'m raft_node \<Rightarrow> 'm raft_node \<Rightarrow> bool" where
  "node_rel n n' \<longleftrightarrow> (storage_ok (rn_storage n) \<longrightarrow>
     rn_storage n' = rn_storage n \<and> no_node_id (rn_options n') = no_node_id (rn_options n) \<and>
     no_peers (rn_options n') = no_peers (rn_options n) \<and> vote_le (rn_hard_state n) (rn_hard_state n') \<and>
     (\<forall>H. hard_holds (rn_storage n) H n \<longrightarrow>
        (\<exists>H'. hard_holds (rn_storage n) H' n' \<and> (\<forall>h\<in>H'. h \<in> H \<or> vote_le (rn_hard_state n) h \<and> vote_le h (rn_hard_state n')))))"

text \<open>A section that is not part of a campaign does not gain a role other than follower.\<close>

definition handler_rel :: "'m raft_node \<Rightarrow> 'm raft_node \<Rightarrow> bool" where
  "handler_rel n n' \<longleftrightarrow> node_rel n n' \<and>
     (storage_ok (rn_storage n) \<longrightarrow> rn_role n' \<noteq> Follower \<longrightarrow> rn_role n' = rn_role n \<and> rn_current_term n' = rn_current_term n)"

lemma node_rel_trans: "node_rel n n1 \<Longrightarrow> node_rel n1 n2 \<Longrightarrow> node_rel n n2"
proof -
  assume a: "node_rel n n1" "node_rel n1 n2"
  show ?thesis unfolding node_rel_def
  proof (intro impI conjI allI)
    assume ok: "storage_ok (rn_storage n)"
    with a(1) have s: "rn_storage n1 = rn_storage n" by (simp add: node_rel_def)
    with ok a show "rn_storage n2 = rn_storage n" "no_node_id (rn_options n2) = no_node_id (rn_options n)"
      "no_peers (rn_options n2) = no_peers (rn_options n)" by (simp_all add: node_rel_def)
    have le: "vote_le (rn_hard_state n) (rn_hard_state n1)" "vote_le (rn_hard_state n1) (rn_hard_state n2)"
      using a ok s by (simp_all add: node_rel_def)
    then show "vote_le (rn_hard_state n) (rn_hard_state n2)" by (rule vote_le_trans)
    fix H
    assume "hard_holds (rn_storage n) H n"
    then obtain H1 where H1: "hard_holds (rn_storage n) H1 n1" "\<forall>h\<in>H1. h \<in> H \<or> vote_le (rn_hard_state n) h \<and> vote_le h (rn_hard_state n1)"
      using a(1) ok unfolding node_rel_def by meson
    then obtain H2 where H2: "hard_holds (rn_storage n) H2 n2" "\<forall>h\<in>H2. h \<in> H1 \<or> vote_le (rn_hard_state n1) h \<and> vote_le h (rn_hard_state n2)"
      using a(2) ok s unfolding node_rel_def by metis
    have "\<forall>h\<in>H2. h \<in> H \<or> vote_le (rn_hard_state n) h \<and> vote_le h (rn_hard_state n2)"
      using H1(2) H2(2) le vote_le_trans by metis
    then show "\<exists>H'. hard_holds (rn_storage n) H' n2 \<and> (\<forall>h\<in>H'. h \<in> H \<or> vote_le (rn_hard_state n) h \<and> vote_le h (rn_hard_state n2))"
      using H2(1) by blast
  qed
qed

lemma transp_node_rel [simp]: "transp node_rel"
  by (auto intro: transpI node_rel_trans)

lemma transp_handler_rel [simp]: "transp handler_rel"
proof (rule transpI)
  fix x y z :: "'m raft_node"
  assume a: "handler_rel x y" "handler_rel y z"
  then have "storage_ok (rn_storage x) \<longrightarrow> rn_storage y = rn_storage x" by (simp add: handler_rel_def node_rel_def)
  with a show "handler_rel x z" unfolding handler_rel_def by (metis node_rel_trans)
qed

lemma node_rel_update:
  assumes "rn_storage n' = rn_storage n" and "no_node_id (rn_options n') = no_node_id (rn_options n)"
    and "no_peers (rn_options n') = no_peers (rn_options n)" and "vote_le (rn_hard_state n) (rn_hard_state n')" and "w_fs n' = w_fs n"
  shows "node_rel n n'"
  using assms hard_holds_world [OF assms(5)] by (auto simp: node_rel_def)

lemma node_rel_refl [simp]: "node_rel n n"
  by (simp add: node_rel_update)

lemma handler_rel_refl [simp]: "handler_rel n n"
  by (simp add: handler_rel_def)

lemma node_more:
  assumes "world.more n' = world.more n"
  shows "n' = n\<lparr>w_fs := w_fs n', w_events := w_events n'\<rparr>"
  using assms by (cases n; cases n') simp

lemma node_fields:
  assumes "world.more n' = world.more n"
  shows "rn_options n' = rn_options n" "rn_storage n' = rn_storage n" "rn_machine n' = rn_machine n" "rn_role n' = rn_role n" "rn_hard_state n' = rn_hard_state n" "rn_log n' = rn_log n" "rn_snapshot n' = rn_snapshot n" "rn_leader_id n' = rn_leader_id n" "rn_next_index n' = rn_next_index n" "rn_match_index n' = rn_match_index n" "rn_metrics n' = rn_metrics n"
  by (subst node_more [OF assms], simp)+

lemma persist_hard_state_rel: "rel_at handler_rel persist_hard_state_locked n"
proof (cases "storage_ok (rn_storage n)")
  case True
  obtain r n' where run: "save_hard_state (rn_storage n) (rn_hard_state n) n = (r, n')" by fastforce
  note d = hard_holds_save [OF run True]
  have n': "n' = n\<lparr>w_fs := w_fs n', w_events := w_events n'\<rparr>" using node_more d(3) by blast
  have "rn_hard_state n' = rn_hard_state n" "rn_storage n' = rn_storage n" "rn_options n' = rn_options n" "rn_role n' = rn_role n"
    by (subst n', simp)+
  then have "handler_rel n n'" using d(1) True unfolding handler_rel_def node_rel_def by fastforce
  then show ?thesis using run by (simp add: rel_at_def persist_hard_state_locked_def)
qed (simp add: rel_at_def handler_rel_def node_rel_def)

text \<open>Writing the log or a snapshot leaves the hard state alone.\<close>

lemma handler_rel_storage:
  assumes "\<And>H. hard_holds (rn_storage n) H n \<Longrightarrow> hard_holds (rn_storage n) H n'" and "world.more n' = world.more n"
  shows "handler_rel n n'"
proof -
  have n': "n' = n\<lparr>w_fs := w_fs n', w_events := w_events n'\<rparr>" using node_more assms(2) by blast
  have "rn_hard_state n' = rn_hard_state n" "rn_storage n' = rn_storage n" "rn_options n' = rn_options n" "rn_role n' = rn_role n"
    by (subst n', simp)+
  then show ?thesis using assms(1) unfolding handler_rel_def node_rel_def by auto
qed

lemma rel_at_storage:
  assumes "\<And>r n'. m n = (r, n') \<Longrightarrow> storage_ok (rn_storage n) \<Longrightarrow>
      (\<forall>H. hard_holds (rn_storage n) H n \<longrightarrow> hard_holds (rn_storage n) H n') \<and> world.more n' = world.more n"
  shows "rel_at handler_rel m n"
proof (cases "storage_ok (rn_storage n)")
  case True
  obtain r n' where run: "m n = (r, n')" by fastforce
  have "handler_rel n n'" using assms [OF run True] by (intro handler_rel_storage) blast+
  then show ?thesis using run by (simp add: rel_at_def)
qed (simp add: rel_at_def handler_rel_def node_rel_def)

lemma persist_log_rel: "rel_at handler_rel persist_log_locked n"
  by (rule rel_at_storage) (use hard_holds_log in \<open>unfold persist_log_locked_def, blast\<close>)

lemma save_snapshot_rel: "st = rn_storage n \<Longrightarrow> rel_at handler_rel (save_snapshot st sn) n"
  by (rule rel_at_storage) (use hard_holds_snapshot in blast)

section \<open>The sections keep it\<close>

lemma handler_rel_update:
  assumes "rn_storage n' = rn_storage n" and "rn_options n' = rn_options n" and "rn_role n' = Follower \<or> rn_role n' = rn_role n"
    and "rn_current_term n' = rn_current_term n" and "hs_voted_for (rn_hard_state n') = hs_voted_for (rn_hard_state n)" and "w_fs n' = w_fs n"
  shows "handler_rel n n'"
  unfolding handler_rel_def using assms by (auto simp: vote_le_def intro!: node_rel_update)

named_theorems section_rels

lemmas rel_bind = rel_at_bind [OF transp_handler_rel]

declare persist_hard_state_rel [section_rels] persist_log_rel [section_rels] save_snapshot_rel [section_rels]

lemma rel_at_machine [section_rels]: "rel_at handler_rel (on_machine f) n"
  by (auto simp: rel_at_def on_machine_def split: prod.split intro!: handler_rel_update)

lemma handler_rel_set_metric [simp]: "handler_rel n (count_metric f n)"
  by (simp add: count_metric_def handler_rel_update)

lemma become_follower_rel [section_rels]: "rel_at handler_rel (become_follower_locked term leader) n"
proof (cases "term < rn_current_term n")
  case True
  then show ?thesis by (simp add: rel_at_def become_follower_locked_def)
next
  case False
  define n1 where "n1 = (if term > rn_current_term n then set_hard (\<lambda>h. h\<lparr>hs_current_term := term, hs_voted_for := []\<rparr>) n else n)
    \<lparr>rn_role := Follower, rn_leader_id := leader, rn_next_index := [], rn_match_index := []\<rparr>"
  have "node_rel n n1" by (rule node_rel_update) (auto simp: n1_def vote_le_def)
  then have "handler_rel n n1" by (auto simp: handler_rel_def n1_def)
  moreover have "become_follower_locked term leader n = persist_hard_state_locked n1"
    using False by (simp add: become_follower_locked_def n1_def Let_def)
  ultimately show ?thesis using persist_hard_state_rel [of n1] transpD [OF transp_handler_rel] by (auto simp: rel_at_def)
qed

lemma persist_hard_stateD:
  assumes "persist_hard_state_locked n = (r, n')" and "storage_ok (rn_storage n)"
  shows "world.more n' = world.more n" and "r = Inr u \<Longrightarrow> hard_holds (rn_storage n) {rn_hard_state n} n'"
  using hard_holds_save [OF assms(1) [unfolded persist_hard_state_locked_def] assms(2)] by blast+

lemma persist_logD:
  assumes "persist_log_locked n = (r, n')" and "storage_ok (rn_storage n)"
  shows "world.more n' = world.more n"
  using hard_holds_log [OF assms(1) [unfolded persist_log_locked_def] assms(2)] by blast

lemma become_followerD:
  assumes run: "become_follower_locked term leader n = (r, n')" and ge: "rn_current_term n \<le> term" and ok: "storage_ok (rn_storage n)"
  shows "rn_current_term n' = term" and "rn_role n' = Follower" and "rn_log n' = rn_log n" and "rn_snapshot n' = rn_snapshot n"
    and "rn_commit_index n' = rn_commit_index n" and "rn_last_applied n' = rn_last_applied n" and "rn_machine n' = rn_machine n"
    and "rn_options n' = rn_options n" and "rn_storage n' = rn_storage n"
    and "hs_voted_for (rn_hard_state n') = (if rn_current_term n < term then [] else hs_voted_for (rn_hard_state n))"
proof -
  define n1 where "n1 = (if term > rn_current_term n then set_hard (\<lambda>h. h\<lparr>hs_current_term := term, hs_voted_for := []\<rparr>) n else n)
    \<lparr>rn_role := Follower, rn_leader_id := leader, rn_next_index := [], rn_match_index := []\<rparr>"
  have "become_follower_locked term leader n = persist_hard_state_locked n1"
    using ge by (auto simp: become_follower_locked_def n1_def Let_def)
  then have "persist_hard_state_locked n1 = (r, n')" using run by simp
  moreover have "storage_ok (rn_storage n1)" using ok by (simp add: n1_def)
  ultimately have more: "world.more n' = world.more n1" by (rule persist_hard_stateD(1))
  note f = node_fields [OF more]
  show "rn_current_term n' = term" "rn_role n' = Follower" "rn_log n' = rn_log n" "rn_snapshot n' = rn_snapshot n"
    "rn_commit_index n' = rn_commit_index n" "rn_last_applied n' = rn_last_applied n" "rn_machine n' = rn_machine n"
    "rn_options n' = rn_options n" "rn_storage n' = rn_storage n"
    "hs_voted_for (rn_hard_state n') = (if rn_current_term n < term then [] else hs_voted_for (rn_hard_state n))"
    unfolding f using ge by (auto simp: n1_def)
qed

lemma maybe_create_snapshot_rel [section_rels]: "rel_at handler_rel (maybe_create_snapshot_locked mach) n"
proof -
  have *: "rel_at handler_rel (bind_effect (lift_result (mach_create_snapshot mach (rn_machine n))) (\<lambda>payload.
          let created = \<lparr>sn_last_included_index = rn_last_applied n, sn_last_included_term = term, sn_payload = payload\<rparr> in
          bind_effect (save_snapshot (rn_storage n) created) (\<lambda>_.
          bind_effect (modify (\<lambda>n. n\<lparr>rn_snapshot := Some created, rn_log := entries_after (sn_last_included_index created) (rn_log n)\<rparr>)) (\<lambda>_.
          bind_effect persist_log_locked (\<lambda>_.
          modify (count_metric (rm_snapshots_created_update (\<lambda>x. x + 1)))))))) n" for "term"
    unfolding Let_def
    by (intro rel_bind section_rels; (simp add: handler_rel_update)?) (auto simp: lift_result_def)
  then show ?thesis
    by (simp add: rel_at_def maybe_create_snapshot_locked_def split: option.split)
qed

lemma apply_next_rel [section_rels]: "rel_at handler_rel (apply_next mach) n"
proof -
  have *: "rel_at handler_rel (bind_effect (on_machine (mach_apply mach e)) (\<lambda>_.
        bind_effect (modify (set_hard (\<lambda>h. h\<lparr>hs_last_applied := index\<rparr>))) (\<lambda>_.
        modify (if b then count_metric (rm_committed_commands_update (\<lambda>x. x + 1)) else (\<lambda>n. n))))) n" for e index b
    by (intro rel_bind section_rels) (simp_all add: handler_rel_update)
  then show ?thesis
    by (simp add: rel_at_def apply_next_def Let_def handler_rel_update)
qed

lemma apply_loop_rel [section_rels]: "rel_at handler_rel (apply_loop mach) n"
proof (induction mach n rule: apply_loop.induct)
  case (1 mach n)
  obtain r n1 where a: "apply_next mach n = (r, n1)" by fastforce
  have h: "handler_rel n n1" using apply_next_rel a by (rule rel_atD)
  show ?case
  proof (cases "rn_last_applied n < rn_commit_index n \<and> (\<exists>u. r = Inr u)")
    case True
    then obtain u where r: "r = Inr u" by blast
    have "rel_at handler_rel (apply_loop mach) n1" using 1 [OF _ a [symmetric] r] True by blast
    then show ?thesis using h transpD [OF transp_handler_rel] a r True
      by (auto simp: rel_at_def apply_loop.simps [of mach n])
  next
    case False
    then show ?thesis using a h by (cases r) (auto simp: rel_at_def apply_loop.simps [of mach n])
  qed
qed

lemma apply_committed_rel [section_rels]: "rel_at handler_rel (apply_committed_locked mach) n"
  unfolding apply_committed_locked_def by (intro rel_bind section_rels)

lemma append_entries_locked_rel [section_rels]: "rel_at handler_rel (append_entries_locked es) n"
proof (induction es arbitrary: n)
  case (Cons e es)
  have "handler_rel n (n\<lparr>rn_log := rn_log n @ [e]\<rparr>)" by (simp add: handler_rel_update)
  then show ?case using Cons.IH [of "n\<lparr>rn_log := rn_log n @ [e]\<rparr>"] transpD [OF transp_handler_rel]
    by (auto simp: rel_at_def)
qed (simp add: rel_at_def)

lemma truncate_rel: "handler_rel n (truncate_log_from_locked index n)"
  by (simp add: truncate_log_from_locked_def handler_rel_update)

lemma append_loop_step:
  fixes n :: "'m raft_node"
  defines "conflict e \<equiv> term_at_locked n (le_index e) \<noteq> None \<and> term_at_locked n (le_index e) \<noteq> Some (le_term e)"
  defines "n1 e \<equiv> (if conflict e then truncate_log_from_locked (le_index e) n else n)"
  shows "append_loop previous position (e # es) changed n =
    (if le_index e \<noteq> previous + of_nat position + 1 then (Inr None, n)
     else if le_index e \<le> snapshot_index n then append_loop previous (Suc position) es changed n
     else if term_at_locked (n1 e) (le_index e) = None
     then bind_effect (append_entries_locked (e # es)) (\<lambda>_. lift_result (Inr (Some True))) (n1 e)
     else append_loop previous (Suc position) es (changed \<or> conflict e) (n1 e))"
  by (simp only: append_loop.simps Let_def conflict_def n1_def)

lemma append_loop_rel [section_rels]: "rel_at handler_rel (append_loop previous position es changed) n"
proof (induction es arbitrary: position changed n)
  case (Cons e es position changed n)
  define conflict where "conflict = (term_at_locked n (le_index e) \<noteq> None \<and> term_at_locked n (le_index e) \<noteq> Some (le_term e))"
  define n1 where "n1 = (if conflict then truncate_log_from_locked (le_index e) n else n)"
  have h: "handler_rel n n1" by (simp add: n1_def truncate_rel)
  have a: "rel_at handler_rel (bind_effect (append_entries_locked (e # es)) (\<lambda>_. lift_result (Inr (Some True)))) n1"
    by (intro rel_bind section_rels) simp
  note trans = transpD [OF transp_handler_rel h]
  show ?case
    unfolding rel_at_def append_loop_step conflict_def [symmetric] n1_def [symmetric]
    using Cons.IH [of "Suc position" changed n] Cons.IH [of "Suc position" "changed \<or> conflict" n1] a
    by (auto simp only: rel_at_def snd_conv handler_rel_refl intro: trans split: if_split)
qed (simp add: rel_at_def)

lemma finish_append_rel [section_rels]: "rel_at handler_rel (finish_append mach request changed) n"
proof -
  have "rel_at handler_rel (bind_effect (modify (set_hard (\<lambda>h. h\<lparr>hs_commit_index := c\<rparr>))) (\<lambda>_.
      bind_effect (apply_committed_locked mach) (\<lambda>_. persist_hard_state_locked))) n" for c n
    by (intro rel_bind section_rels) (simp add: handler_rel_update)
  then have *: "rel_at handler_rel (\<lambda>n. if ae_leader_commit request > rn_commit_index n
       then bind_effect (modify (set_hard (\<lambda>h. h\<lparr>hs_commit_index := min (ae_leader_commit request) (last_log_index_locked n)\<rparr>))) (\<lambda>_.
            bind_effect (apply_committed_locked mach) (\<lambda>_. persist_hard_state_locked)) n
       else (Inr (), n)) n" for n
    by (simp add: rel_at_def)
  have "rel_at handler_rel (if changed then persist_log_locked else modify (\<lambda>n. n)) n" by (simp add: persist_log_rel)
  then show ?thesis unfolding finish_append_def
    by (rule rel_bind, intro rel_bind *) (simp add: rel_at_def)
qed

lemma follow_rel: "rel_at handler_rel (if b then become_follower_locked t l else modify (\<lambda>n. n)) n"
  by (simp add: become_follower_rel)

lemma append_checked_rel [section_rels]: "rel_at handler_rel (append_checked mach request) n"
proof -
  have "rel_at handler_rel (bind_effect (append_loop p 0 es False) (\<lambda>changed n. case changed of
       None \<Rightarrow> (Inr (append_rejected (last_log_index_locked n) (last_log_index_locked n + 1) n), n)
     | Some log_changed \<Rightarrow> finish_append mach request log_changed n)) n" for p es
    by (intro rel_bind section_rels) (simp add: rel_at_def finish_append_rel [unfolded rel_at_def] split: option.split)
  then show ?thesis by (simp add: rel_at_def append_checked_def split: option.split)
qed

lemma rel_at_return [simp]: "rel_at R (\<lambda>n. (r n, n)) n \<longleftrightarrow> R n n"
  by (simp add: rel_at_def)

lemma rel_at_if: "(b n \<Longrightarrow> rel_at R m n) \<Longrightarrow> (\<not> b n \<Longrightarrow> rel_at R m' n) \<Longrightarrow> rel_at R (\<lambda>n. if b n then m n else m' n) n"
  by (simp add: rel_at_def)

lemma handle_append_entries_rel [section_rels]: "rel_at handler_rel (handle_append_entries mach request) n"
proof -
  have "rel_at handler_rel (bind_effect (if b then become_follower_locked t l else modify (\<lambda>n. n)) (\<lambda>_.
         bind_effect (modify (\<lambda>n. n\<lparr>rn_leader_id := l\<rparr>)) (\<lambda>_. append_checked mach request))) n" for b t l n
    by (intro rel_bind follow_rel section_rels) (simp add: handler_rel_update)
  note inner = this [unfolded rel_at_def]
  show ?thesis unfolding handle_append_entries_def
    by (rule rel_bind, simp) (simp add: rel_at_def inner)
qed

lemma install_newer_rel [section_rels]: "rel_at handler_rel (install_newer mach request) n"
proof -
  have "rel_at handler_rel (bind_effect (modify (\<lambda>n. n\<lparr>rn_log := f n\<rparr>)) (\<lambda>_.
         bind_effect (save_snapshot (rn_storage n) installed) (\<lambda>_.
         bind_effect (modify (\<lambda>n. n\<lparr>rn_snapshot := Some installed\<rparr>)) (\<lambda>_.
         bind_effect persist_log_locked (\<lambda>_.
         bind_effect (on_machine g) (\<lambda>_.
         bind_effect (modify (set_hard (\<lambda>h. h\<lparr>hs_commit_index := max (hs_commit_index h) i, hs_last_applied := max (hs_last_applied h) i\<rparr>))) (\<lambda>_.
         bind_effect persist_hard_state_locked (\<lambda>_.
         bind_effect (modify (count_metric c)) (\<lambda>_ n. (Inr (r n), n)))))))))) n" for f installed g i c r
    by (intro rel_bind section_rels; (simp add: handler_rel_update)?) (auto simp: modify_def)
  then show ?thesis by (simp add: rel_at_def install_newer_def Let_def)
qed

lemma handle_install_snapshot_rel [section_rels]: "rel_at handler_rel (handle_install_snapshot mach request) n"
proof -
  have "rel_at handler_rel (bind_effect (if b then become_follower_locked t l else modify (\<lambda>n. n)) (\<lambda>_.
        bind_effect (modify (\<lambda>n. n\<lparr>rn_leader_id := l\<rparr>)) (\<lambda>_ n.
          if rn_snapshot n \<noteq> None \<and> is_last_included_index request \<le> snapshot_index n
          then (Inr (r n), n) else install_newer mach request n))) n" for b t l r
    by (intro rel_bind follow_rel section_rels rel_at_if) (simp_all add: handler_rel_update)
  then show ?thesis by (simp add: rel_at_def handle_install_snapshot_def)
qed

section \<open>Votes\<close>

lemma decide_vote_rel: "rel_at handler_rel (decide_vote request) n"
proof -
  have "rel_at handler_rel (bind_effect (modify (set_hard (\<lambda>h. h\<lparr>hs_voted_for := c\<rparr>))) (\<lambda>_. persist_hard_state_locked)) n"
    if "hs_voted_for (rn_hard_state n) = [] \<or> hs_voted_for (rn_hard_state n) = c" for c
  proof (intro rel_bind section_rels)
    have "node_rel n (set_hard (\<lambda>h. h\<lparr>hs_voted_for := c\<rparr>) n)" by (rule node_rel_update) (use that in \<open>auto simp: vote_le_def\<close>)
    then show "rel_at handler_rel (modify (set_hard (\<lambda>h. h\<lparr>hs_voted_for := c\<rparr>))) n" by (simp add: handler_rel_def)
  qed
  note grant = this
  have "rel_at handler_rel (bind_effect (if g \<and> k then bind_effect (modify (set_hard (\<lambda>h. h\<lparr>hs_voted_for := c\<rparr>))) (\<lambda>_. persist_hard_state_locked)
      else modify (\<lambda>n. n)) (\<lambda>_ n. (Inr (r n), n))) n"
    if "g \<longrightarrow> hs_voted_for (rn_hard_state n) = [] \<or> hs_voted_for (rn_hard_state n) = c" for g k c and r :: "_ \<Rightarrow> request_vote_response"
    by (rule rel_bind) (use that grant in simp_all)
  note step = this
  show ?thesis unfolding rel_at_def decide_vote_def Let_def
    by (rule step [unfolded rel_at_def]) simp
qed

lemma handle_request_vote_rel [section_rels]: "rel_at handler_rel (handle_request_vote request) n"
proof -
  have "rel_at handler_rel (bind_effect (if b then become_follower_locked t l else modify (\<lambda>n. n)) (\<lambda>_. decide_vote request)) n" for b t l n
    by (intro rel_bind follow_rel decide_vote_rel)
  note inner = this [unfolded rel_at_def]
  show ?thesis unfolding handle_request_vote_def
    by (rule rel_bind, simp) (simp add: rel_at_def inner)
qed

lemma decide_vote_granted:
  assumes run: "decide_vote request n = (Inr resp, n')" and ok: "storage_ok (rn_storage n)"
  shows "rvr_term resp = rn_current_term n" and "rn_current_term n' = rn_current_term n"
    and "rvr_vote_granted resp \<Longrightarrow> hs_voted_for (rn_hard_state n') = rv_candidate_id request \<and> hard_holds (rn_storage n) {rn_hard_state n'} n'"
proof -
  define m where "m = (set_hard (\<lambda>h. h\<lparr>hs_voted_for := rv_candidate_id request\<rparr>) n)"
  obtain r n1 where p: "persist_hard_state_locked m = (r, n1)" by fastforce
  have st: "rn_storage m = rn_storage n" by (simp add: m_def)
  note d = persist_hard_stateD [OF p, unfolded st, OF ok] and f = node_fields [OF persist_hard_stateD(1) [OF p, unfolded st, OF ok]]
  have "rvr_term resp = rn_current_term n \<and> rn_current_term n' = rn_current_term n \<and>
      (rvr_vote_granted resp \<longrightarrow> hs_voted_for (rn_hard_state n') = rv_candidate_id request \<and> hard_holds (rn_storage n) {rn_hard_state n'} n')"
    using run p d(2) f by (cases r) (auto simp: decide_vote_def Let_def modify_def m_def [symmetric] split: if_splits; simp add: m_def)+
  then show "rvr_term resp = rn_current_term n" and "rn_current_term n' = rn_current_term n"
    and "rvr_vote_granted resp \<Longrightarrow> hs_voted_for (rn_hard_state n') = rv_candidate_id request \<and> hard_holds (rn_storage n) {rn_hard_state n'} n'"
    by blast+
qed

lemma handle_request_vote_granted:
  assumes run: "handle_request_vote request n = (Inr resp, n')" and ok: "storage_ok (rn_storage n)" and granted: "rvr_vote_granted resp"
  shows "rn_current_term n' = rv_term request" and "hs_voted_for (rn_hard_state n') = rv_candidate_id request"
    and "hard_holds (rn_storage n) {rn_hard_state n'} n'"
proof -
  define m where "m = count_metric (rm_vote_requests_received_update (\<lambda>x. x + 1)) n"
  have m: "rn_storage m = rn_storage n" by (simp add: m_def count_metric_def)
  have ge: "rn_current_term m \<le> rv_term request"
    using run granted by (auto simp: handle_request_vote_def modify_def m_def [symmetric] not_le split: if_splits)
  obtain r n1 where f: "(if rv_term request > rn_current_term m then become_follower_locked (rv_term request) [] else modify (\<lambda>n. n)) m = (r, n1)"
    by fastforce
  have n1: "rn_current_term n1 = rv_term request" "rn_storage n1 = rn_storage n"
    using f ge m ok become_followerD(1,9) [OF _ ge] by (auto simp: modify_def split: if_splits)
  have "r = Inr () \<and> decide_vote request n1 = (Inr resp, n')"
    using run f ge by (cases r) (auto simp: handle_request_vote_def modify_def m_def [symmetric] not_le split: if_splits)
  then have "decide_vote request n1 = (Inr resp, n')" by blast
  from decide_vote_granted [OF this] n1 ok granted
  show "rn_current_term n' = rv_term request" "hs_voted_for (rn_hard_state n') = rv_candidate_id request"
    "hard_holds (rn_storage n) {rn_hard_state n'} n'" by simp_all
qed

end
