(* ===== verification/RaftSections.thy ===== *)
theory RaftSections
  imports RaftVotes
begin

text \<open>
  The sections of the leader, of the clients and of the campaign, and of a start from disk.
\<close>

section \<open>Replication and clients\<close>

lemma handler_rel_progress [simp]:
  "handler_rel n (n\<lparr>rn_next_index := m\<rparr>)" "handler_rel n (count_failure n)" "handler_rel n (set_progress peer index n)"
  "handler_rel n ((count_failure n)\<lparr>rn_next_index := m\<rparr>)"
  by (rule handler_rel_update; simp add: count_failure_def count_metric_def set_progress_def)+

lemma prepare_entries_rel: "handler_rel n (snd (prepare_entries peer heartbeat_only next_index n))"
  by (auto simp only: prepare_entries_def Let_def snd_conv handler_rel_progress handler_rel_set_metric split: option.split)

lemma prepare_replication_rel: "handler_rel n (snd (prepare_replication peer heartbeat_only n))"
proof -
  define n1 where "n1 = (if map_of (rn_next_index n) (peer_id peer) = None
    then n\<lparr>rn_next_index := map_insert_or_assign (peer_id peer) (last_log_index_locked n + 1) (rn_next_index n)\<rparr> else n)"
  have h: "handler_rel n n1" by (simp add: n1_def)
  note trans = transpD [OF transp_handler_rel h]
  show ?thesis unfolding prepare_replication_def n1_def [symmetric] Let_def
    by (auto simp only: snd_conv handler_rel_refl h split: if_split option.split intro: trans prepare_entries_rel)
qed

lemma lost_rel: "rel_at handler_rel (bind_effect (become_follower_locked t []) (\<lambda>_. lift_result (Inr x))) n"
  by (intro rel_bind section_rels) simp

lemma snapshot_response_rel [section_rels]: "rel_at handler_rel (snapshot_response peer t response) n"
  unfolding rel_at_def snapshot_response_def
  by (auto simp only: snd_conv handler_rel_refl handler_rel_progress lost_rel [unfolded rel_at_def] split: if_split option.split)

lemma append_response_rel [section_rels]: "rel_at handler_rel (append_response peer t response) n"
  unfolding rel_at_def append_response_def Let_def
  by (auto simp only: snd_conv handler_rel_refl handler_rel_progress lost_rel [unfolded rel_at_def] split: if_split option.split)

lemma election_response_rel [section_rels]: "rel_at handler_rel (election_response t response) n"
  by (simp add: rel_at_def election_response_def lost_rel [unfolded rel_at_def])

lemma advance_commit_rel: "handler_rel n (snd (advance_commit_locked n))"
  by (simp add: advance_commit_locked_def Let_def handler_rel_update)

lemma advance_and_apply_rel [section_rels]: "rel_at handler_rel (advance_and_apply mach t) n"
proof -
  obtain b n1 where a: "advance_commit_locked n = (b, n1)" by fastforce
  then have "handler_rel n n1" using advance_commit_rel [of n] by simp
  moreover have "rel_at handler_rel (bind_effect (apply_committed_locked mach) (\<lambda>_.
      bind_effect persist_hard_state_locked (\<lambda>_. lift_result (Inr (True, True))))) n1"
    by (intro rel_bind section_rels) simp
  ultimately show ?thesis using a transpD [OF transp_handler_rel]
    by (cases b) (auto simp: rel_at_def advance_and_apply_def)
qed

lemma append_local_rel [section_rels]: "rel_at handler_rel (append_local_entry_locked c) n"
  by (simp add: rel_at_def append_local_entry_locked_def Let_def handler_rel_update)

lemma commit_alone_rel: "rel_at handler_rel (bind_effect (modify (set_hard (\<lambda>h. h\<lparr>hs_commit_index := i\<rparr>))) (\<lambda>_.
    bind_effect (apply_committed_locked mach) (\<lambda>_. persist_hard_state_locked))) n"
  by (intro rel_bind section_rels) (simp add: handler_rel_update)

lemma submit_local_rel [section_rels]: "rel_at handler_rel (submit_local mach c) n"
proof -
  have *: "rel_at handler_rel (bind_effect (modify (set_hard (\<lambda>h. h\<lparr>hs_commit_index := i\<rparr>))) (\<lambda>_.
      bind_effect (apply_committed_locked mach) (\<lambda>_. bind_effect persist_hard_state_locked (\<lambda>_ n. (Inr (r n), n))))) n" for i r n
    by (intro rel_bind section_rels) (simp_all add: handler_rel_update)
  have "rel_at handler_rel (bind_effect (append_local_entry_locked c) (\<lambda>entry.
        bind_effect persist_log_locked (\<lambda>_ n.
          if quorum_size n = 1
          then bind_effect (modify (set_hard (\<lambda>h. h\<lparr>hs_commit_index := le_index entry\<rparr>))) (\<lambda>_.
               bind_effect (apply_committed_locked mach) (\<lambda>_.
               bind_effect persist_hard_state_locked (\<lambda>_ n. (Inr (r entry n), n)))) n
          else (Inr (q entry), n)))) n" for r and q :: "_ \<Rightarrow> submit_result + log_entry"
    by (intro rel_bind section_rels rel_at_if *) simp
  then show ?thesis by (simp add: rel_at_def submit_local_def)
qed

lemma trigger_snapshot_rel [section_rels]: "rel_at handler_rel (trigger_snapshot mach) n"
proof -
  have "handler_rel n (n\<lparr>rn_options := rn_options n\<lparr>no_snapshot_threshold_entries := k\<rparr>\<rparr>)" for k and n :: "'a raft_node"
    by (simp add: handler_rel_def node_rel_update)
  then have "rel_at handler_rel (bind_effect (modify (\<lambda>n. n\<lparr>rn_options := rn_options n\<lparr>no_snapshot_threshold_entries := 1\<rparr>\<rparr>)) (\<lambda>_.
        bind_effect (maybe_create_snapshot_locked mach) (\<lambda>_.
        modify (\<lambda>n. n\<lparr>rn_options := rn_options n\<lparr>no_snapshot_threshold_entries := k\<rparr>\<rparr>)))) n" for k
    by (intro rel_bind section_rels) simp_all
  then show ?thesis by (simp add: rel_at_def trigger_snapshot_def Let_def)
qed

section \<open>Campaigns\<close>

lemma election_startD:
  assumes run: "election_start n = (r, n')" and ok: "storage_ok (rn_storage n)" and wrap: "rn_current_term n \<noteq> - 1"
  shows "node_rel n n'" and "rn_role n' = Leader \<Longrightarrow> rn_role n = Leader \<and> rn_current_term n' = rn_current_term n"
    and "r = Inr (Some request) \<Longrightarrow> rv_term request = rn_current_term n' \<and> rv_candidate_id request = no_node_id (rn_options n) \<and>
      hs_voted_for (rn_hard_state n') = no_node_id (rn_options n) \<and> hard_holds (rn_storage n) {rn_hard_state n'} n'"
proof -
  define m where "m = count_metric (rm_elections_started_update (\<lambda>x. x + 1))
    (set_hard (\<lambda>h. h\<lparr>hs_current_term := hs_current_term h + 1, hs_voted_for := no_node_id (rn_options n)\<rparr>)
      (n\<lparr>rn_role := Candidate, rn_leader_id := []\<rparr>))"
  have "1 + rn_current_term n \<noteq> 0" using wrap by (simp add: eq_neg_iff_add_eq_0 add.commute)
  then have "rn_current_term n < rn_current_term n + 1" using unatSuc [of "rn_current_term n"] by (simp add: word_less_nat_alt add.commute)
  then have rel: "node_rel n m" by (intro node_rel_update) (simp_all add: m_def count_metric_def vote_le_def)
  obtain r1 n1 where p: "persist_hard_state_locked m = (r1, n1)" by fastforce
  have st: "rn_storage m = rn_storage n" by (simp add: m_def count_metric_def)
  note d = persist_hard_stateD [OF p, unfolded st, OF ok] and f = node_fields [OF persist_hard_stateD(1) [OF p, unfolded st, OF ok]]
  have rel1: "node_rel n n1" using rel rel_atD [OF persist_hard_state_rel p] node_rel_trans by (auto simp: handler_rel_def)
  have cases: "rn_role n = Leader \<and> r = Inr None \<and> n' = n \<or> rn_role n \<noteq> Leader \<and> n' = n1 \<and>
     (r1 = Inr () \<longrightarrow> r = Inr (Some \<lparr>rv_term = rn_current_term n1, rv_candidate_id = no_node_id (rn_options n1),
       rv_last_log_index = last_log_index_locked n1, rv_last_log_term = last_log_term_locked n1\<rparr>)) \<and> (r1 \<noteq> Inr () \<longrightarrow> (\<exists>e. r = Inl e))"
  proof (cases "rn_role n = Leader")
    case True
    then show ?thesis using run by (simp add: election_start_def)
  next
    case False
    then have "election_start n = bind_effect persist_hard_state_locked (\<lambda>_ n.
        (Inr (Some \<lparr>rv_term = rn_current_term n, rv_candidate_id = no_node_id (rn_options n),
           rv_last_log_index = last_log_index_locked n, rv_last_log_term = last_log_term_locked n\<rparr>), n)) m"
      by (simp add: election_start_def modify_def m_def)
    then show ?thesis using False run p by (cases r1) auto
  qed
  then show "node_rel n n'" using rel1 by auto
  have role: "rn_role n1 = Candidate" unfolding f by (simp add: m_def count_metric_def)
  then show "rn_role n' = Leader \<Longrightarrow> rn_role n = Leader \<and> rn_current_term n' = rn_current_term n" using cases by auto
  have fields: "rn_hard_state n1 = rn_hard_state m" "hs_voted_for (rn_hard_state m) = no_node_id (rn_options n)" "rn_options n1 = rn_options n"
    unfolding f by (simp_all add: m_def count_metric_def)
  show "rv_term request = rn_current_term n' \<and> rv_candidate_id request = no_node_id (rn_options n) \<and>
      hs_voted_for (rn_hard_state n') = no_node_id (rn_options n) \<and> hard_holds (rn_storage n) {rn_hard_state n'} n'"
    if "r = Inr (Some request)"
    using cases that d(2) fields by auto
qed

lemma election_finishD:
  assumes run: "election_finish mach t votes n = (r, n')" and ok: "storage_ok (rn_storage n)"
  shows "node_rel n n'" and "rn_role n' = Leader \<Longrightarrow>
    rn_current_term n' = rn_current_term n \<and> (rn_role n = Leader \<or> rn_current_term n = t \<and> votes \<ge> quorum_size n)"
proof -
  define m where "m = become_leader_locked n"
  have rel: "node_rel n m" by (rule node_rel_update) (simp_all add: m_def become_leader_locked_def count_metric_def Let_def)
  have m: "rn_storage m = rn_storage n" "rn_current_term m = rn_current_term n"
    by (simp_all add: m_def become_leader_locked_def count_metric_def Let_def)
  have *: "rel_at handler_rel (bind_effect (append_local_entry_locked noop_command) (\<lambda>_.
           bind_effect persist_log_locked (\<lambda>_.
           bind_effect (\<lambda>n. if quorum_size n = 1
             then bind_effect (modify (set_hard (\<lambda>h. h\<lparr>hs_commit_index := last_log_index_locked n\<rparr>))) (\<lambda>_.
                  bind_effect (apply_committed_locked mach) (\<lambda>_. persist_hard_state_locked)) n
             else (Inr (), n)) (\<lambda>_. lift_result (Inr True))))) m"
    by (intro rel_bind section_rels) (simp_all add: rel_at_def commit_alone_rel [unfolded rel_at_def])
  show "node_rel n n'" and "rn_role n' = Leader \<Longrightarrow>
    rn_current_term n' = rn_current_term n \<and> (rn_role n = Leader \<or> rn_current_term n = t \<and> votes \<ge> quorum_size n)"
    using run * rel node_rel_trans [OF rel] m ok
    by (auto simp: election_finish_def modify_def m_def [symmetric] rel_at_def handler_rel_def split: if_splits)
qed

section \<open>Starting from disk\<close>

text \<open>Reading changes the pending events only.\<close>

definition reads_only :: "('a world_scheme, 'b) effect \<Rightarrow> bool" where
  "reads_only m \<longleftrightarrow> (\<forall>w r w'. m w = (r, w') \<longrightarrow> w_fs w' = w_fs w \<and> world.more w' = world.more w)"

lemma reads_only_bind: "reads_only m \<Longrightarrow> (\<And>x. reads_only (f x)) \<Longrightarrow> reads_only (bind_effect m f)"
  unfolding reads_only_def bind_effect_def by (fastforce split: prod.splits sum.splits)

lemma reads_only_intros:
  "reads_only (sys_call e)" "reads_only (lift_result r)"
  by (auto simp: reads_only_def lift_result_def dest: sys_callD)

lemma reads_only_case: "(\<And>x. reads_only (f x)) \<Longrightarrow> reads_only g \<Longrightarrow> reads_only (\<lambda>w. case h w of None \<Rightarrow> g w | Some x \<Rightarrow> f x w)"
  by (auto simp: reads_only_def split: option.split)

lemma reads_only_if: "reads_only f \<Longrightarrow> reads_only g \<Longrightarrow> reads_only (\<lambda>w. if b w then f w else g w)"
  by (auto simp: reads_only_def)

lemma reads_only_ite: "reads_only f \<Longrightarrow> reads_only g \<Longrightarrow> reads_only (if b then f else g)"
  by simp

lemma reads_only_return: "reads_only (\<lambda>w. (r, w))"
  by (simp add: reads_only_def)

lemmas reads_only = reads_only_bind reads_only_intros reads_only_case reads_only_if reads_only_ite reads_only_return

lemma raft_read_file_reads_only: "reads_only (raft_read_file path)"
  unfolding raft_read_file_def by (intro reads_only)

lemma load_file_reads_only: "reads_only (load_file path magic decode absent)"
  unfolding load_file_def unwrap_payload_def by (intro reads_only raft_read_file_reads_only)

lemma raft_load_reads_only: "reads_only (raft_load st)"
  unfolding raft_load_def by (intro reads_only load_file_reads_only)

lemma load_file_value:
  assumes "load_file path magic decode absent w = (Inr x, w')"
  shows "case fs_files (w_fs w) path of None \<Rightarrow> x = absent
    | Some f \<Rightarrow> \<exists>payload. check_envelope path magic (df_contents f) = Inr payload \<and> decode payload = Inr x"
proof (cases "fs_files (w_fs w) path")
  case (Some f)
  then have "sys_call e w = (r, w1) \<Longrightarrow> fs_files (w_fs w1) path = Some f" for e r w1 by (simp add: sys_callD)
  then show ?thesis using assms Some
    by (auto simp: load_file_def exists_file_def unwrap_payload_def raft_read_file_def result_simps split: if_splits option.splits)
qed (use assms in \<open>simp add: load_file_def exists_file_def\<close>)

lemma load_hard_state_image:
  assumes "load_file path kHardMagic decode_hard_state initial_hard_state w = (Inr x, w')" and "w_fs w = fs_restart disk names"
    and "disk path \<in> hard_image h"
  shows "x = h"
proof (cases "disk path")
  case None
  then show ?thesis using load_file_value [OF assms(1)] assms(2,3) by (simp add: fs_restart_def hard_image_def)
next
  case (Some c)
  then obtain bs where "encode_hard_state h = Inr bs" "c = wrap_payload kHardMagic bs" using assms(3) by (auto simp: hard_image_def)
  then show ?thesis using load_file_value [OF assms(1)] assms(2) Some decode_encode_hard_state [of h bs] by (simp add: fs_restart_def)
qed

lemma recover_node_rel: "rel_at handler_rel (recover_node mach) n"
proof -
  have *: "rel_at handler_rel (bind_effect (lift_result x) (\<lambda>_. bind_effect (on_machine f) (\<lambda>_.
     bind_effect (modify (set_hard (\<lambda>h. h\<lparr>hs_last_applied := hs_commit_index h\<rparr>))) (\<lambda>_. persist_hard_state_locked)))) n" for x f n
    by (intro rel_bind section_rels) (simp_all add: handler_rel_update)
  have **: "rel_at handler_rel (bind_effect (modify (set_hard (\<lambda>h. if hs_commit_index h < i then h\<lparr>hs_commit_index := i\<rparr> else h))) (\<lambda>_ n.
     bind_effect (lift_result (x n)) (\<lambda>_. bind_effect (on_machine (f n)) (\<lambda>_.
     bind_effect (modify (set_hard (\<lambda>h. h\<lparr>hs_last_applied := hs_commit_index h\<rparr>))) (\<lambda>_. persist_hard_state_locked))) n)) n" for x f i n
    by (rule rel_bind, simp add: handler_rel_update) (simp add: rel_at_def * [unfolded rel_at_def])
  have "rel_at handler_rel (bind_effect (lift_result x) (\<lambda>_. bind_effect (lift_result y) (\<lambda>_.
     bind_effect (modify (set_hard (\<lambda>h. if hs_commit_index h < i then h\<lparr>hs_commit_index := i\<rparr> else h))) (\<lambda>_ n.
     bind_effect (lift_result (z n)) (\<lambda>_. bind_effect (on_machine (f n)) (\<lambda>_.
     bind_effect (modify (set_hard (\<lambda>h. h\<lparr>hs_last_applied := hs_commit_index h\<rparr>))) (\<lambda>_. persist_hard_state_locked))) n)))) n" for x y z f i
    by (intro rel_bind **) simp_all
  from this [unfolded rel_at_def] show ?thesis unfolding recover_node_def rel_at_def .
qed

text \<open>A node started from a disk votes on from what the disk holds.\<close>

lemma raft_node_newD:
  assumes run: "raft_node_new mach options st m w = (r, n)" and ok: "storage_ok st" and w: "w_fs w = fs_restart disk names"
    and img: "disk (rs_hard_state_path st) \<in> hard_image h"
  shows "\<exists>H. hard_holds st H n \<and> (\<forall>h'\<in>H. vote_le h h')" and "rn_storage n = st" and "no_node_id (rn_options n) = no_node_id options"
    and "no_peers (rn_options n) = no_peers options" and "r = Inr u \<Longrightarrow> vote_le h (rn_hard_state n) \<and> rn_role n = Follower"
proof -
  define n0 where "n0 = blank_node options st m w"
  have n0: "w_fs n0 = fs_restart disk names" "rn_storage n0 = st" "rn_options n0 = options" "rn_role n0 = Follower"
    using w by (simp_all add: n0_def blank_node_def)
  have part: "part_in p {disk p} n1" if "w_fs n1 = fs_restart disk names" for p and n1 :: "'m raft_node"
    using that by (cases "disk p") (simp_all add: part_in_def fs_restart_def whole_file_def)
  have holds: "hard_holds st {h} n1" if "w_fs n1 = fs_restart disk names" for n1 :: "'m raft_node"
    using part_in_mono [OF part [OF that]] img by (simp add: hard_holds_def)
  obtain r1 n1 where load: "raft_load st n0 = (r1, n1)" by fastforce
  have fs1: "w_fs n1 = fs_restart disk names" and more: "world.more n1 = world.more n0"
    using raft_load_reads_only [of st] load n0(1) unfolding reads_only_def by metis+
  note f1 = node_fields [OF more]
  consider e where "r = Inl e" "n = n0" | e where "r = Inl e" "n = n1"
    | ps where "r1 = Inr ps" "recover_node mach (n1\<lparr>rn_hard_state := pst_hard_state ps, rn_log := pst_log ps, rn_snapshot := pst_snapshot ps\<rparr>) = (r, n)"
  proof -
    have "raft_node_new mach options st m w = (case validate_options options of Inl e \<Rightarrow> (Inl e, n0) | Inr _ \<Rightarrow> (case r1 of
        Inl e \<Rightarrow> (Inl e, n1) | Inr ps \<Rightarrow> recover_node mach (n1\<lparr>rn_hard_state := pst_hard_state ps, rn_log := pst_log ps, rn_snapshot := pst_snapshot ps\<rparr>)))"
      using load by (cases r1) (simp_all add: raft_node_new_def n0_def modify_def lift_result_def split: sum.split)
    then show thesis using that run by (cases "validate_options options"; cases r1) auto
  qed
  then have "(\<exists>H. hard_holds st H n \<and> (\<forall>h'\<in>H. vote_le h h')) \<and> rn_storage n = st \<and> no_node_id (rn_options n) = no_node_id options \<and>
      no_peers (rn_options n) = no_peers options \<and> (r = Inr u \<longrightarrow> vote_le h (rn_hard_state n) \<and> rn_role n = Follower)"
  proof cases
    case 1
    then show ?thesis using holds [OF n0(1)] n0 by (auto intro!: exI [of _ "{h}"])
  next
    case 2
    then show ?thesis using holds [OF fs1] f1 n0 by (auto intro!: exI [of _ "{h}"])
  next
    case (3 ps)
    define n2 where "n2 = n1\<lparr>rn_hard_state := pst_hard_state ps, rn_log := pst_log ps, rn_snapshot := pst_snapshot ps\<rparr>"
    obtain w1 where "load_file (rs_hard_state_path st) kHardMagic decode_hard_state initial_hard_state n0 = (Inr (pst_hard_state ps), w1)"
      using load 3(1) by (auto simp: raft_load_def result_simps)
    then have h: "pst_hard_state ps = h" using load_hard_state_image n0(1) img by blast
    have "handler_rel n2 n" using recover_node_rel 3(2) unfolding n2_def [symmetric] by (rule rel_atD)
    moreover have "hard_holds st {h} n2" using holds [of n2] fs1 by (simp add: n2_def)
    moreover have "rn_storage n2 = st" "rn_options n2 = options" "rn_hard_state n2 = h" "rn_role n2 = Follower"
      using f1 n0 h by (simp_all add: n2_def)
    ultimately show ?thesis using ok unfolding handler_rel_def node_rel_def by (metis singletonD vote_le_refl)
  qed
  then show "\<exists>H. hard_holds st H n \<and> (\<forall>h'\<in>H. vote_le h h')" and "rn_storage n = st" and "no_node_id (rn_options n) = no_node_id options"
    and "no_peers (rn_options n) = no_peers options" and "r = Inr u \<Longrightarrow> vote_le h (rn_hard_state n) \<and> rn_role n = Follower" by blast+
qed

end
