(* ===== verification/RaftExample.thy ===== *)
theory RaftExample
  imports RaftSections
begin

text \<open>
  Nodes on a disk that works: starting, campaigning and voting succeed.  A state machine that keeps the list
  of the entries it was given, and a cluster of three, serve as concrete instances.
\<close>

section \<open>A disk that works\<close>

lemma persist_hard_state_reliable:
  assumes "w_events n = []" and "storage_ok (rn_storage n)" and "length (hs_voted_for (rn_hard_state n)) < 2 ^ 32"
  obtains n' where "persist_hard_state_locked n = (Inr (), n')" and "w_events n' = []" and "world.more n' = world.more n"
proof -
  obtain bs where "append_bytes (hs_voted_for (rn_hard_state n)) = Inr bs" using assms(3) append_bytes_Inr_iff by blast
  then obtain b where "encode_hard_state (rn_hard_state n) = Inr b" by (auto simp: encode_hard_state_def)
  from save_hard_state_reliable [OF assms(1) this, of "rn_storage n"] obtain n' where n': "persist_hard_state_locked n = (Inr (), n')" "w_events n' = []"
    unfolding persist_hard_state_locked_def by blast
  with persist_hard_stateD(1) [OF n'(1) assms(2)] show thesis using that by blast
qed

definition small_entry :: "log_entry \<Rightarrow> bool" where
  "small_entry e \<longleftrightarrow> length (cmd_key (le_command e)) < 2 ^ 32 \<and> length (cmd_value (le_command e)) < 2 ^ 32"

lemma encode_log_small: "\<forall>e\<in>set es. small_entry e \<Longrightarrow> \<exists>bs. encode_log es = Inr bs"
proof -
  have entry: "\<exists>bs. encode_entry e = Inr bs" if "small_entry e" for e
    using that by (auto simp: small_entry_def encode_entry_def encode_command_def append_bytes_def unat_max_u32 throw_if_def)
  assume "\<forall>e\<in>set es. small_entry e"
  then have "\<exists>bs. encode_entries es = Inr bs"
  proof (induction es)
    case (Cons e es)
    then show ?case using entry [of e] by auto
  qed simp
  then show ?thesis by (auto simp: encode_log_def)
qed

lemma persist_log_reliable:
  assumes "w_events n = []" and "storage_ok (rn_storage n)" and "\<forall>e\<in>set (rn_log n). small_entry e"
  obtains n' where "persist_log_locked n = (Inr (), n')" and "w_events n' = []" and "world.more n' = world.more n"
proof -
  obtain bs where "encode_log (rn_log n) = Inr bs" using encode_log_small assms(3) by blast
  from replace_log_reliable [OF assms(1) this, of "rn_storage n"] obtain n' where n': "persist_log_locked n = (Inr (), n')" "w_events n' = []"
    unfolding persist_log_locked_def by blast
  with persist_logD [OF n'(1) assms(2)] show thesis using that by blast
qed

text \<open>A node with this term and vote and an empty log.\<close>

definition empty_node :: "raft_node_options \<Rightarrow> raft_storage \<Rightarrow> role \<Rightarrow> u64 \<Rightarrow> node_id \<Rightarrow> 'm raft_node \<Rightarrow> bool" where
  "empty_node options st role t v n \<longleftrightarrow> w_events n = [] \<and> rn_options n = options \<and> rn_storage n = st \<and> rn_role n = role \<and>
     rn_hard_state n = \<lparr>hs_current_term = t, hs_voted_for = v, hs_commit_index = 0, hs_last_applied = 0\<rparr> \<and> rn_log n = [] \<and> rn_snapshot n = None"

lemma empty_node_persist:
  assumes "empty_node options st role t v n" and "storage_ok st" and "length v < 2 ^ 32"
  obtains n' where "persist_hard_state_locked n = (Inr (), n')" and "empty_node options st role t v n'"
proof -
  obtain n' where n': "persist_hard_state_locked n = (Inr (), n')" "w_events n' = []" "world.more n' = world.more n"
    using persist_hard_state_reliable [of n] assms by (auto simp: empty_node_def)
  with node_fields [OF n'(3)] assms(1) show thesis by (intro that [of n']) (simp_all add: empty_node_def)
qed

lemma raft_node_new_reliable:
  assumes "validate_options options = Inr ()" and "mach_recover mach None [] m = (Inr (), m')" and "storage_ok st"
  obtains n where "raft_node_new mach options st m \<lparr>w_fs = fs_restart Map.empty [], w_events = []\<rparr> = (Inr (), n)"
    and "empty_node options st Follower 0 [] n"
proof -
  let ?w = "\<lparr>w_fs = fs_restart Map.empty [], w_events = []\<rparr> :: world"
  define n0 where "n0 = blank_node options st m ?w"
  have n0: "empty_node options st Follower 0 [] n0" "rn_machine n0 = m"
    by (simp_all add: n0_def blank_node_def empty_node_def initial_hard_state_def)
  have "on_disk Map.empty n0" by (rule on_disk_restart [of _ _ "[]"]) (simp_all add: n0_def blank_node_def)
  then have load: "raft_load st n0 = (Inr \<lparr>pst_hard_state = initial_hard_state, pst_log = [], pst_snapshot = None\<rparr>, n0)"
    by (rule raft_load_on_disk) (simp_all add: hard_image_def log_image_def snapshot_image_def storable_log_def contiguous_def)
  define n1 where "n1 = n0\<lparr>rn_machine := m', rn_hard_state := \<lparr>hs_current_term = 0, hs_voted_for = [], hs_commit_index = 0, hs_last_applied = 0\<rparr>\<rparr>"
  have "empty_node options st Follower 0 [] n1" using n0 by (simp add: empty_node_def n1_def)
  from empty_node_persist [OF this assms(3)]
  obtain n where n: "persist_hard_state_locked n1 = (Inr (), n)" "empty_node options st Follower 0 [] n" by auto
  have eq: "n0\<lparr>rn_hard_state := initial_hard_state, rn_log := [], rn_snapshot := None\<rparr> = n0"
    using n0(1) by (simp add: empty_node_def initial_hard_state_def)
  have "recover_node mach n0 = persist_hard_state_locked n1"
    using n0 assms(2)
    by (simp add: recover_node_def empty_node_def throw_if_def contiguous_def snapshot_index_def last_log_index_locked_def on_machine_def
        modify_def n1_def)
  then have "raft_node_new mach options st m ?w = (Inr (), n)"
    using assms(1) load n eq by (simp add: raft_node_new_def n0_def [symmetric] modify_def)
  then show thesis using n(2) that by blast
qed

lemma election_start_reliable:
  assumes n: "empty_node options st Follower 0 [] n" and st: "storage_ok st" and len: "length (no_node_id options) < 2 ^ 32"
  obtains n' where "election_start n = (Inr (Some \<lparr>rv_term = 1, rv_candidate_id = no_node_id options, rv_last_log_index = 0, rv_last_log_term = 0\<rparr>), n')"
    and "empty_node options st Candidate 1 (no_node_id options) n'"
proof -
  define n1 where "n1 = count_metric (rm_elections_started_update (\<lambda>x. x + 1))
    (set_hard (\<lambda>h. h\<lparr>hs_current_term := hs_current_term h + 1, hs_voted_for := no_node_id (rn_options n)\<rparr>) (n\<lparr>rn_role := Candidate, rn_leader_id := []\<rparr>))"
  have "empty_node options st Candidate 1 (no_node_id options) n1" using n by (simp add: n1_def empty_node_def count_metric_def)
  from empty_node_persist [OF this st len] obtain n' where
    n': "persist_hard_state_locked n1 = (Inr (), n')" "empty_node options st Candidate 1 (no_node_id options) n'" .
  then show thesis using n
    by (intro that [of n']) (simp_all add: election_start_def empty_node_def modify_def n1_def last_log_index_locked_def last_log_term_locked_def)
qed

lemma vote_reliable:
  assumes n: "empty_node options st Follower 0 [] n" and st: "storage_ok st" and c: "length c < 2 ^ 32"
  obtains n' where "handle_request_vote \<lparr>rv_term = 1, rv_candidate_id = c, rv_last_log_index = 0, rv_last_log_term = 0\<rparr> n =
      (Inr \<lparr>rvr_term = 1, rvr_vote_granted = True\<rparr>, n')"
    and "empty_node options st Follower 1 c n'"
proof -
  define n1 where "n1 = (set_hard (\<lambda>h. h\<lparr>hs_current_term := 1, hs_voted_for := []\<rparr>) (count_metric (rm_vote_requests_received_update (\<lambda>x. x + 1)) n))
    \<lparr>rn_role := Follower, rn_leader_id := [], rn_next_index := [], rn_match_index := []\<rparr>"
  have "empty_node options st Follower 1 [] n1" using n by (simp add: n1_def empty_node_def count_metric_def)
  from empty_node_persist [OF this st] obtain n2 where n2: "persist_hard_state_locked n1 = (Inr (), n2)" "empty_node options st Follower 1 [] n2" by auto
  have "empty_node options st Follower 1 c (set_hard (\<lambda>h. h\<lparr>hs_voted_for := c\<rparr>) n2)" using n2(2) by (simp add: empty_node_def)
  from empty_node_persist [OF this st c] obtain n' where
    n': "persist_hard_state_locked (set_hard (\<lambda>h. h\<lparr>hs_voted_for := c\<rparr>) n2) = (Inr (), n')" "empty_node options st Follower 1 c n'" .
  have "become_follower_locked 1 [] (count_metric (rm_vote_requests_received_update (\<lambda>x. x + 1)) n) = (Inr (), n2)"
    using n n2(1) by (simp add: become_follower_locked_def n1_def count_metric_def empty_node_def Let_def)
  moreover have "decide_vote \<lparr>rv_term = 1, rv_candidate_id = c, rv_last_log_index = 0, rv_last_log_term = 0\<rparr> n2 = (Inr \<lparr>rvr_term = 1, rvr_vote_granted = True\<rparr>, n')"
    using n2(2) n' by (simp add: decide_vote_def Let_def empty_node_def last_log_index_locked_def last_log_term_locked_def modify_def)
  ultimately show thesis using n n'(2)
    by (intro that [of n']) (simp_all add: handle_request_vote_def modify_def empty_node_def count_metric_def)
qed

lemma election_finish_reliable:
  assumes n: "empty_node options st Candidate 1 v n" and st: "storage_ok st" and q: "quorum_size n > 1" "votes \<ge> quorum_size n"
  obtains n' where "election_finish mach 1 votes n = (Inr True, n')" and "rn_role n' = Leader" and "rn_current_term n' = 1"
    and "rn_log n' = [\<lparr>le_index = 1, le_term = 1, le_command = noop_command\<rparr>]" and "w_events n' = []" and "rn_storage n' = st"
proof -
  define n1 where "n1 = (become_leader_locked n)\<lparr>rn_log := [\<lparr>le_index = 1, le_term = 1, le_command = noop_command\<rparr>]\<rparr>"
  have n1: "w_events n1 = []" "storage_ok (rn_storage n1)" "\<forall>e\<in>set (rn_log n1). small_entry e" "rn_role n1 = Leader" "rn_current_term n1 = 1"
    "rn_options n1 = rn_options n" "rn_storage n1 = st"
    using n st by (simp_all add: n1_def become_leader_locked_def Let_def count_metric_def empty_node_def small_entry_def noop_command_def)
  have app: "append_local_entry_locked noop_command (become_leader_locked n) = (Inr \<lparr>le_index = 1, le_term = 1, le_command = noop_command\<rparr>, n1)"
    using n by (simp add: append_local_entry_locked_def become_leader_locked_def Let_def count_metric_def empty_node_def last_log_index_locked_def n1_def)
  from persist_log_reliable [OF n1(1-3)] obtain n' where n': "persist_log_locked n1 = (Inr (), n')" "w_events n' = []" "world.more n' = world.more n1" .
  note f = node_fields [OF n'(3)]
  have "quorum_size n' = quorum_size n" using f n1(6) by (simp add: quorum_size_def)
  then have "election_finish mach 1 votes n = (Inr True, n')"
    using n q app n'(1) by (simp add: election_finish_def empty_node_def modify_def)
  then show thesis using f n1 n'(2) by (intro that [of n']) (simp_all add: n1_def)
qed

section \<open>A state machine and a cluster\<close>

definition list_machine :: "log_entry list state_machine" where
  "list_machine = \<lparr>mach_recover = (\<lambda>sn es m. (Inr (), es)), mach_apply = (\<lambda>e m. (Inr (), m @ [e])),
     mach_create_snapshot = (\<lambda>m. Inr []), mach_install_snapshot = (\<lambda>p m. (Inr (), [])), mach_flush = (\<lambda>m. (Inr (), m))\<rparr>"

definition example_options :: "node_id \<Rightarrow> node_id list \<Rightarrow> raft_node_options" where
  "example_options i others = \<lparr>no_node_id = i, no_peers = map (\<lambda>j. \<lparr>peer_id = j, peer_address = j\<rparr>) others, no_election_timeout_min = 300,
     no_election_timeout_max = 600, no_heartbeat_interval = 75, no_rpc_timeout = 200, no_max_append_entries = 128, no_snapshot_threshold_entries = 0\<rparr>"

definition example_members :: "node_id list" where
  "example_members = [str ''a'', str ''b'', str ''c'']"

lemma example_options_valid:
  assumes "i \<in> set example_members"
  shows "validate_options (example_options i (filter (\<lambda>j. j \<noteq> i) example_members)) = Inr ()"
  using assms by (auto simp: validate_options_def example_options_def example_members_def str_def throw_if_def)

end
