(* ===== verification/RaftCluster.thy ===== *)
theory RaftCluster
  imports RaftExample
begin

text \<open>
  A cluster of nodes.  Each process runs the sections of \<open>RaftNode\<close> in any order, loses its memory in a
  crash at any point, and starts again from its disk.  Vote requests and appends may come from anywhere and
  say anything (a candidate has a name); the one thing asked of the transport is that a response to a vote
  request is one the peer gave to that request.  Election safety: a term has at most one leader.
\<close>

section \<open>The cluster\<close>

text \<open>The sections outside campaigns and votes, with any arguments.\<close>

inductive node_section :: "'m state_machine \<Rightarrow> 'm raft_node \<Rightarrow> 'm raft_node \<Rightarrow> bool" for mach where
  AppendSection: "node_section mach n (snd (handle_append_entries mach request n))"
| InstallSection: "node_section mach n (snd (handle_install_snapshot mach request n))"
| PrepareSection: "node_section mach n (snd (prepare_replication peer heartbeat_only n))"
| SnapshotSection: "node_section mach n (snd (snapshot_response peer t response n))"
| AppendedSection: "node_section mach n (snd (append_response peer t response' n))"
| AdvanceSection: "node_section mach n (snd (advance_and_apply mach t n))"
| SubmitSection: "node_section mach n (snd (submit_local mach c n))"
| TriggerSection: "node_section mach n (snd (trigger_snapshot mach n))"
| EventsSection: "node_section mach n (n\<lparr>w_events := evs\<rparr>)"

datatype 'm process = Running "'m raft_node" | Down "bytes \<rightharpoonup> bytes"

record campaign =
  cp_request :: request_vote_request
  cp_remaining :: "peer list"
  cp_votes :: nat

text \<open>The votes a process gave or took and the leaders it saw are history, not state of the program.\<close>

record 'm cluster =
  cl_processes :: "node_id \<Rightarrow> 'm process"
  cl_campaigns :: "node_id \<Rightarrow> campaign option"
  cl_responses :: "(node_id \<times> request_vote_request \<times> request_vote_response) set"
  cl_votes :: "(node_id \<times> u64 \<times> node_id) set"
  cl_leaders :: "(u64 \<times> node_id) set"

record cluster_config =
  cf_members :: "node_id set"
  cf_options :: "node_id \<Rightarrow> raft_node_options"
  cf_storage :: "node_id \<Rightarrow> raft_storage"

text \<open>Every member has the others as its peers.\<close>

definition config_ok :: "cluster_config \<Rightarrow> bool" where
  "config_ok cf \<longleftrightarrow> finite (cf_members cf) \<and> (\<forall>i\<in>cf_members cf. i \<noteq> [] \<and> no_node_id (cf_options cf i) = i \<and>
     distinct (map peer_id (no_peers (cf_options cf i))) \<and> peer_id ` set (no_peers (cf_options cf i)) = cf_members cf - {i} \<and>
     storage_ok (cf_storage cf i))"

lemma config_okD:
  assumes "config_ok cf" and "i \<in> cf_members cf"
  shows "finite (cf_members cf)" and "i \<noteq> []" and "no_node_id (cf_options cf i) = i" and "distinct (map peer_id (no_peers (cf_options cf i)))"
    and "peer_id ` set (no_peers (cf_options cf i)) = cf_members cf - {i}" and "storage_ok (cf_storage cf i)"
  using assms unfolding config_ok_def by blast+

definition record_leader :: "node_id \<Rightarrow> 'm raft_node \<Rightarrow> (u64 \<times> node_id) set \<Rightarrow> (u64 \<times> node_id) set" where
  "record_leader i n leaders = (if rn_role n = Leader then insert (rn_current_term n, i) leaders else leaders)"

definition set_process :: "node_id \<Rightarrow> 'm raft_node \<Rightarrow> 'm cluster \<Rightarrow> 'm cluster" where
  "set_process i n c = c\<lparr>cl_processes := (cl_processes c)(i := Running n), cl_leaders := record_leader i n (cl_leaders c)\<rparr>"

text \<open>A process that stops: its campaign is gone and its disk is what a crash may leave.\<close>

definition stop_process :: "node_id \<Rightarrow> (bytes \<rightharpoonup> bytes) \<Rightarrow> 'm cluster \<Rightarrow> 'm cluster" where
  "stop_process i disk c = c\<lparr>cl_processes := (cl_processes c)(i := Down disk), cl_campaigns := (cl_campaigns c)(i := None)\<rparr>"

inductive cluster_step :: "'m state_machine \<Rightarrow> cluster_config \<Rightarrow> 'm cluster \<Rightarrow> 'm cluster \<Rightarrow> bool" for mach cf where
  Section: "i \<in> cf_members cf \<Longrightarrow> cl_processes c i = Running n \<Longrightarrow> node_section mach n n' \<Longrightarrow>
    cluster_step mach cf c (set_process i n' c)"
| Vote: "i \<in> cf_members cf \<Longrightarrow> cl_processes c i = Running n \<Longrightarrow> rv_candidate_id request \<noteq> [] \<Longrightarrow>
    handle_request_vote request n = (Inr response, n') \<Longrightarrow>
    cluster_step mach cf c ((set_process i n' c)
      \<lparr>cl_votes := (if rvr_vote_granted response then insert (i, rv_term request, rv_candidate_id request) (cl_votes c) else cl_votes c),
       cl_responses := insert (i, request, response) (cl_responses c)\<rparr>)"
| VoteFails: "i \<in> cf_members cf \<Longrightarrow> cl_processes c i = Running n \<Longrightarrow> handle_request_vote request n = (Inl e, n') \<Longrightarrow>
    cluster_step mach cf c (set_process i n' c)"
| Campaign: "i \<in> cf_members cf \<Longrightarrow> cl_processes c i = Running n \<Longrightarrow> cl_campaigns c i = None \<Longrightarrow> rn_current_term n \<noteq> - 1 \<Longrightarrow>
    election_start n = (Inr (Some request), n') \<Longrightarrow>
    cluster_step mach cf c ((set_process i n' c)
      \<lparr>cl_votes := insert (i, rv_term request, i) (cl_votes c),
       cl_campaigns := (cl_campaigns c)(i \<mapsto> \<lparr>cp_request = request, cp_remaining = no_peers (rn_options n'), cp_votes = 1\<rparr>)\<rparr>)"
| CampaignFails: "i \<in> cf_members cf \<Longrightarrow> cl_processes c i = Running n \<Longrightarrow> cl_campaigns c i = None \<Longrightarrow> rn_current_term n \<noteq> - 1 \<Longrightarrow>
    election_start n = (r, n') \<Longrightarrow> \<forall>request. r \<noteq> Inr (Some request) \<Longrightarrow> cluster_step mach cf c (set_process i n' c)"
| NoResponse: "i \<in> cf_members cf \<Longrightarrow> cl_campaigns c i = Some cp \<Longrightarrow> cp_remaining cp = p # ps \<Longrightarrow>
    cluster_step mach cf c (c\<lparr>cl_campaigns := (cl_campaigns c)(i \<mapsto> cp\<lparr>cp_remaining := ps\<rparr>)\<rparr>)"
| Response: "i \<in> cf_members cf \<Longrightarrow> cl_processes c i = Running n \<Longrightarrow> cl_campaigns c i = Some cp \<Longrightarrow> cp_remaining cp = p # ps \<Longrightarrow>
    (peer_id p, cp_request cp, response) \<in> cl_responses c \<Longrightarrow>
    election_response (rv_term (cp_request cp)) response n = (Inr (Some granted), n') \<Longrightarrow>
    cluster_step mach cf c ((set_process i n' c)
      \<lparr>cl_campaigns := (cl_campaigns c)(i \<mapsto> cp\<lparr>cp_remaining := ps, cp_votes := (if granted then cp_votes cp + 1 else cp_votes cp)\<rparr>)\<rparr>)"
| Abandon: "i \<in> cf_members cf \<Longrightarrow> cl_processes c i = Running n \<Longrightarrow> cl_campaigns c i = Some cp \<Longrightarrow>
    election_response t response n = (r, n') \<Longrightarrow> \<forall>granted. r \<noteq> Inr (Some granted) \<Longrightarrow>
    cluster_step mach cf c ((set_process i n' c)\<lparr>cl_campaigns := (cl_campaigns c)(i := None)\<rparr>)"
| Finish: "i \<in> cf_members cf \<Longrightarrow> cl_processes c i = Running n \<Longrightarrow> cl_campaigns c i = Some cp \<Longrightarrow> cp_remaining cp = [] \<Longrightarrow>
    election_finish mach (rv_term (cp_request cp)) (cp_votes cp) n = (r, n') \<Longrightarrow>
    cluster_step mach cf c ((set_process i n' c)\<lparr>cl_campaigns := (cl_campaigns c)(i := None)\<rparr>)"
| Crash: "i \<in> cf_members cf \<Longrightarrow> cl_processes c i = Running n \<Longrightarrow> fs_crash (w_fs n) disk \<Longrightarrow>
    cluster_step mach cf c (stop_process i disk c)"
| Start: "i \<in> cf_members cf \<Longrightarrow> cl_processes c i = Down disk \<Longrightarrow> w_fs w = fs_restart disk names \<Longrightarrow>
    raft_node_new mach (cf_options cf i) (cf_storage cf i) m (w :: world) = (Inr (), n) \<Longrightarrow>
    cluster_step mach cf c (set_process i n c)"
| StartFails: "i \<in> cf_members cf \<Longrightarrow> cl_processes c i = Down disk \<Longrightarrow> w_fs w = fs_restart disk names \<Longrightarrow>
    raft_node_new mach (cf_options cf i) (cf_storage cf i) m (w :: world) = (Inl e, n) \<Longrightarrow> fs_crash (w_fs n) disk' \<Longrightarrow>
    cluster_step mach cf c (stop_process i disk' c)"

text \<open>At first every process is down and every disk is empty.\<close>

definition initial_cluster :: "'m cluster" where
  "initial_cluster = \<lparr>cl_processes = (\<lambda>_. Down Map.empty), cl_campaigns = Map.empty, cl_responses = {}, cl_votes = {}, cl_leaders = {}\<rparr>"

definition cluster_reachable :: "'m state_machine \<Rightarrow> cluster_config \<Rightarrow> 'm cluster \<Rightarrow> bool" where
  "cluster_reachable mach cf c \<longleftrightarrow> (cluster_step mach cf)\<^sup>*\<^sup>* initial_cluster c"

section \<open>Invariant\<close>

definition ballot :: "u64 \<Rightarrow> node_id \<Rightarrow> hard_state" where
  "ballot t v = \<lparr>hs_current_term = t, hs_voted_for = v, hs_commit_index = 0, hs_last_applied = 0\<rparr>"

lemma vote_le_ballot: "vote_le (ballot t v) h \<longleftrightarrow> t < hs_current_term h \<or> t = hs_current_term h \<and> (v \<noteq> [] \<longrightarrow> hs_voted_for h = v)"
  by (simp add: vote_le_def ballot_def)

text \<open>What a node remembers or may find on disk knows every vote it gave.\<close>

definition knows_votes :: "(u64 \<times> node_id) set \<Rightarrow> hard_state \<Rightarrow> bool" where
  "knows_votes V h \<longleftrightarrow> (\<forall>(t, v)\<in>V. vote_le (ballot t v) h)"

definition votes_of :: "node_id \<Rightarrow> 'm cluster \<Rightarrow> (u64 \<times> node_id) set" where
  "votes_of i c = {(t, v). (i, t, v) \<in> cl_votes c}"

definition process_ok :: "cluster_config \<Rightarrow> node_id \<Rightarrow> (u64 \<times> node_id) set \<Rightarrow> (u64 \<times> node_id) set \<Rightarrow> 'm process \<Rightarrow> bool" where
  "process_ok cf i V L pr \<longleftrightarrow> (case pr of
     Running n \<Rightarrow> rn_storage n = cf_storage cf i \<and> no_node_id (rn_options n) = i \<and> no_peers (rn_options n) = no_peers (cf_options cf i) \<and>
       (\<exists>H. hard_holds (cf_storage cf i) H n \<and> (\<forall>h\<in>H. knows_votes V h)) \<and> knows_votes V (rn_hard_state n) \<and>
       (rn_role n = Leader \<longrightarrow> (rn_current_term n, i) \<in> L)
   | Down disk \<Rightarrow> \<exists>h. disk (rs_hard_state_path (cf_storage cf i)) \<in> hard_image h \<and> knows_votes V h)"

definition elected :: "cluster_config \<Rightarrow> (node_id \<times> u64 \<times> node_id) set \<Rightarrow> u64 \<Rightarrow> node_id \<Rightarrow> bool" where
  "elected cf votes t i \<longleftrightarrow> (\<exists>Q\<subseteq>cf_members cf. card Q \<ge> card (cf_members cf) div 2 + 1 \<and> (\<forall>v\<in>Q. (v, t, i) \<in> votes))"

definition campaign_ok :: "cluster_config \<Rightarrow> (node_id \<times> u64 \<times> node_id) set \<Rightarrow> node_id \<Rightarrow> campaign \<Rightarrow> bool" where
  "campaign_ok cf votes i cp \<longleftrightarrow> rv_candidate_id (cp_request cp) = i \<and>
     (\<exists>asked Q. no_peers (cf_options cf i) = asked @ cp_remaining cp \<and> Q \<subseteq> insert i (peer_id ` set asked) \<and>
        card Q \<ge> cp_votes cp \<and> (\<forall>v\<in>Q. (v, rv_term (cp_request cp), i) \<in> votes))"

definition cluster_inv :: "cluster_config \<Rightarrow> 'm cluster \<Rightarrow> bool" where
  "cluster_inv cf c \<longleftrightarrow>
     (\<forall>i\<in>cf_members cf. process_ok cf i (votes_of i c) (cl_leaders c) (cl_processes c i)) \<and>
     (\<forall>i t v v'. (i, t, v) \<in> cl_votes c \<longrightarrow> (i, t, v') \<in> cl_votes c \<longrightarrow> v = v') \<and>
     (\<forall>(i, t, v)\<in>cl_votes c. i \<in> cf_members cf \<and> v \<noteq> []) \<and>
     (\<forall>(i, request, response)\<in>cl_responses c. rvr_vote_granted response \<longrightarrow> (i, rv_term request, rv_candidate_id request) \<in> cl_votes c) \<and>
     (\<forall>i cp. cl_campaigns c i = Some cp \<longrightarrow> campaign_ok cf (cl_votes c) i cp) \<and>
     (\<forall>(t, i)\<in>cl_leaders c. elected cf (cl_votes c) t i)"

lemma knows_votes_le: "knows_votes V h \<Longrightarrow> vote_le h h' \<Longrightarrow> knows_votes V h'"
  unfolding knows_votes_def using vote_le_trans by fast

lemma elected_mono: "elected cf votes t i \<Longrightarrow> votes \<subseteq> votes' \<Longrightarrow> elected cf votes' t i"
  unfolding elected_def by (meson subsetD)

lemma campaign_ok_mono: "campaign_ok cf votes i cp \<Longrightarrow> votes \<subseteq> votes' \<Longrightarrow> campaign_ok cf votes' i cp"
  unfolding campaign_ok_def by (meson subsetD)

lemma process_ok_mono: "process_ok cf i V L pr \<Longrightarrow> L \<subseteq> L' \<Longrightarrow> process_ok cf i V L' pr"
  by (auto simp: process_ok_def split: process.splits)

lemma process_ok_rel:
  assumes ok: "process_ok cf i V L (Running n)" and rel: "node_rel n n'" and st: "storage_ok (cf_storage cf i)"
    and L: "rn_role n' = Leader \<Longrightarrow> (rn_current_term n', i) \<in> L'"
  shows "process_ok cf i V L' (Running n')"
proof -
  from ok have n: "rn_storage n = cf_storage cf i" by (simp add: process_ok_def)
  from ok obtain H where H: "hard_holds (cf_storage cf i) H n" "\<forall>h\<in>H. knows_votes V h" and hs: "knows_votes V (rn_hard_state n)"
    by (auto simp: process_ok_def)
  from rel st n H(1) obtain H' where H': "hard_holds (cf_storage cf i) H' n'"
      "\<forall>h\<in>H'. h \<in> H \<or> vote_le (rn_hard_state n) h \<and> vote_le h (rn_hard_state n')"
    unfolding node_rel_def by metis
  then have "\<forall>h\<in>H'. knows_votes V h" using H(2) knows_votes_le [OF hs] by blast
  moreover have "vote_le (rn_hard_state n) (rn_hard_state n')" "rn_storage n' = rn_storage n"
    "no_node_id (rn_options n') = no_node_id (rn_options n)" "no_peers (rn_options n') = no_peers (rn_options n)"
    using rel st n by (simp_all add: node_rel_def)
  ultimately show ?thesis using ok H'(1) knows_votes_le [OF hs] L by (auto simp: process_ok_def)
qed

lemma cluster_invD:
  assumes "cluster_inv cf c"
  shows "i \<in> cf_members cf \<Longrightarrow> process_ok cf i (votes_of i c) (cl_leaders c) (cl_processes c i)"
    and "(i, t, v) \<in> cl_votes c \<Longrightarrow> (i, t, v') \<in> cl_votes c \<Longrightarrow> v = v'"
    and "(i, t, v) \<in> cl_votes c \<Longrightarrow> i \<in> cf_members cf \<and> v \<noteq> []"
    and "(i, request, response) \<in> cl_responses c \<Longrightarrow> rvr_vote_granted response \<Longrightarrow> (i, rv_term request, rv_candidate_id request) \<in> cl_votes c"
    and "cl_campaigns c i = Some cp \<Longrightarrow> campaign_ok cf (cl_votes c) i cp"
    and "(t, i) \<in> cl_leaders c \<Longrightarrow> elected cf (cl_votes c) t i"
  using assms unfolding cluster_inv_def by fast+

lemma cluster_invI:
  assumes "\<And>i. i \<in> cf_members cf \<Longrightarrow> process_ok cf i (votes_of i c) (cl_leaders c) (cl_processes c i)"
    and "\<And>i t v v'. (i, t, v) \<in> cl_votes c \<Longrightarrow> (i, t, v') \<in> cl_votes c \<Longrightarrow> v = v'"
    and "\<And>i t v. (i, t, v) \<in> cl_votes c \<Longrightarrow> i \<in> cf_members cf \<and> v \<noteq> []"
    and "\<And>i request response. (i, request, response) \<in> cl_responses c \<Longrightarrow> rvr_vote_granted response \<Longrightarrow>
      (i, rv_term request, rv_candidate_id request) \<in> cl_votes c"
    and "\<And>i cp. cl_campaigns c i = Some cp \<Longrightarrow> campaign_ok cf (cl_votes c) i cp"
    and "\<And>t i. (t, i) \<in> cl_leaders c \<Longrightarrow> elected cf (cl_votes c) t i"
  shows "cluster_inv cf c"
  unfolding cluster_inv_def using assms by fast

lemma inv_set_process:
  assumes inv: "cluster_inv cf c" and ok: "process_ok cf i (votes_of i c) (record_leader i n (cl_leaders c)) (Running n)"
    and leader: "rn_role n = Leader \<Longrightarrow> elected cf (cl_votes c) (rn_current_term n) i"
  shows "cluster_inv cf (set_process i n c)"
proof (rule cluster_invI)
  fix j
  assume "j \<in> cf_members cf"
  then show "process_ok cf j (votes_of j (set_process i n c)) (cl_leaders (set_process i n c)) (cl_processes (set_process i n c) j)"
    using cluster_invD(1) [OF inv] ok
    by (auto simp: set_process_def votes_of_def record_leader_def intro: process_ok_mono [OF _ subset_insertI])
next
  fix t j
  assume "(t, j) \<in> cl_leaders (set_process i n c)"
  then show "elected cf (cl_votes (set_process i n c)) t j"
    using cluster_invD(6) [OF inv] leader by (auto simp: set_process_def record_leader_def split: if_splits)
qed (use cluster_invD [OF inv] in \<open>auto simp: set_process_def\<close>)

text \<open>A section that does not make a leader.\<close>

lemma inv_section:
  assumes inv: "cluster_inv cf c" and cf: "config_ok cf" and i: "i \<in> cf_members cf" and run: "cl_processes c i = Running n"
    and rel: "node_rel n n'" and role: "rn_role n' = Leader \<Longrightarrow> rn_role n = Leader \<and> rn_current_term n' = rn_current_term n"
  shows "cluster_inv cf (set_process i n' c)"
proof (rule inv_set_process [OF inv])
  note ok = cluster_invD(1) [OF inv i, unfolded run]
  have st: "storage_ok (cf_storage cf i)" using cf i by (simp add: config_ok_def)
  show "process_ok cf i (votes_of i c) (record_leader i n' (cl_leaders c)) (Running n')"
    using process_ok_rel [OF ok rel st] by (simp add: record_leader_def)
  assume "rn_role n' = Leader"
  then show "elected cf (cl_votes c) (rn_current_term n') i"
    using role ok cluster_invD(6) [OF inv] by (auto simp: process_ok_def)
qed

lemma inv_add_vote:
  assumes inv: "cluster_inv cf c" and i: "i \<in> cf_members cf" and run: "cl_processes c i = Running n" and v: "v \<noteq> []"
    and vote: "rn_current_term n = t" "hs_voted_for (rn_hard_state n) = v" "hard_holds (cf_storage cf i) {rn_hard_state n} n"
  shows "cluster_inv cf (c\<lparr>cl_votes := insert (i, t, v) (cl_votes c)\<rparr>)"
proof (rule cluster_invI)
  let ?c = "c\<lparr>cl_votes := insert (i, t, v) (cl_votes c)\<rparr>"
  note ok = cluster_invD(1) [OF inv i, unfolded run]
  have known: "knows_votes (votes_of i c) (rn_hard_state n)" using ok by (simp add: process_ok_def)
  have new: "votes_of i ?c = insert (t, v) (votes_of i c)" "j \<noteq> i \<Longrightarrow> votes_of j ?c = votes_of j c" for j
    by (auto simp: votes_of_def)
  have "knows_votes (votes_of i ?c) (rn_hard_state n)" using known vote new by (simp add: knows_votes_def vote_le_ballot)
  then have "process_ok cf i (votes_of i ?c) (cl_leaders c) (Running n)"
    using ok vote(3) unfolding process_ok_def by (auto intro: exI [of _ "{rn_hard_state n}"])
  then show "j \<in> cf_members cf \<Longrightarrow> process_ok cf j (votes_of j ?c) (cl_leaders ?c) (cl_processes ?c j)" for j
    using cluster_invD(1) [OF inv] run new(2) by (cases "j = i") simp_all
  have "v' = v" if "(i, t, v') \<in> cl_votes c" for v'
    using known that cluster_invD(3) [OF inv that] vote by (auto simp: knows_votes_def votes_of_def vote_le_ballot)
  then show "(j, u, x) \<in> cl_votes ?c \<Longrightarrow> (j, u, y) \<in> cl_votes ?c \<Longrightarrow> x = y" for j u x y
    using cluster_invD(2) [OF inv] by auto
  show "(j, u, x) \<in> cl_votes ?c \<Longrightarrow> j \<in> cf_members cf \<and> x \<noteq> []" for j u x
    using cluster_invD(3) [OF inv] i v by auto
  show "(j, q, r) \<in> cl_responses ?c \<Longrightarrow> rvr_vote_granted r \<Longrightarrow> (j, rv_term q, rv_candidate_id q) \<in> cl_votes ?c" for j q r
    using cluster_invD(4) [OF inv] by simp
  show "cl_campaigns ?c j = Some cp \<Longrightarrow> campaign_ok cf (cl_votes ?c) j cp" for j cp
    using cluster_invD(5) [OF inv] campaign_ok_mono [OF _ subset_insertI] by simp
  show "(u, j) \<in> cl_leaders ?c \<Longrightarrow> elected cf (cl_votes ?c) u j" for u j
    using cluster_invD(6) [OF inv] elected_mono [OF _ subset_insertI] by simp
qed

lemma inv_campaigns:
  assumes inv: "cluster_inv cf c" and "\<And>cp. f i = Some cp \<Longrightarrow> campaign_ok cf (cl_votes c) i cp" and "\<And>j. j \<noteq> i \<Longrightarrow> f j = cl_campaigns c j"
  shows "cluster_inv cf (c\<lparr>cl_campaigns := f\<rparr>)"
proof (rule cluster_invI)
  fix j cp
  assume "cl_campaigns (c\<lparr>cl_campaigns := f\<rparr>) j = Some cp"
  then show "campaign_ok cf (cl_votes (c\<lparr>cl_campaigns := f\<rparr>)) j cp"
    using assms(2,3) cluster_invD(5) [OF inv] by (cases "j = i") auto
qed (use cluster_invD [OF inv] in \<open>auto simp: votes_of_def\<close>)

lemma inv_responses:
  assumes inv: "cluster_inv cf c" and "rvr_vote_granted response \<Longrightarrow> (i, rv_term request, rv_candidate_id request) \<in> cl_votes c"
  shows "cluster_inv cf (c\<lparr>cl_responses := insert (i, request, response) (cl_responses c)\<rparr>)"
  by (rule cluster_invI) (use cluster_invD [OF inv] assms(2) in \<open>auto simp: votes_of_def\<close>)

lemma node_section_rel: "node_section mach n n' \<Longrightarrow> handler_rel n n'"
proof (induction rule: node_section.induct)
  case (EventsSection n evs)
  show ?case by (simp add: handler_rel_update)
qed (simp_all add: section_rels [unfolded rel_at_def] prepare_replication_rel)

lemma inv_handler:
  assumes "cluster_inv cf c" and "config_ok cf" and "i \<in> cf_members cf" and "cl_processes c i = Running n" and "handler_rel n n'"
  shows "cluster_inv cf (set_process i n' c)"
proof (rule inv_section [OF assms(1-4)])
  have st: "storage_ok (rn_storage n)" using cluster_invD(1) [OF assms(1,3)] assms(2,3,4) by (simp add: process_ok_def config_ok_def)
  show "node_rel n n'" using assms(5) by (simp add: handler_rel_def)
  show "rn_role n' = Leader \<Longrightarrow> rn_role n = Leader \<and> rn_current_term n' = rn_current_term n"
    using assms(5) st by (auto simp: handler_rel_def)
qed

text \<open>Counting a vote, and winning with enough of them.\<close>

lemma campaign_counts:
  assumes ok: "campaign_ok cf votes i cp" and cf: "config_ok cf" and i: "i \<in> cf_members cf" and rest: "cp_remaining cp = p # ps"
    and vote: "granted \<Longrightarrow> (peer_id p, rv_term (cp_request cp), i) \<in> votes"
  shows "campaign_ok cf votes i (cp\<lparr>cp_remaining := ps, cp_votes := (if granted then cp_votes cp + 1 else cp_votes cp)\<rparr>)"
proof -
  obtain asked Q where peers: "no_peers (cf_options cf i) = asked @ p # ps" and Q: "Q \<subseteq> insert i (peer_id ` set asked)"
    "card Q \<ge> cp_votes cp" "\<forall>v\<in>Q. (v, rv_term (cp_request cp), i) \<in> votes" and cand: "rv_candidate_id (cp_request cp) = i"
    using ok rest by (auto simp: campaign_ok_def)
  have "distinct (map peer_id (asked @ p # ps))" "peer_id ` set (asked @ p # ps) = cf_members cf - {i}"
    using config_okD(4,5) [OF cf i] unfolding peers by blast+
  then have "peer_id p \<notin> Q" using Q(1) by auto
  moreover have "finite Q" using Q(1) finite_subset by fastforce
  ultimately have card: "card (insert (peer_id p) Q) = card Q + 1" by simp
  obtain Q' where "Q' \<subseteq> insert i (peer_id ` set (asked @ [p]))" "card Q' \<ge> (if granted then cp_votes cp + 1 else cp_votes cp)"
      "\<forall>v\<in>Q'. (v, rv_term (cp_request cp), i) \<in> votes"
  proof (cases granted)
    case True
    then show ?thesis using Q card vote by (intro that [of "insert (peer_id p) Q"]) auto
  next
    case False
    then show ?thesis using Q by (intro that [of Q]) auto
  qed
  moreover have "no_peers (cf_options cf i) = (asked @ [p]) @ ps" using peers by simp
  ultimately show ?thesis using cand unfolding campaign_ok_def
    by (intro conjI exI [of _ "asked @ [p]"] exI [of _ Q']) simp_all
qed

lemma campaign_elects:
  assumes ok: "campaign_ok cf votes i cp" and cf: "config_ok cf" and i: "i \<in> cf_members cf" and rest: "cp_remaining cp = []"
    and peers: "no_peers (rn_options n) = no_peers (cf_options cf i)" and votes: "cp_votes cp \<ge> quorum_size n"
  shows "elected cf votes (rv_term (cp_request cp)) i"
proof -
  obtain Q where Q: "Q \<subseteq> insert i (peer_id ` set (no_peers (cf_options cf i)))" "card Q \<ge> cp_votes cp"
    "\<forall>v\<in>Q. (v, rv_term (cp_request cp), i) \<in> votes"
    using ok rest by (auto simp: campaign_ok_def)
  have others: "distinct (map peer_id (no_peers (cf_options cf i)))" "peer_id ` set (no_peers (cf_options cf i)) = cf_members cf - {i}"
    and fin: "finite (cf_members cf)" using config_okD [OF cf i] by blast+
  have "card (cf_members cf) = length (no_peers (cf_options cf i)) + 1"
    using distinct_card [OF others(1)] others(2) card_Suc_Diff1 [OF fin i] by simp
  then have "quorum_size n = card (cf_members cf) div 2 + 1" using peers by (simp add: quorum_size_def)
  then show ?thesis using Q votes others(2) i unfolding elected_def by (intro exI [of _ Q]) auto
qed

lemma running_ok:
  assumes "cluster_inv cf c" and "config_ok cf" and "i \<in> cf_members cf" and "cl_processes c i = Running n"
  shows "rn_storage n = cf_storage cf i" and "storage_ok (rn_storage n)" and "no_node_id (rn_options n) = i"
    and "no_peers (rn_options n) = no_peers (cf_options cf i)" and "process_ok cf i (votes_of i c) (cl_leaders c) (Running n)"
  using cluster_invD(1) [OF assms(1,3)] config_okD(6) [OF assms(2,3)] assms(4) by (simp_all add: process_ok_def)

lemma inv_stop:
  assumes inv: "cluster_inv cf c" and img: "disk (rs_hard_state_path (cf_storage cf i)) \<in> hard_image h" and known: "knows_votes (votes_of i c) h"
  shows "cluster_inv cf (stop_process i disk c)"
proof (rule cluster_invI)
  fix j
  assume "j \<in> cf_members cf"
  then show "process_ok cf j (votes_of j (stop_process i disk c)) (cl_leaders (stop_process i disk c)) (cl_processes (stop_process i disk c) j)"
    using cluster_invD(1) [OF inv] img known by (auto simp: stop_process_def votes_of_def process_ok_def)
next
  fix j cp
  assume "cl_campaigns (stop_process i disk c) j = Some cp"
  then show "campaign_ok cf (cl_votes (stop_process i disk c)) j cp"
    using cluster_invD(5) [OF inv] by (auto simp: stop_process_def split: if_splits)
qed (use cluster_invD [OF inv] in \<open>auto simp: stop_process_def\<close>)

lemma hard_holds_crash:
  assumes "hard_holds st H w" and "fs_crash (w_fs w) disk"
  obtains h where "h \<in> H" and "disk (rs_hard_state_path st) \<in> hard_image h"
  using part_in_crash [OF assms(1) [unfolded hard_holds_def] assms(2)] by blast

lemma vote_step_inv:
  assumes inv: "cluster_inv cf c" and cf: "config_ok cf" and i: "i \<in> cf_members cf" and run: "cl_processes c i = Running n"
    and cand: "rv_candidate_id request \<noteq> []" and vote: "handle_request_vote request n = (Inr response, n')"
  shows "cluster_inv cf ((set_process i n' c)
      \<lparr>cl_votes := (if rvr_vote_granted response then insert (i, rv_term request, rv_candidate_id request) (cl_votes c) else cl_votes c),
       cl_responses := insert (i, request, response) (cl_responses c)\<rparr>)"
proof -
  let ?c = "set_process i n' c"
  note st = running_ok [OF inv cf i run]
  have inv1: "cluster_inv cf ?c"
    by (rule inv_handler [OF inv cf i run rel_atD [OF handle_request_vote_rel vote]])
  show ?thesis
  proof (cases "rvr_vote_granted response")
    case True
    note g = handle_request_vote_granted [OF vote st(2) True]
    have "cluster_inv cf (?c\<lparr>cl_votes := insert (i, rv_term request, rv_candidate_id request) (cl_votes ?c)\<rparr>)"
      by (rule inv_add_vote [OF inv1 i _ cand, of n']) (use g st in \<open>simp_all add: set_process_def\<close>)
    from inv_responses [OF this, of response i request] show ?thesis using True by (simp add: set_process_def)
  next
    case False
    from inv_responses [OF inv1, of response i request] show ?thesis using False by (simp add: set_process_def)
  qed
qed

lemma campaign_step_inv:
  assumes inv: "cluster_inv cf c" and cf: "config_ok cf" and i: "i \<in> cf_members cf" and run: "cl_processes c i = Running n"
    and wrap: "rn_current_term n \<noteq> - 1" and start: "election_start n = (Inr (Some request), n')"
  shows "cluster_inv cf ((set_process i n' c)
      \<lparr>cl_votes := insert (i, rv_term request, i) (cl_votes c),
       cl_campaigns := (cl_campaigns c)(i \<mapsto> \<lparr>cp_request = request, cp_remaining = no_peers (rn_options n'), cp_votes = 1\<rparr>)\<rparr>)"
proof -
  let ?c = "set_process i n' c" and ?cp = "\<lparr>cp_request = request, cp_remaining = no_peers (rn_options n'), cp_votes = 1\<rparr>"
  note st = running_ok [OF inv cf i run]
  note d = election_startD [OF start st(2) wrap]
  note v = d(3) [of request, OF refl, unfolded st(1,3)]
  have inv1: "cluster_inv cf ?c" by (rule inv_section [OF inv cf i run d(1,2)])
  have inv2: "cluster_inv cf (?c\<lparr>cl_votes := insert (i, rv_term request, i) (cl_votes ?c)\<rparr>)"
    by (rule inv_add_vote [OF inv1 i, of n']) (use v config_okD(2) [OF cf i] in \<open>simp_all add: set_process_def\<close>)
  have peers: "no_peers (rn_options n') = no_peers (cf_options cf i)" using d(1) st(2,4) by (simp add: node_rel_def)
  have "campaign_ok cf (insert (i, rv_term request, i) (cl_votes c)) i ?cp"
    unfolding campaign_ok_def using v peers by (auto intro!: exI [of _ "[]"] exI [of _ "{i}"])
  then show ?thesis
    using inv_campaigns [OF inv2, of "(cl_campaigns c)(i \<mapsto> ?cp)" i] by (simp add: set_process_def)
qed

lemma response_step_inv:
  assumes inv: "cluster_inv cf c" and cf: "config_ok cf" and i: "i \<in> cf_members cf" and run: "cl_processes c i = Running n"
    and cp: "cl_campaigns c i = Some cp" "cp_remaining cp = p # ps" and resp: "(peer_id p, cp_request cp, response) \<in> cl_responses c"
    and e: "election_response (rv_term (cp_request cp)) response n = (Inr (Some granted), n')"
  shows "cluster_inv cf ((set_process i n' c)
      \<lparr>cl_campaigns := (cl_campaigns c)(i \<mapsto> cp\<lparr>cp_remaining := ps, cp_votes := (if granted then cp_votes cp + 1 else cp_votes cp)\<rparr>)\<rparr>)"
proof -
  have inv1: "cluster_inv cf (set_process i n' c)"
    by (rule inv_handler [OF inv cf i run rel_atD [OF election_response_rel e]])
  have ok: "campaign_ok cf (cl_votes c) i cp" using cluster_invD(5) [OF inv cp(1)] .
  have "granted \<Longrightarrow> rvr_vote_granted response"
    using e by (auto simp: election_response_def result_simps split: if_splits)
  then have "granted \<Longrightarrow> (peer_id p, rv_term (cp_request cp), i) \<in> cl_votes c"
    using cluster_invD(4) [OF inv resp] ok by (simp add: campaign_ok_def)
  from campaign_counts [OF ok cf i cp(2) this] show ?thesis
    using inv_campaigns [OF inv1, of "(cl_campaigns c)(i \<mapsto> cp\<lparr>cp_remaining := ps, cp_votes := (if granted then cp_votes cp + 1 else cp_votes cp)\<rparr>)" i]
    by (simp add: set_process_def)
qed

lemma inv_end_campaign: "cluster_inv cf (set_process i n c) \<Longrightarrow> cluster_inv cf ((set_process i n c)\<lparr>cl_campaigns := (cl_campaigns c)(i := None)\<rparr>)"
  using inv_campaigns [of cf "set_process i n c" "(cl_campaigns c)(i := None)" i] by (simp add: set_process_def)

lemma finish_step_inv:
  assumes inv: "cluster_inv cf c" and cf: "config_ok cf" and i: "i \<in> cf_members cf" and run: "cl_processes c i = Running n"
    and cp: "cl_campaigns c i = Some cp" "cp_remaining cp = []"
    and fin: "election_finish mach (rv_term (cp_request cp)) (cp_votes cp) n = (r, n')"
  shows "cluster_inv cf (set_process i n' c)"
proof (rule inv_set_process [OF inv])
  note st = running_ok [OF inv cf i run]
  note d = election_finishD [OF fin st(2)]
  show "process_ok cf i (votes_of i c) (record_leader i n' (cl_leaders c)) (Running n')"
    by (rule process_ok_rel [OF st(5) d(1) config_okD(6) [OF cf i]]) (simp add: record_leader_def)
  assume "rn_role n' = Leader"
  then show "elected cf (cl_votes c) (rn_current_term n') i"
    using d(2) st(5) cluster_invD(6) [OF inv] campaign_elects [OF cluster_invD(5) [OF inv cp(1)] cf i cp(2) st(4)]
    by (auto simp: process_ok_def)
qed

lemma crash_step_inv:
  assumes inv: "cluster_inv cf c" and i: "i \<in> cf_members cf" and run: "cl_processes c i = Running n" and crash: "fs_crash (w_fs n) disk"
  shows "cluster_inv cf (stop_process i disk c)"
proof -
  obtain H where H: "hard_holds (cf_storage cf i) H n" "\<forall>h\<in>H. knows_votes (votes_of i c) h"
    using cluster_invD(1) [OF inv i] run by (auto simp: process_ok_def)
  from hard_holds_crash [OF H(1) crash] obtain h where "h \<in> H" "disk (rs_hard_state_path (cf_storage cf i)) \<in> hard_image h" .
  then show ?thesis using H(2) by (intro inv_stop [OF inv]) auto
qed

lemma start_ok:
  assumes inv: "cluster_inv cf c" and cf: "config_ok cf" and i: "i \<in> cf_members cf" and down: "cl_processes c i = Down disk"
    and w: "w_fs w = fs_restart disk names" and new: "raft_node_new mach (cf_options cf i) (cf_storage cf i) m w = (r, n)"
  shows "\<exists>H. hard_holds (cf_storage cf i) H n \<and> (\<forall>h\<in>H. knows_votes (votes_of i c) h)"
    and "r = Inr u \<Longrightarrow> process_ok cf i (votes_of i c) L (Running n) \<and> rn_role n = Follower"
proof -
  obtain h where img: "disk (rs_hard_state_path (cf_storage cf i)) \<in> hard_image h" and known: "knows_votes (votes_of i c) h"
    using cluster_invD(1) [OF inv i] down by (auto simp: process_ok_def)
  note d = raft_node_newD [OF new config_okD(6) [OF cf i] w img]
  show H: "\<exists>H. hard_holds (cf_storage cf i) H n \<and> (\<forall>h\<in>H. knows_votes (votes_of i c) h)" using d(1) knows_votes_le [OF known] by blast
  show "process_ok cf i (votes_of i c) L (Running n) \<and> rn_role n = Follower" if "r = Inr u"
    using d(2-4) d(5) [OF that] H knows_votes_le [OF known] config_okD(3) [OF cf i] by (auto simp: process_ok_def)
qed

lemma start_step_inv:
  assumes inv: "cluster_inv cf c" and cf: "config_ok cf" and i: "i \<in> cf_members cf" and down: "cl_processes c i = Down disk"
    and w: "w_fs w = fs_restart disk names" and new: "raft_node_new mach (cf_options cf i) (cf_storage cf i) m w = (r, n)"
  shows "r = Inr () \<Longrightarrow> cluster_inv cf (set_process i n c)" and "fs_crash (w_fs n) disk' \<Longrightarrow> cluster_inv cf (stop_process i disk' c)"
proof -
  note ok = start_ok [OF inv cf i down w new]
  show "r = Inr () \<Longrightarrow> cluster_inv cf (set_process i n c)" using ok(2) by (intro inv_set_process [OF inv]) auto
  assume crash: "fs_crash (w_fs n) disk'"
  from ok(1) obtain H where H: "hard_holds (cf_storage cf i) H n" "\<forall>h\<in>H. knows_votes (votes_of i c) h" by blast
  from hard_holds_crash [OF H(1) crash] obtain h where "h \<in> H" "disk' (rs_hard_state_path (cf_storage cf i)) \<in> hard_image h" .
  then show "cluster_inv cf (stop_process i disk' c)" using H(2) by (intro inv_stop [OF inv]) auto
qed

lemma cluster_step_inv:
  assumes step: "cluster_step mach cf c c'" and inv: "cluster_inv cf c" and cf: "config_ok cf"
  shows "cluster_inv cf c'"
  using step
proof cases
  case (Section i n n')
  show ?thesis unfolding Section(1) by (rule inv_handler [OF inv cf Section(2,3) node_section_rel [OF Section(4)]])
next
  case (Vote i n request response n')
  show ?thesis unfolding Vote(1) by (rule vote_step_inv [OF inv cf Vote(2-5)])
next
  case (VoteFails i n request e n')
  show ?thesis unfolding VoteFails(1) by (rule inv_handler [OF inv cf VoteFails(2,3) rel_atD [OF handle_request_vote_rel VoteFails(4)]])
next
  case (Campaign i n request n')
  show ?thesis unfolding Campaign(1) by (rule campaign_step_inv [OF inv cf Campaign(2,3,5,6)])
next
  case (CampaignFails i n r n')
  note d = election_startD [OF CampaignFails(6) running_ok(2) [OF inv cf CampaignFails(2,3)] CampaignFails(5)]
  show ?thesis unfolding CampaignFails(1) by (rule inv_section [OF inv cf CampaignFails(2,3) d(1,2)])
next
  case (NoResponse i cp p ps)
  have "campaign_ok cf (cl_votes c) i (cp\<lparr>cp_remaining := ps\<rparr>)"
    using campaign_counts [OF cluster_invD(5) [OF inv NoResponse(3)] cf NoResponse(2,4), of False] by simp
  then show ?thesis unfolding NoResponse(1) by (intro inv_campaigns [OF inv, of _ i]) auto
next
  case (Response i n cp p ps response granted n')
  show ?thesis unfolding Response(1) by (rule response_step_inv [OF inv cf Response(2-7)])
next
  case (Abandon i n cp t response r n')
  show ?thesis unfolding Abandon(1)
    by (rule inv_end_campaign [OF inv_handler [OF inv cf Abandon(2,3) rel_atD [OF election_response_rel Abandon(5)]]])
next
  case (Finish i n cp r n')
  show ?thesis unfolding Finish(1) by (rule inv_end_campaign [OF finish_step_inv [OF inv cf Finish(2-6)]])
next
  case (Crash i n disk)
  show ?thesis unfolding Crash(1) by (rule crash_step_inv [OF inv Crash(2-4)])
next
  case (Start i disk w names m n)
  show ?thesis unfolding Start(1) by (rule start_step_inv(1) [OF inv cf Start(2-5) refl])
next
  case (StartFails i disk w names m e n disk')
  show ?thesis unfolding StartFails(1) by (rule start_step_inv(2) [OF inv cf StartFails(2-6)])
qed

lemma initial_cluster_inv: "cluster_inv cf initial_cluster"
  by (rule cluster_invI)
    (auto simp: initial_cluster_def votes_of_def process_ok_def knows_votes_def hard_image_def)

lemma cluster_reachable_inv:
  assumes "config_ok cf" and "cluster_reachable mach cf c"
  shows "cluster_inv cf c"
  using assms(2) unfolding cluster_reachable_def
proof (induction rule: rtranclp_induct)
  case base
  show ?case by (rule initial_cluster_inv)
next
  case (step c c')
  show ?case by (rule cluster_step_inv [OF step(2,3) assms(1)])
qed

lemma quorums_meet:
  assumes "finite M" and "P \<subseteq> M" and "Q \<subseteq> M" and "card P \<ge> card M div 2 + 1" and "card Q \<ge> card M div 2 + 1"
  shows "P \<inter> Q \<noteq> {}"
proof
  assume "P \<inter> Q = {}"
  then have "card (P \<union> Q) = card P + card Q" using assms(1-3) by (simp add: card_Un_disjoint finite_subset)
  moreover have "card (P \<union> Q) \<le> card M" using assms(1-3) by (simp add: card_mono)
  ultimately show False using assms(4,5) by linarith
qed

section \<open>Safety\<close>

definition example_config :: cluster_config where
  "example_config = \<lparr>cf_members = set example_members,
     cf_options = (\<lambda>i. example_options i (filter (\<lambda>j. j \<noteq> i) example_members)), cf_storage = storage_paths\<rparr>"

lemma example_config_ok: "config_ok example_config"
  by (auto simp: config_ok_def example_config_def example_options_def example_members_def storage_ok_def str_def)

text \<open>Three nodes; the first two start, the first campaigns, the second votes for it, and it leads.\<close>

lemma example_election:
  "\<exists>c. cluster_reachable list_machine example_config c \<and> (1, str ''a'') \<in> cl_leaders c \<and>
     (str ''a'', 1, str ''a'') \<in> cl_votes c \<and> (str ''b'', 1, str ''a'') \<in> cl_votes c"
proof -
  let ?a = "str ''a''" and ?b = "str ''b''" and ?c = "str ''c''" and ?step = "cluster_step list_machine example_config"
  let ?oa = "cf_options example_config ?a" and ?ob = "cf_options example_config ?b"
  let ?rq = "\<lparr>rv_term = 1, rv_candidate_id = ?a, rv_last_log_index = 0, rv_last_log_term = 0\<rparr>"
  let ?w = "\<lparr>w_fs = fs_restart Map.empty [], w_events = []\<rparr> :: world"
  have ne: "?a \<noteq> ?b" "?b \<noteq> ?a" "?a \<noteq> []" by (simp_all add: str_def)
  have mem: "?a \<in> cf_members example_config" "?b \<in> cf_members example_config" by (simp_all add: example_config_def example_members_def)
  have st: "cf_storage example_config i = storage_paths i" for i by (simp add: example_config_def)
  have ok: "storage_ok (storage_paths ?a)" "storage_ok (storage_paths ?b)" using config_okD(6) [OF example_config_ok] mem st by metis+
  have valid: "validate_options ?oa = Inr ()" "validate_options ?ob = Inr ()"
    using example_options_valid mem by (simp_all add: example_config_def)
  have oa: "no_node_id ?oa = ?a" "map peer_id (no_peers ?oa) = [?b, ?c]" "no_peers ?oa = [\<lparr>peer_id = ?b, peer_address = ?b\<rparr>, \<lparr>peer_id = ?c, peer_address = ?c\<rparr>]"
    by (simp_all add: example_config_def example_options_def example_members_def str_def)
  have rec: "mach_recover list_machine None [] [] = (Inr (), [])" by (simp add: list_machine_def)
  from raft_node_new_reliable [OF valid(1) rec ok(1)] obtain a0 where
    a0: "raft_node_new list_machine ?oa (storage_paths ?a) [] ?w = (Inr (), a0)" "empty_node ?oa (storage_paths ?a) Follower 0 [] a0" .
  from raft_node_new_reliable [OF valid(2) rec ok(2)] obtain b0 where
    b0: "raft_node_new list_machine ?ob (storage_paths ?b) [] ?w = (Inr (), b0)" "empty_node ?ob (storage_paths ?b) Follower 0 [] b0" .
  from election_start_reliable [OF a0(2) ok(1)] oa obtain a1 where
    a1: "election_start a0 = (Inr (Some ?rq), a1)" "empty_node ?oa (storage_paths ?a) Candidate 1 ?a a1" by (auto simp: str_def)
  from vote_reliable [OF b0(2) ok(2), of ?a] obtain b1 where
    b1: "handle_request_vote ?rq b0 = (Inr \<lparr>rvr_term = 1, rvr_vote_granted = True\<rparr>, b1)" by (auto simp: str_def)
  have a2: "election_response 1 \<lparr>rvr_term = 1, rvr_vote_granted = True\<rparr> a1 = (Inr (Some True), a1)"
    using a1(2) by (simp add: election_response_def empty_node_def)
  have q: "quorum_size a1 = 2" using a1(2) oa by (simp add: quorum_size_def empty_node_def)
  then have q2: "quorum_size a1 > 1" "2 \<ge> quorum_size a1" by simp_all
  from election_finish_reliable [OF a1(2) ok(1) q2] obtain a3 where
    a3: "election_finish list_machine 1 2 a1 = (Inr True, a3)" "rn_role a3 = Leader" "rn_current_term a3 = 1" by blast
  define c1 where "c1 = set_process ?a a0 initial_cluster"
  define c2 where "c2 = set_process ?b b0 c1"
  define c3 where "c3 = (set_process ?a a1 c2)\<lparr>cl_votes := insert (?a, 1, ?a) (cl_votes c2),
    cl_campaigns := (cl_campaigns c2)(?a \<mapsto> \<lparr>cp_request = ?rq, cp_remaining = no_peers (rn_options a1), cp_votes = 1\<rparr>)\<rparr>"
  define c4 where "c4 = (set_process ?b b1 c3)\<lparr>cl_votes := insert (?b, 1, ?a) (cl_votes c3),
    cl_responses := insert (?b, ?rq, \<lparr>rvr_term = 1, rvr_vote_granted = True\<rparr>) (cl_responses c3)\<rparr>"
  define c5 where "c5 = (set_process ?a a1 c4)\<lparr>cl_campaigns := (cl_campaigns c4)(?a \<mapsto> \<lparr>cp_request = ?rq, cp_remaining = [\<lparr>peer_id = ?c, peer_address = ?c\<rparr>], cp_votes = 2\<rparr>)\<rparr>"
  define c6 where "c6 = c5\<lparr>cl_campaigns := (cl_campaigns c5)(?a \<mapsto> \<lparr>cp_request = ?rq, cp_remaining = [], cp_votes = 2\<rparr>)\<rparr>"
  define c7 where "c7 = (set_process ?a a3 c6)\<lparr>cl_campaigns := (cl_campaigns c6)(?a := None)\<rparr>"
  have peers: "no_peers (rn_options a1) = no_peers ?oa" using a1(2) by (simp add: empty_node_def)
  have "?step initial_cluster c1" unfolding c1_def
    by (rule cluster_step.Start [OF mem(1) _ _ a0(1) [folded st [of ?a]]]) (simp_all add: initial_cluster_def)
  moreover have "?step c1 c2" unfolding c2_def
    by (rule cluster_step.Start [OF mem(2) _ _ b0(1) [folded st [of ?b]]]) (simp_all add: c1_def set_process_def initial_cluster_def ne)
  moreover have "?step c2 c3" unfolding c3_def
    using cluster_step.Campaign [where mach = list_machine, OF mem(1) _ _ _ a1(1), of c2] a0(2) ne
    by (simp add: c2_def c1_def set_process_def initial_cluster_def empty_node_def)
  moreover have "?step c3 c4" unfolding c4_def
    using cluster_step.Vote [where mach = list_machine, OF mem(2) _ _ b1, of c3] ne by (simp add: c3_def c2_def set_process_def)
  moreover have "?step c4 c5"
  proof -
    have run: "cl_processes c4 ?a = Running a1" using ne by (simp add: c4_def c3_def set_process_def)
    have cp: "cl_campaigns c4 ?a = Some \<lparr>cp_request = ?rq, cp_remaining = no_peers ?oa, cp_votes = 1\<rparr>"
      using peers by (simp add: c4_def c3_def set_process_def)
    have resp: "(?b, ?rq, \<lparr>rvr_term = 1, rvr_vote_granted = True\<rparr>) \<in> cl_responses c4" by (simp add: c4_def)
    show ?thesis
      using cluster_step.Response [where mach = list_machine, OF mem(1) run cp, of "\<lparr>peer_id = ?b, peer_address = ?b\<rparr>"
          "[\<lparr>peer_id = ?c, peer_address = ?c\<rparr>]" "\<lparr>rvr_term = 1, rvr_vote_granted = True\<rparr>" True a1] resp a2 oa(3)
      by (simp add: c5_def numeral_2_eq_2)
  qed
  moreover have "?step c5 c6" unfolding c6_def
    using cluster_step.NoResponse [where mach = list_machine, OF mem(1), of c5 "\<lparr>cp_request = ?rq, cp_remaining = [\<lparr>peer_id = ?c, peer_address = ?c\<rparr>], cp_votes = 2\<rparr>"]
    by (simp add: c5_def)
  moreover have "?step c6 c7" unfolding c7_def
    using cluster_step.Finish [where mach = list_machine, OF mem(1), of c6 a1 "\<lparr>cp_request = ?rq, cp_remaining = [], cp_votes = 2\<rparr>"] a3(1)
    by (simp add: c6_def c5_def set_process_def)
  ultimately have "cluster_reachable list_machine example_config c7"
    unfolding cluster_reachable_def by (meson converse_rtranclp_into_rtranclp rtranclp.rtrancl_refl)
  moreover have "(1, ?a) \<in> cl_leaders c7" using a3 by (simp add: c7_def set_process_def record_leader_def)
  moreover have "(?a, 1, ?a) \<in> cl_votes c7" "(?b, 1, ?a) \<in> cl_votes c7"
    by (simp_all add: c7_def c6_def c5_def c4_def c3_def set_process_def)
  ultimately show ?thesis by blast
qed





end
