(* ===== verification/Spec2Isabelle.thy ===== *)
theory Spec2Isabelle
  imports StoreTheorems RaftCluster
begin

text \<open>
  NebulaKV is a log-structured key-value store.
\<close>

end
